(* ===== verification/Prelude.thy ===== *)
theory Prelude
  imports Main "HOL-Library.Sublist" "HOL-Library.Word" "HOL-Library.Char_ord"
begin

text \<open>
  Shared vocabulary of the development.

  A Rust \<open>String\<close> or \<open>&str\<close> is a sequence of UTF-8 bytes whose length, slicing and searching
  work on bytes; it is modelled by \<open>string\<close>, a list of 8-bit characters, so that byte offsets,
  \<open>len()\<close> and \<open>find\<close> are the list operations.  A continuation byte is one in the range
  \<open>0x80 .. 0xBF\<close>; an index is a character boundary unless the byte there is a continuation byte.
  The theory also holds the decimal printer of \<open>format!("{n}")\<close>, ASCII case folding, trimming,
  the search functions, and list facts the components share.
\<close>

named_theorems text_simps \<open>unfolding rules for the byte-string operations\<close>
named_theorems step_simps \<open>unfolding rules for the component operations\<close>

subsection \<open>Bytes, boundaries, slices\<close>

type_synonym byte_index = nat

definition is_cont :: "char \<Rightarrow> bool" where
  "is_cont c \<longleftrightarrow> 128 \<le> (of_char c :: nat) \<and> (of_char c :: nat) < 192"

text \<open>\<open>str::is_char_boundary\<close>: 0 and the length are boundaries, beyond the end is not.\<close>

definition is_char_boundary :: "string \<Rightarrow> nat \<Rightarrow> bool" where
  "is_char_boundary s i \<longleftrightarrow>
     i = 0 \<or> i = length s \<or> (i < length s \<and> \<not> is_cont (s ! i))"

text \<open>\<open>s.chars().count()\<close> on a valid UTF-8 string: the bytes that start a character.\<close>

definition char_count :: "string \<Rightarrow> nat" where
  "char_count s = length (filter (\<lambda>c. \<not> is_cont c) s)"

lemma is_char_boundary_0 [simp]: "is_char_boundary s 0"
  by (simp add: is_char_boundary_def)

lemma is_char_boundary_length [simp]: "is_char_boundary s (length s)"
  by (simp add: is_char_boundary_def)

lemma is_char_boundary_le: "is_char_boundary s i \<Longrightarrow> i \<le> length s"
  by (auto simp: is_char_boundary_def)

subsection \<open>Searching\<close>

text \<open>\<open>str::find\<close> with a string needle: the first byte offset of an occurrence.\<close>

fun find_sub :: "string \<Rightarrow> string \<Rightarrow> nat option" where
  "find_sub needle [] = (if needle = [] then Some 0 else None)"
| "find_sub needle (c # cs) =
     (if prefix needle (c # cs) then Some 0 else map_option Suc (find_sub needle cs))"

definition contains :: "string \<Rightarrow> string \<Rightarrow> bool" where
  "contains hay needle \<longleftrightarrow> find_sub needle hay \<noteq> None"

lemma find_sub_None_iff: "find_sub needle hay = None \<longleftrightarrow> \<not> sublist needle hay"
proof (induction needle hay rule: find_sub.induct)
  case (1 needle)
  then show ?case by (simp add: sublist_Nil_right)
next
  case (2 needle c cs)
  then show ?case by (auto simp: sublist_Cons_right)
qed

lemma contains_iff_sublist: "contains hay needle \<longleftrightarrow> sublist needle hay"
  by (simp add: contains_def find_sub_None_iff)

lemma find_sub_le: "find_sub needle hay = Some i \<Longrightarrow> i + length needle \<le> length hay"
proof (induction needle hay arbitrary: i rule: find_sub.induct)
  case (1 needle)
  then show ?case by (auto split: if_splits)
next
  case (2 needle c cs)
  then show ?case
    by (fastforce split: if_splits dest: prefix_length_le)
qed

lemma find_sub_hit:
  "find_sub needle hay = Some i \<Longrightarrow> take (length needle) (drop i hay) = needle"
proof (induction needle hay arbitrary: i rule: find_sub.induct)
  case (1 needle)
  then show ?case by (auto split: if_splits)
next
  case (2 needle c cs)
  then show ?case
    by (auto split: if_splits simp: prefix_def)
qed

text \<open>
  Cutting a string at the first occurrence of a non-empty needle removes every occurrence: an
  occurrence in the kept prefix would have been found earlier.
\<close>

lemma find_sub_take_free:
  "needle \<noteq> [] \<Longrightarrow> find_sub needle hay = Some i \<Longrightarrow> \<not> sublist needle (take i hay)"
proof (induction needle hay arbitrary: i rule: find_sub.induct)
  case (1 needle)
  then show ?case by simp
next
  case (2 needle c cs)
  show ?case
  proof (cases "prefix needle (c # cs)")
    case True
    with "2.prems" show ?thesis by simp
  next
    case False
    with "2.prems" obtain j where j: "find_sub needle cs = Some j" "i = Suc j"
      by auto
    have tail: "\<not> sublist needle (take j cs)"
      using "2.IH"[OF False "2.prems"(1) j(1)] .
    have "\<not> prefix needle (c # take j cs)"
    proof
      assume "prefix needle (c # take j cs)"
      moreover have "prefix (c # take j cs) (c # cs)"
        by (simp add: take_is_prefix)
      ultimately show False using False prefix_order.trans by blast
    qed
    with tail j(2) show ?thesis
      by (simp add: sublist_Cons_right)
  qed
qed

subsection \<open>ASCII case folding\<close>

definition ascii_lower :: "char \<Rightarrow> char" where
  "ascii_lower c =
     (let n = (of_char c :: nat) in if 65 \<le> n \<and> n \<le> 90 then char_of (n + 32) else c)"

text \<open>\<open>[u8]::eq_ignore_ascii_case\<close>.\<close>

definition eq_ignore_ascii_case :: "string \<Rightarrow> string \<Rightarrow> bool" where
  "eq_ignore_ascii_case a b \<longleftrightarrow> map ascii_lower a = map ascii_lower b"

lemma eq_ignore_ascii_case_refl [simp]: "eq_ignore_ascii_case a a"
  by (simp add: eq_ignore_ascii_case_def)

lemma eq_ignore_ascii_case_length: "eq_ignore_ascii_case a b \<Longrightarrow> length a = length b"
  unfolding eq_ignore_ascii_case_def by (rule map_eq_imp_length_eq)

subsection \<open>Trimming\<close>

text \<open>
  \<open>char::is_whitespace\<close> (the Unicode property \<open>White_Space\<close>) as the list of its UTF-8 encodings:
  the ASCII ones, U+0085, U+00A0, U+1680, U+2000 to U+200A, U+2028, U+2029, U+202F, U+205F, U+3000.
\<close>

definition whitespace_seqs :: "string list" where
  "whitespace_seqs =
     map (\<lambda>n. [char_of (n::nat)]) [9, 10, 11, 12, 13, 32]
   @ map (map (\<lambda>n. char_of (n::nat)))
       [[0xC2, 0x85], [0xC2, 0xA0], [0xE1, 0x9A, 0x80],
        [0xE2, 0x80, 0x80], [0xE2, 0x80, 0x81], [0xE2, 0x80, 0x82], [0xE2, 0x80, 0x83],
        [0xE2, 0x80, 0x84], [0xE2, 0x80, 0x85], [0xE2, 0x80, 0x86], [0xE2, 0x80, 0x87],
        [0xE2, 0x80, 0x88], [0xE2, 0x80, 0x89], [0xE2, 0x80, 0x8A], [0xE2, 0x80, 0xA8],
        [0xE2, 0x80, 0xA9], [0xE2, 0x80, 0xAF], [0xE2, 0x81, 0x9F], [0xE3, 0x80, 0x80]]"

text \<open>The same list as character literals, for the kernel to evaluate with.\<close>

lemma whitespace_seqs_code [code]:
  "whitespace_seqs =
     [[CHR 0x09], [CHR 0x0A], [CHR 0x0B], [CHR 0x0C], [CHR 0x0D],
      [CHR 0x20], [CHR 0xC2, CHR 0x85], [CHR 0xC2, CHR 0xA0], [CHR 0xE1, CHR 0x9A, CHR 0x80], [CHR 0xE2, CHR 0x80, CHR 0x80],
      [CHR 0xE2, CHR 0x80, CHR 0x81], [CHR 0xE2, CHR 0x80, CHR 0x82], [CHR 0xE2, CHR 0x80, CHR 0x83], [CHR 0xE2, CHR 0x80, CHR 0x84], [CHR 0xE2, CHR 0x80, CHR 0x85],
      [CHR 0xE2, CHR 0x80, CHR 0x86], [CHR 0xE2, CHR 0x80, CHR 0x87], [CHR 0xE2, CHR 0x80, CHR 0x88], [CHR 0xE2, CHR 0x80, CHR 0x89], [CHR 0xE2, CHR 0x80, CHR 0x8A],
      [CHR 0xE2, CHR 0x80, CHR 0xA8], [CHR 0xE2, CHR 0x80, CHR 0xA9], [CHR 0xE2, CHR 0x80, CHR 0xAF], [CHR 0xE2, CHR 0x81, CHR 0x9F], [CHR 0xE3, CHR 0x80, CHR 0x80]]"
  by (simp add: whitespace_seqs_def) code_simp

text \<open>Strip a leading whitespace character as often as there is one; \<open>ws\<close> is never empty.\<close>

function strip_front :: "string list \<Rightarrow> string \<Rightarrow> string" where
  "strip_front ws s =
     (case find (\<lambda>w. w \<noteq> [] \<and> prefix w s) ws of
        None \<Rightarrow> s
      | Some w \<Rightarrow> strip_front ws (drop (length w) s))"
  by pat_completeness auto
termination
proof (relation "measure (\<lambda>(ws, s). length s)", simp)
  fix ws s w
  assume "find (\<lambda>w. w \<noteq> [] \<and> prefix w s) ws = Some w"
  then have "w \<noteq> []" "prefix w s" by (auto simp: find_Some_iff)
  then have "0 < length w" "length w \<le> length s" by (auto dest: prefix_length_le)
  then have "length s - length w < length s" by linarith
  then show "((ws, drop (length w) s), (ws, s)) \<in> measure (\<lambda>(ws, s). length s)" by simp
qed

declare strip_front.simps [simp del]

definition trim_start :: "string \<Rightarrow> string" where
  "trim_start s = strip_front whitespace_seqs s"

definition trim_end :: "string \<Rightarrow> string" where
  "trim_end s = rev (strip_front (map rev whitespace_seqs) (rev s))"

definition trim :: "string \<Rightarrow> string" where
  "trim s = trim_end (trim_start s)"

lemma strip_front_suffix: "suffix (strip_front ws s) s"
proof (induction ws s rule: strip_front.induct)
  case (1 ws s)
  show ?case
  proof (cases "find (\<lambda>w. w \<noteq> [] \<and> prefix w s) ws")
    case None
    then show ?thesis by (simp add: strip_front.simps[of ws s])
  next
    case (Some w)
    with 1 have "suffix (strip_front ws (drop (length w) s)) (drop (length w) s)" by blast
    then have "suffix (strip_front ws (drop (length w) s)) s"
      using suffix_drop suffix_order.trans by blast
    with Some show ?thesis by (simp add: strip_front.simps[of ws s])
  qed
qed

lemma trim_sublist: "sublist (trim s) s"
proof -
  have "suffix (rev (trim_end (trim_start s))) (rev (trim_start s))"
    by (simp add: trim_end_def strip_front_suffix)
  then have "prefix (trim s) (trim_start s)"
    by (simp add: trim_def suffix_to_prefix)
  moreover have "suffix (trim_start s) s"
    by (simp add: trim_start_def strip_front_suffix)
  ultimately show ?thesis
    by (meson prefix_imp_sublist sublist_order.order_trans suffix_imp_sublist)
qed

lemma length_trim_le: "length (trim s) \<le> length s"
  using trim_sublist sublist_length_le by blast

subsection \<open>Decimal printing\<close>

definition digit_char :: "nat \<Rightarrow> char" where
  "digit_char d = char_of (48 + d)"

fun show_nat :: "nat \<Rightarrow> string" where
  "show_nat n = (if n < 10 then [digit_char n] else show_nat (n div 10) @ [digit_char (n mod 10)])"

declare show_nat.simps [simp del]

lemma show_nat_nonempty [simp]: "show_nat n \<noteq> []"
  by (subst show_nat.simps) simp

text \<open>A number below \<open>10 ^ k\<close> prints in at most \<open>k\<close> characters.\<close>

lemma length_show_nat: "n < 10 ^ k \<Longrightarrow> 0 < k \<Longrightarrow> length (show_nat n) \<le> k"
proof (induction k arbitrary: n)
  case 0
  then show ?case by simp
next
  case (Suc k)
  show ?case
  proof (cases "n < 10")
    case True
    then show ?thesis by (simp add: show_nat.simps)
  next
    case False
    then have "0 < k" using Suc.prems(1) by (cases k) auto
    moreover have "n div 10 < 10 ^ k"
      using Suc.prems(1) by (simp add: less_mult_imp_div_less mult.commute)
    ultimately have "length (show_nat (n div 10)) \<le> k" by (rule Suc.IH[rotated])
    with False show ?thesis by (subst show_nat.simps) simp
  qed
qed

subsection \<open>Characters outside ASCII\<close>

definition newline :: char where
  "newline = char_of (10::nat)"

definition em_dash :: string where
  "em_dash = map (\<lambda>n. char_of (n::nat)) [0xE2, 0x80, 0x94]"

definition ellipsis :: string where
  "ellipsis = map (\<lambda>n. char_of (n::nat)) [0xE2, 0x80, 0xA6]"

subsection \<open>Lists\<close>

text \<open>\<open>iter().map(f).sum()\<close> over \<open>usize\<close>; the sums below are of lengths of in-memory data.\<close>

abbreviation sum_map :: "('a \<Rightarrow> nat) \<Rightarrow> 'a list \<Rightarrow> nat" where
  "sum_map f xs \<equiv> sum_list (map f xs)"

lemma sum_map_drop_le: "sum_map f (drop n xs) \<le> sum_map f xs"
proof -
  have "sum_map f xs = sum_map f (take n xs) + sum_map f (drop n xs)"
    by (metis append_take_drop_id map_append sum_list_append)
  then show ?thesis by simp
qed

lemma sum_map_suffix_le: "suffix ys xs \<Longrightarrow> sum_map f ys \<le> sum_map f xs"
  by (auto simp: suffix_def)

lemma suffix_map: "suffix ys xs \<Longrightarrow> suffix (map f ys) (map f xs)"
  by (auto simp: suffix_def)

lemma dropWhile_suffix [simp]: "suffix (dropWhile P xs) xs"
  by (metis suffixI takeWhile_dropWhile_id)

definition or_else :: "'a option \<Rightarrow> 'a \<Rightarrow> 'a" where
  "or_else x d = (case x of Some v \<Rightarrow> v | None \<Rightarrow> d)"

lemma newline_char: "newline = CHR 0x0A"
  by code_simp

subsection \<open>One-shot registries\<close>

text \<open>
  A registry hands out what was put under a key once: the pending calls and callbacks of a plugin and the
  questions that wait for a text reply are registries.
\<close>

locale one_shot_registry =
  fixes put :: "'k \<Rightarrow> 'v \<Rightarrow> 's \<Rightarrow> 's" and get :: "'k \<Rightarrow> 's \<Rightarrow> 'v option \<times> 's" and held :: "'s \<Rightarrow> 'k \<Rightarrow> 'v option"
  assumes held_put: "held (put k v s) = (held s)(k \<mapsto> v)"
    and get_held: "fst (get k s) = held s k"
    and held_get: "held (snd (get k s)) = (held s)(k := None)"
begin

lemma held_gets: "held (fold (\<lambda>j s. snd (get j s)) ks s) k = (if k \<in> set ks then None else held s k)"
  by (induction ks arbitrary: s) (auto simp: held_get)

text \<open>Whatever other keys are asked for, the entry is there; once it was asked for, it is gone.\<close>

lemma get_after_put: "k \<notin> set ks \<Longrightarrow> fst (get k (fold (\<lambda>j s. snd (get j s)) ks (put k v s))) = Some v"
  by (simp add: get_held held_gets held_put)

lemma get_after_get: "k \<in> set ks \<Longrightarrow> fst (get k (fold (\<lambda>j s. snd (get j s)) ks s)) = None"
  by (simp add: get_held held_gets)

lemma get_twice: "fst (get k (snd (get k s))) = None"
  using get_after_get [of k "[k]"] by simp

end

end
