(* ===== verification/Texts.thy ===== *)
theory Texts
  imports Prelude
begin

text \<open>
  Text functions of the Rust standard library that several components use: lossy and strict UTF-8 decoding,
  \<open>str::lines\<close>, the first characters of a text, trimming of texts without blanks around, file name extensions, and \<open>str::matches\<close>, \<open>replace\<close> and
  \<open>replacen\<close> with a string pattern.
\<close>

subsection \<open>Lossy decoding\<close>

text \<open>
  \<open>String::from_utf8_lossy\<close>: \<open>utf8_head\<close> reads the first character, or the longest piece that could begin
  one, and says which; an ill-formed piece becomes U+FFFD.
\<close>

definition in_range :: "nat \<Rightarrow> nat \<Rightarrow> char \<Rightarrow> bool" where
  "in_range lo hi c \<longleftrightarrow> lo \<le> (of_char c :: nat) \<and> (of_char c :: nat) \<le> hi"

text \<open>The ranges of the continuation bytes a leading byte asks for; \<open>None\<close> for a byte that cannot lead.\<close>

definition follow_ranges :: "char \<Rightarrow> (nat \<times> nat) list option" where
  "follow_ranges c =
     (if in_range 0 0x7F c then Some []
      else if in_range 0xC2 0xDF c then Some [(0x80, 0xBF)]
      else if in_range 0xE0 0xE0 c then Some [(0xA0, 0xBF), (0x80, 0xBF)]
      else if in_range 0xED 0xED c then Some [(0x80, 0x9F), (0x80, 0xBF)]
      else if in_range 0xE1 0xEF c then Some [(0x80, 0xBF), (0x80, 0xBF)]
      else if in_range 0xF0 0xF0 c then Some [(0x90, 0xBF), (0x80, 0xBF), (0x80, 0xBF)]
      else if in_range 0xF1 0xF3 c then Some [(0x80, 0xBF), (0x80, 0xBF), (0x80, 0xBF)]
      else if in_range 0xF4 0xF4 c then Some [(0x80, 0x8F), (0x80, 0xBF), (0x80, 0xBF)]
      else None)"

fun follow :: "(nat \<times> nat) list \<Rightarrow> string \<Rightarrow> nat" where
  "follow [] s = 0"
| "follow ((lo, hi) # rs) [] = 0"
| "follow ((lo, hi) # rs) (c # cs) = (if in_range lo hi c then Suc (follow rs cs) else 0)"

definition utf8_head :: "char \<Rightarrow> string \<Rightarrow> bool \<times> nat" where
  "utf8_head c cs =
     (case follow_ranges c of
        None \<Rightarrow> (False, 1)
      | Some rs \<Rightarrow> (follow rs cs = length rs, Suc (follow rs cs)))"

definition replacement_char :: string where
  "replacement_char = map (\<lambda>n. char_of (n::nat)) [0xEF, 0xBF, 0xBD]"

function from_utf8_lossy :: "string \<Rightarrow> string" where
  "from_utf8_lossy [] = []"
| "from_utf8_lossy (c # cs) =
     (case utf8_head c cs of
        (ok, n) \<Rightarrow> (if ok then take n (c # cs) else replacement_char) @ from_utf8_lossy (drop n (c # cs)))"
  by pat_completeness auto
termination
  by (relation "measure length") (auto simp: utf8_head_def split: option.splits)

function valid_utf8 :: "string \<Rightarrow> bool" where
  "valid_utf8 [] = True"
| "valid_utf8 (c # cs) = (case utf8_head c cs of (ok, n) \<Rightarrow> ok \<and> valid_utf8 (drop n (c # cs)))"
  by pat_completeness auto
termination
  by (relation "measure length") (auto simp: utf8_head_def split: option.splits)

declare from_utf8_lossy.simps(2) [simp del] valid_utf8.simps(2) [simp del]

lemma lossy_valid_id: "valid_utf8 s \<Longrightarrow> from_utf8_lossy s = s"
proof (induction s rule: from_utf8_lossy.induct)
  case (2 c cs)
  obtain ok n where h: "utf8_head c cs = (ok, n)" by fastforce
  with "2.prems" have "ok" "valid_utf8 (drop n (c # cs))" by (simp_all add: valid_utf8.simps)
  with "2.IH" [OF h [symmetric]] h show ?case
    by (simp add: from_utf8_lossy.simps)
qed simp

subsection \<open>Lines, characters, extensions\<close>

text \<open>\<open>str::lines\<close>: a last empty line and a carriage return before the line feed are dropped.\<close>

fun split_lines :: "string \<Rightarrow> string \<Rightarrow> string list" where
  "split_lines cur [] = (if cur = [] then [] else [cur])"
| "split_lines cur (c # cs) =
     (if c = newline
      then (if cur \<noteq> [] \<and> last cur = CHR 0x0D then butlast cur else cur) # split_lines [] cs
      else split_lines (cur @ [c]) cs)"

definition text_lines :: "string \<Rightarrow> string list" where
  "text_lines s = split_lines [] s"

text \<open>\<open>Path::extension\<close> of a file name: what follows the last dot, unless that dot starts the name.\<close>

definition extension :: "string \<Rightarrow> string" where
  "extension name =
     (let base = rev (takeWhile (\<lambda>c. c \<noteq> CHR ''/'') (rev name));
          ext = rev (takeWhile (\<lambda>c. c \<noteq> CHR ''.'') (rev base))
      in if base = ''..'' \<or> length base \<le> length ext + 1 then [] else ext)"

text \<open>The first \<open>n\<close> characters of a text: the bytes before the one that starts the next character.\<close>

fun take_chars :: "nat \<Rightarrow> string \<Rightarrow> string" where
  "take_chars n [] = []"
| "take_chars n (c # cs) =
     (if is_cont c then c # take_chars n cs else case n of 0 \<Rightarrow> [] | Suc m \<Rightarrow> c # take_chars m cs)"

subsection \<open>Matches and replacement\<close>

text \<open>Matches are found from left to right and do not overlap.  The pattern is never empty where these are used.\<close>

lemma find_sub_rest: "pat \<noteq> [] \<Longrightarrow> find_sub pat s = Some i \<Longrightarrow> length s - (i + length pat) < length s"
  using find_sub_le [of pat s i] by (cases pat) auto

function count_matches :: "string \<Rightarrow> string \<Rightarrow> nat" where
  "count_matches pat s =
     (if pat = [] then 0
      else case find_sub pat s of
             None \<Rightarrow> 0
           | Some i \<Rightarrow> Suc (count_matches pat (drop (i + length pat) s)))"
  by pat_completeness auto
termination
  by (relation "measure (\<lambda>(_, s). length s)") (auto simp: find_sub_rest)

function replace_matches :: "string \<Rightarrow> string \<Rightarrow> string \<Rightarrow> string" where
  "replace_matches pat new s =
     (if pat = [] then s
      else case find_sub pat s of
             None \<Rightarrow> s
           | Some i \<Rightarrow> take i s @ new @ replace_matches pat new (drop (i + length pat) s))"
  by pat_completeness auto
termination
  by (relation "measure (\<lambda>(_, _, s). length s)") (auto simp: find_sub_rest)

definition replace_first :: "string \<Rightarrow> string \<Rightarrow> string \<Rightarrow> string" where
  "replace_first pat new s =
     (case find_sub pat s of None \<Rightarrow> s | Some i \<Rightarrow> take i s @ new @ drop (i + length pat) s)"

declare count_matches.simps [simp del] replace_matches.simps [simp del]

lemma find_sub_split:
  "find_sub pat s = Some i \<Longrightarrow> s = take i s @ pat @ drop (i + length pat) s"
  using find_sub_hit [of pat s i] find_sub_le [of pat s i]
  by (metis add.commute append_take_drop_id drop_drop)

lemma count_matches_0_iff: "pat \<noteq> [] \<Longrightarrow> count_matches pat s = 0 \<longleftrightarrow> \<not> sublist pat s"
  by (subst count_matches.simps) (auto simp: find_sub_None_iff [symmetric] split: option.splits)

text \<open>What replacing does, by the pieces between the matches.\<close>

fun glue :: "string \<Rightarrow> string list \<Rightarrow> string" where
  "glue sep [] = []"
| "glue sep [p] = p"
| "glue sep (p # q # ps) = p @ sep @ glue sep (q # ps)"

lemma glue_Cons: "ps \<noteq> [] \<Longrightarrow> glue sep (p # ps) = p @ sep @ glue sep ps"
  by (cases ps) auto

lemma replace_matches_pieces:
  assumes "pat \<noteq> []"
  shows "\<exists>ps. length ps = Suc (count_matches pat s) \<and> s = glue pat ps \<and> replace_matches pat new s = glue new ps
    \<and> list_all (\<lambda>p. \<not> sublist pat p) ps"
  using assms
proof (induction pat s rule: count_matches.induct)
  case (1 pat s)
  show ?case
  proof (cases "find_sub pat s")
    case None
    then have "\<not> sublist pat s" by (simp add: find_sub_None_iff)
    with None "1.prems" show ?thesis
      by (intro exI [of _ "[s]"]) (simp add: count_matches.simps replace_matches.simps)
  next
    case (Some i)
    let ?r = "drop (i + length pat) s"
    from "1.IH" [OF "1.prems" Some "1.prems"] obtain ps where ps:
      "length ps = Suc (count_matches pat ?r)" "?r = glue pat ps" "replace_matches pat new ?r = glue new ps"
      "list_all (\<lambda>p. \<not> sublist pat p) ps" by blast
    have ne: "ps \<noteq> []" using ps(1) by auto
    have "count_matches pat s = Suc (count_matches pat ?r)"
      "replace_matches pat new s = take i s @ new @ replace_matches pat new ?r"
      using "1.prems" Some by (simp_all add: count_matches.simps [of pat s] replace_matches.simps [of pat new s])
    then show ?thesis
      using ps ne find_sub_split [OF Some] find_sub_take_free [OF "1.prems" Some]
      by (intro exI [of _ "take i s # ps"]) (auto simp: glue_Cons)
  qed
qed

lemma replace_first_single:
  assumes "pat \<noteq> []" "count_matches pat s = 1"
  shows "replace_first pat new s = replace_matches pat new s"
proof -
  obtain i where i: "find_sub pat s = Some i"
    using assms by (subst (asm) count_matches.simps) (auto split: option.splits)
  have "count_matches pat (drop (i + length pat) s) = 0"
    using assms i by (subst (asm) count_matches.simps) simp
  then have "find_sub pat (drop (i + length pat) s) = None"
    by (simp add: count_matches_0_iff assms(1) find_sub_None_iff)
  then show ?thesis
    using assms(1) i by (simp add: replace_first_def replace_matches.simps [of pat new s]
        replace_matches.simps [of pat new "drop (i + length pat) s"])
qed

subsection \<open>Decimal numbers\<close>

definition is_digit :: "char \<Rightarrow> bool" where
  "is_digit c \<longleftrightarrow> 48 \<le> (of_char c :: nat) \<and> (of_char c :: nat) \<le> 57"

definition digits_value :: "string \<Rightarrow> nat" where
  "digits_value s = foldl (\<lambda>a c. 10 * a + (of_char c - 48)) 0 s"

text \<open>\<open>str::parse::<usize>\<close>: digits after an optional plus sign, in 64 bits.\<close>

definition parse_usize :: "string \<Rightarrow> nat option" where
  "parse_usize s =
     (let d = (case s of c # cs \<Rightarrow> if c = CHR ''+'' then cs else s | [] \<Rightarrow> [])
      in if d \<noteq> [] \<and> list_all is_digit d \<and> digits_value d < 2 ^ 64 then Some (digits_value d) else None)"

definition show_int :: "int \<Rightarrow> string" where
  "show_int n = (if n < 0 then CHR ''-'' # show_nat (nat (- n)) else show_nat (nat n))"

lemma digit_char_nat: "d < 10 \<Longrightarrow> of_char (digit_char d) = 48 + d"
  by (simp add: digit_char_def)

lemma digit_char_digit: "d < 10 \<Longrightarrow> is_digit (digit_char d)"
  by (simp add: is_digit_def digit_char_nat)

lemma show_nat_digits: "list_all is_digit (show_nat n)"
proof (induction n rule: show_nat.induct)
  case (1 n)
  then show ?case by (subst show_nat.simps) (simp add: digit_char_digit)
qed

lemma digits_value_snoc: "digits_value (s @ [c]) = 10 * digits_value s + (of_char c - 48)"
  by (simp add: digits_value_def)

lemma digits_value_show [simp]: "digits_value (show_nat n) = n"
proof (induction n rule: show_nat.induct)
  case (1 n)
  show ?case
  proof (cases "n < 10")
    case True
    then show ?thesis by (subst show_nat.simps) (simp add: digits_value_def digit_char_nat)
  next
    case False
    have "show_nat n = show_nat (n div 10) @ [digit_char (n mod 10)]" using False by (subst show_nat.simps) simp
    then show ?thesis using 1 [OF False] by (simp add: digits_value_snoc digit_char_nat)
  qed
qed

lemma show_nat_head: "\<exists>c cs. show_nat n = c # cs \<and> is_digit c"
  using show_nat_digits [of n] by (cases "show_nat n") auto

lemma digit_not_plus: "is_digit c \<Longrightarrow> c \<noteq> CHR ''+''"
  by (auto simp: is_digit_def)

lemma parse_show [simp]: "n < 2 ^ 64 \<Longrightarrow> parse_usize (show_nat n) = Some n"
proof -
  assume n: "n < 2 ^ 64"
  obtain c cs where s: "show_nat n = c # cs" "is_digit c" using show_nat_head by blast
  then have "(case show_nat n of c # cs \<Rightarrow> if c = CHR ''+'' then cs else show_nat n | [] \<Rightarrow> []) = show_nat n"
    using digit_not_plus by auto
  with n show ?thesis by (simp add: parse_usize_def show_nat_digits)
qed

subsection \<open>Texts without blanks around them\<close>

lemma whitespace_visible: "w \<in> set whitespace_seqs \<Longrightarrow> w \<noteq> [] \<and> \<not> in_range 0x21 0x7E (hd w) \<and> \<not> in_range 0x21 0x7E (last w)"
proof -
  have "list_all (\<lambda>w. w \<noteq> [] \<and> \<not> in_range 0x21 0x7E (hd w) \<and> \<not> in_range 0x21 0x7E (last w)) whitespace_seqs" by code_simp
  then show "w \<in> set whitespace_seqs \<Longrightarrow> ?thesis" by (auto simp: list_all_iff)
qed

lemma strip_front_id: "(\<And>w. w \<in> set ws \<Longrightarrow> w \<noteq> [] \<Longrightarrow> \<not> prefix w s) \<Longrightarrow> strip_front ws s = s"
proof -
  assume "\<And>w. w \<in> set ws \<Longrightarrow> w \<noteq> [] \<Longrightarrow> \<not> prefix w s"
  then have "find (\<lambda>w. w \<noteq> [] \<and> prefix w s) ws = None" by (auto simp: find_None_iff)
  then show ?thesis by (subst strip_front.simps) simp
qed

lemma trim_start_visible: "s \<noteq> [] \<Longrightarrow> in_range 0x21 0x7E (hd s) \<Longrightarrow> trim_start s = s"
proof -
  assume s: "s \<noteq> []" "in_range 0x21 0x7E (hd s)"
  have "\<not> prefix w s" if "w \<in> set whitespace_seqs" for w
    using whitespace_visible [OF that] s by (cases w; cases s) auto
  then show ?thesis by (simp add: trim_start_def strip_front_id)
qed

lemma trim_end_visible: "s \<noteq> [] \<Longrightarrow> in_range 0x21 0x7E (last s) \<Longrightarrow> trim_end s = s"
proof -
  assume s: "s \<noteq> []" "in_range 0x21 0x7E (last s)"
  have "\<not> prefix w (rev s)" if w: "w \<in> set (map rev whitespace_seqs)" for w
  proof -
    obtain v where v: "w = rev v" "v \<in> set whitespace_seqs" using w by auto
    then have "\<not> in_range 0x21 0x7E (last v)" "v \<noteq> []" using whitespace_visible by auto
    with v(1) s show ?thesis by (cases v rule: rev_cases; cases s rule: rev_cases) auto
  qed
  then have "strip_front (map rev whitespace_seqs) (rev s) = rev s" by (rule strip_front_id)
  then show ?thesis by (simp add: trim_end_def)
qed

lemma trim_visible: "s \<noteq> [] \<Longrightarrow> in_range 0x21 0x7E (hd s) \<Longrightarrow> in_range 0x21 0x7E (last s) \<Longrightarrow> trim s = s"
  by (simp add: trim_def trim_start_visible trim_end_visible)

text \<open>The whitespace character a text starts with, and \<open>split_whitespace\<close>; the first argument of \<open>ws_pieces\<close> is the
  piece read so far.\<close>

definition ws_at :: "string \<Rightarrow> string option" where
  "ws_at s = find (\<lambda>w. w \<noteq> [] \<and> prefix w s) whitespace_seqs"

lemma ws_at_blank: "ws_at (CHR '' '' # l) = Some '' ''"
proof -
  have n: "5 < length whitespace_seqs" "whitespace_seqs ! 5 = '' ''" by (simp_all add: whitespace_seqs_def) code_simp
  then have ws: "whitespace_seqs = take 5 whitespace_seqs @ '' '' # drop 6 whitespace_seqs"
    using id_take_nth_drop [OF n(1)] by simp
  have before: "list_all (\<lambda>w. w \<noteq> [] \<and> hd w \<noteq> CHR '' '') (take 5 whitespace_seqs)" by code_simp
  have find_app: "list_all (\<lambda>x. \<not> P x) xs \<Longrightarrow> P y \<Longrightarrow> find P (xs @ y # ys) = Some y" for P :: "string \<Rightarrow> bool" and xs y ys
    by (induction xs) auto
  have "list_all (\<lambda>w. \<not> (w \<noteq> [] \<and> prefix w (CHR '' '' # l))) (take 5 whitespace_seqs)"
    using before by (rule list.pred_mono_strong) (auto simp: prefix_Cons)
  then show ?thesis unfolding ws_at_def
    by (subst ws) (rule find_app, simp_all)
qed

lemma trim_start_blank: "trim_start (CHR '' '' # l) = trim_start l"
  using ws_at_blank [of l] unfolding trim_start_def ws_at_def by (subst strip_front.simps) simp

lemma trim_blank: "trim (CHR '' '' # l) = trim l"
  by (simp add: trim_def trim_start_blank)

subsection \<open>Words\<close>

function ws_pieces :: "string \<Rightarrow> string \<Rightarrow> string list" where
  "ws_pieces cur [] = [cur]"
| "ws_pieces cur (c # cs) =
     (case ws_at (c # cs) of
        Some w \<Rightarrow> cur # ws_pieces [] (drop (length w) (c # cs))
      | None \<Rightarrow> ws_pieces (cur @ [c]) cs)"
  by pat_completeness auto
termination
proof (relation "measure (\<lambda>(_, s). length s)", simp_all)
  fix c :: char and cs w
  assume "ws_at (c # cs) = Some w"
  then have "w \<noteq> []" by (auto simp: ws_at_def find_Some_iff)
  then show "Suc (length cs) - length w < Suc (length cs)" by (cases w) auto
qed

text \<open>\<open>str::split_whitespace\<close>: the pieces that are not empty.\<close>

definition split_whitespace :: "string \<Rightarrow> string list" where
  "split_whitespace s = filter (\<lambda>w. w \<noteq> []) (ws_pieces [] s)"

text \<open>Words of visible ASCII characters are what they look like.\<close>

definition visible :: "char \<Rightarrow> bool" where
  "visible c \<longleftrightarrow> in_range 0x21 0x7E c"

lemma ws_at_visible: "visible c \<Longrightarrow> ws_at (c # cs) = None"
  unfolding ws_at_def find_None_iff by (auto simp: visible_def prefix_Cons dest!: whitespace_visible)

lemma ws_pieces_visible:
  "list_all visible w \<Longrightarrow> ws_pieces cur (w @ s) = ws_pieces (cur @ w) s"
proof (induction w arbitrary: cur)
  case (Cons c w)
  then show ?case using ws_at_visible [of c "w @ s"] by simp
qed simp

lemma split_whitespace_visible: "list_all visible w \<Longrightarrow> w \<noteq> [] \<Longrightarrow> split_whitespace w = [w]"
  using ws_pieces_visible [of w "[]" "[]"] by (simp add: split_whitespace_def)

lemma split_whitespace_word:
  "list_all visible w \<Longrightarrow> w \<noteq> [] \<Longrightarrow> split_whitespace (w @ CHR '' '' # s) = w # split_whitespace s"
  using ws_pieces_visible [of w "[]" "CHR '' '' # s"] by (simp add: split_whitespace_def ws_at_blank)

subsection \<open>Lines that end\<close>

lemma split_lines_piece: "newline \<notin> set s \<Longrightarrow> split_lines cur (s @ newline # t)
    = (if cur @ s \<noteq> [] \<and> last (cur @ s) = CHR 0x0D then butlast (cur @ s) else cur @ s) # split_lines [] t"
  by (induction s arbitrary: cur) auto

lemma text_lines_pieces:
  assumes "list_all (\<lambda>s. newline \<notin> set s \<and> s \<noteq> [] \<and> last s \<noteq> CHR 0x0D) ss"
  shows "text_lines (concat (map (\<lambda>s. s @ [newline]) ss)) = ss"
  using assms by (induction ss) (auto simp: text_lines_def split_lines_piece)

end
