(* ===== verification/Content.thy ===== *)
theory Content
  imports Prelude
begin

text \<open>
  The conversation data of \<open>crates/snaca-core\<close>: content blocks, image sources, roles, messages and
  token usage, and the persisted message row of \<open>crates/snaca-state\<close>.  Identifiers are opaque UUIDs
  in the code; a message id is a \<open>nat\<close>, a tool-use id (a provider-chosen string) a \<open>string\<close>.
  A time stamp is an \<open>int\<close>.  Token counters are \<open>u64\<close> and kept at their width.

  The last section defines the wire shape of a message: everything a provider validates when it
  matches tool calls with tool results, and nothing of the payload.
\<close>

subsection \<open>JSON values\<close>

text \<open>
  The cases of \<open>serde_json::Value\<close> as the source matches on them.  A number is kept as the text
  \<open>n.to_string()\<close> yields; an object is the list of its entries.
\<close>

datatype json =
    JNull
  | JBool bool
  | JNumber string
  | JString string
  | JArray "json list"
  | JObject "(string \<times> json) list"

text \<open>\<open>Value::get\<close> with a key, \<open>as_str\<close> and \<open>as_array\<close>.\<close>

fun json_get :: "json \<Rightarrow> string \<Rightarrow> json option" where
  "json_get (JObject kvs) k = map_of kvs k"
| "json_get _ k = None"

fun json_str :: "json option \<Rightarrow> string option" where
  "json_str (Some (JString s)) = Some s"
| "json_str _ = None"

fun json_array :: "json option \<Rightarrow> json list option" where
  "json_array (Some (JArray vs)) = Some vs"
| "json_array _ = None"

subsection \<open>Content blocks\<close>

type_synonym tool_use_id = string
type_synonym message_id = nat
type_synonym timestamp = int

datatype image_source =
    Url string
  | Base64 (media_type: string) (data: string)

datatype content_block =
    Text string
  | Thinking string "string option"
  | ToolUse tool_use_id string json
  | ToolResult tool_use_id "content_block list" bool
  | Image image_source

fun is_ToolUse :: "content_block \<Rightarrow> bool" where
  "is_ToolUse (ToolUse _ _ _) = True"
| "is_ToolUse _ = False"

definition tool_result :: "tool_use_id \<Rightarrow> content_block list \<Rightarrow> content_block" where
  "tool_result tid content = ToolResult tid content False"

definition tool_error_block :: "tool_use_id \<Rightarrow> string \<Rightarrow> content_block" where
  "tool_error_block tid message = ToolResult tid [Text message] True"

text \<open>\<open>collect_text\<close>: the loop over the blocks, with the output buffer as its accumulator.\<close>

fun collect_text_loop :: "string \<Rightarrow> content_block list \<Rightarrow> string" where
  "collect_text_loop out [] = out"
| "collect_text_loop out (Text t # bs) =
     collect_text_loop ((if out \<noteq> [] then out @ [char_of (10::nat)] else out) @ t) bs"
| "collect_text_loop out (_ # bs) = collect_text_loop out bs"

definition collect_text :: "content_block list \<Rightarrow> string" where
  "collect_text bs = collect_text_loop [] bs"

subsection \<open>Messages\<close>

datatype role = System | User | Assistant | Tool

record message =
  m_id :: message_id
  m_role :: role
  m_content :: "content_block list"
  m_created_at :: timestamp

record tool_schema =
  sc_name :: string
  sc_description :: string
  sc_input :: json

record message_row =
  r_id :: message_id
  r_thread_id :: string
  r_session_id :: nat
  r_role :: role
  r_content :: "content_block list"
  r_created_at :: timestamp
  r_redacted_at :: "timestamp option"

subsection \<open>Token usage\<close>

record usage =
  input_tokens :: "64 word"
  output_tokens :: "64 word"
  cache_creation_input_tokens :: "64 word option"
  cache_read_input_tokens :: "64 word option"

definition usage_default :: usage where
  "usage_default = \<lparr>input_tokens = 0, output_tokens = 0,
     cache_creation_input_tokens = None, cache_read_input_tokens = None\<rparr>"

text \<open>The two \<open>match\<close> expressions of \<open>Usage::add\<close>.\<close>

fun add_opt :: "64 word option \<Rightarrow> 64 word option \<Rightarrow> 64 word option" where
  "add_opt (Some a) (Some b) = Some (a + b)"
| "add_opt None (Some b) = Some b"
| "add_opt a None = a"

definition usage_add :: "usage \<Rightarrow> usage \<Rightarrow> usage" where
  "usage_add self other =
     \<lparr>input_tokens = input_tokens self + input_tokens other,
      output_tokens = output_tokens self + output_tokens other,
      cache_creation_input_tokens =
        add_opt (cache_creation_input_tokens self) (cache_creation_input_tokens other),
      cache_read_input_tokens =
        add_opt (cache_read_input_tokens self) (cache_read_input_tokens other)\<rparr>"

definition usage_total :: "usage \<Rightarrow> 64 word" where
  "usage_total u = input_tokens u + output_tokens u"

lemma add_opt_None_left [simp]: "add_opt None b = b"
  by (cases b) auto

lemma add_opt_commute: "add_opt a b = add_opt b a"
  by (cases a; cases b) auto

lemma add_opt_assoc: "add_opt (add_opt a b) c = add_opt a (add_opt b c)"
  by (cases a; cases b; cases c) auto

lemma usage_add_default [simp]: "usage_add usage_default u = u"
  by (simp add: usage_add_def usage_default_def)

lemma usage_add_commute: "usage_add a b = usage_add b a"
  by (simp add: usage_add_def add_opt_commute add.commute)

lemma usage_add_assoc: "usage_add (usage_add a b) c = usage_add a (usage_add b c)"
  by (simp add: usage_add_def add_opt_assoc add.assoc)

subsection \<open>Tool ids and wire shape\<close>

text \<open>The ids of the tool calls of a block list, and the ids its tool results answer, in order.\<close>

fun tool_use_ids :: "content_block list \<Rightarrow> tool_use_id list" where
  "tool_use_ids [] = []"
| "tool_use_ids (ToolUse i _ _ # bs) = i # tool_use_ids bs"
| "tool_use_ids (_ # bs) = tool_use_ids bs"

fun tool_result_ids :: "content_block list \<Rightarrow> tool_use_id list" where
  "tool_result_ids [] = []"
| "tool_result_ids (ToolResult i _ _ # bs) = i # tool_result_ids bs"
| "tool_result_ids (_ # bs) = tool_result_ids bs"

lemma tool_use_ids_append [simp]: "tool_use_ids (xs @ ys) = tool_use_ids xs @ tool_use_ids ys"
  by (induction xs rule: tool_use_ids.induct) auto

lemma tool_result_ids_append [simp]:
  "tool_result_ids (xs @ ys) = tool_result_ids xs @ tool_result_ids ys"
  by (induction xs rule: tool_result_ids.induct) auto

text \<open>
  What pairing validation sees of a block: its kind, a call's id and name, a result's id and error
  flag.  Two message lists of equal \<open>wire\<close> differ in payload only.
\<close>

datatype block_shape =
    SText
  | SThinking
  | SToolUse tool_use_id string
  | SToolResult tool_use_id bool
  | SImage

fun shape :: "content_block \<Rightarrow> block_shape" where
  "shape (Text _) = SText"
| "shape (Thinking _ _) = SThinking"
| "shape (ToolUse i n _) = SToolUse i n"
| "shape (ToolResult i _ e) = SToolResult i e"
| "shape (Image _) = SImage"

definition wire :: "message \<Rightarrow> message_id \<times> role \<times> block_shape list \<times> timestamp" where
  "wire m = (m_id m, m_role m, map shape (m_content m), m_created_at m)"

lemma shape_tool_use_ids:
  "map shape xs = map shape ys \<Longrightarrow> tool_use_ids xs = tool_use_ids ys"
proof (induction xs arbitrary: ys)
  case Nil
  then show ?case by simp
next
  case (Cons x xs)
  then obtain y zs where "ys = y # zs" "shape x = shape y" "map shape xs = map shape zs"
    by (cases ys) auto
  with Cons.IH[of zs] show ?case by (cases x; cases y) auto
qed

lemma shape_tool_result_ids:
  "map shape xs = map shape ys \<Longrightarrow> tool_result_ids xs = tool_result_ids ys"
proof (induction xs arbitrary: ys)
  case Nil
  then show ?case by simp
next
  case (Cons x xs)
  then obtain y zs where "ys = y # zs" "shape x = shape y" "map shape xs = map shape zs"
    by (cases ys) auto
  with Cons.IH[of zs] show ?case by (cases x; cases y) auto
qed

end
