(* ===== verification/Config.thy ===== *)
theory Config
  imports Content
begin

text \<open>
  The knobs of \<open>EngineConfig\<close> (\<open>crates/snaca-engine/src/config.rs\<close>) with their defaults, field by
  field.  The unsigned fields are \<open>nat\<close>; where the code saturates, the saturation is written out.
\<close>

record engine_config =
  cfg_model :: string
  system_prompt :: string
  max_iterations :: nat
  cfg_max_tokens :: "nat option"
  conversation_history_limit :: nat
  compact_after_input_tokens :: "nat option"
  compact_keep_recent :: nat
  protect_first_n :: nat
  compact_max_retries :: nat
  malformed_tool_args_max_retries :: nat
  content_filter_max_retries :: nat
  compact_summary_max_tokens :: nat
  compact_blocking :: bool
  loop_guard_max_repeats :: "nat option"
  repeated_tool_failure_feedback_on :: bool
  history_max_bytes :: nat
  turn_timeout_secs :: "nat option"
  concurrent_tool_limit :: nat
  collapse_tool_results_threshold :: nat
  max_tool_result_bytes :: nat
  stream_tool_execution :: bool
  stream_interrupted_max_retries :: nat
  max_output_token_escalation_attempts :: nat
  max_output_token_ceiling :: nat
  memory_write_approval :: bool

definition u32_max :: nat where
  "u32_max = 2 ^ 32 - 1"

definition MAX_POOL_ROWS :: nat where
  "MAX_POOL_ROWS = 2000"

definition pool_limit :: "engine_config \<Rightarrow> nat" where
  "pool_limit cfg = min (min (conversation_history_limit cfg * 4) u32_max) MAX_POOL_ROWS"

definition default_system_prompt :: string where
  "default_system_prompt =
     ''You are SNACA '' @ em_dash @ '' a helpful assistant operating inside an IM channel, ''
     @ ''with a sandboxed project workspace. Tools available: Read / Grep / ''
     @ ''Glob / LS to inspect files, Write / Edit / MultiEdit to modify them ''
     @ ''(path-restricted to the workspace), Bash to run shell commands ''
     @ ''(relaxed by default '' @ em_dash @ '' pipes, redirects, and arbitrary commands all ''
     @ ''work; the operator can opt back into a strict allowlist with ''
     @ ''SNACA_BASH_RELAXED=0), MemoryRead / MemoryWrite for your durable ''
     @ ''project memory, SendFile to deliver workspace files back to the user, ''
     @ ''and Skill to invoke installed skills. Mutating tools may surface an ''
     @ ''approval card to the user '' @ em_dash @ '' that'' @ [CHR 0x27] @ ''s expected, not a refusal. Pick ''
     @ ''whichever tools fit the task; don'' @ [CHR 0x27] @ ''t tell the user you'' @ [CHR 0x27] @ ''re read-only. ''
     @ ''Uploaded files are staged into your workspace and listed in an ''
     @ ''<attachments> block on the user'' @ [CHR 0x27] @ ''s turn. If the user refers to a file ''
     @ ''that is not staged there and not already in your project memory, ask ''
     @ ''them to send it rather than assuming or guessing its contents. ''
     @ ''Be concise and accurate.''"

definition default_for :: "string \<Rightarrow> engine_config" where
  "default_for model =
     \<lparr>cfg_model = model, system_prompt = default_system_prompt,
      max_iterations = 10, cfg_max_tokens = Some 4096, conversation_history_limit = 30,
      compact_after_input_tokens = None, compact_keep_recent = 6, protect_first_n = 4,
      compact_max_retries = 3, malformed_tool_args_max_retries = 2, content_filter_max_retries = 4,
      compact_summary_max_tokens = 2048, compact_blocking = False,
      loop_guard_max_repeats = Some 5, repeated_tool_failure_feedback_on = True,
      history_max_bytes = 1500000, turn_timeout_secs = None, concurrent_tool_limit = 5,
      collapse_tool_results_threshold = 1024, max_tool_result_bytes = 200 * 1024,
      stream_tool_execution = True, stream_interrupted_max_retries = 2,
      max_output_token_escalation_attempts = 2, max_output_token_ceiling = 32768,
      memory_write_approval = False\<rparr>"

lemma pool_limit_le: "pool_limit cfg \<le> 2000"
  by (simp add: pool_limit_def MAX_POOL_ROWS_def)

definition default_config :: engine_config where
  "default_config = default_for ''model''"

end
