(* ===== verification/History.thy ===== *)
theory History
  imports Content
begin

text \<open>
  The history window of \<open>crates/snaca-engine/src/engine.rs\<close>: capping of a single tool result
  (\<open>cap_tool_result_content\<close>), collapsing of old read-only results
  (\<open>collapse_old_tool_results\<close>), the conversation window (\<open>trim_to_conversation_window\<close>), the byte
  cap with its clearing and dropping phases (\<open>enforce_history_byte_cap\<close>), and redaction.

  Compact JSON rendering (\<open>serde_json::to_string\<close>) is the argument \<open>ser\<close> of the size functions.
  Sums and differences of lengths are \<open>nat\<close>: \<open>saturating_sub\<close> is truncated subtraction.  Counters
  that only reach a log line are left out.
\<close>

subsection \<open>Capping one tool result\<close>

definition text_len :: "content_block \<Rightarrow> nat" where
  "text_len b = (case b of Text t \<Rightarrow> length t | _ \<Rightarrow> 0)"

definition tool_result_text_len :: "content_block list \<Rightarrow> nat" where
  "tool_result_text_len content = sum_map text_len content"

text \<open>The loop that walks an offset down to a character boundary.\<close>

fun floor_loop :: "string \<Rightarrow> nat \<Rightarrow> nat" where
  "floor_loop s 0 = 0"
| "floor_loop s (Suc e) = (if is_char_boundary s (Suc e) then Suc e else floor_loop s e)"

definition floor_char_boundary :: "string \<Rightarrow> nat \<Rightarrow> nat" where
  "floor_char_boundary s limit = (if length s \<le> limit then length s else floor_loop s limit)"

text \<open>The loop that walks an offset up to a character boundary.\<close>

function ceil_loop :: "string \<Rightarrow> nat \<Rightarrow> nat" where
  "ceil_loop s i = (if i < length s \<and> \<not> is_char_boundary s i then ceil_loop s (Suc i) else i)"
  by pat_completeness auto
termination by (relation "measure (\<lambda>(s, i). length s - i)") auto

declare ceil_loop.simps [simp del]

text \<open>The head and tail offsets of the preview.\<close>

definition cap_bounds :: "string \<Rightarrow> nat \<Rightarrow> nat \<times> nat" where
  "cap_bounds text max_len =
     (let half = max (max_len div 2) 1;
          head_end = floor_char_boundary text half;
          tail_start = ceil_loop text (length text - half);
          tail_start = max tail_start head_end
      in (head_end, tail_start))"

definition truncation_note :: "nat \<Rightarrow> string" where
  "truncation_note dropped =
     [newline, newline] @ ''[... '' @ show_nat dropped
     @ '' bytes truncated to fit the context window; re-run the tool if the full output is needed ...]''
     @ [newline, newline]"

fun block_texts :: "content_block list \<Rightarrow> string list" where
  "block_texts [] = []"
| "block_texts (Text t # bs) = t # block_texts bs"
| "block_texts (_ # bs) = block_texts bs"

fun block_others :: "content_block list \<Rightarrow> content_block list" where
  "block_others [] = []"
| "block_others (Text t # bs) = block_others bs"
| "block_others (b # bs) = b # block_others bs"

definition cap_tool_result_content :: "content_block list \<Rightarrow> nat \<Rightarrow> content_block list" where
  "cap_tool_result_content content max_len =
     (if max_len = 0 \<or> tool_result_text_len content \<le> max_len then content
      else
        let text = concat (block_texts content);
            (head_end, tail_start) = cap_bounds text max_len;
            dropped = tail_start - head_end;
            preview = take head_end text @ truncation_note dropped @ drop tail_start text
        in Text preview # block_others content)"

fun cap_tool_result_block :: "content_block \<Rightarrow> nat \<Rightarrow> content_block" where
  "cap_tool_result_block (ToolResult tid content err) max_len =
     ToolResult tid (cap_tool_result_content content max_len) err"
| "cap_tool_result_block b max_len = b"

subsection \<open>Collapsing old read-only results\<close>

definition COLLAPSIBLE_TOOL_NAMES :: "string list" where
  "COLLAPSIBLE_TOOL_NAMES =
     [''Read'', ''Grep'', ''Glob'', ''LS'', ''MemoryRead'', ''TaskOutput'']"

definition is_collapsible_tool :: "string \<Rightarrow> bool" where
  "is_collapsible_tool name \<longleftrightarrow> name \<in> set COLLAPSIBLE_TOOL_NAMES"

definition elided_marker :: "string \<Rightarrow> nat \<Rightarrow> string" where
  "elided_marker tool_name tot =
     ''<'' @ tool_name @ '' result: '' @ show_nat tot
     @ '' bytes elided to save context; call again if you need the full body>''"

text \<open>The first pass: the name of every tool call, the last one winning for a repeated id.\<close>

fun record_names :: "(tool_use_id \<rightharpoonup> string) \<Rightarrow> content_block list \<Rightarrow> (tool_use_id \<rightharpoonup> string)" where
  "record_names names [] = names"
| "record_names names (ToolUse i n inp # bs) = record_names (names(i \<mapsto> n)) bs"
| "record_names names (_ # bs) = record_names names bs"

fun name_by_id :: "(tool_use_id \<rightharpoonup> string) \<Rightarrow> message list \<Rightarrow> (tool_use_id \<rightharpoonup> string)" where
  "name_by_id names [] = names"
| "name_by_id names (m # ms) = name_by_id (record_names names (m_content m)) ms"

fun collapse_block_if_old_read ::
  "content_block \<Rightarrow> (tool_use_id \<rightharpoonup> string) \<Rightarrow> nat \<Rightarrow> content_block" where
  "collapse_block_if_old_read (ToolResult tid content err) names threshold =
     (if err then ToolResult tid content err
      else
        let tool_name = (case names tid of Some n \<Rightarrow> n | None \<Rightarrow> [])
        in if \<not> is_collapsible_tool tool_name then ToolResult tid content err
           else
             let tot = tool_result_text_len content
             in if tot < threshold then ToolResult tid content err
                else ToolResult tid [Text (elided_marker tool_name tot)] err)"
| "collapse_block_if_old_read b names threshold = b"

definition collapse_message :: "(tool_use_id \<rightharpoonup> string) \<Rightarrow> nat \<Rightarrow> message \<Rightarrow> message" where
  "collapse_message names threshold m =
     m\<lparr>m_content := map (\<lambda>b. collapse_block_if_old_read b names threshold) (m_content m)\<rparr>"

definition collapse_old_tool_results :: "message list \<Rightarrow> nat \<Rightarrow> nat \<Rightarrow> message list" where
  "collapse_old_tool_results messages keep_recent threshold =
     (if threshold = 0 \<or> length messages \<le> keep_recent + 1 then messages
      else
        let cutoff = length messages - keep_recent;
            names = name_by_id Map.empty messages
        in map (collapse_message names threshold) (take cutoff messages) @ drop cutoff messages)"

subsection \<open>Message sizes\<close>

definition block_byte_size :: "(json \<Rightarrow> string option) \<Rightarrow> content_block \<Rightarrow> nat" where
  "block_byte_size ser b =
     (case b of
        Text t \<Rightarrow> length t
      | Thinking t sig \<Rightarrow> length t
      | ToolUse i name input \<Rightarrow>
          length name + (case ser input of Some s \<Rightarrow> length s | None \<Rightarrow> 0)
      | ToolResult i content err \<Rightarrow> tool_result_text_len content
      | Image src \<Rightarrow> 1024)"

definition message_byte_size :: "(json \<Rightarrow> string option) \<Rightarrow> message \<Rightarrow> nat" where
  "message_byte_size ser m = sum_map (block_byte_size ser) (m_content m)"

definition messages_byte_size :: "(json \<Rightarrow> string option) \<Rightarrow> message list \<Rightarrow> nat" where
  "messages_byte_size ser msgs = sum_map (message_byte_size ser) msgs"

subsection \<open>The byte cap\<close>

definition BYTE_CAP_CLEARED_MARKER :: string where
  "BYTE_CAP_CLEARED_MARKER = ''[Old tool result content cleared to fit context budget]''"

text \<open>Layer 3: clamp every oversized result of a tool message to a preview.\<close>

fun clamp_block :: "nat \<Rightarrow> content_block \<Rightarrow> content_block" where
  "clamp_block per_result_max (ToolResult tid content err) =
     (if per_result_max < tool_result_text_len content
      then ToolResult tid (cap_tool_result_content content per_result_max) err
      else ToolResult tid content err)"
| "clamp_block per_result_max b = b"

definition clamp_message :: "nat \<Rightarrow> message \<Rightarrow> message" where
  "clamp_message per_result_max m =
     (if m_role m \<noteq> Tool then m
      else m\<lparr>m_content := map (clamp_block per_result_max) (m_content m)\<rparr>)"

definition clamp_results :: "nat \<Rightarrow> message list \<Rightarrow> message list" where
  "clamp_results per_result_max messages =
     (if per_result_max > 0 then map (clamp_message per_result_max) messages else messages)"

text \<open>Phase A on one message: the cleared blocks and the number of bytes freed.\<close>

fun clear_blocks :: "content_block list \<Rightarrow> content_block list \<times> nat" where
  "clear_blocks [] = ([], 0)"
| "clear_blocks (ToolResult tid content err # bs) =
     (let (bs', freed) = clear_blocks bs;
          body = tool_result_text_len content
      in if err \<or> body \<le> length BYTE_CAP_CLEARED_MARKER
         then (ToolResult tid content err # bs', freed)
         else (ToolResult tid [Text BYTE_CAP_CLEARED_MARKER] err # bs',
               freed + (body - length BYTE_CAP_CLEARED_MARKER)))"
| "clear_blocks (b # bs) = (let (bs', freed) = clear_blocks bs in (b # bs', freed))"

text \<open>Phase A over the unprotected messages, with the running total.\<close>

fun clear_loop :: "nat \<Rightarrow> nat \<Rightarrow> message list \<Rightarrow> message list \<times> nat" where
  "clear_loop max_bytes tot [] = ([], tot)"
| "clear_loop max_bytes tot (m # ms) =
     (if tot \<le> max_bytes then (m # ms, tot)
      else if m_role m \<noteq> Tool then
        (let (ms', tot') = clear_loop max_bytes tot ms in (m # ms', tot'))
      else
        (let (bs, freed) = clear_blocks (m_content m);
             (ms', tot') = clear_loop max_bytes (tot - freed) ms
         in (m\<lparr>m_content := bs\<rparr> # ms', tot')))"

definition clear_old_results :: "nat \<Rightarrow> nat \<Rightarrow> nat \<Rightarrow> message list \<Rightarrow> message list \<times> nat" where
  "clear_old_results max_bytes keep_recent tot messages =
     (if max_bytes < tot
      then
        (let protect_from = length messages - max keep_recent 1;
             (cleared, tot') = clear_loop max_bytes tot (take protect_from messages)
         in (cleared @ drop protect_from messages, tot'))
      else (messages, tot))"

text \<open>Phase B: drop whole leading messages while over the cap and more than one is left.\<close>

fun drop_loop :: "(json \<Rightarrow> string option) \<Rightarrow> nat \<Rightarrow> nat \<Rightarrow> message list \<Rightarrow> message list" where
  "drop_loop ser max_bytes tot (m # n # ms) =
     (if max_bytes < tot
      then drop_loop ser max_bytes (tot - message_byte_size ser m) (n # ms)
      else m # n # ms)"
| "drop_loop ser max_bytes tot ms = ms"

definition enforce_history_byte_cap ::
  "(json \<Rightarrow> string option) \<Rightarrow> message list \<Rightarrow> nat \<Rightarrow> nat \<Rightarrow> nat \<Rightarrow> message list" where
  "enforce_history_byte_cap ser messages max_bytes keep_recent per_result_max =
     (if max_bytes = 0 \<or> messages = [] then messages
      else
        let clamped = clamp_results per_result_max messages;
            tot = messages_byte_size ser clamped;
            (cleared, tot') = clear_old_results max_bytes keep_recent tot clamped;
            kept = drop_loop ser max_bytes tot' cleared
        in dropWhile (\<lambda>m. m_role m = Tool) kept)"

subsection \<open>The conversation window\<close>

definition conversational :: "message \<Rightarrow> bool" where
  "conversational m \<longleftrightarrow> m_role m = User \<or> m_role m = Assistant"

definition conv_count :: "message list \<Rightarrow> nat" where
  "conv_count ms = length (filter conversational ms)"

fun cut_loop :: "nat \<Rightarrow> nat \<Rightarrow> nat \<Rightarrow> nat \<Rightarrow> message list \<Rightarrow> nat" where
  "cut_loop to_drop dropped cutp i [] = cutp"
| "cut_loop to_drop dropped cutp i (m # ms) =
     (if dropped = to_drop then i
      else cut_loop to_drop (if conversational m then dropped + 1 else dropped) (i + 1) (i + 1) ms)"

definition trim_to_conversation_window :: "message list \<Rightarrow> nat \<Rightarrow> message list" where
  "trim_to_conversation_window messages conversation_limit =
     (if conversation_limit = 0 then messages
      else
        let conv_total = conv_count messages
        in if conv_total \<le> conversation_limit then messages
           else drop (cut_loop (conv_total - conversation_limit) 0 0 0 messages) messages)"

subsection \<open>Redaction\<close>

definition REDACTED_PLACEHOLDER :: string where
  "REDACTED_PLACEHOLDER =
     ''[SNACA: content omitted '' @ em_dash @ '' flagged by provider content policy]''"

fun redact_block :: "content_block \<Rightarrow> content_block" where
  "redact_block (Text _) = Text REDACTED_PLACEHOLDER"
| "redact_block (Thinking _ _) = Text REDACTED_PLACEHOLDER"
| "redact_block (Image _) = Text REDACTED_PLACEHOLDER"
| "redact_block (ToolUse i name _) =
     ToolUse i name (JObject [(''_snaca_redacted'', JBool True)])"
| "redact_block (ToolResult tid _ err) = ToolResult tid [Text REDACTED_PLACEHOLDER] err"

definition redact_message_content :: "content_block list \<Rightarrow> content_block list" where
  "redact_message_content content = map redact_block content"

definition message_from_persisted :: "message_row \<Rightarrow> message" where
  "message_from_persisted row =
     \<lparr>m_id = r_id row, m_role = r_role row,
      m_content = (if r_redacted_at row \<noteq> None then redact_message_content (r_content row)
                   else r_content row),
      m_created_at = r_created_at row\<rparr>"

subsection \<open>Facts about capping\<close>

lemma floor_loop_boundary: "is_char_boundary s (floor_loop s e)"
  by (induction e) auto

lemma floor_loop_le: "floor_loop s e \<le> e"
  by (induction e) auto

lemma floor_char_boundary_boundary: "is_char_boundary s (floor_char_boundary s limit)"
  by (simp add: floor_char_boundary_def floor_loop_boundary)

lemma floor_char_boundary_le: "floor_char_boundary s limit \<le> limit"
  using floor_loop_le[of s limit] by (auto simp: floor_char_boundary_def)

lemma floor_char_boundary_le_length: "floor_char_boundary s limit \<le> length s"
  using floor_char_boundary_boundary by (rule is_char_boundary_le)

lemma ceil_loop_ge: "i \<le> ceil_loop s i"
proof (induction s i rule: ceil_loop.induct)
  case (1 s i)
  then show ?case by (cases "i < length s \<and> \<not> is_char_boundary s i") (auto simp: ceil_loop.simps[of s i])
qed

lemma ceil_loop_boundary: "i \<le> length s \<Longrightarrow> is_char_boundary s (ceil_loop s i)"
proof (induction s i rule: ceil_loop.induct)
  case (1 s i)
  show ?case
  proof (cases "i < length s \<and> \<not> is_char_boundary s i")
    case True
    with "1.IH" show ?thesis by (simp add: ceil_loop.simps[of s i])
  next
    case False
    with "1.prems" show ?thesis
      by (cases "i = length s") (auto simp: ceil_loop.simps[of s])
  qed
qed

lemma cap_bounds_safe:
  assumes "cap_bounds text max_len = (h, t)"
  shows "is_char_boundary text h" "is_char_boundary text t" "h \<le> t" "t \<le> length text"
proof -
  define half where "half = max (max_len div 2) 1"
  define c where "c = ceil_loop text (length text - half)"
  have h: "h = floor_char_boundary text half" and t: "t = max c h"
    using assms by (auto simp: cap_bounds_def Let_def half_def c_def)
  have bh: "is_char_boundary text h"
    unfolding h by (rule floor_char_boundary_boundary)
  have bc: "is_char_boundary text c"
    unfolding c_def by (rule ceil_loop_boundary) simp
  show "is_char_boundary text h" by (rule bh)
  show bt: "is_char_boundary text t" using bh bc by (simp add: t max_def)
  show "h \<le> t" by (simp add: t)
  show "t \<le> length text" using bt by (rule is_char_boundary_le)
qed

lemma cap_bounds_sizes:
  assumes "cap_bounds text max_len = (h, t)"
  shows "h \<le> max (max_len div 2) 1" "length text - t \<le> max (max_len div 2) 1"
proof -
  show "h \<le> max (max_len div 2) 1"
    using assms by (auto simp: cap_bounds_def Let_def intro: floor_char_boundary_le)
  define half where "half = max (max_len div 2) 1"
  have "length text - half \<le> t"
    using assms ceil_loop_ge[of "length text - half" "text"]
    by (auto simp: cap_bounds_def Let_def half_def max.coboundedI1)
  then show "length text - t \<le> max (max_len div 2) 1"
    by (simp add: half_def)
qed

lemma tool_result_text_len_others [simp]: "tool_result_text_len (block_others bs) = 0"
  by (induction bs rule: block_others.induct)
    (simp_all add: tool_result_text_len_def text_len_def)

lemma tool_result_text_len_Text [simp]:
  "tool_result_text_len (Text t # bs) = length t + tool_result_text_len bs"
  by (simp add: tool_result_text_len_def text_len_def)

lemma tool_result_text_len_Nil [simp]: "tool_result_text_len [] = 0"
  by (simp add: tool_result_text_len_def)

lemma length_block_texts: "length (concat (block_texts bs)) = tool_result_text_len bs"
  by (induction bs rule: block_texts.induct)
    (simp_all add: tool_result_text_len_def text_len_def)

lemma tool_result_text_len_cap:
  assumes "max_len \<noteq> 0" "max_len < tool_result_text_len content"
    and "cap_bounds (concat (block_texts content)) max_len = (h, t)"
  shows "tool_result_text_len (cap_tool_result_content content max_len) =
    h + length (truncation_note (t - h)) + (tool_result_text_len content - t)"
proof -
  have "h \<le> length (concat (block_texts content))"
    using cap_bounds_safe[OF assms(3)] by linarith
  with assms show ?thesis
    by (simp add: cap_tool_result_content_def Let_def length_block_texts)
qed

lemma length_show_nat_mono: "a \<le> b \<Longrightarrow> length (show_nat a) \<le> length (show_nat b)"
proof (induction b arbitrary: a rule: less_induct)
  case (less b)
  show ?case
  proof (cases "a < 10")
    case True
    then show ?thesis
      using show_nat_nonempty[of b] by (simp add: show_nat.simps[of a] Suc_leI)
  next
    case False
    then have "length (show_nat (a div 10)) \<le> length (show_nat (b div 10))"
      using less.prems by (intro less.IH) (auto intro: div_le_mono)
    with False less.prems show ?thesis
      by (simp add: show_nat.simps[of a] show_nat.simps[of b])
  qed
qed

lemma length_truncation_note: "length (truncation_note n) = 102 + length (show_nat n)"
  by (simp add: truncation_note_def)

text \<open>The preview is bounded by the cap plus the note: at most one byte of rounding.\<close>

lemma cap_upper_bound:
  assumes "max_len \<noteq> 0"
  shows "tool_result_text_len (cap_tool_result_content content max_len)
    \<le> max_len + 103 + length (show_nat (tool_result_text_len content))"
proof (cases "max_len < tool_result_text_len content")
  case False
  then show ?thesis by (simp add: cap_tool_result_content_def)
next
  case True
  obtain h t where ht: "cap_bounds (concat (block_texts content)) max_len = (h, t)"
    by fastforce
  note safe = cap_bounds_safe[OF ht] and sizes = cap_bounds_sizes[OF ht]
  have "t - h \<le> tool_result_text_len content"
    using safe(4) by (simp add: length_block_texts)
  then have "length (show_nat (t - h)) \<le> length (show_nat (tool_result_text_len content))"
    by (rule length_show_nat_mono)
  moreover have "max (max_len div 2) 1 + max (max_len div 2) 1 \<le> max_len + 1"
    using assms by auto
  ultimately show ?thesis
    using sizes by (simp add: tool_result_text_len_cap[OF assms True ht] length_truncation_note
      length_block_texts)
qed

text \<open>
  Well-formed UTF-8 never has four continuation bytes in a row, so the downward walk loses at most
  three bytes and the upward walk skips at most three.
\<close>

definition utf8_runs :: "string \<Rightarrow> bool" where
  "utf8_runs s \<longleftrightarrow> (\<forall>i. i + 3 < length s \<longrightarrow>
     \<not> (is_cont (s ! i) \<and> is_cont (s ! (i + 1)) \<and> is_cont (s ! (i + 2)) \<and> is_cont (s ! (i + 3))))"

lemma floor_loop_cases:
  "e \<le> length s \<Longrightarrow> floor_loop s e < e \<Longrightarrow> is_cont (s ! e) \<and> e < length s"
  by (cases e) (auto simp: is_char_boundary_def split: if_splits)

lemma floor_loop_step: "floor_loop s e < e \<Longrightarrow> floor_loop s e = floor_loop s (e - 1)"
  by (cases e) (auto split: if_splits)

lemma floor_loop_ge:
  assumes "utf8_runs s" "e \<le> length s"
  shows "e \<le> floor_loop s e + 3"
proof (rule ccontr)
  assume a: "\<not> e \<le> floor_loop s e + 3"
  have 0: "floor_loop s e < e" using a by linarith
  have 1: "floor_loop s (e - 1) < e - 1" using a floor_loop_step[OF 0] by linarith
  have 2: "floor_loop s (e - 2) < e - 2"
    using a floor_loop_step[OF 0] floor_loop_step[OF 1] by (simp add: numeral_2_eq_2)
  have 3: "floor_loop s (e - 3) < e - 3"
    using a floor_loop_step[OF 0] floor_loop_step[OF 1] floor_loop_step[OF 2]
    by (simp add: numeral_3_eq_3 numeral_2_eq_2)
  have "is_cont (s ! (e - 3))" "is_cont (s ! (e - 2))" "is_cont (s ! (e - 1))" "is_cont (s ! e)"
    using floor_loop_cases[OF _ 0] floor_loop_cases[OF _ 1] floor_loop_cases[OF _ 2]
      floor_loop_cases[OF _ 3] assms(2) by auto
  moreover have "e < length s" using floor_loop_cases[OF assms(2) 0] by simp
  moreover have "e - 3 + 1 = e - 2" "e - 3 + 2 = e - 1" "e - 3 + 3 = e" using a by auto
  ultimately show False
    using assms(1) unfolding utf8_runs_def by (metis)
qed

lemma ceil_loop_le:
  assumes "utf8_runs s" "i \<le> length s"
  shows "ceil_loop s i \<le> i + 3"
proof (rule ccontr)
  assume a: "\<not> ceil_loop s i \<le> i + 3"
  have unf: "j < length s \<and> \<not> is_char_boundary s j \<and> ceil_loop s j = ceil_loop s (Suc j)"
    if "j < ceil_loop s j" for j
    using that by (auto simp: ceil_loop.simps[of s j] split: if_splits)
  have 0: "i < ceil_loop s i" using a by linarith
  have 1: "i + 1 < ceil_loop s (i + 1)" using a unf[OF 0] by simp
  have 2: "i + 2 < ceil_loop s (i + 2)" using a unf[OF 0] unf[OF 1] by simp
  have 3: "i + 3 < ceil_loop s (i + 3)"
    using a unf[OF 0] unf[OF 1] unf[OF 2] by (simp add: numeral_3_eq_3)
  have "is_cont (s ! i)" "is_cont (s ! (i + 1))" "is_cont (s ! (i + 2))" "is_cont (s ! (i + 3))"
    using unf[OF 0] unf[OF 1] unf[OF 2] unf[OF 3] by (auto simp: is_char_boundary_def)
  moreover have "i + 3 < length s" using unf[OF 3] by simp
  ultimately show False using assms(1) unfolding utf8_runs_def by blast
qed

text \<open>
  A preview is always longer than the limit it was cut for, so a capped result is over the limit
  again when the history is loaded.
\<close>

lemma cap_over_limit:
  assumes "max_len \<noteq> 0" "max_len < tool_result_text_len content"
    and "utf8_runs (concat (block_texts content))"
  shows "max_len < tool_result_text_len (cap_tool_result_content content max_len)"
proof -
  define s where "s = concat (block_texts content)"
  define half where "half = max (max_len div 2) 1"
  obtain h t where ht: "cap_bounds s max_len = (h, t)"
    by fastforce
  have len: "length s = tool_result_text_len content"
    by (simp add: s_def length_block_texts)
  have half: "half \<le> length s" "max_len \<le> half + half + 1"
    using assms(1,2) by (auto simp: half_def len)
  have h: "h = floor_char_boundary s half" and t: "t = max (ceil_loop s (length s - half)) h"
    using ht by (auto simp: cap_bounds_def Let_def half_def)
  have "half \<le> h + 3"
    using floor_loop_ge[of s half] assms(3) half(1)
    by (auto simp: h floor_char_boundary_def s_def)
  moreover have "ceil_loop s (length s - half) \<le> length s - half + 3"
    using assms(3) by (intro ceil_loop_le) (auto simp: s_def)
  moreover have "h \<le> half" unfolding h by (rule floor_char_boundary_le)
  ultimately have "max_len < h + 102 + (length s - t)"
    using half assms(2) unfolding t len by linarith
  moreover have "tool_result_text_len (cap_tool_result_content content max_len)
      = h + length (truncation_note (t - h)) + (length s - t)"
    using tool_result_text_len_cap[OF assms(1,2), of h t] ht by (simp add: s_def length_block_texts)
  ultimately show ?thesis by (simp add: length_truncation_note)
qed

subsection \<open>Wire shape of the history transformers\<close>

lemma shape_cap_block [simp]: "shape (cap_tool_result_block b n) = shape b"
  by (cases b) auto

lemma shape_clamp_block [simp]: "shape (clamp_block n b) = shape b"
  by (cases b) auto

lemma shape_collapse_block [simp]: "shape (collapse_block_if_old_read b names th) = shape b"
  by (cases b) (auto simp: Let_def)

lemma wire_clamp_message [simp]: "wire (clamp_message n m) = wire m"
  by (simp add: clamp_message_def wire_def comp_def)

lemma wire_clamp_results [simp]: "map wire (clamp_results n ms) = map wire ms"
  by (simp add: clamp_results_def comp_def)

lemma wire_collapse_message [simp]: "wire (collapse_message names th m) = wire m"
  by (simp add: collapse_message_def wire_def comp_def)

lemma collapse_wire: "map wire (collapse_old_tool_results ms keep th) = map wire ms"
proof (cases "th = 0 \<or> length ms \<le> keep + 1")
  case True
  then show ?thesis by (simp add: collapse_old_tool_results_def)
next
  case False
  then have "map wire (collapse_old_tool_results ms keep th) =
      map wire (take (length ms - keep) ms) @ map wire (drop (length ms - keep) ms)"
    by (simp add: collapse_old_tool_results_def Let_def comp_def)
  then show ?thesis by (metis append_take_drop_id map_append)
qed

lemma clear_blocks_shape: "clear_blocks bs = (bs', freed) \<Longrightarrow> map shape bs' = map shape bs"
  by (induction bs arbitrary: bs' freed rule: clear_blocks.induct)
    (auto simp: Let_def split: prod.splits if_splits)

lemma clear_loop_wire: "clear_loop mx tot ms = (ms', tot') \<Longrightarrow> map wire ms' = map wire ms"
  by (induction mx tot ms arbitrary: ms' tot' rule: clear_loop.induct)
    (auto simp: wire_def split: prod.splits if_splits dest: clear_blocks_shape)

lemma wire_role: "wire m = wire m' \<Longrightarrow> m_role m = m_role m'"
  by (simp add: wire_def)

subsection \<open>Size accounting of the byte cap\<close>

lemma block_byte_size_ToolResult [simp]:
  "block_byte_size ser (ToolResult tid content err) = tool_result_text_len content"
  by (simp add: block_byte_size_def)

lemma clear_blocks_size:
  "clear_blocks bs = (bs', freed) \<Longrightarrow>
     sum_map (block_byte_size ser) bs' + freed = sum_map (block_byte_size ser) bs"
proof (induction bs arbitrary: bs' freed rule: clear_blocks.induct)
  case 1
  then show ?case by simp
next
  case (2 tid content err bs)
  obtain cs f where rec: "clear_blocks bs = (cs, f)" by fastforce
  have IH: "sum_map (block_byte_size ser) cs + f = sum_map (block_byte_size ser) bs"
    by (rule "2.IH") (rule rec)
  show ?case
    using "2.prems" IH by (auto simp: rec Let_def split: if_splits)
qed (auto split: prod.splits)

text \<open>The running total of phase A is exact: it shrinks by what clearing removed.\<close>

lemma clear_loop_size:
  "clear_loop mx tot ms = (ms', tot') \<Longrightarrow> messages_byte_size ser ms \<le> tot \<Longrightarrow>
     tot' + messages_byte_size ser ms = tot + messages_byte_size ser ms'"
proof (induction mx tot ms arbitrary: ms' tot' rule: clear_loop.induct)
  case (1 mx tot)
  then show ?case by simp
next
  case (2 mx tot m ms)
  consider (stop) "tot \<le> mx" | (other) "\<not> tot \<le> mx" "m_role m \<noteq> Tool"
    | (tool) "\<not> tot \<le> mx" "m_role m = Tool" by blast
  then show ?case
  proof cases
    case stop
    with "2.prems" show ?thesis by simp
  next
    case other
    then obtain ns where rec: "clear_loop mx tot ms = (ns, tot')" "ms' = m # ns"
      using "2.prems"(1) by (auto split: prod.splits)
    have "tot' + messages_byte_size ser ms = tot + messages_byte_size ser ns"
      using "2.prems"(2) by (intro "2.IH"(1)[OF other rec(1)]) (simp add: messages_byte_size_def)
    with rec(2) show ?thesis by (simp add: messages_byte_size_def)
  next
    case tool
    obtain bs freed where cl: "clear_blocks (m_content m) = (bs, freed)" by fastforce
    obtain ns where rec: "clear_loop mx (tot - freed) ms = (ns, tot')"
      and ms': "ms' = m\<lparr>m_content := bs\<rparr> # ns"
      using "2.prems"(1) tool cl by (auto split: prod.splits)
    have sz: "message_byte_size ser (m\<lparr>m_content := bs\<rparr>) + freed = message_byte_size ser m"
      using clear_blocks_size[OF cl] by (simp add: message_byte_size_def)
    have le: "messages_byte_size ser ms \<le> tot - freed" "freed \<le> tot"
      using "2.prems"(2) sz by (auto simp: messages_byte_size_def)
    have "tot' + messages_byte_size ser ms = (tot - freed) + messages_byte_size ser ns"
      using tool cl rec le(1) by (intro "2.IH"(2)) auto
    with le sz show ?thesis by (simp add: ms' messages_byte_size_def)
  qed
qed

lemma messages_byte_size_append [simp]:
  "messages_byte_size ser (xs @ ys) = messages_byte_size ser xs + messages_byte_size ser ys"
  by (simp add: messages_byte_size_def)

lemma messages_byte_size_suffix:
  "suffix ys xs \<Longrightarrow> messages_byte_size ser ys \<le> messages_byte_size ser xs"
  by (simp add: messages_byte_size_def sum_map_suffix_le)

lemma clear_old_results_size:
  assumes "clear_old_results mx keep (messages_byte_size ser ms) ms = (ms', tot')"
  shows "tot' = messages_byte_size ser ms'"
proof (cases "mx < messages_byte_size ser ms")
  case False
  with assms show ?thesis by (auto simp: clear_old_results_def)
next
  case True
  define p where "p = length ms - max keep 1"
  obtain cs where cs: "clear_loop mx (messages_byte_size ser ms) (take p ms) = (cs, tot')"
    and ms': "ms' = cs @ drop p ms"
    using assms True by (auto simp: clear_old_results_def Let_def p_def split: prod.splits)
  have split: "messages_byte_size ser ms =
      messages_byte_size ser (take p ms) + messages_byte_size ser (drop p ms)"
    by (metis append_take_drop_id messages_byte_size_append)
  with clear_loop_size[OF cs, of ser] show ?thesis
    by (simp add: ms')
qed

lemma clear_old_results_wire:
  assumes "clear_old_results mx keep tot ms = (ms', tot')"
  shows "map wire ms' = map wire ms"
proof (cases "mx < tot")
  case False
  with assms show ?thesis by (simp add: clear_old_results_def)
next
  case True
  define p where "p = length ms - max keep 1"
  obtain cs where "clear_loop mx tot (take p ms) = (cs, tot')" and ms': "ms' = cs @ drop p ms"
    using assms True by (auto simp: clear_old_results_def Let_def p_def split: prod.splits)
  then have "map wire cs = map wire (take p ms)" by (blast dest: clear_loop_wire)
  then show ?thesis by (simp add: ms') (metis append_take_drop_id map_append)
qed

text \<open>The protected tail is left verbatim by phase A.\<close>

lemma clear_old_results_tail:
  assumes "clear_old_results mx keep tot ms = (ms', tot')"
  shows "drop (length ms - max keep 1) ms' = drop (length ms - max keep 1) ms"
proof (cases "mx < tot")
  case False
  with assms show ?thesis by (simp add: clear_old_results_def)
next
  case True
  define p where "p = length ms - max keep 1"
  obtain cs where cl: "clear_loop mx tot (take p ms) = (cs, tot')" and ms': "ms' = cs @ drop p ms"
    using assms True by (auto simp: clear_old_results_def Let_def p_def split: prod.splits)
  from cl have "map wire cs = map wire (take p ms)" by (rule clear_loop_wire)
  then have "length cs = length (take p ms)" by (metis length_map)
  then have "length cs = p" by (simp add: p_def)
  then show ?thesis by (simp add: ms' p_def)
qed

lemma drop_loop_suffix: "suffix (drop_loop ser mx tot ms) ms"
  by (induction ser mx tot ms rule: drop_loop.induct) (auto intro: suffix_ConsI)

lemma drop_loop_nonempty: "ms \<noteq> [] \<Longrightarrow> drop_loop ser mx tot ms \<noteq> []"
  by (induction ser mx tot ms rule: drop_loop.induct) auto

lemma drop_loop_bound:
  "tot = messages_byte_size ser ms \<Longrightarrow>
     messages_byte_size ser (drop_loop ser mx tot ms) \<le> mx \<or> length (drop_loop ser mx tot ms) \<le> 1"
  by (induction ser mx tot ms rule: drop_loop.induct) (auto simp: messages_byte_size_def)

lemma enforce_decomp:
  assumes "mx \<noteq> 0" "ms \<noteq> []"
  obtains cleared where
    "map wire cleared = map wire ms"
    "enforce_history_byte_cap ser ms mx keep per =
       dropWhile (\<lambda>m. m_role m = Tool) (drop_loop ser mx (messages_byte_size ser cleared) cleared)"
proof -
  obtain cleared tot' where cl: "clear_old_results mx keep
      (messages_byte_size ser (clamp_results per ms)) (clamp_results per ms) = (cleared, tot')"
    by fastforce
  have "map wire cleared = map wire ms"
    using clear_old_results_wire[OF cl] by simp
  moreover have "tot' = messages_byte_size ser cleared"
    using cl by (rule clear_old_results_size)
  ultimately show thesis
    using that assms cl by (simp add: enforce_history_byte_cap_def Let_def)
qed

lemma enforce_bound:
  assumes "mx \<noteq> 0"
  shows "messages_byte_size ser (enforce_history_byte_cap ser ms mx keep per) \<le> mx
    \<or> length (enforce_history_byte_cap ser ms mx keep per) \<le> 1"
proof (cases "ms = []")
  case True
  then show ?thesis by (simp add: enforce_history_byte_cap_def)
next
  case False
  with assms obtain cleared where
    e: "enforce_history_byte_cap ser ms mx keep per =
       dropWhile (\<lambda>m. m_role m = Tool) (drop_loop ser mx (messages_byte_size ser cleared) cleared)"
    (is "_ = dropWhile _ ?kept")
    by (rule enforce_decomp)
  have suf: "suffix (dropWhile (\<lambda>m. m_role m = Tool) ?kept) ?kept" by simp
  have "messages_byte_size ser ?kept \<le> mx \<or> length ?kept \<le> 1"
    by (rule drop_loop_bound) simp
  then show ?thesis
    unfolding e
    using messages_byte_size_suffix[OF suf, of ser] suffix_length_le[OF suf] by linarith
qed

lemma enforce_wire_suffix:
  "suffix (map wire (enforce_history_byte_cap ser ms mx keep per)) (map wire ms)"
proof (cases "mx = 0 \<or> ms = []")
  case True
  then show ?thesis by (auto simp: enforce_history_byte_cap_def)
next
  case False
  then obtain cleared where w: "map wire cleared = map wire ms" and
    e: "enforce_history_byte_cap ser ms mx keep per =
       dropWhile (\<lambda>m. m_role m = Tool) (drop_loop ser mx (messages_byte_size ser cleared) cleared)"
    using enforce_decomp by metis
  have "suffix (enforce_history_byte_cap ser ms mx keep per) cleared"
    unfolding e using dropWhile_suffix drop_loop_suffix suffix_order.trans by blast
  then have "suffix (map wire (enforce_history_byte_cap ser ms mx keep per)) (map wire cleared)"
    by (rule suffix_map)
  then show ?thesis by (simp add: w)
qed

lemma enforce_head:
  assumes "mx \<noteq> 0" "enforce_history_byte_cap ser ms mx keep per = m # rest"
  shows "m_role m \<noteq> Tool"
proof -
  have "ms \<noteq> []" using assms(2) by (auto simp: enforce_history_byte_cap_def)
  with assms(1) obtain cleared where
    "enforce_history_byte_cap ser ms mx keep per =
       dropWhile (\<lambda>m. m_role m = Tool) (drop_loop ser mx (messages_byte_size ser cleared) cleared)"
    (is "_ = dropWhile ?P ?kept")
    by (rule enforce_decomp)
  with assms(2) hd_dropWhile[of ?P ?kept] show ?thesis by simp
qed

subsection \<open>The conversation window\<close>

lemma conv_count_Cons [simp]:
  "conv_count (m # ms) = (if conversational m then 1 else 0) + conv_count ms"
  by (simp add: conv_count_def)

lemma conv_count_Nil [simp]: "conv_count [] = 0"
  by (simp add: conv_count_def)

lemma conv_count_append [simp]: "conv_count (xs @ ys) = conv_count xs + conv_count ys"
  by (simp add: conv_count_def)

text \<open>
  The loop cuts right after the last message it must drop: the part cut off has exactly the
  surplus of conversational messages and ends in one.
\<close>

lemma cut_loop_correct:
  "d < td \<Longrightarrow> td \<le> d + conv_count ms \<Longrightarrow>
     \<exists>p q. ms = p @ q \<and> cut_loop td d c i ms = i + length p \<and> p \<noteq> []
       \<and> conversational (last p) \<and> conv_count p = td - d"
proof (induction td d c i ms rule: cut_loop.induct)
  case (1 td d c i)
  then show ?case by simp
next
  case (2 td d c i m ms)
  show ?case
  proof (cases "conversational m \<and> d + 1 = td")
    case True
    then have "cut_loop td d c i (m # ms) = i + length [m]"
      using "2.prems" by (cases ms) auto
    with True show ?thesis by (intro exI[of _ "[m]"] exI[of _ ms]) auto
  next
    case False
    let ?d = "if conversational m then d + 1 else d"
    have "?d < td" "td \<le> ?d + conv_count ms"
      using False "2.prems" by (auto split: if_splits)
    then obtain p q where pq: "ms = p @ q" "cut_loop td ?d (i + 1) (i + 1) ms = i + 1 + length p"
      "p \<noteq> []" "conversational (last p)" "conv_count p = td - ?d"
      using "2.IH" "2.prems" by fastforce
    then have "cut_loop td d c i (m # ms) = i + length (m # p)"
      using "2.prems" by simp
    moreover have "conv_count (m # p) = td - d"
      using pq(5) \<open>?d < td\<close> by (auto split: if_splits)
    ultimately show ?thesis
      using pq by (intro exI[of _ "m # p"] exI[of _ q]) simp
  qed
qed

lemma trim_decomp:
  assumes "limit \<noteq> 0" "limit < conv_count ms"
  obtains p where "ms = p @ trim_to_conversation_window ms limit" "p \<noteq> []"
    "conversational (last p)" "conv_count (trim_to_conversation_window ms limit) = limit"
proof -
  let ?td = "conv_count ms - limit"
  have "0 < ?td" "?td \<le> 0 + conv_count ms" using assms by auto
  from cut_loop_correct[OF this] obtain p q where
    pq: "ms = p @ q" "cut_loop ?td 0 0 0 ms = 0 + length p" "p \<noteq> []" "conversational (last p)"
      "conv_count p = ?td - 0"
    by blast
  have t: "trim_to_conversation_window ms limit = q"
    using assms pq(1,2) by (simp add: trim_to_conversation_window_def Let_def)
  have "conv_count q = limit" using pq(1,5) assms(2) by simp
  show thesis
  proof (rule that)
    show "ms = p @ trim_to_conversation_window ms limit"
      unfolding t by (rule pq(1))
    show "conv_count (trim_to_conversation_window ms limit) = limit"
      unfolding t by fact
  qed (fact pq)+
qed

lemma trim_suffix: "suffix (trim_to_conversation_window ms limit) ms"
  by (auto simp: trim_to_conversation_window_def Let_def suffix_drop)

lemma trim_conv_count:
  "limit \<noteq> 0 \<Longrightarrow> conv_count (trim_to_conversation_window ms limit) = min limit (conv_count ms)"
proof (cases "limit < conv_count ms")
  case True
  assume "limit \<noteq> 0"
  with True show ?thesis by (elim trim_decomp) auto
next
  case False
  assume "limit \<noteq> 0"
  with False show ?thesis by (simp add: trim_to_conversation_window_def)
qed

text \<open>The kept window is the longest suffix within the budget.\<close>

lemma conv_count_suffix: "suffix s t \<Longrightarrow> conv_count s \<le> conv_count t"
  by (auto simp: suffix_def)

lemma trim_longest:
  assumes "limit \<noteq> 0" "suffix s ms" "conv_count s \<le> limit"
  shows "length s \<le> length (trim_to_conversation_window ms limit)"
proof (cases "limit < conv_count ms")
  case False
  with assms show ?thesis
    by (simp add: trim_to_conversation_window_def suffix_length_le)
next
  case True
  with assms(1) obtain p where
    p: "ms = p @ trim_to_conversation_window ms limit" "p \<noteq> []" "conversational (last p)"
      "conv_count (trim_to_conversation_window ms limit) = limit"
    by (rule trim_decomp)
  show ?thesis
  proof (rule ccontr)
    assume "\<not> ?thesis"
    then have longer: "length (last p # trim_to_conversation_window ms limit) \<le> length s" by simp
    have "suffix (last p # trim_to_conversation_window ms limit) ms"
      by (subst p(1), rule suffixI[of _ "butlast p"]) (simp add: p(2))
    then have "suffix (last p # trim_to_conversation_window ms limit) s"
      using assms(2) longer by (rule suffix_length_suffix)
    then have "conv_count (last p # trim_to_conversation_window ms limit) \<le> conv_count s"
      by (rule conv_count_suffix)
    with p(3,4) assms(3) show False by simp
  qed
qed

subsection \<open>What collapsing and redaction change\<close>

lemma collapse_length [simp]:
  "length (collapse_old_tool_results ms keep th) = length ms"
  using collapse_wire[of ms keep th] by (metis length_map)

lemma collapse_recent_verbatim:
  "drop (length ms - keep) (collapse_old_tool_results ms keep th) = drop (length ms - keep) ms"
  by (simp add: collapse_old_tool_results_def Let_def)

lemma collapse_nth:
  "i < length ms \<Longrightarrow> collapse_old_tool_results ms keep th ! i = ms ! i
    \<or> collapse_old_tool_results ms keep th ! i
        = collapse_message (name_by_id Map.empty ms) th (ms ! i)"
  by (simp add: collapse_old_tool_results_def Let_def nth_append)

text \<open>A block that changes is a large, successful result of one of the listed tools.\<close>

lemma collapse_block_changed:
  assumes "collapse_block_if_old_read b names th \<noteq> b"
  obtains tid content n where "b = ToolResult tid content False" "names tid = Some n"
    "n \<in> set COLLAPSIBLE_TOOL_NAMES" "th \<le> tool_result_text_len content"
    "collapse_block_if_old_read b names th =
       ToolResult tid [Text (elided_marker n (tool_result_text_len content))] False"
proof (cases b)
  case (ToolResult tid content err)
  let ?n = "case names tid of Some n \<Rightarrow> n | None \<Rightarrow> []"
  have e: "\<not> err" "is_collapsible_tool ?n" "\<not> tool_result_text_len content < th"
    using assms by (simp_all add: ToolResult Let_def split: if_splits)
  then have "?n \<in> set COLLAPSIBLE_TOOL_NAMES" by (simp add: is_collapsible_tool_def)
  moreover have "[] \<notin> set COLLAPSIBLE_TOOL_NAMES" by (simp add: COLLAPSIBLE_TOOL_NAMES_def)
  ultimately obtain n where "names tid = Some n" "n \<in> set COLLAPSIBLE_TOOL_NAMES"
    by (auto split: option.splits)
  with e show thesis by (intro that[of tid content n]) (auto simp: ToolResult Let_def)
qed (use assms in auto)

lemma redact_tool_use_ids [simp]: "tool_use_ids (redact_message_content bs) = tool_use_ids bs"
  by (induction bs rule: tool_use_ids.induct) (auto simp: redact_message_content_def)

lemma redact_tool_result_ids [simp]:
  "tool_result_ids (redact_message_content bs) = tool_result_ids bs"
  by (induction bs rule: tool_result_ids.induct) (auto simp: redact_message_content_def)

lemma redact_block_idem [simp]: "redact_block (redact_block b) = redact_block b"
  by (cases b) auto

text \<open>Redaction is independent of the payload: only the pairing-relevant skeleton is left.\<close>

fun redact_key :: "content_block \<Rightarrow> block_shape" where
  "redact_key (ToolUse i n _) = SToolUse i n"
| "redact_key (ToolResult i _ e) = SToolResult i e"
| "redact_key _ = SText"

lemma redact_block_key: "redact_block b = redact_block b' \<longleftrightarrow> redact_key b = redact_key b'"
  by (cases b; cases b') auto

subsection \<open>Properties\<close>

text \<open>Capping a tool result never slices inside a UTF-8 character (which would panic): the head
  and tail offsets of the preview are character boundaries, in order and within the text, and each
  end of the preview takes at most half the limit (at least one byte).\<close>

theorem cap_preview_safe:
  "case cap_bounds body max_len of (h, t) \<Rightarrow>
     is_char_boundary body h \<and> is_char_boundary body t \<and> h \<le> t \<and> t \<le> length body
     \<and> h \<le> max (max_len div 2) 1 \<and> length body - t \<le> max (max_len div 2) 1"
proof (cases "cap_bounds body max_len")
  case (Pair h t)
  then show ?thesis using cap_bounds_safe[OF Pair] cap_bounds_sizes[OF Pair] by simp
qed

text \<open>A result that had to be truncated is over the limit again: the notice between the two
  halves is longer than what the halves save, so the preview of a valid UTF-8 body is always longer
  than the limit it was cut for, by at most the notice.  A result capped when it is captured is
  therefore truncated once more every time the history is loaded.\<close>

theorem capped_result_over_limit:
  assumes "max_len \<noteq> 0" and "max_len < tool_result_text_len content"
    and "utf8_runs (concat (block_texts content))"
  shows "max_len < tool_result_text_len (cap_tool_result_content content max_len)
    \<and> tool_result_text_len (cap_tool_result_content content max_len)
         \<le> max_len + 103 + length (show_nat (tool_result_text_len content))"
  using cap_over_limit[OF assms] cap_upper_bound[OF assms(1)] by blast

theorem capped_result_over_limit_witness:
  "4 < tool_result_text_len [Text ''abcdefghij''] \<and> utf8_runs ''abcdefghij''
   \<and> 4 < tool_result_text_len (cap_tool_result_content [Text ''abcdefghij''] 4)"
proof -
  have u: "utf8_runs ''abcdefghij''"
    by (simp add: utf8_runs_def is_cont_def nth_Cons split: nat.splits)
  then show ?thesis
    using capped_result_over_limit[of 4 "[Text ''abcdefghij'']"] by simp
qed

text \<open>The byte cap meets its budget and keeps the wire format: afterwards the history is within
  \<open>max_bytes\<close> or is down to one message; it is, up to payload, a suffix of the input, so no tool call
  or result loses its id; and it does not start with a tool message.\<close>

theorem byte_cap_correct:
  assumes "max_bytes \<noteq> 0"
  shows "(messages_byte_size ser (enforce_history_byte_cap ser msgs max_bytes keep per) \<le> max_bytes
           \<or> length (enforce_history_byte_cap ser msgs max_bytes keep per) \<le> 1)
    \<and> suffix (map wire (enforce_history_byte_cap ser msgs max_bytes keep per)) (map wire msgs)
    \<and> (case enforce_history_byte_cap ser msgs max_bytes keep per of
          [] \<Rightarrow> True | m # rest \<Rightarrow> m_role m \<noteq> Tool)"
  using enforce_bound[OF assms] enforce_wire_suffix enforce_head[OF assms]
  by (auto split: list.splits)

definition sample_tool_row :: "message_id \<Rightarrow> role \<Rightarrow> content_block list \<Rightarrow> message" where
  "sample_tool_row i r bs = \<lparr>m_id = i, m_role = r, m_content = bs, m_created_at = 0\<rparr>"

theorem byte_cap_correct_witness:
  "suffix
     (map wire (enforce_history_byte_cap (\<lambda>_. None)
        [sample_tool_row 1 User [Text ''hello''], sample_tool_row 2 Assistant [Text ''hi'']] 4 1 0))
     (map wire [sample_tool_row 1 User [Text ''hello''], sample_tool_row 2 Assistant [Text ''hi'']])"
  by (rule byte_cap_correct[THEN conjunct2, THEN conjunct1]) simp

text \<open>The conversation window is exact: it is a suffix of the history with the smaller of the
  limit and the total of conversational messages, and no longer suffix fits the limit.\<close>

theorem conversation_window_exact:
  assumes "limit \<noteq> 0"
  shows "suffix (trim_to_conversation_window msgs limit) msgs
    \<and> conv_count (trim_to_conversation_window msgs limit) = min limit (conv_count msgs)
    \<and> (\<forall>s. suffix s msgs \<longrightarrow> conv_count s \<le> limit
           \<longrightarrow> length s \<le> length (trim_to_conversation_window msgs limit))"
  using trim_suffix trim_conv_count[OF assms] trim_longest[OF assms] by blast

theorem conversation_window_exact_witness:
  "conv_count (trim_to_conversation_window
     [sample_tool_row 1 User [], sample_tool_row 2 Assistant [], sample_tool_row 3 Tool [],
      sample_tool_row 4 Assistant []] 2) = 2"
  using conversation_window_exact[of 2 "[sample_tool_row 1 User [], sample_tool_row 2 Assistant [],
      sample_tool_row 3 Tool [], sample_tool_row 4 Assistant []]"]
  by (simp add: conversational_def sample_tool_row_def)

text \<open>Collapsing old results changes payload only, and only where it may: ids, roles, order and
  the recent tail are kept, and a block that changes is a successful result of a listed read-only
  tool at least as long as the threshold, replaced by its marker under the same id.\<close>

theorem collapse_only_large_old_reads:
  "map wire (collapse_old_tool_results msgs keep threshold) = map wire msgs
   \<and> drop (length msgs - keep) (collapse_old_tool_results msgs keep threshold)
       = drop (length msgs - keep) msgs
   \<and> (\<forall>b names. collapse_block_if_old_read b names threshold = b
        \<or> (\<exists>tid content n. b = ToolResult tid content False \<and> names tid = Some n
             \<and> n \<in> set COLLAPSIBLE_TOOL_NAMES \<and> threshold \<le> tool_result_text_len content
             \<and> collapse_block_if_old_read b names threshold =
                 ToolResult tid [Text (elided_marker n (tool_result_text_len content))] False))"
  using collapse_wire collapse_recent_verbatim by (blast elim: collapse_block_changed)

end
