(* ===== verification/Pairing.thy ===== *)
theory Pairing
  imports History
begin

text \<open>
  The pairing gate of \<open>crates/snaca-engine/src/engine.rs\<close> (\<open>ensure_tool_result_pairing\<close>,
  \<open>filter_tool_result_blocks\<close>, \<open>synthetic_tool_errors\<close>): the one function every tool-bearing request
  passes before it is sent to a provider.

  The loop over the peekable iterator is a recursion over the rest of the messages.  Of the output
  vector only its last element is read, so it is the argument \<open>prev\<close>; the two hash sets are sets.
  A synthesised tool message gets a fresh id and the current time: \<open>fresh n\<close> supplies both for the
  \<open>n\<close>-th one.
\<close>

subsection \<open>The gate\<close>

fun filter_tool_result_blocks ::
  "content_block list \<Rightarrow> tool_use_id set \<Rightarrow> tool_use_id set \<Rightarrow> content_block list \<times> tool_use_id set"
where
  "filter_tool_result_blocks [] seen answered = ([], answered)"
| "filter_tool_result_blocks (ToolResult tid content err # bs) seen answered =
     (if tid \<notin> seen then filter_tool_result_blocks bs seen answered
      else if tid \<in> answered then filter_tool_result_blocks bs seen answered
      else
        (let (kept, answered') = filter_tool_result_blocks bs seen (insert tid answered)
         in (ToolResult tid content err # kept, answered')))"
| "filter_tool_result_blocks (b # bs) seen answered =
     (let (kept, answered') = filter_tool_result_blocks bs seen answered in (b # kept, answered'))"

definition orphan_error :: string where
  "orphan_error = ''tool execution interrupted (orphan tool_use repaired at load time)''"

fun synthetic_tool_errors ::
  "tool_use_id list \<Rightarrow> tool_use_id set \<Rightarrow> content_block list \<times> tool_use_id set" where
  "synthetic_tool_errors [] answered = ([], answered)"
| "synthetic_tool_errors (i # ids) answered =
     (let (bs, answered') = synthetic_tool_errors ids (insert i answered)
      in (tool_error_block i orphan_error # bs, answered'))"

definition assistant_tool_uses :: "message \<Rightarrow> tool_use_id list" where
  "assistant_tool_uses m = (if m_role m = Assistant then tool_use_ids (m_content m) else [])"

definition assistant_with_tool_use :: "message option \<Rightarrow> bool" where
  "assistant_with_tool_use prev =
     (case prev of
        None \<Rightarrow> False
      | Some p \<Rightarrow> m_role p = Assistant \<and> list_ex is_ToolUse (m_content p))"

text \<open>The peeked tool message, if any, with its blocks filtered, and the messages after it.\<close>

definition take_tool_turn ::
  "message list \<Rightarrow> tool_use_id set \<Rightarrow> tool_use_id set
     \<Rightarrow> message option \<times> tool_use_id set \<times> message list" where
  "take_tool_turn rest seen answered =
     (case rest of
        [] \<Rightarrow> (None, answered, [])
      | next # rest' \<Rightarrow>
          if m_role next = Tool then
            (let (filtered, answered') = filter_tool_result_blocks (m_content next) seen answered
             in (Some (next\<lparr>m_content := filtered\<rparr>), answered', rest'))
          else (None, answered, rest))"

text \<open>The tool turn that answers \<open>uses\<close>: what survived, plus a synthetic error per missing id.\<close>

definition finish_tool_turn ::
  "(nat \<Rightarrow> message_id \<times> timestamp) \<Rightarrow> nat \<Rightarrow> tool_use_id list \<Rightarrow> message option \<Rightarrow> tool_use_id set
     \<Rightarrow> message option \<times> tool_use_id set \<times> nat" where
  "finish_tool_turn fresh n uses result_msg answered =
     (let answered_here = (case result_msg of
                             Some m \<Rightarrow> set (tool_result_ids (m_content m)) | None \<Rightarrow> {});
          missing = filter (\<lambda>i. i \<notin> answered_here) uses
      in if missing = [] then (result_msg, answered, n)
         else
           (let (synth, answered') = synthetic_tool_errors missing answered
            in case result_msg of
                 Some m \<Rightarrow> (Some (m\<lparr>m_content := m_content m @ synth\<rparr>), answered', n)
               | None \<Rightarrow>
                   (Some \<lparr>m_id = fst (fresh n), m_role = Tool, m_content = synth,
                          m_created_at = snd (fresh n)\<rparr>, answered', Suc n)))"

lemma take_tool_turn_length: "take_tool_turn rest seen ans = (r, a, rest') \<Longrightarrow> length rest' \<le> length rest"
  by (auto simp: take_tool_turn_def split: list.splits if_splits prod.splits)

function pairing_loop ::
  "(nat \<Rightarrow> message_id \<times> timestamp) \<Rightarrow> nat \<Rightarrow> message option \<Rightarrow> tool_use_id set \<Rightarrow> tool_use_id set
     \<Rightarrow> message list \<Rightarrow> message list" where
  "pairing_loop fresh n prev seen answered [] = []"
| "pairing_loop fresh n prev seen answered (msg # rest) =
     (if m_role msg = Tool then
        (if \<not> assistant_with_tool_use prev then pairing_loop fresh n prev seen answered rest
         else
           (let (filtered, answered') = filter_tool_result_blocks (m_content msg) seen answered
            in if filtered = [] then pairing_loop fresh n prev seen answered' rest
               else
                 (let m = msg\<lparr>m_content := filtered\<rparr>
                  in m # pairing_loop fresh n (Some m) seen answered' rest)))
      else
        (let uses = assistant_tool_uses msg;
             seen' = seen \<union> set uses
         in if uses = [] then msg # pairing_loop fresh n (Some msg) seen' answered rest
            else
              (let (result_msg, answered1, rest') = take_tool_turn rest seen' answered;
                   (turn, answered2, n') = finish_tool_turn fresh n uses result_msg answered1
               in case turn of
                    None \<Rightarrow> msg # pairing_loop fresh n' (Some msg) seen' answered2 rest'
                  | Some m \<Rightarrow> msg # m # pairing_loop fresh n' (Some m) seen' answered2 rest')))"
  by pat_completeness auto
termination
  apply (relation "measure (\<lambda>(fresh, n, prev, seen, answered, msgs). length msgs)")
        apply (simp_all add: less_Suc_eq_le)
   apply (metis take_tool_turn_length)+
  done

definition ensure_tool_result_pairing ::
  "(nat \<Rightarrow> message_id \<times> timestamp) \<Rightarrow> message list \<Rightarrow> message list" where
  "ensure_tool_result_pairing fresh messages = pairing_loop fresh 0 None {} {} messages"

subsection \<open>Facts about filtering and synthesis\<close>

lemma filter_results_spec:
  "filter_tool_result_blocks bs seen ans = (kept, ans') \<Longrightarrow>
     set (tool_result_ids kept) = (set (tool_result_ids bs) \<inter> seen) - ans
     \<and> distinct (tool_result_ids kept)
     \<and> ans' = ans \<union> set (tool_result_ids kept)"
proof (induction bs seen ans arbitrary: kept ans' rule: filter_tool_result_blocks.induct)
  case (1 seen ans)
  then show ?case by simp
next
  case (2 tid content err bs seen ans)
  consider "tid \<notin> seen" | "tid \<in> seen" "tid \<in> ans" | "tid \<in> seen" "tid \<notin> ans" by blast
  then show ?case
  proof cases
    case 1
    with "2.prems" "2.IH"(1) show ?thesis by auto
  next
    case 2
    with "2.prems" "2.IH"(2) show ?thesis by auto
  next
    case 3
    then obtain ks where ks: "filter_tool_result_blocks bs seen (insert tid ans) = (ks, ans')"
      and kept: "kept = ToolResult tid content err # ks"
      using "2.prems" by (auto split: prod.splits)
    show ?thesis using "2.IH"(3)[OF _ 3(2) ks] 3 by (auto simp: kept)
  qed
qed (fastforce split: prod.splits)+

lemma filter_results_id:
  "distinct (tool_result_ids bs) \<Longrightarrow> set (tool_result_ids bs) \<subseteq> seen \<Longrightarrow>
   set (tool_result_ids bs) \<inter> ans = {} \<Longrightarrow>
     filter_tool_result_blocks bs seen ans = (bs, ans \<union> set (tool_result_ids bs))"
  by (induction bs seen ans rule: filter_tool_result_blocks.induct) auto

lemma synthetic_spec:
  "synthetic_tool_errors ids ans = (bs, ans') \<Longrightarrow> tool_result_ids bs = ids \<and> ans' = ans \<union> set ids"
  by (induction ids ans arbitrary: bs ans' rule: synthetic_tool_errors.induct)
    (auto simp: tool_error_block_def split: prod.splits)

lemma list_ex_is_ToolUse: "list_ex is_ToolUse bs \<longleftrightarrow> tool_use_ids bs \<noteq> []"
  by (induction bs rule: tool_use_ids.induct) auto

lemma assistant_with_tool_use_iff:
  "assistant_with_tool_use (Some m) \<longleftrightarrow> assistant_tool_uses m \<noteq> []"
  by (auto simp: assistant_with_tool_use_def assistant_tool_uses_def list_ex_is_ToolUse)

lemma assistant_with_tool_use_None [simp]: "\<not> assistant_with_tool_use None"
  by (simp add: assistant_with_tool_use_def)

lemma assistant_tool_uses_Tool [simp]: "m_role m = Tool \<Longrightarrow> assistant_tool_uses m = []"
  by (simp add: assistant_tool_uses_def)

text \<open>
  One assistant message with tool calls: whatever follows, the emitted turn is a tool message that
  answers exactly the ids called, once each if they are distinct.
\<close>

lemma tool_turn_complete:
  assumes take: "take_tool_turn rest (seen \<union> set uses) ans = (r, ans1, rest')"
    and fin: "finish_tool_turn fresh n uses r ans1 = (turn, ans2, n')"
    and inv: "seen \<subseteq> ans" and uses: "uses \<noteq> []"
  obtains m where "turn = Some m" "m_role m = Tool"
    "set (tool_result_ids (m_content m)) = set uses"
    "distinct uses \<longrightarrow> distinct (tool_result_ids (m_content m))"
    "seen \<union> set uses \<subseteq> ans2"
proof -
  have r: "(r = None \<and> ans1 = ans) \<or>
      (\<exists>m. r = Some m \<and> m_role m = Tool \<and> distinct (tool_result_ids (m_content m))
         \<and> set (tool_result_ids (m_content m)) \<subseteq> set uses
         \<and> ans1 = ans \<union> set (tool_result_ids (m_content m)))"
    using take inv
    by (fastforce simp: take_tool_turn_def split: list.splits if_splits prod.splits
        dest: filter_results_spec)
  define here where "here = (case r of Some m \<Rightarrow> set (tool_result_ids (m_content m)) | None \<Rightarrow> {})"
  define missing where "missing = filter (\<lambda>i. i \<notin> here) uses"
  obtain synth a where syn: "synthetic_tool_errors missing ans1 = (synth, a)" by fastforce
  have syn': "tool_result_ids synth = missing" "a = ans1 \<union> set missing"
    using synthetic_spec[OF syn] by auto
  have here_sub: "here \<subseteq> set uses" "here \<subseteq> ans1" "ans \<subseteq> ans1"
    using r by (auto simp: here_def)
  have set_missing: "set missing = set uses - here" by (auto simp: missing_def)
  show thesis
  proof (cases "missing = []")
    case True
    then have "here = set uses" using set_missing here_sub by auto
    moreover from this uses obtain m where m: "r = Some m"
      by (cases r) (auto simp: here_def)
    moreover have "turn = r" "ans2 = ans1"
      using fin True by (auto simp: finish_tool_turn_def Let_def missing_def here_def)
    ultimately show thesis
      using r here_sub inv by (intro that[of m]) (auto simp: here_def)
  next
    case False
    then have fin': "(turn, ans2) = (case r of
         Some m \<Rightarrow> (Some (m\<lparr>m_content := m_content m @ synth\<rparr>), a)
       | None \<Rightarrow> (Some \<lparr>m_id = fst (fresh n), m_role = Tool, m_content = synth,
                          m_created_at = snd (fresh n)\<rparr>, a))"
      using fin syn
      by (auto simp: finish_tool_turn_def Let_def missing_def here_def split: option.splits)
    show thesis
    proof (cases r)
      case None
      with fin' syn' r set_missing here_sub inv show thesis
        by (intro that[of "\<lparr>m_id = fst (fresh n), m_role = Tool, m_content = synth,
                          m_created_at = snd (fresh n)\<rparr>"])
          (auto simp: here_def missing_def)
    next
      case (Some m)
      with fin' syn' r set_missing here_sub inv show thesis
        by (intro that[of "m\<lparr>m_content := m_content m @ synth\<rparr>"])
          (auto simp: here_def missing_def)
    qed
  qed
qed

subsection \<open>The wire invariant\<close>

text \<open>
  What a provider accepts: a tool message only directly after an assistant message with tool calls,
  each such assistant message followed by one, answering exactly its ids (once each when the ids
  are distinct).
\<close>

definition answers :: "message \<Rightarrow> message \<Rightarrow> bool" where
  "answers t m \<longleftrightarrow> m_role t = Tool
     \<and> set (tool_result_ids (m_content t)) = set (assistant_tool_uses m)
     \<and> (distinct (assistant_tool_uses m) \<longrightarrow> distinct (tool_result_ids (m_content t)))"

fun well_paired :: "message list \<Rightarrow> bool" where
  "well_paired [] = True"
| "well_paired [m] = (m_role m \<noteq> Tool \<and> assistant_tool_uses m = [])"
| "well_paired (m # t # ms) =
     (m_role m \<noteq> Tool \<and>
      (if assistant_tool_uses m = [] then well_paired (t # ms) else answers t m \<and> well_paired ms))"

lemma well_paired_plain:
  "m_role m \<noteq> Tool \<Longrightarrow> assistant_tool_uses m = [] \<Longrightarrow> well_paired (m # ms) = well_paired ms"
  by (cases ms) auto

lemma take_tool_turn_rest:
  "take_tool_turn rest seen ans = (r, a, rest') \<Longrightarrow>
     filter (\<lambda>m. m_role m \<noteq> Tool) rest' = filter (\<lambda>m. m_role m \<noteq> Tool) rest"
  by (auto simp: take_tool_turn_def split: list.splits if_splits prod.splits)

text \<open>
  The loop invariant: every id seen has been answered and the last message emitted is not an
  assistant message with tool calls, so the branch that would filter a detached tool message is
  never entered.
\<close>

lemma pairing_loop_correct:
  "seen \<subseteq> answered \<Longrightarrow> \<not> assistant_with_tool_use prev \<Longrightarrow>
     well_paired (pairing_loop fresh n prev seen answered msgs)
     \<and> filter (\<lambda>m. m_role m \<noteq> Tool) (pairing_loop fresh n prev seen answered msgs)
         = filter (\<lambda>m. m_role m \<noteq> Tool) msgs"
proof (induction fresh n prev seen answered msgs rule: pairing_loop.induct)
  case (1 fresh n prev seen answered)
  then show ?case by simp
next
  case (2 fresh n prev seen answered msg rest)
  show ?case
  proof (cases "m_role msg = Tool")
    case True
    with "2.IH"(1) "2.prems" show ?thesis by simp
  next
    case False
    show ?thesis
    proof (cases "assistant_tool_uses msg = []")
      case True
      then have prev: "\<not> assistant_with_tool_use (Some msg)"
        by (simp add: assistant_with_tool_use_iff)
      from "2.IH"(4)[OF False refl refl True _ prev] "2.prems"(1) True False
      show ?thesis by (simp add: well_paired_plain)
    next
      case uses: False
      obtain r ans1 rest' where take:
        "take_tool_turn rest (seen \<union> set (assistant_tool_uses msg)) answered = (r, ans1, rest')"
        by (cases "take_tool_turn rest (seen \<union> set (assistant_tool_uses msg)) answered") auto
      obtain turn ans2 n' where fin:
        "finish_tool_turn fresh n (assistant_tool_uses msg) r ans1 = (turn, ans2, n')"
        by (cases "finish_tool_turn fresh n (assistant_tool_uses msg) r ans1") auto
      obtain m where m: "turn = Some m" "m_role m = Tool"
        "set (tool_result_ids (m_content m)) = set (assistant_tool_uses msg)"
        "distinct (assistant_tool_uses msg) \<longrightarrow> distinct (tool_result_ids (m_content m))"
        "seen \<union> set (assistant_tool_uses msg) \<subseteq> ans2"
        using take fin "2.prems"(1) uses by (rule tool_turn_complete)
      have prev: "\<not> assistant_with_tool_use (Some m)"
        using m(2) by (simp add: assistant_with_tool_use_iff)
      note IH = "2.IH"(6)[OF False refl refl uses take[symmetric] refl refl fin[symmetric] refl refl m(1)
          m(5) prev]
      have eq: "pairing_loop fresh n prev seen answered (msg # rest) =
          msg # m # pairing_loop fresh n' (Some m)
            (seen \<union> set (assistant_tool_uses msg)) ans2 rest'"
        using False uses take fin m(1) by simp
      from IH show ?thesis
        unfolding eq using False uses m take_tool_turn_rest[OF take]
        by (simp add: answers_def)
    qed
  qed
qed

lemma ensure_well_paired: "well_paired (ensure_tool_result_pairing fresh msgs)"
  using pairing_loop_correct[of "{}" "{}" None fresh 0 msgs]
  by (simp add: ensure_tool_result_pairing_def)

lemma ensure_keeps_conversation:
  "filter (\<lambda>m. m_role m \<noteq> Tool) (ensure_tool_result_pairing fresh msgs)
     = filter (\<lambda>m. m_role m \<noteq> Tool) msgs"
  using pairing_loop_correct[of "{}" "{}" None fresh 0 msgs]
  by (simp add: ensure_tool_result_pairing_def)

subsection \<open>Histories the gate leaves alone\<close>

definition call_ids :: "message list \<Rightarrow> tool_use_id list" where
  "call_ids msgs = concat (map assistant_tool_uses msgs)"

lemma call_ids_simps [simp]:
  "call_ids [] = []" "call_ids (m # ms) = assistant_tool_uses m @ call_ids ms"
  by (simp_all add: call_ids_def)

lemma call_ids_nontool: "call_ids (filter (\<lambda>m. m_role m \<noteq> Tool) msgs) = call_ids msgs"
  by (induction msgs) auto

lemma call_ids_ensure [simp]: "call_ids (ensure_tool_result_pairing fresh msgs) = call_ids msgs"
  by (metis call_ids_nontool ensure_keeps_conversation)

lemma pairing_loop_plain:
  "m_role m \<noteq> Tool \<Longrightarrow> assistant_tool_uses m = [] \<Longrightarrow>
     pairing_loop fresh n prev seen ans (m # rest) = m # pairing_loop fresh n (Some m) seen ans rest"
  by simp

lemma pairing_loop_id:
  "well_paired msgs \<Longrightarrow> distinct (call_ids msgs) \<Longrightarrow> set (call_ids msgs) \<inter> answered = {} \<Longrightarrow>
   \<not> assistant_with_tool_use prev \<Longrightarrow> pairing_loop fresh n prev seen answered msgs = msgs"
proof (induction msgs arbitrary: prev seen answered n rule: well_paired.induct)
  case 1
  then show ?case by simp
next
  case (2 m)
  then show ?case by (simp add: assistant_with_tool_use_iff)
next
  case (3 m t ms)
  show ?case
  proof (cases "assistant_tool_uses m = []")
    case True
    then have "\<not> assistant_with_tool_use (Some m)" by (simp add: assistant_with_tool_use_iff)
    with True "3.prems" have rec: "pairing_loop fresh n (Some m) seen answered (t # ms) = t # ms"
      by (intro "3.IH"(1)) auto
    have nt: "m_role m \<noteq> Tool" using "3.prems"(1) by simp
    show ?thesis by (simp only: pairing_loop_plain[OF nt True] rec)
  next
    case False
    with "3.prems"(1,2) have t: "m_role t = Tool" "distinct (tool_result_ids (m_content t))"
      "set (tool_result_ids (m_content t)) = set (assistant_tool_uses m)"
      by (auto simp: answers_def)
    have "set (tool_result_ids (m_content t)) \<inter> answered = {}"
      using "3.prems"(3) t(3) by auto
    then have filt: "filter_tool_result_blocks (m_content t) (seen \<union> set (assistant_tool_uses m))
        answered = (m_content t, answered \<union> set (assistant_tool_uses m))"
      using t by (subst filter_results_id) auto
    have "pairing_loop fresh n prev seen answered (m # t # ms) =
        m # t # pairing_loop fresh n (Some t) (seen \<union> set (assistant_tool_uses m))
          (answered \<union> set (assistant_tool_uses m)) ms"
      using False t filt "3.prems"(1)
      by (simp add: take_tool_turn_def finish_tool_turn_def Let_def)
    moreover have "pairing_loop fresh n (Some t) (seen \<union> set (assistant_tool_uses m))
          (answered \<union> set (assistant_tool_uses m)) ms = ms"
      using False "3.prems" t by (intro "3.IH"(2)) (auto simp: assistant_with_tool_use_iff)
    ultimately show ?thesis by simp
  qed
qed

lemma ensure_id:
  "well_paired msgs \<Longrightarrow> distinct (call_ids msgs) \<Longrightarrow> ensure_tool_result_pairing fresh msgs = msgs"
  unfolding ensure_tool_result_pairing_def by (rule pairing_loop_id) auto

text \<open>With distinct call ids every call is answered exactly once over the whole history.\<close>

definition result_ids :: "message list \<Rightarrow> tool_use_id list" where
  "result_ids msgs = concat (map (\<lambda>m. tool_result_ids (m_content m)) (filter (\<lambda>m. m_role m = Tool) msgs))"

lemma result_ids_simps [simp]:
  "result_ids [] = []"
  "result_ids (m # ms) = (if m_role m = Tool then tool_result_ids (m_content m) else []) @ result_ids ms"
  by (simp_all add: result_ids_def)

lemma well_paired_answers_once:
  "well_paired msgs \<Longrightarrow> distinct (call_ids msgs) \<Longrightarrow>
     distinct (result_ids msgs) \<and> set (result_ids msgs) = set (call_ids msgs)"
  by (induction msgs rule: well_paired.induct) (auto simp: answers_def split: if_splits)

subsection \<open>Properties\<close>

definition sample_msg :: "message_id \<Rightarrow> role \<Rightarrow> content_block list \<Rightarrow> message" where
  "sample_msg i r bs = \<lparr>m_id = i, m_role = r, m_content = bs, m_created_at = 0\<rparr>"

text \<open>An interrupted turn: two calls, one answered, then a stray result.\<close>

definition sample_history :: "message list" where
  "sample_history =
     [sample_msg 1 User [Text ''go''],
      sample_msg 2 Assistant [ToolUse ''a'' ''Read'' JNull, ToolUse ''b'' ''Bash'' JNull],
      sample_msg 3 Tool [ToolResult ''a'' [Text ''ok''] False],
      sample_msg 4 User [Text ''more''],
      sample_msg 5 Tool [ToolResult ''z'' [] False]]"

text \<open>C3: Whatever history is assembled, the gate sends a well-formed one: a tool message follows only
  an assistant message with tool calls and answers exactly its ids, every such assistant message is
  followed by one, and every other message is kept, unchanged and in order.\<close>

theorem pairing_gate_well_formed:
  "well_paired (ensure_tool_result_pairing fresh msgs)
   \<and> filter (\<lambda>m. m_role m \<noteq> Tool) (ensure_tool_result_pairing fresh msgs)
       = filter (\<lambda>m. m_role m \<noteq> Tool) msgs"
  using ensure_well_paired ensure_keeps_conversation by blast

text \<open>When no call id is used twice, the gate's output answers every call of the history exactly
  once and nothing else.\<close>

theorem pairing_gate_answers_once:
  assumes "distinct (call_ids msgs)"
  shows "distinct (result_ids (ensure_tool_result_pairing fresh msgs))
    \<and> set (result_ids (ensure_tool_result_pairing fresh msgs)) = set (call_ids msgs)"
  using well_paired_answers_once[OF ensure_well_paired, of fresh msgs] assms by simp

theorem pairing_gate_answers_once_witness:
  "distinct (call_ids sample_history)
   \<and> set (result_ids (ensure_tool_result_pairing (\<lambda>n. (100 + n, 0)) sample_history)) = {''a'', ''b''}"
proof -
  have d: "call_ids sample_history = [''a'', ''b'']"
    by (simp add: sample_history_def sample_msg_def assistant_tool_uses_def)
  then have "distinct (call_ids sample_history)" by simp
  from pairing_gate_answers_once[OF this] d show ?thesis by simp
qed

text \<open>The gate is idempotent on histories whose call ids are distinct: a repaired history passes
  through unchanged, whatever fresh ids the second pass would use.\<close>

theorem pairing_gate_idempotent:
  assumes "distinct (call_ids msgs)"
  shows "ensure_tool_result_pairing g (ensure_tool_result_pairing fresh msgs)
    = ensure_tool_result_pairing fresh msgs"
  using assms by (intro ensure_id ensure_well_paired) simp

theorem pairing_gate_idempotent_witness:
  "ensure_tool_result_pairing (\<lambda>n. (200 + n, 0))
       (ensure_tool_result_pairing (\<lambda>n. (100 + n, 0)) sample_history)
     = ensure_tool_result_pairing (\<lambda>n. (100 + n, 0)) sample_history"
  by (rule pairing_gate_idempotent)
    (simp add: sample_history_def sample_msg_def assistant_tool_uses_def)

text \<open>With a reused call id the gate answers an id twice: the second call's result is dropped as a
  duplicate and replaced by a synthetic error for the same id.\<close>

theorem pairing_gate_reused_id_answered_twice:
  "result_ids (ensure_tool_result_pairing fresh
     [sample_msg 1 Assistant [ToolUse ''a'' ''Read'' JNull],
      sample_msg 2 Tool [ToolResult ''a'' [Text ''one''] False],
      sample_msg 3 Assistant [ToolUse ''a'' ''Read'' JNull],
      sample_msg 4 Tool [ToolResult ''a'' [Text ''two''] False]]) = [''a'', ''a'']"
  by (simp add: ensure_tool_result_pairing_def sample_msg_def assistant_tool_uses_def
      take_tool_turn_def finish_tool_turn_def tool_error_block_def Let_def)

end
