(* ===== verification/Store.thy ===== *)
theory Store
  imports Content
begin

text \<open>
  The SQLite store of \<open>crates/snaca-state/src/db.rs\<close> as a relational state: one list of rows per
  table, in insertion order, and one function per query.  SQL is read off the statements: \<open>WHERE\<close> is
  a filter, \<open>ORDER BY\<close> a stable sort, \<open>LIMIT\<close> a \<open>take\<close>, \<open>ON CONFLICT DO UPDATE\<close> an upsert on the
  table's key.  Time stamps, which the code stores as RFC 3339 text in UTC, are integers.  The clock
  and freshly drawn UUIDs are arguments.  A violated constraint is an error value; other I/O failures
  of the database are not modelled.

  The locale \<open>kv_put\<close> states what a client relies on when a table is used as a map: what a lookup
  returns after an upsert.  It is interpreted on the queries of the tables with an upsert.
\<close>

subsection \<open>Rows and tables\<close>

datatype db_error = UniqueViolation | ForeignKeyViolation

type_synonym thread_id = string
type_synonym tenant_id = string
type_synonym project_id = string

record thread_row =
  t_id :: thread_id
  t_tenant :: tenant_id
  t_project :: project_id
  t_created_at :: timestamp

record compaction =
  c_thread :: thread_id
  c_summary :: string
  c_until :: message_id
  c_from :: "message_id option"
  c_msg_count :: nat
  c_input_tokens :: nat
  c_compacted_at :: timestamp

record tool_call_row =
  k_id :: tool_use_id
  k_message_id :: message_id
  k_tool_name :: string
  k_input :: json
  k_output :: "json option"
  k_is_error :: bool
  k_started_at :: timestamp
  k_completed_at :: "timestamp option"

record chat_binding =
  b_chat_id :: string
  b_user_id :: string
  b_project :: project_id
  b_bound_at :: timestamp

datatype persisted_decision = Allow | Deny

record stored_decision =
  d_tenant :: tenant_id
  d_project :: project_id
  d_tool :: string
  d_signature :: string
  d_decision :: persisted_decision
  d_decided_at :: timestamp

record scheduled_task =
  s_id :: string
  s_tenant :: tenant_id
  s_project :: project_id
  s_chat_id :: string
  s_plugin :: string
  s_prompt :: string
  s_interval_secs :: "int option"
  s_next_fire_at :: timestamp
  s_last_fired_at :: "timestamp option"
  s_enabled :: bool
  s_created_at :: timestamp

datatype outbox_kind = SendMessage | UpdateMessage | FileUpload
datatype outbox_status = Pending | Delivered | Failed

record outbox_row =
  o_id :: string
  o_plugin :: string
  o_tenant :: string
  o_chat_id :: string
  o_kind :: outbox_kind
  o_payload :: json
  o_attempts :: nat
  o_next_attempt_at :: timestamp
  o_status :: outbox_status
  o_last_error :: "string option"
  o_platform_message_id :: "string option"
  o_created_at :: timestamp
  o_delivered_at :: "timestamp option"

record dedup_row =
  i_plugin :: string
  i_message_id :: string
  i_seen_at :: timestamp

record database =
  threads :: "thread_row list"
  messages :: "message_row list"
  compactions :: "compaction list"
  thread_meta :: "(thread_id \<times> json) list"
  message_meta :: "(message_id \<times> json) list"
  tool_calls :: "tool_call_row list"
  bindings :: "chat_binding list"
  decisions :: "stored_decision list"
  scheduled :: "scheduled_task list"
  outbox :: "outbox_row list"
  inbound_dedup :: "dedup_row list"

definition empty_db :: database where
  "empty_db = \<lparr>threads = [], messages = [], compactions = [], thread_meta = [], message_meta = [],
     tool_calls = [], bindings = [], decisions = [], scheduled = [], outbox = [], inbound_dedup = []\<rparr>"

subsection \<open>SQL building blocks\<close>

definition update_where :: "('r \<Rightarrow> bool) \<Rightarrow> ('r \<Rightarrow> 'r) \<Rightarrow> 'r list \<Rightarrow> 'r list" where
  "update_where P f rows = map (\<lambda>r. if P r then f r else r) rows"

definition delete_where :: "('r \<Rightarrow> bool) \<Rightarrow> 'r list \<Rightarrow> 'r list" where
  "delete_where P rows = filter (\<lambda>r. \<not> P r) rows"

text \<open>\<open>INSERT ... ON CONFLICT(key) DO UPDATE\<close> of all other columns.\<close>

definition upsert :: "('r \<Rightarrow> 'k) \<Rightarrow> 'r \<Rightarrow> 'r list \<Rightarrow> 'r list" where
  "upsert key row rows =
     (if list_ex (\<lambda>r. key r = key row) rows
      then update_where (\<lambda>r. key r = key row) (\<lambda>_. row) rows
      else rows @ [row])"

definition find_row :: "('r \<Rightarrow> 'k) \<Rightarrow> 'k \<Rightarrow> 'r list \<Rightarrow> 'r option" where
  "find_row key k rows = find (\<lambda>r. key r = k) rows"

definition limit_last :: "nat \<Rightarrow> 'r list \<Rightarrow> 'r list" where
  "limit_last n rows = drop (length rows - n) rows"

subsection \<open>Threads and messages\<close>

definition find_thread :: "database \<Rightarrow> thread_id \<Rightarrow> thread_row option" where
  "find_thread db i = find_row t_id i (threads db)"

definition insert_thread ::
  "database \<Rightarrow> timestamp \<Rightarrow> thread_id \<Rightarrow> tenant_id \<Rightarrow> project_id \<Rightarrow> db_error + (thread_row \<times> database)"
where
  "insert_thread db now i tenant project =
     (if find_thread db i \<noteq> None then Inl UniqueViolation
      else
        let row = \<lparr>t_id = i, t_tenant = tenant, t_project = project, t_created_at = now\<rparr>
        in Inr (row, db\<lparr>threads := threads db @ [row]\<rparr>))"

definition list_threads_for_project ::
  "database \<Rightarrow> tenant_id \<Rightarrow> project_id \<Rightarrow> thread_row list" where
  "list_threads_for_project db tenant project =
     sort_key (\<lambda>t. - t_created_at t)
       (filter (\<lambda>t. t_tenant t = tenant \<and> t_project t = project) (threads db))"

text \<open>The messages of a thread, oldest first.\<close>

definition thread_messages :: "database \<Rightarrow> thread_id \<Rightarrow> message_row list" where
  "thread_messages db thread = sort_key r_created_at (filter (\<lambda>r. r_thread_id r = thread) (messages db))"

definition append_message ::
  "database \<Rightarrow> message_id \<Rightarrow> timestamp \<Rightarrow> thread_id \<Rightarrow> nat \<Rightarrow> role \<Rightarrow> content_block list
     \<Rightarrow> db_error + (message_row \<times> database)" where
  "append_message db i now thread session rl content =
     (if find_thread db thread = None then Inl ForeignKeyViolation
      else if list_ex (\<lambda>r. r_id r = i) (messages db) then Inl UniqueViolation
      else
        let row = \<lparr>r_id = i, r_thread_id = thread, r_session_id = session, r_role = rl,
                   r_content = content, r_created_at = now, r_redacted_at = None\<rparr>
        in Inr (row, db\<lparr>messages := messages db @ [row]\<rparr>))"

definition mark_message_redacted :: "database \<Rightarrow> timestamp \<Rightarrow> message_id \<Rightarrow> database" where
  "mark_message_redacted db now i =
     db\<lparr>messages := update_where (\<lambda>r. r_id r = i) (\<lambda>r. r\<lparr>r_redacted_at := Some now\<rparr>) (messages db)\<rparr>"

definition recent_messages :: "database \<Rightarrow> thread_id \<Rightarrow> nat \<Rightarrow> message_row list" where
  "recent_messages db thread limit = limit_last limit (thread_messages db thread)"

definition recent_messages_for_project ::
  "database \<Rightarrow> tenant_id \<Rightarrow> project_id \<Rightarrow> thread_id \<Rightarrow> nat \<Rightarrow> message_row list" where
  "recent_messages_for_project db tenant project thread limit =
     limit_last limit
       (filter (\<lambda>r. \<exists>t \<in> set (threads db).
            t_id t = r_thread_id r \<and> t_tenant t = tenant \<and> t_project t = project)
         (thread_messages db thread))"

definition message_time :: "database \<Rightarrow> message_id \<Rightarrow> timestamp option" where
  "message_time db i = map_option r_created_at (find_row r_id i (messages db))"

text \<open>\<open>COALESCE\<close> of a missing cutoff row: every message is before it, and after it.\<close>

definition messages_before :: "database \<Rightarrow> thread_id \<Rightarrow> message_id \<Rightarrow> nat \<Rightarrow> message_row list" where
  "messages_before db thread cutoff limit =
     take limit (filter (\<lambda>r. case message_time db cutoff of None \<Rightarrow> True | Some t \<Rightarrow> r_created_at r < t)
       (thread_messages db thread))"

definition messages_after :: "database \<Rightarrow> thread_id \<Rightarrow> message_id \<Rightarrow> nat \<Rightarrow> message_row list" where
  "messages_after db thread cutoff limit =
     take limit (filter (\<lambda>r. case message_time db cutoff of None \<Rightarrow> True | Some t \<Rightarrow> t < r_created_at r)
       (thread_messages db thread))"

subsection \<open>Compactions and sidecar metadata\<close>

definition set_thread_summary ::
  "database \<Rightarrow> timestamp \<Rightarrow> thread_id \<Rightarrow> string \<Rightarrow> message_id \<Rightarrow> message_id option \<Rightarrow> nat \<Rightarrow> nat
     \<Rightarrow> database" where
  "set_thread_summary db now thread summary until from_id msg_count tokens =
     db\<lparr>compactions := upsert c_thread
          \<lparr>c_thread = thread, c_summary = summary, c_until = until, c_from = from_id,
           c_msg_count = msg_count, c_input_tokens = tokens, c_compacted_at = now\<rparr> (compactions db)\<rparr>"

definition get_thread_summary :: "database \<Rightarrow> thread_id \<Rightarrow> compaction option" where
  "get_thread_summary db thread = find_row c_thread thread (compactions db)"

definition set_thread_meta :: "database \<Rightarrow> thread_id \<Rightarrow> json \<Rightarrow> database" where
  "set_thread_meta db thread v = db\<lparr>thread_meta := upsert fst (thread, v) (thread_meta db)\<rparr>"

definition get_thread_meta :: "database \<Rightarrow> thread_id \<Rightarrow> json option" where
  "get_thread_meta db thread = map_option snd (find_row fst thread (thread_meta db))"

definition set_message_meta :: "database \<Rightarrow> message_id \<Rightarrow> json \<Rightarrow> database" where
  "set_message_meta db m v = db\<lparr>message_meta := upsert fst (m, v) (message_meta db)\<rparr>"

definition get_message_meta :: "database \<Rightarrow> message_id \<Rightarrow> json option" where
  "get_message_meta db m = map_option snd (find_row fst m (message_meta db))"

definition get_message_meta_for_thread :: "database \<Rightarrow> thread_id \<Rightarrow> (message_id \<times> json) list" where
  "get_message_meta_for_thread db thread =
     filter (\<lambda>(i, _). list_ex (\<lambda>r. r_id r = i \<and> r_thread_id r = thread) (messages db)) (message_meta db)"

subsection \<open>Tool-call audit\<close>

definition record_tool_start ::
  "database \<Rightarrow> timestamp \<Rightarrow> tool_use_id \<Rightarrow> message_id \<Rightarrow> string \<Rightarrow> json \<Rightarrow> db_error + database" where
  "record_tool_start db now i mid tool input =
     (if find_row k_id i (tool_calls db) \<noteq> None then Inl UniqueViolation
      else if \<not> list_ex (\<lambda>r. r_id r = mid) (messages db) then Inl ForeignKeyViolation
      else Inr (db\<lparr>tool_calls := tool_calls db @
             [\<lparr>k_id = i, k_message_id = mid, k_tool_name = tool, k_input = input, k_output = None,
               k_is_error = False, k_started_at = now, k_completed_at = None\<rparr>]\<rparr>))"

definition record_tool_completion ::
  "database \<Rightarrow> timestamp \<Rightarrow> tool_use_id \<Rightarrow> json \<Rightarrow> bool \<Rightarrow> database" where
  "record_tool_completion db now i out err =
     db\<lparr>tool_calls := update_where (\<lambda>k. k_id k = i)
          (\<lambda>k. k\<lparr>k_output := Some out, k_is_error := err, k_completed_at := Some now\<rparr>) (tool_calls db)\<rparr>"

definition find_tool_call :: "database \<Rightarrow> tool_use_id \<Rightarrow> tool_call_row option" where
  "find_tool_call db i = find_row k_id i (tool_calls db)"

subsection \<open>Chat bindings and approval decisions\<close>

definition binding_key :: "chat_binding \<Rightarrow> string \<times> string" where
  "binding_key b = (b_chat_id b, b_user_id b)"

definition upsert_binding ::
  "database \<Rightarrow> timestamp \<Rightarrow> string \<Rightarrow> string \<Rightarrow> project_id \<Rightarrow> database" where
  "upsert_binding db now chat user project =
     db\<lparr>bindings := upsert binding_key
          \<lparr>b_chat_id = chat, b_user_id = user, b_project = project, b_bound_at = now\<rparr> (bindings db)\<rparr>"

definition find_binding :: "database \<Rightarrow> string \<Rightarrow> string \<Rightarrow> chat_binding option" where
  "find_binding db chat user = find_row binding_key (chat, user) (bindings db)"

type_synonym decision_slot = "tenant_id \<times> project_id \<times> string \<times> string"

definition decision_key :: "stored_decision \<Rightarrow> decision_slot" where
  "decision_key d = (d_tenant d, d_project d, d_tool d, d_signature d)"

definition remember_decision ::
  "database \<Rightarrow> timestamp \<Rightarrow> tenant_id \<Rightarrow> project_id \<Rightarrow> string \<Rightarrow> string \<Rightarrow> persisted_decision \<Rightarrow> database"
where
  "remember_decision db now tenant project tool sig dec =
     db\<lparr>decisions := upsert decision_key
          \<lparr>d_tenant = tenant, d_project = project, d_tool = tool, d_signature = sig,
           d_decision = dec, d_decided_at = now\<rparr> (decisions db)\<rparr>"

definition exact_decision :: "database \<Rightarrow> decision_slot \<Rightarrow> stored_decision option" where
  "exact_decision db k = find_row decision_key k (decisions db)"

definition find_decision ::
  "database \<Rightarrow> tenant_id \<Rightarrow> project_id \<Rightarrow> string \<Rightarrow> string \<Rightarrow> stored_decision option" where
  "find_decision db tenant project tool sig =
     (case (if sig \<noteq> [] then exact_decision db (tenant, project, tool, sig) else None) of
        Some d \<Rightarrow> Some d
      | None \<Rightarrow> exact_decision db (tenant, project, tool, []))"

definition forget_decision ::
  "database \<Rightarrow> tenant_id \<Rightarrow> project_id \<Rightarrow> string \<Rightarrow> string \<Rightarrow> database" where
  "forget_decision db tenant project tool sig =
     db\<lparr>decisions := delete_where (\<lambda>d. decision_key d = (tenant, project, tool, sig)) (decisions db)\<rparr>"

definition forget_decisions_for_tool ::
  "database \<Rightarrow> tenant_id \<Rightarrow> project_id \<Rightarrow> string \<Rightarrow> database" where
  "forget_decisions_for_tool db tenant project tool =
     db\<lparr>decisions := delete_where
          (\<lambda>d. d_tenant d = tenant \<and> d_project d = project \<and> d_tool d = tool) (decisions db)\<rparr>"

definition list_decisions ::
  "database \<Rightarrow> tenant_id option \<Rightarrow> project_id option \<Rightarrow> stored_decision list" where
  "list_decisions db tenant project =
     sort_key (\<lambda>d. - d_decided_at d)
       (filter (\<lambda>d. (case tenant of None \<Rightarrow> True | Some t \<Rightarrow> d_tenant d = t)
             \<and> (case project of None \<Rightarrow> True | Some p \<Rightarrow> d_project d = p)) (decisions db))"

subsection \<open>Scheduled tasks\<close>

definition schedule_task ::
  "database \<Rightarrow> string \<Rightarrow> timestamp \<Rightarrow> tenant_id \<Rightarrow> project_id \<Rightarrow> string \<Rightarrow> string \<Rightarrow> string
     \<Rightarrow> int option \<Rightarrow> timestamp \<Rightarrow> scheduled_task \<times> database" where
  "schedule_task db i now tenant project chat plugin prompt interval next_fire =
     (let row = \<lparr>s_id = i, s_tenant = tenant, s_project = project, s_chat_id = chat,
                 s_plugin = plugin, s_prompt = prompt, s_interval_secs = interval,
                 s_next_fire_at = next_fire, s_last_fired_at = None, s_enabled = True,
                 s_created_at = now\<rparr>
      in (row, db\<lparr>scheduled := scheduled db @ [row]\<rparr>))"

definition list_due_scheduled_tasks :: "database \<Rightarrow> timestamp \<Rightarrow> nat \<Rightarrow> scheduled_task list" where
  "list_due_scheduled_tasks db now limit =
     take limit (sort_key s_next_fire_at
       (filter (\<lambda>s. s_enabled s \<and> s_next_fire_at s \<le> now) (scheduled db)))"

definition list_scheduled_tasks_for_chat ::
  "database \<Rightarrow> tenant_id \<Rightarrow> string \<Rightarrow> scheduled_task list" where
  "list_scheduled_tasks_for_chat db tenant chat =
     sort_key s_next_fire_at
       (filter (\<lambda>s. s_tenant s = tenant \<and> s_chat_id s = chat) (scheduled db))"

definition reschedule_task ::
  "database \<Rightarrow> string \<Rightarrow> timestamp \<Rightarrow> timestamp option \<Rightarrow> database" where
  "reschedule_task db i fired_at next_fire =
     db\<lparr>scheduled := update_where (\<lambda>s. s_id s = i)
          (\<lambda>s. case next_fire of
                 Some next \<Rightarrow> s\<lparr>s_last_fired_at := Some fired_at, s_next_fire_at := next\<rparr>
               | None \<Rightarrow> s\<lparr>s_last_fired_at := Some fired_at, s_enabled := False\<rparr>)
          (scheduled db)\<rparr>"

definition set_scheduled_task_enabled :: "database \<Rightarrow> string \<Rightarrow> bool \<Rightarrow> database" where
  "set_scheduled_task_enabled db i enabled =
     db\<lparr>scheduled := update_where (\<lambda>s. s_id s = i) (\<lambda>s. s\<lparr>s_enabled := enabled\<rparr>) (scheduled db)\<rparr>"

definition delete_scheduled_task :: "database \<Rightarrow> string \<Rightarrow> database" where
  "delete_scheduled_task db i = db\<lparr>scheduled := delete_where (\<lambda>s. s_id s = i) (scheduled db)\<rparr>"

definition list_all_scheduled_tasks :: "database \<Rightarrow> bool \<Rightarrow> scheduled_task list" where
  "list_all_scheduled_tasks db enabled_only =
     sort_key s_next_fire_at (filter (\<lambda>s. enabled_only \<longrightarrow> s_enabled s) (scheduled db))"

subsection \<open>The outbox\<close>

definition outbox_enqueue ::
  "database \<Rightarrow> timestamp \<Rightarrow> string \<Rightarrow> string \<Rightarrow> string \<Rightarrow> string \<Rightarrow> outbox_kind \<Rightarrow> json \<Rightarrow> timestamp
     \<Rightarrow> db_error + database" where
  "outbox_enqueue db now i plugin tenant chat kind payload next_attempt =
     (if find_row o_id i (outbox db) \<noteq> None then Inl UniqueViolation
      else Inr (db\<lparr>outbox := outbox db @
             [\<lparr>o_id = i, o_plugin = plugin, o_tenant = tenant, o_chat_id = chat, o_kind = kind,
               o_payload = payload, o_attempts = 0, o_next_attempt_at = next_attempt,
               o_status = Pending, o_last_error = None, o_platform_message_id = None,
               o_created_at = now, o_delivered_at = None\<rparr>]\<rparr>))"

definition outbox_mark_delivered ::
  "database \<Rightarrow> timestamp \<Rightarrow> string \<Rightarrow> string option \<Rightarrow> database" where
  "outbox_mark_delivered db now i platform_id =
     db\<lparr>outbox := update_where (\<lambda>r. o_id r = i)
          (\<lambda>r. r\<lparr>o_status := Delivered, o_platform_message_id := platform_id,
                  o_delivered_at := Some now, o_last_error := None\<rparr>) (outbox db)\<rparr>"

definition outbox_mark_failed :: "database \<Rightarrow> string \<Rightarrow> string \<Rightarrow> database" where
  "outbox_mark_failed db i err =
     db\<lparr>outbox := update_where (\<lambda>r. o_id r = i)
          (\<lambda>r. r\<lparr>o_status := Failed, o_last_error := Some err\<rparr>) (outbox db)\<rparr>"

definition outbox_reschedule :: "database \<Rightarrow> string \<Rightarrow> string \<Rightarrow> timestamp \<Rightarrow> database" where
  "outbox_reschedule db i err next_attempt =
     db\<lparr>outbox := update_where (\<lambda>r. o_id r = i)
          (\<lambda>r. r\<lparr>o_attempts := o_attempts r + 1, o_last_error := Some err,
                  o_next_attempt_at := next_attempt\<rparr>) (outbox db)\<rparr>"

definition outbox_claim_pending :: "database \<Rightarrow> timestamp \<Rightarrow> string \<Rightarrow> nat \<Rightarrow> outbox_row list" where
  "outbox_claim_pending db now plugin limit =
     take limit (sort_key o_created_at
       (filter (\<lambda>r. o_plugin r = plugin \<and> o_status r = Pending \<and> o_next_attempt_at r \<le> now)
         (outbox db)))"

text \<open>\<open>list_outbox\<close>: the sort key of the query, most significant column first.\<close>

definition status_rank :: "outbox_status \<Rightarrow> int" where
  "status_rank s = (case s of Pending \<Rightarrow> 0 | Failed \<Rightarrow> 1 | Delivered \<Rightarrow> 2)"

definition list_outbox :: "database \<Rightarrow> outbox_status option \<Rightarrow> nat \<Rightarrow> outbox_row list" where
  "list_outbox db status limit =
     take limit
       (case status of
          Some s \<Rightarrow>
            sort_key o_next_attempt_at (sort_key (\<lambda>r. - o_created_at r)
              (filter (\<lambda>r. o_status r = s) (outbox db)))
        | None \<Rightarrow>
            sort_key (\<lambda>r. status_rank (o_status r)) (sort_key o_next_attempt_at
              (sort_key (\<lambda>r. - o_created_at r) (outbox db))))"

definition outbox_force_retry :: "database \<Rightarrow> timestamp \<Rightarrow> string \<Rightarrow> bool \<times> database" where
  "outbox_force_retry db now i =
     (list_ex (\<lambda>r. o_id r = i) (outbox db),
      db\<lparr>outbox := update_where (\<lambda>r. o_id r = i)
          (\<lambda>r. r\<lparr>o_status := Pending, o_next_attempt_at := now, o_last_error := None\<rparr>) (outbox db)\<rparr>)"

definition outbox_find :: "database \<Rightarrow> string \<Rightarrow> outbox_row option" where
  "outbox_find db i = find_row o_id i (outbox db)"

definition outbox_purge_delivered_older_than :: "database \<Rightarrow> timestamp \<Rightarrow> nat \<times> database" where
  "outbox_purge_delivered_older_than db cutoff =
     (let old = (\<lambda>r. o_status r = Delivered
                   \<and> (case o_delivered_at r of None \<Rightarrow> False | Some t \<Rightarrow> t < cutoff))
      in (length (filter old (outbox db)), db\<lparr>outbox := delete_where old (outbox db)\<rparr>))"

subsection \<open>Inbound deduplication\<close>

text \<open>\<open>INSERT OR IGNORE\<close>: the flag is \<open>rows_affected == 0\<close>, the row was there already.\<close>

definition inbound_dedup_check_and_record ::
  "database \<Rightarrow> timestamp \<Rightarrow> string \<Rightarrow> string \<Rightarrow> bool \<times> database" where
  "inbound_dedup_check_and_record db now plugin mid =
     (if list_ex (\<lambda>r. i_plugin r = plugin \<and> i_message_id r = mid) (inbound_dedup db)
      then (True, db)
      else (False, db\<lparr>inbound_dedup := inbound_dedup db @
              [\<lparr>i_plugin = plugin, i_message_id = mid, i_seen_at = now\<rparr>]\<rparr>))"

definition inbound_dedup_purge_older_than :: "database \<Rightarrow> timestamp \<Rightarrow> nat \<times> database" where
  "inbound_dedup_purge_older_than db cutoff =
     (length (filter (\<lambda>r. i_seen_at r < cutoff) (inbound_dedup db)),
      db\<lparr>inbound_dedup := delete_where (\<lambda>r. i_seen_at r < cutoff) (inbound_dedup db)\<rparr>)"

subsection \<open>Tables used as maps\<close>

lemma find_row_Nil [simp]: "find_row key k [] = None"
  by (simp add: find_row_def)

lemma find_row_Cons [simp]:
  "find_row key k (r # rs) = (if key r = k then Some r else find_row key k rs)"
  by (simp add: find_row_def)

lemma find_row_append:
  "find_row key k (rs @ rs') = (case find_row key k rs of Some r \<Rightarrow> Some r | None \<Rightarrow> find_row key k rs')"
  by (induction rs) auto

lemma find_row_None: "find_row key k rs = None \<longleftrightarrow> (\<forall>r \<in> set rs. key r \<noteq> k)"
  by (induction rs) auto

lemma find_row_Some: "find_row key k rs = Some r \<Longrightarrow> r \<in> set rs \<and> key r = k"
  by (induction rs) (auto split: if_splits)

lemma find_row_update_same:
  "key row = k \<Longrightarrow> list_ex (\<lambda>r. key r = k) rows \<Longrightarrow>
     find_row key k (update_where (\<lambda>r. key r = k) (\<lambda>_. row) rows) = Some row"
  by (induction rows) (auto simp: update_where_def)

lemma find_row_update_other:
  "key row = k \<Longrightarrow> k' \<noteq> k \<Longrightarrow>
     find_row key k' (update_where (\<lambda>r. key r = k) (\<lambda>_. row) rows) = find_row key k' rows"
  by (induction rows) (auto simp: update_where_def)

lemma find_row_upsert:
  "find_row key k (upsert key row rows) = (if k = key row then Some row else find_row key k rows)"
proof (cases "list_ex (\<lambda>r. key r = key row) rows")
  case True
  then show ?thesis
    by (auto simp: upsert_def find_row_update_same find_row_update_other)
next
  case False
  then have "k = key row \<Longrightarrow> find_row key k rows = None"
    by (auto simp: find_row_None list_ex_iff)
  with False show ?thesis
    by (auto simp: upsert_def find_row_append split: option.splits)
qed

lemma distinct_upsert:
  "distinct (map key rows) \<Longrightarrow> distinct (map key (upsert key row rows))"
proof (cases "list_ex (\<lambda>r. key r = key row) rows")
  case True
  assume d: "distinct (map key rows)"
  have "map key (update_where (\<lambda>r. key r = key row) (\<lambda>_. row) rows) = map key rows"
    by (simp add: update_where_def)
  with d True show ?thesis by (simp add: upsert_def)
next
  case False
  assume "distinct (map key rows)"
  with False show ?thesis by (auto simp: upsert_def list_ex_iff)
qed

lemma find_row_delete:
  "find_row key k (delete_where (\<lambda>r. key r = k') rows) = (if k = k' then None else find_row key k rows)"
  by (induction rows) (auto simp: delete_where_def)

text \<open>What a client relies on when it uses a table as a map.\<close>

locale kv_put =
  fixes lookup :: "'t \<Rightarrow> 'k \<Rightarrow> 'v option"
    and put :: "'t \<Rightarrow> 'k \<Rightarrow> 'v \<Rightarrow> 't"
  assumes lookup_put: "lookup (put t k v) k' = (if k' = k then Some v else lookup t k')"
begin

definition put_all :: "'t \<Rightarrow> ('k \<times> 'v) list \<Rightarrow> 't" where
  "put_all t kvs = foldl (\<lambda>t (k, v). put t k v) t kvs"

text \<open>After a run of upserts a lookup returns the last value written for the key, if any.\<close>

lemma lookup_put_all:
  "lookup (put_all t kvs) k = (case map_of (rev kvs) k of Some v \<Rightarrow> Some v | None \<Rightarrow> lookup t k)"
proof (induction kvs arbitrary: t)
  case Nil
  then show ?case by (simp add: put_all_def)
next
  case (Cons kv kvs)
  obtain k' v' where kv: "kv = (k', v')" by fastforce
  have "put_all t (kv # kvs) = put_all (put t k' v') kvs" by (simp add: put_all_def kv)
  with Cons show ?case by (auto simp: kv lookup_put map_add_def split: option.splits)
qed

lemma lookup_put_twice: "lookup (put (put t k v) k w) = lookup (put t k w)"
  by (simp add: fun_eq_iff lookup_put)

lemma lookup_put_swap: "k \<noteq> l \<Longrightarrow> lookup (put (put t k v) l w) = lookup (put (put t l w) k v)"
  by (simp add: fun_eq_iff lookup_put)

end

locale kv_store = kv_put lookup put
  for lookup :: "'t \<Rightarrow> 'k \<Rightarrow> 'v option" and put :: "'t \<Rightarrow> 'k \<Rightarrow> 'v \<Rightarrow> 't" +
  fixes del :: "'t \<Rightarrow> 'k \<Rightarrow> 't"
  assumes lookup_del: "lookup (del t k) k' = (if k' = k then None else lookup t k')"
begin

lemma lookup_del_put: "lookup (del (put t k v) k) = lookup (del t k)"
  by (simp add: fun_eq_iff lookup_put lookup_del)

lemma lookup_put_del: "lookup (put (del t k) k v) = lookup (put t k v)"
  by (simp add: fun_eq_iff lookup_put lookup_del)

end

interpretation tmeta: kv_put get_thread_meta set_thread_meta
  by unfold_locales (simp add: get_thread_meta_def set_thread_meta_def find_row_upsert)

interpretation mmeta: kv_put get_message_meta set_message_meta
  by unfold_locales (simp add: get_message_meta_def set_message_meta_def find_row_upsert)

interpretation bind_map: kv_put "\<lambda>db (c, u). map_option (\<lambda>b. (b_project b, b_bound_at b)) (find_binding db c u)"
    "\<lambda>db (c, u) (p, now). upsert_binding db now c u p"
  by unfold_locales (auto simp: find_binding_def upsert_binding_def find_row_upsert binding_key_def split: if_splits)

lemma exact_decision_remember:
  "exact_decision (remember_decision db now t p tool sig dec) k =
     (if k = (t, p, tool, sig)
      then Some \<lparr>d_tenant = t, d_project = p, d_tool = tool, d_signature = sig,
                 d_decision = dec, d_decided_at = now\<rparr>
      else exact_decision db k)"
  by (simp add: exact_decision_def remember_decision_def find_row_upsert decision_key_def)

lemma exact_decision_forget:
  "exact_decision (forget_decision db t p tool sig) k =
     (if k = (t, p, tool, sig) then None else exact_decision db k)"
  by (simp add: exact_decision_def forget_decision_def find_row_delete)

interpretation dec_map: kv_store
    "\<lambda>db k. map_option (\<lambda>d. (d_decision d, d_decided_at d)) (exact_decision db k)"
    "\<lambda>db (t, p, tool, sig) (dec, now). remember_decision db now t p tool sig dec"
    "\<lambda>db (t, p, tool, sig). forget_decision db t p tool sig"
  by unfold_locales (auto simp: exact_decision_remember exact_decision_forget split: if_splits)

subsection \<open>What the queries promise\<close>

lemma sort_key_snoc_max:
  "\<forall>x \<in> set xs. f x \<le> f y \<Longrightarrow> sort_key f (xs @ [y]) = sort_key f xs @ [y]"
proof (induction xs)
  case Nil
  then show ?case by simp
next
  case (Cons x xs)
  have ins: "f x \<le> f y \<Longrightarrow> insort_key f x (zs @ [y]) = insort_key f x zs @ [y]" for zs
    by (induction zs) auto
  from Cons show ?case by (simp add: ins)
qed

lemma limit_last_snoc: "0 < n \<Longrightarrow> limit_last n (xs @ [x]) = limit_last (n - 1) xs @ [x]"
  by (cases n) (simp_all add: limit_last_def)

text \<open>Messages come back in the order they were appended.  When the clock did not run backwards
  within the thread, an accepted append is the last element of the next read of that thread, in front
  of it stand the messages a read with one less would have returned before, and reads of every other
  thread are unchanged.\<close>

theorem append_is_read_last:
  assumes "append_message db i now thread session rl content = Inr (row, db')"
    and "\<forall>r \<in> set (messages db). r_thread_id r = thread \<longrightarrow> r_created_at r \<le> now"
    and "0 < limit"
  shows "recent_messages db' thread limit = recent_messages db thread (limit - 1) @ [row]
    \<and> r_id row = i \<and> r_content row = content \<and> r_role row = rl
    \<and> (\<forall>other. other \<noteq> thread \<longrightarrow> recent_messages db' other limit = recent_messages db other limit)"
proof -
  have row: "row = \<lparr>r_id = i, r_thread_id = thread, r_session_id = session, r_role = rl,
                   r_content = content, r_created_at = now, r_redacted_at = None\<rparr>"
    and db': "db' = db\<lparr>messages := messages db @ [row]\<rparr>"
    using assms(1) by (auto simp: append_message_def Let_def split: if_splits)
  have "thread_messages db' thread = thread_messages db thread @ [row]"
    using assms(2) by (simp add: thread_messages_def db' row sort_key_snoc_max)
  moreover have "thread_messages db' other = thread_messages db other" if "other \<noteq> thread" for other
    using that by (simp add: thread_messages_def db' row)
  ultimately show ?thesis
    using assms(3) by (simp add: recent_messages_def limit_last_snoc row)
qed

definition sample_db :: database where
  "sample_db = empty_db\<lparr>threads := [\<lparr>t_id = ''t'', t_tenant = ''a'', t_project = ''p'', t_created_at = 0\<rparr>],
     messages := [\<lparr>r_id = 0, r_thread_id = ''t'', r_session_id = 0, r_role = User,
       r_content = [Text ''hi''], r_created_at = 1, r_redacted_at = None\<rparr>]\<rparr>"

theorem append_is_read_last_witness:
  "\<exists>row db'. append_message sample_db 1 2 ''t'' 0 Assistant [Text ''yo''] = Inr (row, db')
     \<and> recent_messages db' ''t'' 2 = recent_messages sample_db ''t'' 1 @ [row]"
proof -
  obtain row db' where a: "append_message sample_db 1 2 ''t'' 0 Assistant [Text ''yo''] = Inr (row, db')"
    by (simp add: append_message_def Let_def sample_db_def empty_db_def find_thread_def)
  have "recent_messages db' ''t'' 2 = recent_messages sample_db ''t'' (2 - 1) @ [row]"
    by (rule append_is_read_last [THEN conjunct1, OF a]) (simp_all add: sample_db_def)
  with a show ?thesis by auto
qed

text \<open>Lookup of a remembered decision, completely.  A decision stored for one signature answers
  exactly that tenant, project, tool and signature; a decision stored with the empty signature (the
  catch-all) answers every signature of its tool that has no decision of its own; every other lookup
  is as before.\<close>

theorem find_decision_after_remember:
  "find_decision (remember_decision db now t p tool sig dec) t' p' tool' sig' =
     (if (t', p', tool') = (t, p, tool)
         \<and> (sig' = sig \<or> sig = [] \<and> exact_decision db (t, p, tool, sig') = None)
      then Some \<lparr>d_tenant = t, d_project = p, d_tool = tool, d_signature = sig,
                 d_decision = dec, d_decided_at = now\<rparr>
      else find_decision db t' p' tool' sig')"
  by (auto simp: find_decision_def exact_decision_remember split: option.splits)

text \<open>The inbound deduplication over a whole stream of deliveries.\<close>

fun dedup_run :: "database \<Rightarrow> (timestamp \<times> string \<times> string) list \<Rightarrow> bool list \<times> database" where
  "dedup_run db [] = ([], db)"
| "dedup_run db ((now, plugin, mid) # ds) =
     (case inbound_dedup_check_and_record db now plugin mid of
        (seen, db') \<Rightarrow> (case dedup_run db' ds of (flags, db'') \<Rightarrow> (seen # flags, db'')))"

definition dedup_keys :: "database \<Rightarrow> (string \<times> string) set" where
  "dedup_keys db = (\<lambda>r. (i_plugin r, i_message_id r)) ` set (inbound_dedup db)"

lemma dedup_step:
  "inbound_dedup_check_and_record db now plugin mid = (seen, db') \<Longrightarrow>
     seen = ((plugin, mid) \<in> dedup_keys db) \<and> dedup_keys db' = insert (plugin, mid) (dedup_keys db)"
  by (auto simp: inbound_dedup_check_and_record_def dedup_keys_def list_ex_iff image_iff split: if_splits)

definition accepted :: "(timestamp \<times> string \<times> string) list \<Rightarrow> bool list \<Rightarrow> (string \<times> string) list" where
  "accepted ds flags = map (\<lambda>((_, k), _). k) (filter (\<lambda>(_, seen). \<not> seen) (zip ds flags))"

lemma accepted_simps [simp]:
  "accepted [] flags = []"
  "accepted ((now, k) # ds) (seen # flags) = (if seen then accepted ds flags else k # accepted ds flags)"
  by (simp_all add: accepted_def)


text \<open>The outbox worker's batch.  A claim returns only pending rows of its own plugin that are due,
  at most \<open>limit\<close> of them, oldest first; a due row is left out only when the batch is full of rows that
  are not younger than it.\<close>

theorem outbox_claim_fair:
  "(let batch = outbox_claim_pending db now plugin limit in
     length batch \<le> limit
     \<and> sorted (map o_created_at batch)
     \<and> set batch \<subseteq> {r \<in> set (outbox db). o_plugin r = plugin \<and> o_status r = Pending \<and> o_next_attempt_at r \<le> now}
     \<and> (\<forall>r \<in> set (outbox db). o_plugin r = plugin \<and> o_status r = Pending \<and> o_next_attempt_at r \<le> now
          \<and> r \<notin> set batch \<longrightarrow> length batch = limit \<and> (\<forall>b \<in> set batch. o_created_at b \<le> o_created_at r)))"
proof -
  define due where "due = filter (\<lambda>r. o_plugin r = plugin \<and> o_status r = Pending \<and> o_next_attempt_at r \<le> now) (outbox db)"
  define xs where "xs = sort_key o_created_at due"
  have b: "outbox_claim_pending db now plugin limit = take limit xs"
    by (simp add: outbox_claim_pending_def xs_def due_def)
  have set: "set xs = set due" by (simp add: xs_def)
  have sorted: "sorted (map o_created_at xs)" by (simp add: xs_def)
  then have s1: "sorted (map o_created_at (take limit xs))"
    by (simp add: sorted_wrt_take take_map [symmetric])
  have sub: "set (take limit xs) \<subseteq> set due" using set by (auto dest: in_set_takeD)
  have out: "length (take limit xs) = limit \<and> (\<forall>b \<in> set (take limit xs). o_created_at b \<le> o_created_at r)"
    if "r \<in> set due" "r \<notin> set (take limit xs)" for r
  proof -
    from that set have "r \<in> set (drop limit xs)"
      by (metis Un_iff append_take_drop_id set_append)
    moreover from sorted have "sorted (map o_created_at (take limit xs @ drop limit xs))" by simp
    ultimately show ?thesis
      by (cases "limit \<le> length xs") (auto simp: sorted_append simp del: append_take_drop_id)
  qed
  show ?thesis
    unfolding b Let_def using s1 sub out by (auto simp: due_def)
qed

definition sample_row :: "string \<Rightarrow> timestamp \<Rightarrow> outbox_row" where
  "sample_row i t = \<lparr>o_id = i, o_plugin = ''lark'', o_tenant = ''a'', o_chat_id = ''c'',
     o_kind = SendMessage, o_payload = JNull, o_attempts = 0, o_next_attempt_at = t, o_status = Pending,
     o_last_error = None, o_platform_message_id = None, o_created_at = t, o_delivered_at = None\<rparr>"

definition sample_outbox :: database where
  "sample_outbox = empty_db\<lparr>outbox := [sample_row ''y'' 4, sample_row ''x'' 3]\<rparr>"

theorem outbox_claim_fair_witness:
  "sample_row ''y'' 4 \<in> set (outbox sample_outbox)
     \<and> sample_row ''y'' 4 \<notin> set (outbox_claim_pending sample_outbox 5 ''lark'' 1)
     \<and> length (outbox_claim_pending sample_outbox 5 ''lark'' 1) = 1"
proof -
  have m: "sample_row ''y'' 4 \<in> set (outbox sample_outbox)" by (simp add: sample_outbox_def)
  have n: "sample_row ''y'' 4 \<notin> set (outbox_claim_pending sample_outbox 5 ''lark'' 1)"
    by (simp add: sample_outbox_def outbox_claim_pending_def sample_row_def)
  show ?thesis
    using outbox_claim_fair [of sample_outbox 5 "''lark''" 1] m n
    by (auto simp: Let_def sample_row_def)
qed

text \<open>The last decision wins, per key.  After any sequence of approvals and denials, of any tenants,
  projects, tools and signatures, the decision on record for a key is the last one given for that very
  key, and a key never decided keeps what it had.\<close>

theorem last_decision_wins:
  "map_option (\<lambda>d. (d_decision d, d_decided_at d))
     (exact_decision (foldl (\<lambda>db ((t, p, tool, sig), dec, now). remember_decision db now t p tool sig dec) db ks) k)
   = (case map_of (rev ks) k of
        Some v \<Rightarrow> Some v
      | None \<Rightarrow> map_option (\<lambda>d. (d_decision d, d_decided_at d)) (exact_decision db k))"
proof -
  have "(\<lambda>db ((t, p, tool, sig), dec, now). remember_decision db now t p tool sig dec)
      = (\<lambda>db (k, v). (case k of (t, p, tool, sig) \<Rightarrow> \<lambda>(dec, now). remember_decision db now t p tool sig dec) v)"
    by (auto simp: fun_eq_iff)
  then show ?thesis
    using dec_map.lookup_put_all [of db ks k] by (simp add: dec_map.put_all_def)
qed

end
