(* ===== verification/Fence.thy ===== *)
theory Fence
  imports Prelude
begin

text \<open>
  The defence against re-ingested context of \<open>crates/snaca-engine/src/memory_fence.rs\<close>: the one-shot
  \<open>sanitize_context\<close> and the incremental \<open>StreamingScrubber\<close>.  A byte offset into the input is
  modelled by the remaining suffix.  The state of the scrubber is a record of its two fields; one
  \<open>push\<close> is a loop on them that returns what is forwarded.

  The locale \<open>chunked\<close> states what a consumer of a chunked stream relies on: processing two chunks is
  processing their concatenation.  Its lemmas lift this to any way of cutting the stream.
\<close>

subsection \<open>Protected fences and the one-shot helper\<close>

definition PROTECTED_FENCES :: "string list" where
  "PROTECTED_FENCES = [''memory-context'', ''attachments'']"

text \<open>The bytes that may follow the name of a fence: \<open>>\<close>, blank, tab, newline, \<open>/\<close>.\<close>

definition name_end :: "char \<Rightarrow> bool" where
  "name_end c \<longleftrightarrow> c = CHR ''>'' \<or> c = CHR '' '' \<or> c = CHR 0x09 \<or> c = CHR 0x0A \<or> c = CHR ''/''"

text \<open>The offset of the first occurrence of a byte at or after \<open>i\<close>, or the length.\<close>

definition scan_to :: "char \<Rightarrow> string \<Rightarrow> nat \<Rightarrow> nat" where
  "scan_to c s i = i + length (takeWhile (\<lambda>x. x \<noteq> c) (drop i s))"

text \<open>The first offset where \<open>needle\<close> occurs up to ASCII case.\<close>

fun find_ci :: "string \<Rightarrow> string \<Rightarrow> nat option" where
  "find_ci needle hay =
     (if length hay < length needle then None
      else if eq_ignore_ascii_case (take (length needle) hay) needle then Some 0
      else (case hay of [] \<Rightarrow> None | _ # cs \<Rightarrow> map_option Suc (find_ci needle cs)))"

declare find_ci.simps [simp del]

text \<open>The name of a fence opens at the head of \<open>s\<close>, which is a \<open><\<close>.\<close>

definition opens_fence :: "string \<Rightarrow> string \<Rightarrow> bool" where
  "opens_fence name s \<longleftrightarrow>
     Suc (length name) < length s
     \<and> eq_ignore_ascii_case (take (length name) (drop 1 s)) name
     \<and> name_end (s ! Suc (length name))"

definition block_length :: "string \<Rightarrow> string \<Rightarrow> nat" where
  "block_length name s =
     (let j = scan_to (CHR ''>'') s (Suc (length name)); close_marker = ''</'' @ name in
      if length s \<le> j then length s
      else if s ! (j - 1) = CHR ''/'' then j + 1
      else (case find_ci close_marker (drop (j + 1) s) of
              None \<Rightarrow> length s
            | Some k \<Rightarrow>
                (let end_at = scan_to (CHR ''>'') s (j + 1 + k + length close_marker) in
                 if end_at < length s then end_at + 1 else end_at)))"

fun strip_named :: "string list \<Rightarrow> string \<Rightarrow> nat option" where
  "strip_named [] s = None"
| "strip_named (name # names) s =
     (if opens_fence name s then Some (block_length name s) else strip_named names s)"

definition strip_protected_block :: "string \<Rightarrow> nat option" where
  "strip_protected_block s = strip_named PROTECTED_FENCES s"

text \<open>The length of the character at the head of \<open>s\<close>.\<close>

definition next_char_boundary :: "string \<Rightarrow> nat" where
  "next_char_boundary s = 1 + length (takeWhile is_cont (drop 1 s))"

lemma block_length_pos: "s \<noteq> [] \<Longrightarrow> 0 < block_length name s"
  by (auto simp: block_length_def Let_def scan_to_def split: option.splits)

lemma strip_named_pos: "s \<noteq> [] \<Longrightarrow> strip_named names s = Some n \<Longrightarrow> 0 < n"
  by (induction names) (auto simp: block_length_pos split: if_splits)

lemma strip_protected_block_pos: "strip_protected_block (c # cs) = Some n \<Longrightarrow> 0 < n"
  unfolding strip_protected_block_def by (rule strip_named_pos [of "c # cs"]) simp_all

function sanitize_loop :: "string \<Rightarrow> string" where
  "sanitize_loop [] = []"
| "sanitize_loop (c # cs) =
     (case (if c = CHR ''<'' then strip_protected_block (c # cs) else None) of
        Some skip \<Rightarrow> sanitize_loop (drop skip (c # cs))
      | None \<Rightarrow>
          take (next_char_boundary (c # cs)) (c # cs)
            @ sanitize_loop (drop (next_char_boundary (c # cs)) (c # cs)))"
  by pat_completeness auto
termination
  by (relation "measure length")
    (auto dest: strip_protected_block_pos simp: next_char_boundary_def split: if_splits)

definition sanitize_context :: "string \<Rightarrow> string" where
  "sanitize_context input = (if CHR ''<'' \<notin> set input then input else sanitize_loop input)"

subsection \<open>The incremental scrubber\<close>

record scrubber =
  held :: string
  inside :: "string option"

definition new_scrubber :: scrubber where
  "new_scrubber = \<lparr>held = [], inside = None\<rparr>"

datatype open_classification =
    NotProtected
  | Incomplete
  | Protected string nat
  | ProtectedSelfClosing nat

text \<open>The loop over the names; \<open>None\<close> when it ran through without a verdict.\<close>

fun classify_names :: "string list \<Rightarrow> string \<Rightarrow> open_classification option" where
  "classify_names [] s = None"
| "classify_names (name # names) s =
     (let need = Suc (length name) in
      if length s \<le> need then
        (if eq_ignore_ascii_case (drop 1 s) (take (length s - 1) name) then Some Incomplete
         else classify_names names s)
      else if \<not> eq_ignore_ascii_case (take (length name) (drop 1 s)) name then classify_names names s
      else if \<not> name_end (s ! need) then classify_names names s
      else
        (let j = scan_to (CHR ''>'') s need in
         if length s \<le> j then Some Incomplete
         else if s ! (j - 1) = CHR ''/'' then Some (ProtectedSelfClosing (j + 1))
         else Some (Protected name (j + 1))))"

definition max_name_len :: nat where
  "max_name_len = fold max (map length PROTECTED_FENCES) 0"

definition classify_open :: "string \<Rightarrow> open_classification" where
  "classify_open s =
     (if length s < 2 then Incomplete
      else if s ! 1 = CHR ''/'' then NotProtected
      else case classify_names PROTECTED_FENCES s of
             Some c \<Rightarrow> c
           | None \<Rightarrow> if length s < 1 + max_name_len + 1 then Incomplete else NotProtected)"

text \<open>Largest \<open>n \<le> m\<close> such that the last \<open>n\<close> bytes of \<open>h\<close> may start the close tag.\<close>

fun overlap_from :: "nat \<Rightarrow> string \<Rightarrow> string \<Rightarrow> nat" where
  "overlap_from 0 h close = 0"
| "overlap_from (Suc m) h close =
     (if eq_ignore_ascii_case (take (Suc m) close) (drop (length h - Suc m) h) then Suc m
      else overlap_from m h close)"

definition held_tail_overlap :: "string \<Rightarrow> string \<Rightarrow> nat" where
  "held_tail_overlap h close = overlap_from (min (length h) (length close - 1)) h close"

definition close_tag :: "string \<Rightarrow> string" where
  "close_tag name = ''</'' @ name @ ''>''"

lemma classify_names_open_pos:
  "classify_names names s = Some (Protected name n) \<or> classify_names names s = Some (ProtectedSelfClosing n)
     \<Longrightarrow> 0 < n"
  by (induction names) (auto simp: Let_def split: if_splits)

lemma classify_open_pos:
  "classify_open s = Protected name n \<Longrightarrow> 0 < n"
  "classify_open s = ProtectedSelfClosing n \<Longrightarrow> 0 < n"
  using classify_names_open_pos [of PROTECTED_FENCES s name n]
  by (auto simp: classify_open_def split: if_splits option.splits)

text \<open>The loop of \<open>push\<close> on the buffer and the open fence; the first result is what is forwarded.\<close>

function push_loop :: "string option \<Rightarrow> string \<Rightarrow> string \<times> string \<times> string option" where
  "push_loop (Some name) h =
     (case find_ci (close_tag name) h of
        Some p \<Rightarrow> push_loop None (drop (p + length (close_tag name)) h)
      | None \<Rightarrow> ([], drop (length h - held_tail_overlap h (close_tag name)) h, Some name))"
| "push_loop None h =
     (let lt = scan_to (CHR ''<'') h 0 in
      if length h \<le> lt then
        (let take_to = length h - (if suffix ''<'' h then 1 else 0)
         in (take take_to h, drop take_to h, None))
      else
        (let rest = drop lt h in
         case classify_open rest of
           NotProtected \<Rightarrow>
             (case push_loop None (drop 1 rest) of (out, r) \<Rightarrow> (take lt h @ ''<'' @ out, r))
         | Incomplete \<Rightarrow> (take lt h, rest, None)
         | Protected name open_len \<Rightarrow>
             (case push_loop (Some name) (drop open_len rest) of (out, r) \<Rightarrow> (take lt h @ out, r))
         | ProtectedSelfClosing open_len \<Rightarrow>
             (case push_loop None (drop open_len rest) of (out, r) \<Rightarrow> (take lt h @ out, r))))"
  by pat_completeness auto

lemma find_ci_le: "find_ci needle hay = Some i \<Longrightarrow> i + length needle \<le> length hay"
proof (induction hay arbitrary: i)
  case Nil
  then show ?case by (auto simp: find_ci.simps split: if_splits)
next
  case (Cons c hay)
  from Cons.prems show ?case
    by (subst (asm) find_ci.simps) (auto split: if_splits dest: Cons.IH)
qed

termination push_loop
proof (relation "measure (length \<circ> snd)", simp)
  fix name h p
  assume "find_ci (close_tag name) h = Some p"
  then have "p + length (close_tag name) \<le> length h" by (rule find_ci_le)
  then show "((None, drop (p + length (close_tag name)) h), Some name, h) \<in> measure (length \<circ> snd)"
    by (simp add: close_tag_def)
qed (auto dest: classify_open_pos)

declare push_loop.simps [simp del]

definition push :: "scrubber \<Rightarrow> string \<Rightarrow> string \<times> scrubber" where
  "push s chunk =
     (case push_loop (inside s) (held s @ chunk) of (out, h, i) \<Rightarrow> (out, \<lparr>held = h, inside = i\<rparr>))"

definition flush :: "scrubber \<Rightarrow> string \<times> scrubber" where
  "flush s = (case inside s of
                Some _ \<Rightarrow> ([], \<lparr>held = [], inside = None\<rparr>)
              | None \<Rightarrow> (held s, \<lparr>held = [], inside = None\<rparr>))"

subsection \<open>Verdicts are stable under further input\<close>

lemma scan_to_le: "i \<le> length s \<Longrightarrow> scan_to c s i \<le> length s"
  unfolding scan_to_def
  using length_takeWhile_le [of "\<lambda>x. x \<noteq> c" "drop i s"] by simp

lemma takeWhile_append_stop:
  "length (takeWhile P xs) < length xs \<Longrightarrow> takeWhile P (xs @ ys) = takeWhile P xs"
  by (induction xs) (auto split: if_splits)

lemma scan_to_extend:
  "i \<le> length s \<Longrightarrow> scan_to c s i < length s \<Longrightarrow> scan_to c (s @ t) i = scan_to c s i"
  unfolding scan_to_def by (subst drop_append) (simp add: takeWhile_append_stop)

lemma eq_ignore_ascii_case_take:
  "eq_ignore_ascii_case a b \<Longrightarrow> eq_ignore_ascii_case (take n a) (take n b)"
  by (simp add: eq_ignore_ascii_case_def take_map [symmetric])

lemma name_mismatch_extend:
  assumes "s \<noteq> []" "length s \<le> Suc (length name)"
    and "\<not> eq_ignore_ascii_case (drop 1 s) (take (length s - 1) name)"
  shows "\<not> eq_ignore_ascii_case (take (length name) (drop 1 (s @ t))) name"
    and "\<not> eq_ignore_ascii_case (drop 1 (s @ t)) (take (length (s @ t) - 1) name)"
proof -
  have "take (length s - 1) (drop 1 (s @ t)) = drop 1 s"
    using assms(1) by (cases s) auto
  moreover have "take (length s - 1) (take (length name) (drop 1 (s @ t)))
      = take (length s - 1) (drop 1 (s @ t))"
    using assms(2) by (simp add: min_def)
  ultimately show "\<not> eq_ignore_ascii_case (take (length name) (drop 1 (s @ t))) name"
    using eq_ignore_ascii_case_take [of _ name "length s - 1"] assms(3) by metis
  have "take (length s - 1) (take (length (s @ t) - 1) name) = take (length s - 1) name"
    by (simp add: min_def)
  then show "\<not> eq_ignore_ascii_case (drop 1 (s @ t)) (take (length (s @ t) - 1) name)"
    using eq_ignore_ascii_case_take [of "drop 1 (s @ t)" _ "length s - 1"] assms(3)
      \<open>take (length s - 1) (drop 1 (s @ t)) = drop 1 s\<close> by metis
qed

lemma classify_names_extend:
  "s \<noteq> [] \<Longrightarrow> classify_names names s = Some c \<Longrightarrow> c \<noteq> Incomplete \<Longrightarrow> classify_names names (s @ t) = Some c"
proof (induction names)
  case Nil
  then show ?case by simp
next
  case (Cons name names)
  show ?case
  proof (cases "length s \<le> Suc (length name)")
    case True
    with Cons.prems have m: "\<not> eq_ignore_ascii_case (drop 1 s) (take (length s - 1) name)"
      and c: "classify_names names s = Some c"
      by (auto simp: Let_def split: if_splits)
    with Cons name_mismatch_extend [OF Cons.prems(1) True m, of t] show ?thesis
      by (auto simp: Let_def)
  next
    case False
    have t1: "take (length name) (drop 1 (s @ t)) = take (length name) (drop 1 s)"
      and n1: "(s @ t) ! Suc (length name) = s ! Suc (length name)"
      using False by (simp_all add: nth_append)
    show ?thesis
    proof (cases "eq_ignore_ascii_case (take (length name) (drop 1 s)) name \<and> name_end (s ! Suc (length name))")
      case no: False
      with Cons False t1 n1 show ?thesis by (auto simp: Let_def)
    next
      case yes: True
      let ?j = "scan_to (CHR ''>'') s (Suc (length name))"
      from yes Cons.prems False have j: "?j < length s"
        by (auto simp: Let_def split: if_splits)
      have "0 < ?j" by (simp add: scan_to_def)
      with j have "?j - 1 < length s" by linarith
      then have "(s @ t) ! (?j - 1) = s ! (?j - 1)" by (simp only: nth_append if_True)
      with yes Cons.prems False t1 n1 j show ?thesis
        by (auto simp: Let_def scan_to_extend split: if_splits)
    qed
  qed
qed

lemma classify_names_None_extend:
  "s \<noteq> [] \<Longrightarrow> \<forall>name \<in> set names. Suc (length name) < length s \<Longrightarrow> classify_names names s = None
     \<Longrightarrow> classify_names names (s @ t) = None"
  by (induction names) (auto simp: Let_def nth_append split: if_splits)

lemma PROTECTED_FENCES_length: "name \<in> set PROTECTED_FENCES \<Longrightarrow> length name \<le> max_name_len"
  by (auto simp: PROTECTED_FENCES_def max_name_len_def)

lemma classify_open_extend:
  assumes "classify_open s \<noteq> Incomplete"
  shows "classify_open (s @ t) = classify_open s"
proof -
  from assms have len: "2 \<le> length s" by (auto simp: classify_open_def split: if_splits)
  then have s: "s \<noteq> []" and nth: "(s @ t) ! 1 = s ! 1" by (auto simp: nth_append)
  show ?thesis
  proof (cases "s ! 1 = CHR ''/''")
    case True
    with len nth show ?thesis by (simp add: classify_open_def)
  next
    case False
    show ?thesis
    proof (cases "classify_names PROTECTED_FENCES s")
      case (Some c)
      with assms len False have "c \<noteq> Incomplete" by (auto simp: classify_open_def)
      with Some classify_names_extend [OF s Some] len nth False show ?thesis
        by (simp add: classify_open_def)
    next
      case None
      with assms len False have l: "1 + max_name_len + 1 \<le> length s"
        by (auto simp: classify_open_def split: if_splits)
      then have "\<forall>name \<in> set PROTECTED_FENCES. Suc (length name) < length s"
        using PROTECTED_FENCES_length by fastforce
      with None classify_names_None_extend [OF s] len nth False l show ?thesis
        by (simp add: classify_open_def)
    qed
  qed
qed

subsection \<open>The close tag across chunks\<close>

definition match_at :: "string \<Rightarrow> string \<Rightarrow> nat \<Rightarrow> bool" where
  "match_at needle hay i \<longleftrightarrow>
     i + length needle \<le> length hay \<and> eq_ignore_ascii_case (take (length needle) (drop i hay)) needle"

lemma match_at_Cons_Suc: "match_at needle (c # hay) (Suc i) = match_at needle hay i"
  by (simp add: match_at_def)

lemma find_ci_spec:
  "case find_ci needle hay of
     None \<Rightarrow> \<forall>i. \<not> match_at needle hay i
   | Some p \<Rightarrow> match_at needle hay p \<and> (\<forall>i < p. \<not> match_at needle hay i)"
proof (induction hay)
  case Nil
  then show ?case by (subst find_ci.simps) (auto simp: match_at_def eq_ignore_ascii_case_def)
next
  case (Cons c hay)
  consider (short) "length (c # hay) < length needle"
    | (here) "\<not> length (c # hay) < length needle" "eq_ignore_ascii_case (take (length needle) (c # hay)) needle"
    | (later) "\<not> length (c # hay) < length needle" "\<not> eq_ignore_ascii_case (take (length needle) (c # hay)) needle"
    by blast
  then show ?case
  proof cases
    case short
    then show ?thesis by (subst find_ci.simps) (auto simp: match_at_def)
  next
    case here
    then show ?thesis by (subst find_ci.simps) (auto simp: match_at_def)
  next
    case later
    then have "\<not> match_at needle (c # hay) 0" by (simp add: match_at_def)
    then have shift: "match_at needle (c # hay) i \<longleftrightarrow> (\<exists>j. i = Suc j \<and> match_at needle hay j)" for i
      by (cases i) (auto simp: match_at_Cons_Suc)
    from later Cons.IH show ?thesis
      by (subst find_ci.simps) (auto simp: shift split: option.splits)
  qed
qed

lemma find_ci_Some_iff:
  "find_ci needle hay = Some p \<longleftrightarrow> match_at needle hay p \<and> (\<forall>i < p. \<not> match_at needle hay i)"
  using find_ci_spec [of needle hay] by (auto split: option.splits) (metis linorder_neqE_nat)

lemma find_ci_None_iff: "find_ci needle hay = None \<longleftrightarrow> (\<forall>i. \<not> match_at needle hay i)"
  using find_ci_spec [of needle hay] by (auto split: option.splits)

lemma match_at_append: "match_at needle hay i \<Longrightarrow> match_at needle (hay @ t) i"
  by (simp add: match_at_def)

lemma match_at_drop: "d \<le> length hay \<Longrightarrow> d \<le> i \<Longrightarrow> match_at needle (drop d hay) (i - d) \<longleftrightarrow> match_at needle hay i"
  by (auto simp: match_at_def)

lemma match_at_append_inside:
  "match_at needle (hay @ t) i \<Longrightarrow> i + length needle \<le> length hay \<Longrightarrow> match_at needle hay i"
  by (simp add: match_at_def)

lemma find_ci_append_hit:
  assumes "find_ci needle hay = Some p"
  shows "find_ci needle (hay @ t) = Some p"
proof -
  from assms have p: "match_at needle hay p" "\<forall>i < p. \<not> match_at needle hay i"
    by (simp_all add: find_ci_Some_iff)
  have "\<not> match_at needle (hay @ t) i" if "i < p" for i
  proof
    assume "match_at needle (hay @ t) i"
    moreover have "i + length needle \<le> length hay" using p(1) that by (simp add: match_at_def)
    ultimately show False using p(2) that match_at_append_inside by blast
  qed
  with p(1) show ?thesis by (simp add: find_ci_Some_iff match_at_append)
qed

definition may_close :: "string \<Rightarrow> string \<Rightarrow> nat \<Rightarrow> bool" where
  "may_close h close m \<longleftrightarrow>
     m \<le> length h \<and> m < length close \<and> eq_ignore_ascii_case (take m close) (drop (length h - m) h)"

lemma overlap_from_spec:
  "overlap_from m h close \<le> m
   \<and> eq_ignore_ascii_case (take (overlap_from m h close) close) (drop (length h - overlap_from m h close) h)
   \<and> (\<forall>n. overlap_from m h close < n \<and> n \<le> m \<longrightarrow>
        \<not> eq_ignore_ascii_case (take n close) (drop (length h - n) h))"
proof (induction m)
  case 0
  then show ?case by auto
next
  case (Suc m)
  then show ?case by (auto simp: le_Suc_eq)
qed

lemma held_tail_overlap_iff:
  assumes "close \<noteq> []"
  shows "held_tail_overlap h close = k \<longleftrightarrow> may_close h close k \<and> (\<forall>m > k. \<not> may_close h close m)"
proof -
  let ?b = "min (length h) (length close - 1)"
  have bound: "m \<le> ?b \<longleftrightarrow> m \<le> length h \<and> m < length close" for m
    using assms by (cases close) auto
  have spec: "may_close h close (held_tail_overlap h close)
      \<and> (\<forall>m > held_tail_overlap h close. \<not> may_close h close m)"
    using overlap_from_spec [of ?b h close] bound
    unfolding held_tail_overlap_def may_close_def by blast
  then show ?thesis by (metis linorder_neqE_nat)
qed

lemma may_close_shift:
  "d \<le> length h \<Longrightarrow> m \<le> length h - d \<Longrightarrow> may_close (drop d h) close m \<longleftrightarrow> may_close h close m"
  by (auto simp: may_close_def)

lemma may_close_append:
  assumes "may_close (h @ t) close m" "length t \<le> m"
  shows "may_close h close (m - length t)"
proof -
  from assms have m: "m \<le> length h + length t" "m < length close"
    and e: "eq_ignore_ascii_case (take m close) (drop (length h + length t - m) (h @ t))"
    by (auto simp: may_close_def)
  have "drop (length h + length t - m) (h @ t) = drop (length h - (m - length t)) h @ t"
    using assms(2) m(1) by simp
  with eq_ignore_ascii_case_take [OF e, of "m - length t"] m assms(2)
  show ?thesis by (auto simp: may_close_def min_def)
qed

text \<open>
  Dropping all but the tail that may start the close tag loses nothing: the tag is found at the same
  place, and if it is not, the same tail is kept next time.
\<close>

definition dropped_before :: "string \<Rightarrow> string \<Rightarrow> nat" where
  "dropped_before close h = length h - held_tail_overlap h close"

lemma dropped_before_le: "dropped_before close h \<le> length h"
  by (simp add: dropped_before_def)

lemma overlap_max:
  "close \<noteq> [] \<Longrightarrow> may_close h close (held_tail_overlap h close)"
  "close \<noteq> [] \<Longrightarrow> held_tail_overlap h close < m \<Longrightarrow> \<not> may_close h close m"
  using held_tail_overlap_iff [of close h "held_tail_overlap h close"] by simp_all

lemma no_match_before:
  assumes "close \<noteq> []" "find_ci close h = None" "match_at close (h @ t) i"
  shows "dropped_before close h \<le> i"
proof (rule ccontr)
  assume "\<not> dropped_before close h \<le> i"
  then have i: "i < dropped_before close h" "i \<le> length h"
    using dropped_before_le [of close h] by linarith+
  have "\<not> i + length close \<le> length h"
    using match_at_append_inside [OF assms(3)] assms(2) by (auto simp: find_ci_None_iff)
  with i have m: "length h - i < length close" by linarith
  have "eq_ignore_ascii_case (take (length h - i) (take (length close) (drop i (h @ t)))) (take (length h - i) close)"
    using assms(3) by (intro eq_ignore_ascii_case_take) (simp add: match_at_def)
  moreover have "take (length h - i) (take (length close) (drop i (h @ t))) = drop i h"
    using m i by simp
  ultimately have "may_close h close (length h - i)"
    using m i by (simp add: may_close_def eq_ignore_ascii_case_def)
  moreover have "held_tail_overlap h close < length h - i"
    using i by (simp add: dropped_before_def)
  ultimately show False using overlap_max(2) [OF assms(1)] by blast
qed

lemma match_at_kept:
  "dropped_before close h \<le> i \<Longrightarrow>
     match_at close (drop (dropped_before close h) h @ t) (i - dropped_before close h)
       \<longleftrightarrow> match_at close (h @ t) i"
  using match_at_drop [of "dropped_before close h" "h @ t" i close] dropped_before_le [of close h]
  by simp

lemma find_ci_kept:
  assumes "close \<noteq> []" "find_ci close h = None"
  shows "find_ci close (h @ t) =
    map_option (\<lambda>p. p + dropped_before close h) (find_ci close (drop (dropped_before close h) h @ t))"
proof (cases "find_ci close (drop (dropped_before close h) h @ t)")
  case None
  then have "\<not> match_at close (h @ t) i" for i
    using no_match_before [OF assms] match_at_kept [of close h i t] by (auto simp: find_ci_None_iff)
  then have "find_ci close (h @ t) = None" by (simp only: find_ci_None_iff) blast
  with None show ?thesis by simp
next
  case (Some p)
  let ?d = "dropped_before close h"
  have p: "match_at close (drop ?d h @ t) p" "\<forall>i < p. \<not> match_at close (drop ?d h @ t) i"
    using Some by (simp_all add: find_ci_Some_iff)
  have "match_at close (h @ t) (p + ?d)" using p(1) match_at_kept [of close h "p + ?d" t] by simp
  moreover have "\<not> match_at close (h @ t) i" if "i < p + ?d" for i
    using that p(2) no_match_before [OF assms, of t i] match_at_kept [of close h i t]
    by (metis less_diff_conv2)
  ultimately have "find_ci close (h @ t) = Some (p + ?d)" by (simp add: find_ci_Some_iff)
  with Some show ?thesis by simp
qed

lemma overlap_kept:
  assumes "close \<noteq> []"
  shows "held_tail_overlap (h @ t) close = held_tail_overlap (drop (dropped_before close h) h @ t) close"
    and "held_tail_overlap (drop (dropped_before close h) h @ t) close
      \<le> length (drop (dropped_before close h) h @ t)"
proof -
  let ?d = "dropped_before close h"
  let ?k = "held_tail_overlap h close" and ?k' = "held_tail_overlap (drop ?d h @ t) close"
  have k': "may_close (drop ?d h @ t) close ?k'" "\<And>m. m > ?k' \<Longrightarrow> \<not> may_close (drop ?d h @ t) close m"
    using overlap_max [OF assms] by blast+
  show le: "?k' \<le> length (drop ?d h @ t)" using k'(1) by (simp add: may_close_def)
  have shift: "may_close (drop ?d h @ t) close m \<longleftrightarrow> may_close (h @ t) close m"
    if "m \<le> length (drop ?d h @ t)" for m
    using may_close_shift [of ?d "h @ t" m close] that dropped_before_le [of close h] by simp
  have "\<not> may_close (h @ t) close m" if "m > ?k'" for m
  proof
    assume a: "may_close (h @ t) close m"
    then have "m > length (drop ?d h @ t)" using k'(2) shift that by (meson linorder_not_le)
    then have m: "?k < m - length t" "length t \<le> m"
      using overlap_max(1) [OF assms, of h] by (auto simp: may_close_def dropped_before_def)
    show False using may_close_append [OF a m(2)] overlap_max(2) [OF assms m(1)] by simp
  qed
  moreover have "may_close (h @ t) close ?k'" using shift [OF le] k'(1) by simp
  ultimately show "held_tail_overlap (h @ t) close = ?k'"
    using held_tail_overlap_iff [OF assms, of "h @ t" ?k'] by simp
qed

subsection \<open>One loop over two chunks\<close>

lemma close_tag_nonempty [simp]: "close_tag name \<noteq> []"
  by (simp add: close_tag_def)

lemma scan_to_free:
  assumes "c \<notin> set h"
  shows "scan_to c (h @ t) 0 = length h + scan_to c t 0"
proof -
  have "takeWhile (\<lambda>x. x \<noteq> c) (h @ t) = h @ takeWhile (\<lambda>x. x \<noteq> c) t"
    using assms by (intro takeWhile_append2) auto
  then show ?thesis by (simp add: scan_to_def)
qed

lemma scan_to_all_free: "length h \<le> scan_to c h 0 \<Longrightarrow> c \<notin> set h"
  by (induction h) (auto simp: scan_to_def split: if_splits)

lemma scan_to_take_free: "c \<notin> set (take (scan_to c h 0) h)"
  by (simp add: scan_to_def takeWhile_eq_take [symmetric]) (metis set_takeWhileD)

lemma scan_to_drop: "scan_to c h 0 < length h \<Longrightarrow> \<exists>r. drop (scan_to c h 0) h = c # r"
  by (induction h) (auto simp: scan_to_def split: if_splits)

lemma not_suffix_free: "CHR ''<'' \<notin> set h \<Longrightarrow> \<not> suffix ''<'' h"
  by (auto simp: suffix_def)

lemma push_loop_no_lt:
  assumes "CHR ''<'' \<notin> set h"
  shows "push_loop None h = (h, [], None)"
proof -
  have "length h \<le> scan_to (CHR ''<'') h 0" using scan_to_free [OF assms, of "[]"] by simp
  then show ?thesis using not_suffix_free [OF assms] by (subst push_loop.simps) (simp add: Let_def)
qed

lemma push_loop_free:
  assumes "CHR ''<'' \<notin> set h"
  shows "push_loop None (h @ t) = (case push_loop None t of (out, r) \<Rightarrow> (h @ out, r))"
proof (cases "length t \<le> scan_to (CHR ''<'') t 0")
  case True
  then have "CHR ''<'' \<notin> set t" by (rule scan_to_all_free)
  with assms show ?thesis by (simp add: push_loop_no_lt)
next
  case False
  have lt: "scan_to (CHR ''<'') (h @ t) 0 = length h + scan_to (CHR ''<'') t 0"
    by (rule scan_to_free [OF assms])
  with False have "\<not> length (h @ t) \<le> scan_to (CHR ''<'') (h @ t) 0" by simp
  then show ?thesis
    using False lt
    by (simp add: push_loop.simps(2) [of "h @ t"] push_loop.simps(2) [of t] Let_def
        split: open_classification.split prod.split)
qed

lemma push_loop_at_lt:
  assumes "s = CHR ''<'' # cs"
  shows "push_loop None s =
    (case classify_open s of
       NotProtected \<Rightarrow> (case push_loop None cs of (out, r) \<Rightarrow> (CHR ''<'' # out, r))
     | Incomplete \<Rightarrow> ([], s, None)
     | Protected name open_len \<Rightarrow> push_loop (Some name) (drop open_len s)
     | ProtectedSelfClosing open_len \<Rightarrow> push_loop None (drop open_len s))"
proof -
  have "scan_to (CHR ''<'') s 0 = 0" using assms by (simp add: scan_to_def)
  then show ?thesis using assms
    by (subst push_loop.simps) (simp add: Let_def split: open_classification.split prod.split)
qed

lemma classify_open_len:
  "classify_open s = Protected name n \<Longrightarrow> n \<le> length s"
  "classify_open s = ProtectedSelfClosing n \<Longrightarrow> n \<le> length s"
proof -
  have "classify_names names s = Some (Protected name n) \<or> classify_names names s = Some (ProtectedSelfClosing n)
     \<Longrightarrow> n \<le> length s" for names
    by (induction names) (auto simp: Let_def split: if_splits)
  then show "classify_open s = Protected name n \<Longrightarrow> n \<le> length s"
    "classify_open s = ProtectedSelfClosing n \<Longrightarrow> n \<le> length s"
    by (auto simp: classify_open_def split: if_splits option.splits)
qed

lemma push_loop_append:
  "push_loop i h = (out, h', i') \<Longrightarrow>
     push_loop i (h @ t) = (case push_loop i' (h' @ t) of (out', r) \<Rightarrow> (out @ out', r))"
proof (induction i h arbitrary: out rule: push_loop.induct)
  case (1 name h)
  let ?close = "close_tag name"
  show ?case
  proof (cases "find_ci ?close h")
    case (Some p)
    have len: "p + length ?close \<le> length h" using find_ci_le [OF Some] .
    have "push_loop None (drop (p + length ?close) h) = (out, h', i')"
      using "1.prems" Some by (simp add: push_loop.simps(1) [of name h])
    from "1.IH" [OF Some this] len find_ci_append_hit [OF Some, of t] show ?thesis
      by (simp add: push_loop.simps(1) [of name "h @ t"])
  next
    case None
    let ?d = "dropped_before ?close h"
    from None "1.prems" have eq: "out = []" "h' = drop ?d h" "i' = Some name"
      by (auto simp: push_loop.simps(1) [of name h] dropped_before_def)
    have d: "?d \<le> length h" by (rule dropped_before_le)
    show ?thesis
    proof (cases "find_ci ?close (drop ?d h @ t)")
      case (Some p)
      have "drop (p + ?d + length ?close) (h @ t) = drop (p + length ?close) (drop ?d (h @ t))"
        by (simp only: drop_drop) (rule arg_cong2 [where f = drop]; simp)
      with Some d find_ci_kept [OF close_tag_nonempty None, of t] show ?thesis
        by (simp add: eq push_loop.simps(1) [of name "h @ t"] push_loop.simps(1) [of name "drop ?d h @ t"]
            split: prod.split)
    next
      case no: None
      have k: "held_tail_overlap (h @ t) ?close = held_tail_overlap (drop ?d h @ t) ?close"
        "held_tail_overlap (drop ?d h @ t) ?close \<le> length (drop ?d h @ t)"
        using overlap_kept [of "close_tag name" h t] by simp_all
      let ?k = "held_tail_overlap (drop ?d h @ t) ?close"
      have "drop (length (h @ t) - ?k) (h @ t) = drop (length (drop ?d h @ t) - ?k) (drop ?d (h @ t))"
        using k(2) d by (simp only: drop_drop) (rule arg_cong2 [where f = drop]; simp)
      then have "drop (length (h @ t) - ?k) (h @ t) = drop (length (drop ?d h @ t) - ?k) (drop ?d h @ t)"
        using d by simp
      with no k(1) find_ci_kept [OF close_tag_nonempty None, of t] show ?thesis
        by (simp only: eq push_loop.simps(1) [of name "h @ t"] push_loop.simps(1) [of name "drop ?d h @ t"]
            option.map option.case prod.case append_Nil)
    qed
  qed
next
  case (2 h)
  let ?lt = "scan_to (CHR ''<'') h 0"
  show ?case
  proof (cases "length h \<le> ?lt")
    case True
    then have "CHR ''<'' \<notin> set h" by (rule scan_to_all_free)
    with "2.prems" show ?thesis by (auto simp: push_loop_no_lt push_loop_free)
  next
    case False
    then obtain cs where cs: "drop ?lt h = CHR ''<'' # cs" using scan_to_drop [of "CHR ''<''" h] by auto
    define rest where "rest = drop ?lt h"
    have rest: "rest = CHR ''<'' # cs" "rest @ t = CHR ''<'' # cs @ t" using cs by (simp_all add: rest_def)
    have split: "push_loop None (h @ u) = (case push_loop None (rest @ u) of (out, r) \<Rightarrow> (take ?lt h @ out, r))" for u
      using push_loop_free [OF scan_to_take_free [of "CHR ''<''" h], of "rest @ u"]
      by (simp add: rest_def) (metis append.assoc append_take_drop_id)
    obtain o0 where o0: "push_loop None rest = (o0, h', i')" "out = take ?lt h @ o0"
      using "2.prems" split [of "[]"] by (auto split: prod.splits)
    have "push_loop None (rest @ t) = (case push_loop i' (h' @ t) of (out', r) \<Rightarrow> (o0 @ out', r))"
    proof (cases "classify_open rest")
      case Incomplete
      with o0(1) push_loop_at_lt [OF rest(1)] show ?thesis by auto
    next
      case NotProtected
      then obtain o1 where o1: "push_loop None cs = (o1, h', i')" "o0 = CHR ''<'' # o1"
        using o0(1) push_loop_at_lt [OF rest(1)] by (auto split: prod.splits)
      have "push_loop None (cs @ t) = (case push_loop i' (h' @ t) of (out', r) \<Rightarrow> (o1 @ out', r))"
        using "2.IH"(1) [OF refl False refl, folded rest_def, OF NotProtected] o1(1) rest(1) by simp
      with o1 NotProtected classify_open_extend [of rest t] push_loop_at_lt [OF rest(2)] show ?thesis
        by (simp split: prod.split)
    next
      case (Protected name n)
      have "push_loop (Some name) (drop n rest) = (o0, h', i')"
        using o0(1) push_loop_at_lt [OF rest(1)] Protected by simp
      from "2.IH"(2) [OF refl False refl, folded rest_def, OF Protected this]
      show ?thesis
        using Protected classify_open_extend [of rest t] push_loop_at_lt [OF rest(2)]
          classify_open_len(1) [OF Protected] by simp
    next
      case (ProtectedSelfClosing n)
      have "push_loop None (drop n rest) = (o0, h', i')"
        using o0(1) push_loop_at_lt [OF rest(1)] ProtectedSelfClosing by simp
      from "2.IH"(3) [OF refl False refl, folded rest_def, OF ProtectedSelfClosing this]
      show ?thesis
        using ProtectedSelfClosing classify_open_extend [of rest t] push_loop_at_lt [OF rest(2)]
          classify_open_len(2) [OF ProtectedSelfClosing] by simp
    qed
    then show ?thesis using split [of t] o0(2) by (simp split: prod.splits)
  qed
qed

lemma push_append:
  "push s (a @ b) = (case push s a of (out, s') \<Rightarrow> case push s' b of (out', s'') \<Rightarrow> (out @ out', s''))"
proof -
  obtain out h' i' where r: "push_loop (inside s) (held s @ a) = (out, h', i')"
    by (metis prod_cases3)
  show ?thesis
    using push_loop_append [OF r, of b] by (simp add: push_def r split: prod.split)
qed

subsection \<open>Streams cut into chunks\<close>

locale chunked =
  fixes feed :: "'s \<Rightarrow> 'c list \<Rightarrow> 'o list \<times> 's"
  assumes feed_append:
    "feed s (a @ b) = (case feed s a of (out, s') \<Rightarrow> case feed s' b of (out', s'') \<Rightarrow> (out @ out', s''))"
begin

fun feed_all :: "'s \<Rightarrow> 'c list list \<Rightarrow> 'o list \<times> 's" where
  "feed_all s [] = ([], s)"
| "feed_all s (c # cs) = (case feed s c of (out, s') \<Rightarrow> case feed_all s' cs of (out', s'') \<Rightarrow> (out @ out', s''))"

lemma feed_all_concat: "cs \<noteq> [] \<Longrightarrow> feed_all s cs = feed s (concat cs)"
proof (induction cs arbitrary: s)
  case Nil
  then show ?case by simp
next
  case (Cons c cs)
  show ?case
  proof (cases "cs = []")
    case True
    then show ?thesis by (cases "feed s c") simp
  next
    case False
    with Cons.IH show ?thesis by (simp add: feed_append split: prod.split)
  qed
qed

lemma feed_all_cut:
  "cs \<noteq> [] \<Longrightarrow> ds \<noteq> [] \<Longrightarrow> concat cs = concat ds \<Longrightarrow> feed_all s cs = feed_all s ds"
  by (simp add: feed_all_concat)

end

interpretation scrubbing: chunked push
  by unfold_locales (rule push_append)

text \<open>A stream through a fresh scrubber: every chunk pushed, then the flush.\<close>

definition scrub_stream :: "string list \<Rightarrow> string" where
  "scrub_stream chunks =
     (case foldl (\<lambda>(out, s) c. case push s c of (o', s') \<Rightarrow> (out @ o', s')) ([], new_scrubber) chunks of
        (out, s) \<Rightarrow> out @ fst (flush s))"

lemma foldl_push:
  "foldl (\<lambda>(out, s) c. case push s c of (o', s') \<Rightarrow> (out @ o', s')) (out, s) chunks
     = (case scrubbing.feed_all s chunks of (out', s') \<Rightarrow> (out @ out', s'))"
  by (induction chunks arbitrary: out s) (auto split: prod.splits)

lemma push_new_Nil: "push new_scrubber [] = ([], new_scrubber)"
  by (simp add: push_def new_scrubber_def push_loop_no_lt)

lemma feed_all_new: "scrubbing.feed_all new_scrubber chunks = push new_scrubber (concat chunks)"
  by (cases "chunks = []") (simp_all add: push_new_Nil scrubbing.feed_all_concat)

lemma scrub_stream_feed:
  "scrub_stream chunks = (case push new_scrubber (concat chunks) of (out, s) \<Rightarrow> out @ fst (flush s))"
  using foldl_push [of "[]" new_scrubber chunks] feed_all_new [of chunks]
  by (simp add: scrub_stream_def split: prod.split)

text \<open>C7: How the provider cuts its stream is irrelevant: the forwarded text is that of the whole text
  pushed at once.  In particular a fence whose open or close tag straddles chunks is caught.\<close>

theorem scrubber_ignores_chunking: "scrub_stream chunks = scrub_stream [concat chunks]"
  by (simp add: scrub_stream_feed)

lemma scrub_stream_loop:
  "scrub_stream chunks = (case push_loop None (concat chunks) of (out, h, i) \<Rightarrow> out @ (if i = None then h else []))"
  by (auto simp: scrub_stream_feed push_def new_scrubber_def flush_def split: prod.splits option.splits)

text \<open>Text without a \<open><\<close> passes both surfaces unchanged, however it is cut.\<close>

theorem clean_text_passes:
  assumes "CHR ''<'' \<notin> set (concat chunks)"
  shows "scrub_stream chunks = concat chunks \<and> sanitize_context (concat chunks) = concat chunks"
  using assms by (simp add: scrub_stream_loop push_loop_no_lt sanitize_context_def)

theorem clean_text_passes_witness:
  "scrub_stream [''no '', ''fence''] = ''no fence''"
  using clean_text_passes [of "[''no '', ''fence'']"] by simp

text \<open>An open tag \<open><name attrs>\<close> as a protected fence may be written: the name in any case, then
  nothing or a separator and further bytes, none of them \<open>>\<close> and the last one no \<open>/\<close>.\<close>

definition open_tag :: "string \<Rightarrow> string \<Rightarrow> string \<Rightarrow> bool" where
  "open_tag name tag attrs \<longleftrightarrow>
     name \<in> set PROTECTED_FENCES \<and> eq_ignore_ascii_case tag name
     \<and> CHR ''>'' \<notin> set attrs \<and> (attrs = [] \<or> name_end (hd attrs) \<and> last attrs \<noteq> CHR ''/'')"

lemma open_tag_scan:
  assumes "open_tag name tag attrs" "s = ''<'' @ tag @ attrs @ ''>'' @ rest"
  shows "scan_to (CHR ''>'') s (Suc (length name)) = Suc (length name + length attrs)"
    and "s ! (length name + length attrs) \<noteq> CHR ''/''"
    and "name_end (s ! Suc (length name))"
    and "take (length name) (drop 1 s) = tag"
    and "Suc (length name + length attrs) < length s"
proof -
  from assms(1) have len: "length tag = length name"
    by (auto simp: open_tag_def dest: eq_ignore_ascii_case_length)
  have "drop (Suc (length name)) s = attrs @ ''>'' @ rest" using len assms(2) by simp
  moreover have "takeWhile (\<lambda>x. x \<noteq> CHR ''>'') (attrs @ ''>'' @ rest) = attrs"
    using assms(1) by (subst takeWhile_append2) (auto simp: open_tag_def)
  ultimately show "scan_to (CHR ''>'') s (Suc (length name)) = Suc (length name + length attrs)"
    by (simp add: scan_to_def)
  show "take (length name) (drop 1 s) = tag" using len assms(2) by simp
  show "Suc (length name + length attrs) < length s" using len assms(2) by simp
  show "name_end (s ! Suc (length name))"
  proof (cases attrs)
    case Nil
    then show ?thesis using len assms(2) by (simp add: nth_append name_end_def)
  next
    case (Cons a as)
    then show ?thesis using len assms by (simp add: nth_append open_tag_def)
  qed
  show "s ! (length name + length attrs) \<noteq> CHR ''/''"
  proof (cases attrs rule: rev_cases)
    case Nil
    have "tag \<noteq> []" "last tag \<noteq> CHR ''/''"
      using assms(1)
      by (auto simp: open_tag_def PROTECTED_FENCES_def eq_ignore_ascii_case_def map_eq_Cons_conv
          ascii_lower_def)
    then show ?thesis using Nil len assms(2)
      by (simp add: nth_append nth_Cons' last_conv_nth)
  next
    case (snoc as a)
    then show ?thesis using len assms
      by (simp add: nth_append nth_Cons' open_tag_def)
  qed
qed

lemma ascii_lower_am: "ascii_lower (CHR ''m'') = CHR ''m''" "ascii_lower (CHR ''a'') = CHR ''a''"
  by (simp_all add: ascii_lower_def)

lemma eq_ignore_ascii_case_Cons [simp]:
  "eq_ignore_ascii_case (c # xs) (d # ys) \<longleftrightarrow> ascii_lower c = ascii_lower d \<and> eq_ignore_ascii_case xs ys"
  by (simp add: eq_ignore_ascii_case_def)

lemma name_mismatch:
  "ascii_lower c \<noteq> ascii_lower d \<Longrightarrow> \<not> eq_ignore_ascii_case (take (length (d # ds)) (drop 1 (x # c # r))) (d # ds)"
  "ascii_lower c \<noteq> ascii_lower d \<Longrightarrow>
     \<not> eq_ignore_ascii_case (drop 1 (x # c # r)) (take (length (x # c # r) - 1) (d # ds))"
  by simp_all

lemma fence_head:
  assumes "open_tag name tag attrs"
  obtains c cs where "tag = c # cs" "ascii_lower c = hd name" "c \<noteq> CHR ''/''"
    "name = ''memory-context'' \<and> hd name = CHR ''m'' \<or> name = ''attachments'' \<and> hd name = CHR ''a''"
proof -
  have name: "name = ''memory-context'' \<and> hd name = CHR ''m'' \<or> name = ''attachments'' \<and> hd name = CHR ''a''"
    using assms by (auto simp: open_tag_def PROTECTED_FENCES_def)
  then have d: "name \<noteq> []" "hd name \<noteq> CHR ''/''" "ascii_lower (hd name) = hd name"
    using ascii_lower_am by auto
  with assms obtain c cs where c: "tag = c # cs" "ascii_lower c = hd name"
    by (cases name) (auto simp: open_tag_def eq_ignore_ascii_case_def map_eq_Cons_conv)
  have "c \<noteq> CHR ''/''" using c(2) d(2) by (auto simp: ascii_lower_def)
  with that c name show ?thesis by simp
qed

lemma classify_names_skip:
  "\<not> eq_ignore_ascii_case (take (length name) (drop 1 s)) name
   \<Longrightarrow> \<not> eq_ignore_ascii_case (drop 1 s) (take (length s - 1) name)
   \<Longrightarrow> classify_names (name # names) s = classify_names names s"
  by (simp add: Let_def)

lemma fence_tag_first:
  assumes "open_tag name tag attrs" "s = ''<'' @ tag @ attrs @ ''>'' @ rest"
  shows "classify_open s = Protected name (Suc (Suc (length name + length attrs)))"
    and "strip_protected_block s = Some (block_length name s)"
proof -
  obtain c cs where c: "tag = c # cs" "ascii_lower c = hd name" "c \<noteq> CHR ''/''"
    and name: "name = ''memory-context'' \<and> hd name = CHR ''m'' \<or> name = ''attachments'' \<and> hd name = CHR ''a''"
    using fence_head [OF assms(1)] by blast
  note scan = open_tag_scan [OF assms]
  have eq: "eq_ignore_ascii_case tag name" using assms(1) by (simp add: open_tag_def)
  have s: "s = CHR ''<'' # c # cs @ attrs @ ''>'' @ rest" using assms(2) c(1) by simp
  have other: "\<not> eq_ignore_ascii_case (take (length ''memory-context'') (drop 1 s)) ''memory-context''"
    "\<not> eq_ignore_ascii_case (drop 1 s) (take (length s - 1) ''memory-context'')"
    if "hd name = CHR ''a''"
    unfolding s using that c(2) ascii_lower_am by (intro name_mismatch; simp)+
  have cn: "classify_names (name # names) s = Some (Protected name (Suc (Suc (length name + length attrs))))" for names
    using scan eq by (simp add: Let_def)
  have names: "classify_names PROTECTED_FENCES s = Some (Protected name (Suc (Suc (length name + length attrs))))"
    using name
  proof
    assume "name = ''memory-context'' \<and> hd name = CHR ''m''"
    then have "PROTECTED_FENCES = name # [''attachments'']" unfolding PROTECTED_FENCES_def by blast
    then show ?thesis using cn by metis
  next
    assume a: "name = ''attachments'' \<and> hd name = CHR ''a''"
    then have "PROTECTED_FENCES = ''memory-context'' # [name]" unfolding PROTECTED_FENCES_def by blast
    then show ?thesis using cn [of "[]"] classify_names_skip [OF other] a by metis
  qed
  have "2 \<le> length s" "s ! 1 \<noteq> CHR ''/''" using s c(3) by simp_all
  with names show "classify_open s = Protected name (Suc (Suc (length name + length attrs)))"
    by (simp add: classify_open_def)
  have own: "opens_fence name s"
    unfolding opens_fence_def using scan eq by simp
  have "opens_fence ''memory-context'' s \<Longrightarrow> hd name \<noteq> CHR ''a''"
    using other(1) by (auto simp: opens_fence_def)
  with own name show "strip_protected_block s = Some (block_length name s)"
    by (auto simp: strip_protected_block_def PROTECTED_FENCES_def)
qed



lemma sanitize_loop_free:
  assumes "CHR ''<'' \<notin> set pre"
  shows "sanitize_loop (pre @ CHR ''<'' # s) = pre @ sanitize_loop (CHR ''<'' # s)"
  using assms
proof (induction "length pre" arbitrary: pre rule: less_induct)
  case less
  show ?case
  proof (cases pre)
    case Nil
    then show ?thesis by simp
  next
    case (Cons c p)
    let ?n = "next_char_boundary (pre @ CHR ''<'' # s)"
    have stop: "\<not> is_cont (CHR ''<'')" by (simp add: is_cont_def)
    have "takeWhile is_cont (p @ CHR ''<'' # s) = takeWhile is_cont p"
      using stop by (induction p) auto
    then have n: "?n = 1 + length (takeWhile is_cont p)"
      by (simp add: Cons next_char_boundary_def)
    then have le: "?n \<le> length pre" "0 < ?n"
      using length_takeWhile_le [of is_cont p] by (simp_all add: Cons)
    have c: "c \<noteq> CHR ''<''" using less.prems Cons by auto
    have "sanitize_loop (pre @ CHR ''<'' # s)
        = take ?n (pre @ CHR ''<'' # s) @ sanitize_loop (drop ?n (pre @ CHR ''<'' # s))"
      using c by (simp add: Cons)
    also have "\<dots> = take ?n pre @ sanitize_loop (drop ?n pre @ CHR ''<'' # s)"
      using le by simp
    also have "sanitize_loop (drop ?n pre @ CHR ''<'' # s) = drop ?n pre @ sanitize_loop (CHR ''<'' # s)"
      by (rule less.hyps) (use le less.prems Cons in \<open>auto dest: in_set_dropD\<close>)
    finally show ?thesis by simp
  qed
qed

lemma sanitize_loop_clean: "CHR ''<'' \<notin> set s \<Longrightarrow> sanitize_loop s = s"
proof (induction "length s" arbitrary: s rule: less_induct)
  case less
  show ?case
  proof (cases s)
    case (Cons c cs)
    let ?n = "next_char_boundary s"
    have "CHR ''<'' \<notin> set (drop ?n s)" "0 < ?n" "c \<noteq> CHR ''<''"
      using less.prems Cons by (auto simp: next_char_boundary_def dest: in_set_dropD)
    then have "sanitize_loop (drop ?n s) = drop ?n s"
      using less.hyps [of "drop ?n s"] Cons by simp
    with \<open>c \<noteq> CHR ''<''\<close> Cons show ?thesis by simp
  qed simp
qed

lemma sanitize_context_eq: "sanitize_context s = sanitize_loop s"
  by (simp add: sanitize_context_def sanitize_loop_clean)

lemma block_length_fence:
  assumes "open_tag name tag attrs"
    and "find_ci (''</'' @ name) (body @ close_tag name) = Some (length body)"
    and "s = ''<'' @ tag @ attrs @ ''>'' @ body @ close_tag name @ post"
  shows "block_length name s = length s - length post"
proof -
  note scan = open_tag_scan [OF assms(1,3)]
  let ?j = "Suc (length name + length attrs)"
  have len: "length tag = length name"
    using assms(1) by (auto simp: open_tag_def dest: eq_ignore_ascii_case_length)
  have tl: "drop (Suc ?j) s = body @ close_tag name @ post"
    using assms(3) len by simp
  have find: "find_ci (''</'' @ name) (drop (Suc ?j) s) = Some (length body)"
    using find_ci_append_hit [OF assms(2), of post] tl by simp
  let ?e = "Suc ?j + length body + length (''</'' @ name)"
  have "drop ?e s = drop (length body + length (''</'' @ name)) (drop (Suc ?j) s)"
    by (simp only: drop_drop) (simp add: add.commute add.left_commute)
  then have "drop ?e s = ''>'' @ post"
    unfolding tl by (simp add: close_tag_def)
  then have "scan_to (CHR ''>'') s ?e = ?e" by (simp add: scan_to_def)
  moreover have "?e < length s" "Suc ?e = length s - length post"
    using assms(3) len by (simp_all add: close_tag_def)
  ultimately show ?thesis
    using scan find by (simp add: block_length_def Let_def)
qed

text \<open>The one-shot helper removes the same blocks: what precedes the fence is kept, the fence and
  its content are gone, and the rest is sanitised in turn.\<close>

theorem fenced_text_sanitized:
  assumes "open_tag name tag attrs"
    and "CHR ''<'' \<notin> set pre"
    and "find_ci (''</'' @ name) (body @ close_tag name) = Some (length body)"
  shows "sanitize_context (pre @ ''<'' @ tag @ attrs @ ''>'' @ body @ close_tag name @ post)
    = pre @ sanitize_context post"
proof -
  let ?s = "''<'' @ tag @ attrs @ ''>'' @ body @ close_tag name @ post"
  have "drop (length ?s - length post) ?s = post" by simp
  then have "sanitize_loop ?s = sanitize_loop post"
    using fence_tag_first(2) [OF assms(1) refl, of "body @ close_tag name @ post"]
      block_length_fence [OF assms(1,3) refl, of post]
    by simp
  then show ?thesis
    using sanitize_loop_free [OF assms(2), of "tl ?s"] by (simp add: sanitize_context_eq)
qed

theorem fenced_text_sanitized_witness:
  "sanitize_context ''a<attachments>x</attachments>b'' = ''ab''"
proof -
  have f: "find_ci (''</'' @ ''attachments'') (''x'' @ close_tag ''attachments'') = Some (length ''x'')"
    by code_simp
  have t: "open_tag ''attachments'' ''attachments'' []" by code_simp
  have "sanitize_context (''a'' @ ''<'' @ ''attachments'' @ [] @ ''>'' @ ''x'' @ close_tag ''attachments'' @ ''b'')
      = ''a'' @ sanitize_context ''b''"
    by (rule fenced_text_sanitized [OF t _ f]) simp
  then show ?thesis by (simp add: close_tag_def sanitize_context_def)
qed

text \<open>Removing a fence can build one.  When the name of an open tag is interrupted by another
  fence, both surfaces drop the inner fence and thereby join the two halves: what is forwarded, and
  what the memory extractor reads, is a complete protected block with its content.\<close>

theorem removal_reconstitutes_fence:
  "sanitize_context ''<memory-<attachments></attachments>context>x</memory-context>''
     = ''<memory-context>x</memory-context>''
   \<and> scrub_stream [''<memory-<attachments></attachments>context>x</memory-context>'']
     = ''<memory-context>x</memory-context>''"
  by code_simp

text \<open>The two surfaces disagree on an unterminated open tag: the one-shot helper drops it with
  everything behind it, the scrubber's final flush forwards it.\<close>

theorem unterminated_open_tag_flushed:
  "sanitize_context ''<memory-context secret'' = []
   \<and> scrub_stream [''<memory-context secret''] = ''<memory-context secret''"
  by code_simp

end
