(* ===== verification/Llm.thy ===== *)
theory Llm
  imports Content Complex_Main
begin

text \<open>
  Provider errors and the retry wrapper of \<open>crates/snaca-llm\<close>: \<open>error.rs\<close> (the error type and what is
  retryable), \<open>classify.rs\<close> (from an HTTP response to an error), \<open>retry.rs\<close> (jittered exponential
  backoff), and the two predicates of \<open>crates/snaca-engine/src/engine.rs\<close> that recognise recoverable
  errors.  A \<open>Duration\<close> is a number of nanoseconds.  The wrapped client is a function from the
  attempt number to the outcome of that attempt, the jitter source a function from the attempt number
  to a \<open>u64\<close>.  The jitter window is computed by the code in \<open>f64\<close>; the model computes it in exact
  rational arithmetic, which agrees as long as the window is below \<open>2 ^ 53\<close> ms and the ratio a dyadic
  fraction such as the default 0.5.
\<close>

subsection \<open>Errors\<close>

type_synonym duration = nat

definition from_secs :: "nat \<Rightarrow> duration" where
  "from_secs s = s * 1000000000"

definition from_millis :: "nat \<Rightarrow> duration" where
  "from_millis ms = ms * 1000000"

definition as_millis :: "duration \<Rightarrow> nat" where
  "as_millis d = d div 1000000"

datatype llm_error =
    Transport string
  | Serde string
  | HttpStatus nat string
  | RateLimited "duration option"
  | ContextOverflow
  | ServerTransient nat
  | AuthExpired nat
  | StreamInterrupted string
  | MalformedResponse string
  | MalformedToolArgs string nat string
  | Provider string string
  | ContentFiltered string string
  | Timeout
  | InvalidConfig string
  | Unsupported string string
  | OtherError string

fun is_retryable :: "llm_error \<Rightarrow> bool" where
  "is_retryable (RateLimited _) = True"
| "is_retryable (ServerTransient _) = True"
| "is_retryable (Transport _) = True"
| "is_retryable Timeout = True"
| "is_retryable (StreamInterrupted _) = True"
| "is_retryable _ = False"

fun retry_after :: "llm_error \<Rightarrow> duration option" where
  "retry_after (RateLimited d) = d"
| "retry_after _ = None"

subsection \<open>Classification of HTTP responses\<close>

definition to_ascii_lowercase :: "string \<Rightarrow> string" where
  "to_ascii_lowercase s = map ascii_lower s"

definition CONTEXT_HINTS :: "string list" where
  "CONTEXT_HINTS =
     [''prompt is too long'', ''context_length_exceeded'', ''maximum context length'',
      ''context window'', ''exceeds the maximum'', ''too many tokens'', ''input length exceeds'',
      ''string too long'', ''request too large'']"

definition FILTER_HINTS :: "string list" where
  "FILTER_HINTS =
     [''content exists risk'', ''content_filter'', ''content management policy'', ''content policy'',
      ''data_inspection_failed'', ''risk of illegal'', ''flagged by content'']"

definition hints_match :: "string list \<Rightarrow> string \<Rightarrow> bool" where
  "hints_match hints h = list_ex (\<lambda>p. contains (to_ascii_lowercase h) p) hints"

definition unwrap_or :: "'a \<Rightarrow> 'a option \<Rightarrow> 'a" where
  "unwrap_or d x = (case x of None \<Rightarrow> d | Some v \<Rightarrow> v)"

definition looks_like_context_overflow :: "string option \<Rightarrow> string \<Rightarrow> bool" where
  "looks_like_context_overflow msg body = list_ex (hints_match CONTEXT_HINTS) [unwrap_or [] msg, body]"

definition looks_like_content_filter :: "string option \<Rightarrow> string \<Rightarrow> bool" where
  "looks_like_content_filter msg body = list_ex (hints_match FILTER_HINTS) [unwrap_or [] msg, body]"

text \<open>\<open>str::parse::<u64>\<close>: an optional \<open>+\<close>, at least one digit, no overflow.\<close>

definition digit_value :: "char \<Rightarrow> nat option" where
  "digit_value c = (let n = (of_char c :: nat) in if 48 \<le> n \<and> n \<le> 57 then Some (n - 48) else None)"

fun parse_digits :: "nat \<Rightarrow> string \<Rightarrow> nat option" where
  "parse_digits acc [] = Some acc"
| "parse_digits acc (c # cs) =
     (case digit_value c of
        None \<Rightarrow> None
      | Some d \<Rightarrow> if 2 ^ 64 \<le> acc * 10 + d then None else parse_digits (acc * 10 + d) cs)"

definition parse_u64 :: "string \<Rightarrow> nat option" where
  "parse_u64 s =
     (let digits = (case s of [] \<Rightarrow> [] | c # cs \<Rightarrow> if c = CHR ''+'' then cs else s)
      in if digits = [] then None else parse_digits 0 digits)"

text \<open>
  \<open>http_date\<close> stands for \<open>chrono\<close>'s parser and clock: the distance of an HTTP date from now in
  nanoseconds, \<open>None\<close> when the text is no date.
\<close>

definition parse_retry_after :: "(string \<Rightarrow> int option) \<Rightarrow> string option \<Rightarrow> duration option" where
  "parse_retry_after http_date raw =
     (case raw of
        None \<Rightarrow> None
      | Some raw0 \<Rightarrow>
          (let s = trim raw0 in
           if s = [] then None
           else case parse_u64 s of
                  Some secs \<Rightarrow> Some (from_secs (min secs 600))
                | None \<Rightarrow>
                    (case http_date s of
                       Some delta \<Rightarrow>
                         if 0 < delta then Some (from_secs (nat (min 600 (max 0 (delta div 1000000000)))))
                         else None
                     | None \<Rightarrow> None)))"

definition envelope_code :: "nat \<Rightarrow> string option \<Rightarrow> string option \<Rightarrow> string" where
  "envelope_code status err_type err_code =
     (case err_code of
        Some c \<Rightarrow> c
      | None \<Rightarrow> (case err_type of Some t \<Rightarrow> t | None \<Rightarrow> show_nat status))"

definition classify_http_error ::
  "(string \<Rightarrow> int option) \<Rightarrow> nat \<Rightarrow> string option \<Rightarrow> string option \<Rightarrow> string option \<Rightarrow> string option
     \<Rightarrow> string \<Rightarrow> llm_error" where
  "classify_http_error http_date status retry_header err_type err_code msg body =
     (let retry = parse_retry_after http_date retry_header in
      if looks_like_context_overflow msg body then ContextOverflow
      else if looks_like_content_filter msg body then
        ContentFiltered (envelope_code status err_type err_code)
          (unwrap_or ''content flagged by provider moderation'' msg)
      else if status = 429 then RateLimited retry
      else if status \<in> {401, 403} then AuthExpired status
      else if status \<in> {500, 502, 503, 504, 529} then ServerTransient status
      else if err_type = Some ''overloaded_error'' then ServerTransient status
      else if err_type = Some ''rate_limit_error'' then RateLimited retry
      else if err_code = Some ''rate_limit_exceeded'' then RateLimited retry
      else case msg of
             Some m \<Rightarrow> Provider (envelope_code status err_type err_code) m
           | None \<Rightarrow> HttpStatus status body)"

subsection \<open>What the engine recovers from\<close>

definition ENGINE_CONTEXT_HINTS :: "string list" where
  "ENGINE_CONTEXT_HINTS =
     [''prompt is too long'', ''prompt too long'', ''input is too long'', ''context length'',
      ''context_length_exceeded'', ''maximum context'', ''too many tokens'', ''request too large'',
      ''input length exceeds'']"

fun is_context_length_error :: "llm_error \<Rightarrow> bool" where
  "is_context_length_error ContextOverflow = True"
| "is_context_length_error (HttpStatus status body) =
     (400 \<le> status \<and> status < 500 \<and> hints_match ENGINE_CONTEXT_HINTS body)"
| "is_context_length_error (Provider _ msg) = hints_match ENGINE_CONTEXT_HINTS msg"
| "is_context_length_error (MalformedResponse s) = hints_match ENGINE_CONTEXT_HINTS s"
| "is_context_length_error (OtherError s) = hints_match ENGINE_CONTEXT_HINTS s"
| "is_context_length_error _ = False"

fun is_content_filter_error :: "llm_error \<Rightarrow> bool" where
  "is_content_filter_error (ContentFiltered _ _) = True"
| "is_content_filter_error _ = False"

subsection \<open>Backoff and retries\<close>

record retry_config =
  max_attempts :: nat
  base_delay :: duration
  max_delay :: duration
  jitter_ratio :: rat

definition default_retry_config :: retry_config where
  "default_retry_config = \<lparr>max_attempts = 5, base_delay = from_millis 500, max_delay = from_secs 30,
     jitter_ratio = 1 / 2\<rparr>"

text \<open>\<open>as u64\<close> of a \<open>u128\<close> wraps, \<open>saturating_mul\<close> saturates, a float cast saturates.\<close>

definition u64_wrap :: "nat \<Rightarrow> nat" where
  "u64_wrap n = n mod 2 ^ 64"

definition u64_sat :: "nat \<Rightarrow> nat" where
  "u64_sat n = min n (2 ^ 64 - 1)"

definition capped_delay :: "retry_config \<Rightarrow> nat \<Rightarrow> nat" where
  "capped_delay cfg attempt =
     (let e = min (attempt - 1) 20;
          base_ms = u64_wrap (as_millis (base_delay cfg));
          scaled = u64_sat (base_ms * 2 ^ e)
      in min scaled (u64_wrap (as_millis (max_delay cfg))))"

definition jitter_window :: "retry_config \<Rightarrow> nat \<Rightarrow> nat" where
  "jitter_window cfg capped = u64_sat (nat \<lfloor>max 0 (of_nat capped * jitter_ratio cfg) + 1 / 2\<rfloor>)"

definition backoff_for :: "retry_config \<Rightarrow> nat \<Rightarrow> nat \<Rightarrow> duration" where
  "backoff_for cfg seed attempt =
     (let capped = capped_delay cfg attempt;
          window = jitter_window cfg capped;
          jitter = (if window = 0 then 0 else seed mod window)
      in from_millis (u64_wrap (capped + jitter)))"

definition retry_delay :: "retry_config \<Rightarrow> nat \<Rightarrow> nat \<Rightarrow> llm_error \<Rightarrow> duration" where
  "retry_delay cfg seed attempt err =
     (case retry_after err of
        Some d \<Rightarrow> min d (max_delay cfg)
      | None \<Rightarrow> backoff_for cfg seed attempt)"

text \<open>The loop of both calls: the result and the delays slept, one per retry.\<close>

function retry_loop ::
  "retry_config \<Rightarrow> (nat \<Rightarrow> nat) \<Rightarrow> (nat \<Rightarrow> llm_error + 'r) \<Rightarrow> nat \<Rightarrow> (llm_error + 'r) \<times> duration list"
where
  "retry_loop cfg seed inner attempt =
     (case inner attempt of
        Inr r \<Rightarrow> (Inr r, [])
      | Inl err \<Rightarrow>
          if \<not> is_retryable err then (Inl err, [])
          else if max_attempts cfg \<le> attempt then (Inl err, [])
          else (case retry_loop cfg seed inner (attempt + 1) of
                  (r, ds) \<Rightarrow> (r, retry_delay cfg (seed attempt) attempt err # ds)))"
  by pat_completeness auto
termination
  by (relation "measure (\<lambda>(cfg, seed, inner, attempt). max_attempts cfg - attempt)") auto

declare retry_loop.simps [simp del]

definition create_message_retrying ::
  "retry_config \<Rightarrow> (nat \<Rightarrow> nat) \<Rightarrow> (nat \<Rightarrow> llm_error + 'r) \<Rightarrow> (llm_error + 'r) \<times> duration list" where
  "create_message_retrying cfg seed inner = retry_loop cfg seed inner 1"

definition create_message_stream_retrying ::
  "retry_config \<Rightarrow> (nat \<Rightarrow> nat) \<Rightarrow> (nat \<Rightarrow> llm_error + 'r) \<Rightarrow> (llm_error + 'r) \<times> duration list" where
  "create_message_stream_retrying cfg seed inner = retry_loop cfg seed inner 1"

subsection \<open>Properties\<close>

definition may_retry :: "llm_error + 'r \<Rightarrow> bool" where
  "may_retry r = (case r of Inl e \<Rightarrow> is_retryable e | Inr _ \<Rightarrow> False)"

lemma retry_loop_spec:
  assumes "retry_loop cfg seed inner attempt = (r, ds)"
  shows "r = inner (attempt + length ds)
    \<and> (\<forall>k. attempt \<le> k \<and> k < attempt + length ds \<longrightarrow> may_retry (inner k))
    \<and> (ds \<noteq> [] \<longrightarrow> attempt + length ds \<le> max_attempts cfg)
    \<and> (may_retry r \<longrightarrow> max_attempts cfg \<le> attempt + length ds)"
  using assms
proof (induction cfg seed inner attempt arbitrary: r ds rule: retry_loop.induct)
  case (1 cfg seed inner attempt)
  show ?case
  proof (cases "inner attempt")
    case (Inr v)
    with "1.prems" have "r = Inr v" "ds = []"
      by (auto simp: retry_loop.simps [of cfg seed inner attempt])
    with Inr show ?thesis by (auto simp: may_retry_def)
  next
    case (Inl err)
    show ?thesis
    proof (cases "is_retryable err \<and> attempt < max_attempts cfg")
      case False
      with "1.prems" Inl have "r = Inl err" "ds = []"
        by (auto simp: retry_loop.simps [of cfg seed inner attempt] split: if_splits)
      with Inl False show ?thesis by (auto simp: may_retry_def)
    next
      case True
      obtain r' ds' where rec: "retry_loop cfg seed inner (attempt + 1) = (r', ds')" by fastforce
      with "1.prems" Inl True have eq: "r = r'" "ds = retry_delay cfg (seed attempt) attempt err # ds'"
        by (auto simp: retry_loop.simps [of cfg seed inner attempt])
      have here: "may_retry (inner attempt)" using Inl True by (simp add: may_retry_def)
      from "1.IH" [OF Inl _ _ rec] True
      have ih: "r' = inner (attempt + 1 + length ds')"
        "\<forall>k. attempt + 1 \<le> k \<and> k < attempt + 1 + length ds' \<longrightarrow> may_retry (inner k)"
        "ds' \<noteq> [] \<longrightarrow> attempt + 1 + length ds' \<le> max_attempts cfg"
        "may_retry r' \<longrightarrow> max_attempts cfg \<le> attempt + 1 + length ds'" by simp_all
      have len: "attempt + length ds = attempt + 1 + length ds'" using eq by simp
      have "may_retry (inner k)" if "attempt \<le> k" "k < attempt + 1 + length ds'" for k
        using that here ih(2) by (cases "k = attempt") auto
      moreover have "attempt + 1 + length ds' \<le> max_attempts cfg"
        using ih(3) True by (cases "ds' = []") auto
      ultimately show ?thesis unfolding len using ih(1,4) eq(1) by auto
    qed
  qed
qed

text \<open>C35: The retry wrapper, completely.  The result is that of the last attempt made; every earlier
  attempt failed with a retryable error; no more attempts are made than configured (one at least); and
  a retryable error is only surfaced when the attempts are exhausted.  The streaming call behaves
  alike.\<close>

theorem retries_bounded_and_faithful:
  "(case create_message_retrying cfg seed inner of (r, ds) \<Rightarrow>
      r = inner (1 + length ds)
      \<and> (\<forall>k \<in> {1..length ds}. may_retry (inner k))
      \<and> 1 + length ds \<le> max 1 (max_attempts cfg)
      \<and> (may_retry r \<longrightarrow> 1 + length ds = max 1 (max_attempts cfg)))
   \<and> create_message_stream_retrying cfg seed inner = create_message_retrying cfg seed inner"
proof -
  obtain r ds where rd: "retry_loop cfg seed inner 1 = (r, ds)" by fastforce
  from retry_loop_spec [OF rd] show ?thesis
    by (cases ds)
      (auto simp: create_message_retrying_def create_message_stream_retrying_def rd [simplified] max_def)
qed

theorem retries_bounded_and_faithful_witness:
  "create_message_retrying default_retry_config (\<lambda>_. 7)
      (\<lambda>k. if k = 1 then Inl Timeout else Inr (42::nat)) = (Inr 42, [from_millis 507])
   \<and> 1 + length [from_millis 507] \<le> max 1 (max_attempts default_retry_config)"
proof -
  let ?inner = "\<lambda>k. if k = (1::nat) then Inl Timeout else Inr (42::nat)"
  have window: "\<lfloor>(501::rat) / 2\<rfloor> = 250" by (rule floor_unique) simp_all
  have run: "create_message_retrying default_retry_config (\<lambda>_. 7) ?inner = (Inr 42, [from_millis 507])"
    by (simp add: create_message_retrying_def retry_loop.simps retry_delay_def backoff_for_def
      capped_delay_def jitter_window_def default_retry_config_def u64_wrap_def u64_sat_def
      from_millis_def from_secs_def as_millis_def Let_def window)
  with retries_bounded_and_faithful
    [where cfg = default_retry_config and seed = "\<lambda>_. 7" and inner = ?inner]
  show ?thesis by simp
qed

text \<open>Which responses are retried.  A response is retried exactly when it neither speaks of an
  overflowing context nor of moderation and carries a transient status or code; an overflow or a
  moderation verdict is never retried, whatever its status, and is recognised by the engine's recovery.\<close>

theorem classification_decides_retry:
  "(is_retryable (classify_http_error http_date status hdr err_type err_code msg body) \<longleftrightarrow>
      \<not> looks_like_context_overflow msg body \<and> \<not> looks_like_content_filter msg body
      \<and> (status \<in> {429, 500, 502, 503, 504, 529}
          \<or> status \<notin> {401, 403}
            \<and> (err_type \<in> {Some ''overloaded_error'', Some ''rate_limit_error''}
               \<or> err_code = Some ''rate_limit_exceeded'')))
   \<and> (looks_like_context_overflow msg body \<longrightarrow>
        is_context_length_error (classify_http_error http_date status hdr err_type err_code msg body))
   \<and> (\<not> looks_like_context_overflow msg body \<and> looks_like_content_filter msg body \<longrightarrow>
        is_content_filter_error (classify_http_error http_date status hdr err_type err_code msg body))"
  by (auto simp: classify_http_error_def Let_def split: option.splits)

theorem classification_decides_retry_witness:
  "is_context_length_error (classify_http_error (\<lambda>_. None) 429 None None None (Some ''Prompt is too long'') [])
   \<and> is_content_filter_error (classify_http_error (\<lambda>_. None) 400 None None None (Some ''Content Exists Risk'') [])"
proof -
  have o: "looks_like_context_overflow (Some ''Prompt is too long'') []" by code_simp
  have f: "\<not> looks_like_context_overflow (Some ''Content Exists Risk'') []"
    "looks_like_content_filter (Some ''Content Exists Risk'') []" by code_simp+
  show ?thesis
    using classification_decides_retry [where http_date = "\<lambda>_. None" and status = 429 and hdr = None
        and err_type = None and err_code = None and msg = "Some ''Prompt is too long''" and body = "[]"] o
      classification_decides_retry [where http_date = "\<lambda>_. None" and status = 400 and hdr = None
        and err_type = None and err_code = None and msg = "Some ''Content Exists Risk''" and body = "[]"] f
    by simp
qed

lemma capped_delay_le: "from_millis (capped_delay cfg attempt) \<le> max_delay cfg"
proof -
  have "capped_delay cfg attempt \<le> as_millis (max_delay cfg)"
    by (simp add: capped_delay_def Let_def u64_wrap_def min.coboundedI2)
  then have "from_millis (capped_delay cfg attempt) \<le> as_millis (max_delay cfg) * 1000000"
    by (simp add: from_millis_def)
  also have "\<dots> \<le> max_delay cfg" by (simp add: as_millis_def)
  finally show ?thesis .
qed

lemma capped_delay_mono: "a \<le> b \<Longrightarrow> capped_delay cfg a \<le> capped_delay cfg b"
proof -
  assume "a \<le> b"
  then have "(2::nat) ^ min (a - 1) 20 \<le> 2 ^ min (b - 1) 20" by (intro power_increasing) auto
  then show ?thesis by (simp add: capped_delay_def Let_def u64_sat_def min.coboundedI1 min_le_iff_disj)
qed

lemma jitter_window_le:
  assumes "jitter_ratio cfg \<le> 1"
  shows "jitter_window cfg capped \<le> capped"
proof -
  have "max 0 (of_nat capped * jitter_ratio cfg) \<le> (of_nat capped :: rat)"
    using assms mult_left_mono [of "jitter_ratio cfg" 1 "of_nat capped"] by simp
  then have "max 0 (of_nat capped * jitter_ratio cfg) + 1 / 2 < (of_nat (Suc capped) :: rat)" by simp
  then have "\<lfloor>max 0 (of_nat capped * jitter_ratio cfg) + 1 / 2\<rfloor> < int (Suc capped)"
    by (simp add: floor_less_iff)
  then show ?thesis by (simp add: jitter_window_def u64_sat_def min.coboundedI1)
qed

text \<open>Every pause before a retry is bounded: a delay the provider suggests is honoured up to the
  configured maximum, and a computed backoff lies between its deterministic part, which grows with the
  attempts up to the maximum, and twice that part (jitter at most as large as the backoff).\<close>

theorem retry_delay_bounded:
  assumes "jitter_ratio cfg \<le> 1" "2 * as_millis (max_delay cfg) < 2 ^ 64"
  shows "(\<forall>d. retry_after err = Some d \<longrightarrow> retry_delay cfg seed attempt err \<le> max_delay cfg)
    \<and> (retry_after err = None \<longrightarrow>
         from_millis (capped_delay cfg attempt) \<le> retry_delay cfg seed attempt err
         \<and> retry_delay cfg seed attempt err \<le> 2 * from_millis (capped_delay cfg attempt))
    \<and> from_millis (capped_delay cfg attempt) \<le> max_delay cfg
    \<and> capped_delay cfg attempt \<le> capped_delay cfg (attempt + 1)"
proof -
  let ?c = "capped_delay cfg attempt"
  define j where "j = (if jitter_window cfg ?c = 0 then 0 else seed mod jitter_window cfg ?c)"
  have "j \<le> jitter_window cfg ?c"
    by (simp add: j_def less_imp_le)
  then have j: "j \<le> ?c" using jitter_window_le [OF assms(1), of ?c] by simp
  have "?c \<le> as_millis (max_delay cfg)"
    by (simp add: capped_delay_def Let_def u64_wrap_def min.coboundedI2)
  with j assms(2) have "u64_wrap (?c + j) = ?c + j" by (simp add: u64_wrap_def)
  then have b: "backoff_for cfg seed attempt = from_millis (?c + j)"
    by (simp add: backoff_for_def Let_def j_def)
  show ?thesis
    using j capped_delay_le [of cfg attempt] capped_delay_mono [of attempt "attempt + 1" cfg]
    by (auto simp: retry_delay_def b from_millis_def)
qed

theorem retry_delay_bounded_witness:
  "retry_delay default_retry_config 12345 9 Timeout \<le> 2 * from_millis (capped_delay default_retry_config 9)"
  using retry_delay_bounded [of default_retry_config Timeout 12345 9]
  by (simp add: default_retry_config_def as_millis_def from_secs_def)

end
