(* ===== verification/Stream_Events.thy ===== *)
theory Stream_Events
  imports Llm Fence "HOL-Library.AList"
begin

text \<open>
  Streaming responses: the events and the accumulator of \<open>crates/snaca-llm/src/stream.rs\<close>, and the
  per-block scrubbing of \<open>scrub_stream_event\<close> in \<open>crates/snaca-engine/src/engine.rs\<close>.  A \<open>BTreeMap\<close>
  and a \<open>HashMap\<close> keyed by the block index are association lists, the former sorted by key.
  \<open>parse\<close> and \<open>ser\<close> stand for \<open>serde_json::from_str\<close> and \<open>serde_json::to_string\<close>.
\<close>

subsection \<open>Events\<close>

datatype stop_reason = EndTurn | MaxTokens | ToolUseStop | StopSequence | OtherStop string

definition is_terminal :: "stop_reason \<Rightarrow> bool" where
  "is_terminal s \<longleftrightarrow> s \<noteq> ToolUseStop"

record message_response =
  resp_id :: string
  resp_message :: message
  resp_usage :: usage
  resp_stop :: stop_reason

datatype block_start = StartText | StartThinking | StartToolUse string string

datatype content_delta = DeltaText string | DeltaThinking string | DeltaToolJson string

datatype stream_event =
    MessageStart string "string option"
  | BlockStart nat block_start
  | BlockDelta nat content_delta
  | BlockStop nat
  | MessageDelta "stop_reason option" "usage option"
  | MessageStop
  | StreamError string

subsection \<open>From a response to events\<close>

fun synthesize_block :: "(json \<Rightarrow> string) \<Rightarrow> nat \<Rightarrow> content_block \<Rightarrow> stream_event list" where
  "synthesize_block ser i (Text t) = [BlockStart i StartText, BlockDelta i (DeltaText t), BlockStop i]"
| "synthesize_block ser i (Thinking t _) =
     [BlockStart i StartThinking, BlockDelta i (DeltaThinking t), BlockStop i]"
| "synthesize_block ser i (ToolUse u name input) =
     [BlockStart i (StartToolUse u name), BlockDelta i (DeltaToolJson (ser input)), BlockStop i]"
| "synthesize_block ser i _ = []"

fun synthesize_blocks :: "(json \<Rightarrow> string) \<Rightarrow> nat \<Rightarrow> content_block list \<Rightarrow> stream_event list" where
  "synthesize_blocks ser i [] = []"
| "synthesize_blocks ser i (b # bs) = synthesize_block ser i b @ synthesize_blocks ser (i + 1) bs"

definition synthesize_events :: "(json \<Rightarrow> string) \<Rightarrow> message_response \<Rightarrow> stream_event list" where
  "synthesize_events ser resp =
     MessageStart (resp_id resp) None
       # synthesize_blocks ser 0 (m_content (resp_message resp))
       @ [MessageDelta (Some (resp_stop resp)) (Some (resp_usage resp)), MessageStop]"

subsection \<open>The accumulator\<close>

datatype partial_block =
    PText string
  | PThinking string "string option"
  | PToolUse string string string

record accumulator =
  a_message_id :: "string option"
  a_model :: "string option"
  a_blocks :: "(nat \<times> partial_block) list"
  a_stop :: "stop_reason option"
  a_usage :: "usage option"
  a_error :: "string option"

definition new_accumulator :: accumulator where
  "new_accumulator = \<lparr>a_message_id = None, a_model = None, a_blocks = [], a_stop = None,
     a_usage = None, a_error = None\<rparr>"

fun from_start :: "block_start \<Rightarrow> partial_block" where
  "from_start StartText = PText []"
| "from_start StartThinking = PThinking [] None"
| "from_start (StartToolUse i n) = PToolUse i n []"

fun ingest_delta :: "partial_block \<Rightarrow> content_delta \<Rightarrow> partial_block" where
  "ingest_delta (PText buf) (DeltaText t) = PText (buf @ t)"
| "ingest_delta (PThinking buf s) (DeltaThinking t) = PThinking (buf @ t) s"
| "ingest_delta (PToolUse i n args) (DeltaToolJson j) = PToolUse i n (args @ j)"
| "ingest_delta b _ = b"

text \<open>\<open>BTreeMap::insert\<close> and the update through \<open>get_mut\<close>.\<close>

fun btree_insert :: "nat \<Rightarrow> 'v \<Rightarrow> (nat \<times> 'v) list \<Rightarrow> (nat \<times> 'v) list" where
  "btree_insert k v [] = [(k, v)]"
| "btree_insert k v ((l, w) # kvs) =
     (if k < l then (k, v) # (l, w) # kvs
      else if k = l then (k, v) # kvs
      else (l, w) # btree_insert k v kvs)"

definition btree_update :: "nat \<Rightarrow> ('v \<Rightarrow> 'v) \<Rightarrow> (nat \<times> 'v) list \<Rightarrow> (nat \<times> 'v) list" where
  "btree_update k f kvs = map (\<lambda>(l, w). (l, if l = k then f w else w)) kvs"

fun ingest :: "accumulator \<Rightarrow> stream_event \<Rightarrow> accumulator" where
  "ingest a (MessageStart i m) = a\<lparr>a_message_id := Some i, a_model := m\<rparr>"
| "ingest a (BlockStart i s) = a\<lparr>a_blocks := btree_insert i (from_start s) (a_blocks a)\<rparr>"
| "ingest a (BlockDelta i d) = a\<lparr>a_blocks := btree_update i (\<lambda>b. ingest_delta b d) (a_blocks a)\<rparr>"
| "ingest a (BlockStop _) = a"
| "ingest a (MessageDelta stop u) =
     a\<lparr>a_stop := (case stop of Some r \<Rightarrow> Some r | None \<Rightarrow> a_stop a),
       a_usage := (case u of Some v \<Rightarrow> Some v | None \<Rightarrow> a_usage a)\<rparr>"
| "ingest a MessageStop = a"
| "ingest a (StreamError e) = (if a_error a = None then a\<lparr>a_error := Some e\<rparr> else a)"

text \<open>The error text of a malformed argument blob; \<open>perr\<close> is the parser's own message.\<close>

fun char_prefix :: "nat \<Rightarrow> string \<Rightarrow> nat" where
  "char_prefix n [] = 0"
| "char_prefix n (c # cs) =
     (if is_cont c then Suc (char_prefix n cs) else if n = 0 then 0 else Suc (char_prefix (n - 1) cs))"

definition preview_args :: "string \<Rightarrow> string" where
  "preview_args args =
     (let len = char_count args in
      if len \<le> 200 + 200 + 32 then args
      else take (char_prefix 200 args) args @ ellipsis @ ''['' @ show_nat (len - 200 - 200)
        @ '' chars elided]'' @ ellipsis @ drop (char_prefix (len - 200) args) args)"

definition malformed_message ::
  "(string \<Rightarrow> string) \<Rightarrow> stop_reason option \<Rightarrow> string \<Rightarrow> string \<Rightarrow> string" where
  "malformed_message perr stop name args =
     ''tool '' @ [CHR 0x27] @ name @ [CHR 0x27] @ '' streamed invalid JSON arguments (args_len=''
       @ show_nat (char_count args) @ '' chars): '' @ perr args
       @ (if stop = Some MaxTokens
          then '' (stop_reason=max_tokens '' @ map (\<lambda>n. char_of (n::nat)) [0xE2, 0x80, 0x94]
                 @ '' raise engine.max_tokens or have the model write smaller chunks)''
          else [])
       @ ''; raw_preview='' @ preview_args args"

fun into_content_block ::
  "(string \<Rightarrow> json option) \<Rightarrow> (string \<Rightarrow> string) \<Rightarrow> stop_reason option \<Rightarrow> partial_block
     \<Rightarrow> llm_error + content_block" where
  "into_content_block parse perr stop (PText t) = Inr (Text t)"
| "into_content_block parse perr stop (PThinking t s) = Inr (Thinking t s)"
| "into_content_block parse perr stop (PToolUse i name args) =
     (if trim args = [] then Inr (ToolUse i name (JObject []))
      else case parse args of
             Some v \<Rightarrow> Inr (ToolUse i name v)
           | None \<Rightarrow> Inl (MalformedToolArgs name (char_count args) (malformed_message perr stop name args)))"

fun finalize_blocks ::
  "(string \<Rightarrow> json option) \<Rightarrow> (string \<Rightarrow> string) \<Rightarrow> stop_reason option \<Rightarrow> (nat \<times> partial_block) list
     \<Rightarrow> llm_error + content_block list" where
  "finalize_blocks parse perr stop [] = Inr []"
| "finalize_blocks parse perr stop ((_, b) # bs) =
     (case into_content_block parse perr stop b of
        Inl e \<Rightarrow> Inl e
      | Inr c \<Rightarrow> (case finalize_blocks parse perr stop bs of Inl e \<Rightarrow> Inl e | Inr cs \<Rightarrow> Inr (c # cs)))"

definition finalize ::
  "(string \<Rightarrow> json option) \<Rightarrow> (string \<Rightarrow> string) \<Rightarrow> message_id \<Rightarrow> timestamp \<Rightarrow> accumulator
     \<Rightarrow> llm_error + message_response" where
  "finalize parse perr fresh now a =
     (case a_error a of
        Some e \<Rightarrow> Inl (Provider ''stream_error'' e)
      | None \<Rightarrow>
          (case finalize_blocks parse perr (a_stop a) (a_blocks a) of
             Inl e \<Rightarrow> Inl e
           | Inr content \<Rightarrow>
               Inr \<lparr>resp_id = (case a_message_id a of Some i \<Rightarrow> i | None \<Rightarrow> []),
                    resp_message = \<lparr>m_id = fresh, m_role = Assistant, m_content = content, m_created_at = now\<rparr>,
                    resp_usage = (case a_usage a of Some u \<Rightarrow> u | None \<Rightarrow> usage_default),
                    resp_stop = (case a_stop a of
                        Some r \<Rightarrow> r
                      | None \<Rightarrow> if list_ex is_ToolUse content then ToolUseStop else EndTurn)\<rparr>))"

subsection \<open>Scrubbing the events\<close>

datatype fence_kind = FenceText | FenceThinking

type_synonym scrubbers = "(nat \<times> (scrubber \<times> fence_kind)) list"

definition scrub_delta ::
  "scrubbers \<Rightarrow> nat \<Rightarrow> (string \<Rightarrow> content_delta) \<Rightarrow> string \<Rightarrow> stream_event list \<times> scrubbers" where
  "scrub_delta ss i mk t =
     (case map_of ss i of
        Some (s, kind) \<Rightarrow>
          (case push s t of
             (cleaned, s') \<Rightarrow>
               (if cleaned = [] then [] else [BlockDelta i (mk cleaned)], AList.update i (s', kind) ss))
      | None \<Rightarrow> (if t = [] then [] else [BlockDelta i (mk t)], ss))"

fun scrub_stream_event :: "scrubbers \<Rightarrow> stream_event \<Rightarrow> stream_event list \<times> scrubbers" where
  "scrub_stream_event ss (BlockStart i StartText) =
     ([BlockStart i StartText], AList.update i (new_scrubber, FenceText) ss)"
| "scrub_stream_event ss (BlockStart i StartThinking) =
     ([BlockStart i StartThinking], AList.update i (new_scrubber, FenceThinking) ss)"
| "scrub_stream_event ss (BlockDelta i (DeltaText t)) = scrub_delta ss i DeltaText t"
| "scrub_stream_event ss (BlockDelta i (DeltaThinking t)) = scrub_delta ss i DeltaThinking t"
| "scrub_stream_event ss (BlockStop i) =
     (case map_of ss i of
        Some (s, kind) \<Rightarrow>
          (let tail = fst (flush s) in
           ((if tail = [] then []
             else [BlockDelta i (case kind of FenceText \<Rightarrow> DeltaText tail | FenceThinking \<Rightarrow> DeltaThinking tail)])
              @ [BlockStop i], AList.delete i ss))
      | None \<Rightarrow> ([BlockStop i], ss))"
| "scrub_stream_event ss ev = ([ev], ss)"

fun scrub_events :: "scrubbers \<Rightarrow> stream_event list \<Rightarrow> stream_event list \<times> scrubbers" where
  "scrub_events ss [] = ([], ss)"
| "scrub_events ss (ev # evs) =
     (case scrub_stream_event ss ev of
        (out, ss') \<Rightarrow> (case scrub_events ss' evs of (out', ss'') \<Rightarrow> (out @ out', ss'')))"

subsection \<open>Lemmas on the keyed blocks\<close>

lemma map_of_btree_insert: "map_of (btree_insert k v kvs) j = (if j = k then Some v else map_of kvs j)"
  by (induction k v kvs rule: btree_insert.induct) auto

lemma map_of_btree_update: "map_of (btree_update k f kvs) j = (if j = k then map_option f (map_of kvs j) else map_of kvs j)"
  by (induction kvs) (auto simp: btree_update_def)

lemma btree_insert_last: "\<forall>(l, w) \<in> set kvs. l < k \<Longrightarrow> btree_insert k v kvs = kvs @ [(k, v)]"
  by (induction k v kvs rule: btree_insert.induct) auto

lemma btree_update_last:
  "\<forall>(l, w) \<in> set kvs. l < k \<Longrightarrow> btree_update k f (kvs @ [(k, v)]) = kvs @ [(k, f v)]"
  by (induction kvs) (auto simp: btree_update_def)

subsection \<open>Round trip through the event stream\<close>

text \<open>What of an assistant message a stream carries: no thinking signature, no results, no images.\<close>

fun streamed :: "content_block list \<Rightarrow> content_block list" where
  "streamed [] = []"
| "streamed (Text t # bs) = Text t # streamed bs"
| "streamed (Thinking t _ # bs) = Thinking t None # streamed bs"
| "streamed (ToolUse i n v # bs) = ToolUse i n v # streamed bs"
| "streamed (_ # bs) = streamed bs"

fun partials :: "(json \<Rightarrow> string) \<Rightarrow> nat \<Rightarrow> content_block list \<Rightarrow> (nat \<times> partial_block) list" where
  "partials ser i [] = []"
| "partials ser i (Text t # bs) = (i, PText t) # partials ser (i + 1) bs"
| "partials ser i (Thinking t _ # bs) = (i, PThinking t None) # partials ser (i + 1) bs"
| "partials ser i (ToolUse u n v # bs) = (i, PToolUse u n (ser v)) # partials ser (i + 1) bs"
| "partials ser i (_ # bs) = partials ser (i + 1) bs"

lemma ingest_synthesized:
  "\<forall>(l, w) \<in> set (a_blocks a). l < i \<Longrightarrow>
     foldl ingest a (synthesize_blocks ser i bs) = a\<lparr>a_blocks := a_blocks a @ partials ser i bs\<rparr>"
proof (induction bs arbitrary: a i)
  case Nil
  then show ?case by simp
next
  case (Cons b bs)
  let ?new = "partials ser i [b]"
  have head: "foldl ingest a (synthesize_block ser i b) = a\<lparr>a_blocks := a_blocks a @ ?new\<rparr>"
    using Cons.prems by (cases b) (simp_all add: btree_insert_last btree_update_last)
  have "\<forall>(l, w) \<in> set (a_blocks (a\<lparr>a_blocks := a_blocks a @ ?new\<rparr>)). l < i + 1"
    using Cons.prems by (cases b) auto
  note tail = Cons.IH [OF this]
  have "partials ser i (b # bs) = ?new @ partials ser (i + 1) bs" by (cases b) simp_all
  then show ?case using tail by (simp add: head)
qed

definition tool_inputs :: "content_block list \<Rightarrow> json list" where
  "tool_inputs bs = concat (map (\<lambda>b. case b of ToolUse _ _ v \<Rightarrow> [v] | _ \<Rightarrow> []) bs)"

lemma finalize_partials:
  "\<forall>v \<in> set (tool_inputs bs). parse (ser v) = Some v \<and> trim (ser v) \<noteq> [] \<Longrightarrow>
     finalize_blocks parse perr stop (partials ser i bs) = Inr (streamed bs)"
  by (induction ser i bs rule: partials.induct) (auto simp: tool_inputs_def)

text \<open>C36: A response replayed as events and accumulated again is the response: same id, usage and stop
  reason and the same blocks in order, without thinking signatures (which no event carries) and blocks
  that do not occur in assistant messages.  The serialiser is assumed to be inverted by the parser on
  the tool inputs of the response.\<close>

theorem synthesized_stream_roundtrip:
  assumes "\<forall>v \<in> set (tool_inputs (m_content (resp_message resp))). parse (ser v) = Some v \<and> trim (ser v) \<noteq> []"
  shows "finalize parse perr fresh now (foldl ingest new_accumulator (synthesize_events ser resp))
    = Inr (resp\<lparr>resp_message := \<lparr>m_id = fresh, m_role = Assistant,
        m_content = streamed (m_content (resp_message resp)), m_created_at = now\<rparr>\<rparr>)"
  using ingest_synthesized [of "new_accumulator\<lparr>a_message_id := Some (resp_id resp), a_model := None\<rparr>" 0 ser
      "m_content (resp_message resp)"] finalize_partials [OF assms]
  by (simp add: synthesize_events_def new_accumulator_def finalize_def)

theorem synthesized_stream_roundtrip_witness:
  "\<exists>r. finalize (\<lambda>s. if s = ''null'' then Some JNull else None) (\<lambda>_. []) 1 2
     (foldl ingest new_accumulator (synthesize_events (\<lambda>_. ''null'')
       \<lparr>resp_id = ''x'', resp_message = \<lparr>m_id = 0, m_role = Assistant, m_content = [Text ''a'', ToolUse ''t'' ''Read'' JNull],
         m_created_at = 0\<rparr>, resp_usage = usage_default, resp_stop = ToolUseStop\<rparr>)) = Inr r
     \<and> m_content (resp_message r) = [Text ''a'', ToolUse ''t'' ''Read'' JNull]"
proof -
  let ?r = "\<lparr>resp_id = ''x'', resp_message = \<lparr>m_id = 0, m_role = Assistant, m_content = [Text ''a'', ToolUse ''t'' ''Read'' JNull],
         m_created_at = 0\<rparr>, resp_usage = usage_default, resp_stop = ToolUseStop\<rparr>"
  let ?parse = "\<lambda>s. if s = ''null'' then Some JNull else None"
  have "trim ''null'' \<noteq> []" by code_simp
  then have "\<forall>v \<in> set (tool_inputs (m_content (resp_message ?r))). ?parse ''null'' = Some v \<and> trim ''null'' \<noteq> []"
    by (simp add: tool_inputs_def)
  from synthesized_stream_roundtrip [of ?r ?parse "\<lambda>_. ''null''" "\<lambda>_. []" 1 2, OF this]
  show ?thesis by simp
qed

subsection \<open>Scrubbed blocks\<close>

fun ev_index :: "stream_event \<Rightarrow> nat option" where
  "ev_index (BlockStart i _) = Some i"
| "ev_index (BlockDelta i _) = Some i"
| "ev_index (BlockStop i) = Some i"
| "ev_index _ = None"

fun block_texts_of :: "nat \<Rightarrow> stream_event list \<Rightarrow> string list" where
  "block_texts_of i [] = []"
| "block_texts_of i (ev # evs) =
     (case ev of
        BlockDelta j (DeltaText t) \<Rightarrow> if j = i then t # block_texts_of i evs else block_texts_of i evs
      | _ \<Rightarrow> block_texts_of i evs)"

definition only_text_deltas :: "nat \<Rightarrow> stream_event list \<Rightarrow> bool" where
  "only_text_deltas i evs \<longleftrightarrow>
     list_all (\<lambda>ev. ev_index ev \<noteq> Some i \<or> (case ev of BlockDelta _ (DeltaText _) \<Rightarrow> True | _ \<Rightarrow> False)) evs"

lemma scrub_other_keeps:
  assumes "ev_index ev \<noteq> Some i" "scrub_stream_event ss ev = (out, ss')"
  shows "map_of ss' i = map_of ss i \<and> map_of (a_blocks (foldl ingest a out)) i = map_of (a_blocks a) i"
proof -
  have delta: "scrub_delta ss j mk t = (out, ss') \<Longrightarrow> j \<noteq> i \<Longrightarrow>
      map_of ss' i = map_of ss i \<and> map_of (a_blocks (foldl ingest a out)) i = map_of (a_blocks a) i" for j mk t
    by (auto simp: scrub_delta_def update_conv map_of_btree_update split: option.splits prod.splits if_splits)
  show ?thesis
    using assms
    by (cases "(ss, ev)" rule: scrub_stream_event.cases)
      (auto dest: delta simp: update_conv delete_conv map_of_btree_insert map_of_btree_update Let_def
        split: option.splits prod.splits if_splits)
qed

lemma scrub_mid:
  "only_text_deltas i mid \<Longrightarrow> map_of ss i = Some (s, FenceText)
   \<Longrightarrow> map_of (a_blocks a) i = Some (PText buf)
   \<Longrightarrow> scrub_events ss mid = (out, ss') \<Longrightarrow> scrubbing.feed_all s (block_texts_of i mid) = (t, s')
   \<Longrightarrow> map_of ss' i = Some (s', FenceText) \<and> map_of (a_blocks (foldl ingest a out)) i = Some (PText (buf @ t))"
proof (induction mid arbitrary: ss s a buf out t)
  case Nil
  then show ?case by simp
next
  case (Cons ev mid)
  obtain o1 ss1 where e: "scrub_stream_event ss ev = (o1, ss1)" by fastforce
  obtain o2 where r: "scrub_events ss1 mid = (o2, ss')" "out = o1 @ o2"
    using Cons.prems(4) e by (auto split: prod.splits)
  have mid: "only_text_deltas i mid" using Cons.prems(1) by (simp add: only_text_deltas_def)
  show ?case
  proof (cases "ev_index ev = Some i")
    case False
    then have t: "block_texts_of i (ev # mid) = block_texts_of i mid"
      by (auto split: stream_event.splits content_delta.splits)
    have k: "map_of ss1 i = Some (s, FenceText)" "map_of (a_blocks (foldl ingest a o1)) i = Some (PText buf)"
      using scrub_other_keeps [OF False e, of a] Cons.prems(2,3) by simp_all
    from Cons.IH [OF mid k r(1)] Cons.prems(5) t r(2) show ?thesis by simp
  next
    case True
    with Cons.prems(1) obtain x where ev: "ev = BlockDelta i (DeltaText x)"
      by (cases ev) (auto simp: only_text_deltas_def split: content_delta.splits)
    obtain c s1 where p: "push s x = (c, s1)" by fastforce
    obtain t1 where f: "scrubbing.feed_all s1 (block_texts_of i mid) = (t1, s')" "t = c @ t1"
      using Cons.prems(5) by (auto simp: ev p split: prod.splits)
    have o1: "o1 = (if c = [] then [] else [BlockDelta i (DeltaText c)])" "ss1 = AList.update i (s1, FenceText) ss"
      using e Cons.prems(2) by (auto simp: ev scrub_delta_def p)
    have k: "map_of ss1 i = Some (s1, FenceText)"
      "map_of (a_blocks (foldl ingest a o1)) i = Some (PText (buf @ c))"
      using Cons.prems(3) o1 by (auto simp: update_conv map_of_btree_update)
    from Cons.IH [OF mid k r(1) f(1)] show ?thesis by (simp add: r(2) f(2))
  qed
qed

text \<open>Scrubbing is per block and survives interleaving.  However the deltas of a text block are cut
  and interleaved with events of other blocks, the text accumulated for the block is the scrubbing of
  its own text alone, including the tail held back until the block stops.\<close>

theorem scrubbed_block_is_own_text:
  assumes "only_text_deltas i mid"
    and "scrub_events ss (BlockStart i StartText # mid @ [BlockStop i]) = (out, ss')"
  shows "map_of (a_blocks (foldl ingest a out)) i = Some (PText (scrub_stream (block_texts_of i mid)))
    \<and> map_of ss' i = None"
proof -
  let ?ss = "AList.update i (new_scrubber, FenceText) ss"
  let ?a = "ingest a (BlockStart i StartText)"
  have run_app: "scrub_events ss (xs @ ys) = (case scrub_events ss xs of (o1, ss1) \<Rightarrow>
      case scrub_events ss1 ys of (o2, ss2) \<Rightarrow> (o1 @ o2, ss2))" for ss xs ys
    by (induction xs arbitrary: ss) (auto split: prod.splits)
  obtain o1 ss1 where m: "scrub_events ?ss mid = (o1, ss1)" by fastforce
  obtain t s where f: "scrubbing.feed_all new_scrubber (block_texts_of i mid) = (t, s)" by fastforce
  have mid: "map_of ss1 i = Some (s, FenceText)" "map_of (a_blocks (foldl ingest ?a o1)) i = Some (PText t)"
    using scrub_mid [OF assms(1) _ _ m f, of ?a "[]"] by (simp_all add: update_conv map_of_btree_insert)
  have out: "out = BlockStart i StartText # o1 @
      (if fst (flush s) = [] then [] else [BlockDelta i (DeltaText (fst (flush s)))]) @ [BlockStop i]"
    "ss' = AList.delete i ss1"
    using assms(2) mid(1) by (auto simp: run_app m Let_def)
  have scr: "scrub_stream (block_texts_of i mid) = t @ fst (flush s)"
    using f feed_all_new [of "block_texts_of i mid"] by (simp add: scrub_stream_feed)
  show ?thesis
    using mid(2) by (simp add: out scr delete_conv map_of_btree_update)
qed

theorem scrubbed_block_is_own_text_witness:
  "map_of (a_blocks (foldl ingest new_accumulator (fst (scrub_events []
     (BlockStart 0 StartText # [BlockDelta 0 (DeltaText ''hi <b''), BlockStart 1 StartThinking,
        BlockDelta 1 (DeltaThinking ''x''), BlockDelta 0 (DeltaText ''>'')] @ [BlockStop 0]))))) 0
   = Some (PText ''hi <b>'')"
proof -
  let ?mid = "[BlockDelta 0 (DeltaText ''hi <b''), BlockStart 1 StartThinking,
        BlockDelta 1 (DeltaThinking ''x''), BlockDelta 0 (DeltaText ''>'')]"
  obtain out ss' where r: "scrub_events [] (BlockStart 0 StartText # ?mid @ [BlockStop 0]) = (out, ss')"
    by fastforce
  have ok: "only_text_deltas 0 ?mid" by (simp add: only_text_deltas_def)
  have "scrub_stream [''hi <b'', ''>''] = ''hi <b>''" by code_simp
  with scrubbed_block_is_own_text [OF ok r, of new_accumulator] r show ?thesis by simp
qed

end
