(* ===== verification/Summary.thy ===== *)
theory Summary
  imports History
begin

text \<open>
  The thread summary of \<open>crates/snaca-engine/src/engine.rs\<close>: the transcript the summariser reads
  (\<open>render_for_summary\<close>) and the cleaning of what it answers (\<open>sanitize_thread_summary\<close>).
\<close>

subsection \<open>Cleaning the summariser's answer\<close>

definition SUMMARY_POISON_MARKERS :: "string list" where
  "SUMMARY_POISON_MARKERS =
     [''DSML'',
      ''tool_calls'',
      ''tool'' @ map (\<lambda>n. char_of (n::nat)) [0xE2, 0x96, 0x81] @ ''call'',
      ''<'' @ map (\<lambda>n. char_of (n::nat)) [0xEF, 0xBD, 0x9C] @ ''tool'',
      ''<'' @ map (\<lambda>n. char_of (n::nat)) [0xEF, 0xBD, 0x9C, 0xEF, 0xBD, 0x9C],
      ''invoke name='',
      ''antml:invoke'']"

definition MIN_SUMMARY_CHARS :: nat where
  "MIN_SUMMARY_CHARS = 24"

fun strip_markers :: "string list \<Rightarrow> string \<Rightarrow> bool \<Rightarrow> string \<times> bool" where
  "strip_markers [] cleaned truncated = (cleaned, truncated)"
| "strip_markers (marker # markers) cleaned truncated =
     (case find_sub marker cleaned of
        Some idx \<Rightarrow> strip_markers markers (take idx cleaned) True
      | None \<Rightarrow> strip_markers markers cleaned truncated)"

definition sanitize_thread_summary :: "string \<Rightarrow> string option" where
  "sanitize_thread_summary raw =
     (case strip_markers SUMMARY_POISON_MARKERS raw False of
        (cleaned0, truncated) \<Rightarrow>
          (let cleaned = trim cleaned0 in
           if cleaned = [] then None
           else if truncated \<and> char_count cleaned < MIN_SUMMARY_CHARS then None
           else Some cleaned))"

lemma strip_markers_prefix: "strip_markers ms s t = (s', t') \<Longrightarrow> prefix s' s"
proof (induction ms s t rule: strip_markers.induct)
  case (2 m ms s t)
  then show ?case
    by (auto split: option.splits) (meson prefix_order.trans take_is_prefix)
qed simp

lemma strip_markers_free:
  "strip_markers ms s t = (s', t') \<Longrightarrow> [] \<notin> set ms \<Longrightarrow> m \<in> set ms \<Longrightarrow> \<not> sublist m s'"
proof (induction ms s t rule: strip_markers.induct)
  case (2 marker ms s t)
  show ?case
  proof (cases "find_sub marker s")
    case None
    with 2 have "strip_markers ms s t = (s', t')" by simp
    moreover from None have "\<not> sublist marker s" by (simp add: find_sub_None_iff)
    ultimately show ?thesis
      using 2 None strip_markers_prefix [of ms s t] sublist_order.order_trans prefix_imp_sublist
      by (metis insert_iff list.simps(15) option.case(1))
  next
    case (Some i)
    with 2 have r: "strip_markers ms (take i s) True = (s', t')" by simp
    have "\<not> sublist marker (take i s)"
      using find_sub_take_free [OF _ Some] 2 by auto
    with r show ?thesis
      using 2 Some strip_markers_prefix [OF r] sublist_order.order_trans prefix_imp_sublist
      by (metis insert_iff list.simps(15) option.case(2))
  qed
qed simp

lemma strip_markers_untouched:
  "strip_markers ms s False = (s', t') \<Longrightarrow> \<forall>m \<in> set ms. \<not> sublist m s \<Longrightarrow> s' = s \<and> \<not> t'"
  by (induction ms arbitrary: s s' t') (auto simp: find_sub_None_iff [symmetric])

text \<open>No poison reaches a stored summary.  Whatever the summariser answers, what is stored is a part
  of the answer, not blank, and contains none of the tool-call markers; and an answer without markers
  is stored trimmed and otherwise unchanged, however short.\<close>

theorem stored_summary_is_clean:
  "(\<forall>s. sanitize_thread_summary raw = Some s \<longrightarrow>
      sublist s raw \<and> s \<noteq> [] \<and> (\<forall>m \<in> set SUMMARY_POISON_MARKERS. \<not> contains s m))
   \<and> ((\<forall>m \<in> set SUMMARY_POISON_MARKERS. \<not> contains raw m) \<and> trim raw \<noteq> [] \<longrightarrow>
      sanitize_thread_summary raw = Some (trim raw))"
proof -
  obtain c t where ct: "strip_markers SUMMARY_POISON_MARKERS raw False = (c, t)" by fastforce
  have ne: "[] \<notin> set SUMMARY_POISON_MARKERS" by (simp add: SUMMARY_POISON_MARKERS_def)
  have pre: "sublist c raw" using strip_markers_prefix [OF ct] by (rule prefix_imp_sublist)
  have free: "\<not> sublist m (trim c)" if "m \<in> set SUMMARY_POISON_MARKERS" for m
    using strip_markers_free [OF ct ne that] trim_sublist sublist_order.order_trans by blast
  have "sublist (trim c) raw" using pre trim_sublist sublist_order.order_trans by blast
  with free have one: "sanitize_thread_summary raw = Some s \<Longrightarrow>
      sublist s raw \<and> s \<noteq> [] \<and> (\<forall>m \<in> set SUMMARY_POISON_MARKERS. \<not> contains s m)" for s
    by (auto simp: sanitize_thread_summary_def ct contains_iff_sublist Let_def split: if_splits)
  have two: "sanitize_thread_summary raw = Some (trim raw)"
    if "\<forall>m \<in> set SUMMARY_POISON_MARKERS. \<not> contains raw m" "trim raw \<noteq> []"
    using strip_markers_untouched [OF ct] that
    by (simp add: sanitize_thread_summary_def ct contains_iff_sublist)
  from one two show ?thesis by blast
qed

theorem stored_summary_is_clean_witness:
  "sanitize_thread_summary ''ok '' = Some ''ok''"
proof -
  have "\<forall>m \<in> set SUMMARY_POISON_MARKERS. \<not> contains ''ok '' m" by code_simp
  moreover have t: "trim ''ok '' = ''ok''" by code_simp
  ultimately show ?thesis using stored_summary_is_clean [of "''ok ''"] by simp
qed

subsection \<open>The transcript for the summariser\<close>

definition push_capped :: "string \<Rightarrow> nat \<Rightarrow> string" where
  "push_capped s m =
     (let e = floor_char_boundary s m in
      take e s @ (if e < length s
                  then ''['' @ ellipsis @ show_nat (length s - e) @ '' bytes truncated'' @ ellipsis @ '']''
                  else []))"

fun role_label :: "role \<Rightarrow> string" where
  "role_label User = ''USER''"
| "role_label Assistant = ''ASSISTANT''"
| "role_label Tool = ''TOOL''"
| "role_label System = ''SYSTEM''"

fun render_block :: "(json \<Rightarrow> string option) \<Rightarrow> nat \<Rightarrow> content_block \<Rightarrow> string" where
  "render_block ser m (Text t) = push_capped t m"
| "render_block ser m (Thinking t _) = ''[thinking] '' @ push_capped t m"
| "render_block ser m (ToolUse _ name input) =
     ''[called tool '' @ name @ '' with ''
       @ push_capped (case ser input of Some s \<Rightarrow> s | None \<Rightarrow> []) m @ '']''"
| "render_block ser m (ToolResult _ content is_error) =
     (if is_error then ''[tool error]'' else ''[tool result]'') @ '' ''
       @ push_capped (concat (block_texts content)) m"
| "render_block ser m (Image _) = ''[image]''"

definition render_row :: "(json \<Rightarrow> string option) \<Rightarrow> nat \<Rightarrow> message \<Rightarrow> string" where
  "render_row ser m r =
     role_label (m_role r) @ '': '' @ concat (map (\<lambda>b. render_block ser m b @ '' '') (m_content r)) @ [newline]"

text \<open>The loop over the rows from the newest; the result is newest first.\<close>

fun keep_loop :: "(message \<Rightarrow> string) \<Rightarrow> nat \<Rightarrow> message list \<Rightarrow> nat \<Rightarrow> string list \<Rightarrow> string list" where
  "keep_loop render total_max [] used kept = kept"
| "keep_loop render total_max (r # rs) used kept =
     (let chunk = render r in
      if 0 < total_max \<and> kept \<noteq> [] \<and> total_max < used + length chunk then kept
      else keep_loop render total_max rs (used + length chunk) (kept @ [chunk]))"

definition omitted_note :: "nat \<Rightarrow> string" where
  "omitted_note n = ''['' @ ellipsis @ '' '' @ show_nat n
     @ '' older messages omitted to fit the summary budget '' @ ellipsis @ '']'' @ [newline]"

definition render_for_summary :: "(json \<Rightarrow> string option) \<Rightarrow> message list \<Rightarrow> nat \<Rightarrow> nat \<Rightarrow> string" where
  "render_for_summary ser rows max_block_bytes total_max =
     (let kept = keep_loop (render_row ser max_block_bytes) total_max (rev rows) 0 [];
          omitted = length rows - length kept
      in (if 0 < omitted then omitted_note omitted else []) @ concat (rev kept))"

lemma keep_loop_spec:
  assumes "used = length (concat kept)"
  shows "\<exists>k. keep_loop render total_max rs used kept = kept @ map render (take k rs)
    \<and> k \<le> length rs
    \<and> (kept = [] \<and> rs \<noteq> [] \<longrightarrow> 0 < k)
    \<and> (0 < total_max \<longrightarrow> length (concat (kept @ map render (take k rs)))
         \<le> max total_max (length (concat (if kept = [] then map render (take 1 rs) else kept))))
    \<and> (k < length rs \<longrightarrow> 0 < total_max \<and> total_max < length (concat (kept @ map render (take (Suc k) rs))))"
  using assms
proof (induction rs arbitrary: used kept)
  case Nil
  then show ?case by (intro exI [of _ 0]) auto
next
  case (Cons r rs)
  show ?case
  proof (cases "0 < total_max \<and> kept \<noteq> [] \<and> total_max < used + length (render r)")
    case True
    then show ?thesis using Cons.prems by (intro exI [of _ 0]) (auto simp: Let_def)
  next
    case False
    have "used + length (render r) = length (concat (kept @ [render r]))" using Cons.prems by simp
    from Cons.IH [OF this] obtain k where k:
      "keep_loop render total_max rs (used + length (render r)) (kept @ [render r])
         = (kept @ [render r]) @ map render (take k rs)"
      "k \<le> length rs"
      "0 < total_max \<longrightarrow> length (concat ((kept @ [render r]) @ map render (take k rs)))
         \<le> max total_max (length (concat (kept @ [render r])))"
      "k < length rs \<longrightarrow> 0 < total_max \<and> total_max < length (concat ((kept @ [render r]) @ map render (take (Suc k) rs)))"
      by auto
    have fits: "0 < total_max \<and> kept \<noteq> [] \<longrightarrow> length (concat kept) + length (render r) \<le> total_max"
      using False Cons.prems by auto
    have bound: "0 < total_max \<longrightarrow> length (concat (kept @ map render (take (Suc k) (r # rs))))
         \<le> max total_max (length (concat (if kept = [] then map render (take 1 (r # rs)) else kept)))"
      using k(3) fits by (cases "kept = []") auto
    have run: "keep_loop render total_max (r # rs) used kept = kept @ map render (take (Suc k) (r # rs))"
      using k(1) False by (simp add: Let_def)
    show ?thesis
      using k(2,4) bound run by (intro exI [of _ "Suc k"]) simp
  qed
qed

text \<open>The summariser's request keeps within its budget.  The transcript is the newest rows in
  order, at least the newest one, behind a note of how many were left out; the rows fit the byte
  ceiling unless the newest alone exceeds it; and a row is left out only when it would not have fitted.\<close>

theorem summary_transcript_budget:
  assumes "rows \<noteq> []"
  shows "\<exists>k. 0 < k \<and> k \<le> length rows
    \<and> render_for_summary ser rows m total_max =
        (if k < length rows then omitted_note (length rows - k) else [])
          @ concat (map (render_row ser m) (drop (length rows - k) rows))
    \<and> (0 < total_max \<longrightarrow> length (concat (map (render_row ser m) (drop (length rows - k) rows)))
         \<le> max total_max (length (render_row ser m (last rows))))
    \<and> (k < length rows \<longrightarrow> 0 < total_max \<and>
         total_max < length (concat (map (render_row ser m) (drop (length rows - Suc k) rows))))"
proof -
  let ?f = "render_row ser m"
  have rc: "length (concat (rev xs)) = length (concat xs)" for xs :: "string list"
    by (induction xs) auto
  have tk: "rev (map ?f (take k (rev rows))) = map ?f (drop (length rows - k) rows)" for k
    by (simp add: take_rev rev_map)
  have len: "length (concat (map ?f (take k (rev rows)))) = length (concat (map ?f (drop (length rows - k) rows)))" for k
    using rc [of "map ?f (take k (rev rows))"] tk [of k] by simp
  obtain k where k: "keep_loop ?f total_max (rev rows) 0 [] = map ?f (take k (rev rows))"
    "k \<le> length rows" "0 < k"
    "0 < total_max \<longrightarrow> length (concat (map ?f (take k (rev rows)))) \<le> max total_max (length (concat (map ?f (take 1 (rev rows)))))"
    "k < length rows \<longrightarrow> 0 < total_max \<and> total_max < length (concat (map ?f (take (Suc k) (rev rows))))"
    using keep_loop_spec [of 0 "[]" ?f total_max "rev rows"] assms by auto
  have "take 1 (rev rows) = [last rows]" using assms by (cases rows rule: rev_cases) auto
  then have newest: "length (concat (map ?f (take 1 (rev rows)))) = length (?f (last rows))" by simp
  show ?thesis
  proof (intro exI [of _ k] conjI)
    show "render_for_summary ser rows m total_max =
        (if k < length rows then omitted_note (length rows - k) else [])
          @ concat (map ?f (drop (length rows - k) rows))"
      using k(1,2) tk [of k] by (auto simp: render_for_summary_def Let_def)
  qed (use k newest len in simp_all)
qed

theorem summary_transcript_budget_witness:
  "\<exists>k. 0 < k \<and> k \<le> 1 \<and> render_for_summary (\<lambda>_. None) [\<lparr>m_id = 0, m_role = User, m_content = [Text ''hi''],
     m_created_at = 0\<rparr>] 16384 262144 = concat (map (render_row (\<lambda>_. None) 16384) (drop (1 - k) [\<lparr>m_id = 0, m_role = User,
       m_content = [Text ''hi''], m_created_at = 0\<rparr>]))"
  using summary_transcript_budget [of "[\<lparr>m_id = 0, m_role = User, m_content = [Text ''hi''], m_created_at = 0\<rparr>]"
    "\<lambda>_. None" 16384 262144] by auto

text \<open>A per-block cap of 0 does not disable the cap: every text is replaced by the note that all of
  it was truncated.\<close>

theorem zero_block_cap_truncates_all:
  "push_capped ''hello'' 0 = ''['' @ ellipsis @ ''5 bytes truncated'' @ ellipsis @ '']''"
  by code_simp

end
