(* ===== verification/Guard.thy ===== *)
theory Guard
  imports Content "HOL-Library.List_Lexorder" "HOL-Library.Multiset"
begin

text \<open>
  Recognising repeated tool calls: \<open>LoopGuard\<close> of \<open>crates/snaca-engine/src/loop_guard.rs\<close> and the
  canonical input signature of \<open>crates/snaca-engine/src/engine.rs\<close>.  \<open>to_vec\<close>, \<open>quote\<close> and \<open>digest\<close>
  stand for \<open>serde_json\<close>'s serialisation, its string escaping and \<open>blake3\<close> (as hex text).
\<close>

subsection \<open>The loop guard\<close>

record loop_guard =
  g_counts :: "(string \<times> string) \<rightharpoonup> nat"
  g_limit :: nat

definition DEFAULT_LIMIT :: nat where
  "DEFAULT_LIMIT = 5"

definition new_guard :: "nat \<Rightarrow> loop_guard" where
  "new_guard limit = \<lparr>g_counts = Map.empty, g_limit = limit\<rparr>"

definition call_key :: "(json \<Rightarrow> string option) \<Rightarrow> (string \<Rightarrow> string) \<Rightarrow> string \<Rightarrow> json \<Rightarrow> string \<times> string" where
  "call_key to_vec digest tool input =
     (tool, digest (case to_vec input of Some s \<Rightarrow> s | None \<Rightarrow> []))"

definition record_call ::
  "(json \<Rightarrow> string option) \<Rightarrow> (string \<Rightarrow> string) \<Rightarrow> loop_guard \<Rightarrow> string \<Rightarrow> json
     \<Rightarrow> ((string \<times> nat) + nat) \<times> loop_guard" where
  "record_call to_vec digest g tool input =
     (let key = call_key to_vec digest tool input;
          count = (case g_counts g key of Some c \<Rightarrow> c | None \<Rightarrow> 0) + 1;
          g' = g\<lparr>g_counts := (g_counts g)(key \<mapsto> count)\<rparr>
      in (if g_limit g \<le> count then Inl (tool, count) else Inr count, g'))"

definition guard_after ::
  "(json \<Rightarrow> string option) \<Rightarrow> (string \<Rightarrow> string) \<Rightarrow> loop_guard \<Rightarrow> (string \<times> json) list \<Rightarrow> loop_guard" where
  "guard_after to_vec digest g calls = foldl (\<lambda>g (t, i). snd (record_call to_vec digest g t i)) g calls"

definition key_count :: "(json \<Rightarrow> string option) \<Rightarrow> (string \<Rightarrow> string) \<Rightarrow> string \<times> string \<Rightarrow> (string \<times> json) list \<Rightarrow> nat" where
  "key_count to_vec digest k calls = length (filter (\<lambda>(t, i). call_key to_vec digest t i = k) calls)"

lemma guard_after_snoc:
  "guard_after to_vec digest g (calls @ [(t, i)]) = snd (record_call to_vec digest (guard_after to_vec digest g calls) t i)"
  by (simp add: guard_after_def)

lemma guard_counts:
  "g_limit (guard_after to_vec digest (new_guard limit) calls) = limit
   \<and> (case g_counts (guard_after to_vec digest (new_guard limit) calls) k of Some c \<Rightarrow> c | None \<Rightarrow> 0)
       = key_count to_vec digest k calls"
proof (induction calls arbitrary: k rule: rev_induct)
  case Nil
  then show ?case by (simp add: guard_after_def new_guard_def key_count_def)
next
  case (snoc c calls)
  obtain t i where c: "c = (t, i)" by fastforce
  show ?case
    using snoc.IH [of k] snoc.IH [of "call_key to_vec digest t i"]
    by (auto simp: c guard_after_snoc record_call_def Let_def key_count_def)
qed

text \<open>The guard counts exactly.  After any calls, the next one is judged by how often its tool and
  input (up to the digest) occurred before: it trips exactly when this call is at least the \<open>limit\<close>-th,
  reporting that number; other calls never count towards it.\<close>

theorem loop_guard_counts_exactly:
  "fst (record_call to_vec digest (guard_after to_vec digest (new_guard limit) calls) tool input) =
     (let n = key_count to_vec digest (call_key to_vec digest tool input) calls + 1
      in if limit \<le> n then Inl (tool, n) else Inr n)"
  using guard_counts [of to_vec digest limit calls "call_key to_vec digest tool input"]
  by (simp add: record_call_def Let_def)

subsection \<open>Canonical input signatures\<close>

fun join_with :: "string \<Rightarrow> string list \<Rightarrow> string" where
  "join_with sep [] = []"
| "join_with sep [x] = x"
| "join_with sep (x # y # ys) = x @ sep @ join_with sep (y # ys)"

lemma size_entry: "(k, v) \<in> set kvs \<Longrightarrow> size v < Suc (size_list (size_prod (\<lambda>_. 0) size) kvs)"
  by (induction kvs) auto

text \<open>The keys of a \<open>serde_json\<close> object are distinct, so sorting the keys and looking each up is sorting
  the entries by key.\<close>

function write_canonical :: "(string \<Rightarrow> string) \<Rightarrow> json \<Rightarrow> string" where
  "write_canonical quote JNull = ''null''"
| "write_canonical quote (JBool b) = (if b then ''true'' else ''false'')"
| "write_canonical quote (JNumber n) = n"
| "write_canonical quote (JString s) = quote s"
| "write_canonical quote (JArray vs) = ''['' @ join_with '','' (map (write_canonical quote) vs) @ '']''"
| "write_canonical quote (JObject kvs) =
     ''{'' @ join_with '',''
       (map (\<lambda>(k, v). quote k @ '':'' @ write_canonical quote v) (sort_key fst kvs)) @ ''}''"
  by pat_completeness auto
termination
  by (relation "measure (\<lambda>(_, v). size v)") (auto dest: size_entry size_list_estimation' [OF _ order_refl, of _ _ size])

definition input_signature :: "(string \<Rightarrow> string) \<Rightarrow> (string \<Rightarrow> string) \<Rightarrow> json \<Rightarrow> string" where
  "input_signature quote digest input = take 16 (digest (write_canonical quote input))"

text \<open>Two JSON values that differ only in the order of the keys of their objects, at any depth.\<close>

inductive reordered :: "json \<Rightarrow> json \<Rightarrow> bool" where
  same: "reordered v v"
| arr: "list_all2 reordered vs ws \<Longrightarrow> reordered (JArray vs) (JArray ws)"
| perm: "mset kvs = mset lws \<Longrightarrow> distinct (map fst kvs) \<Longrightarrow> reordered (JObject kvs) (JObject lws)"
| obj: "list_all2 (\<lambda>a b. fst a = fst b \<and> reordered (snd a) (snd b)) kvs lws \<Longrightarrow> reordered (JObject kvs) (JObject lws)"
| trans: "reordered u v \<Longrightarrow> reordered v w \<Longrightarrow> reordered u w"

inductive_cases reordered_objectE: "reordered (JObject kvs) v"

lemma sort_key_distinct_mset:
  assumes "mset xs = mset ys" "distinct (map f xs)"
  shows "sort_key f xs = sort_key f ys"
proof (rule properties_for_sort_key)
  show "mset (sort_key f ys) = mset xs" using assms(1) by simp
  show "sorted (map f (sort_key f ys))" by simp
  fix k
  assume "k \<in> set (sort_key f ys)"
  then have k: "k \<in> set xs" using assms(1) by (metis set_sort set_mset_mset)
  have inj: "inj_on f (set xs)" using assms(2) by (simp add: distinct_map)
  have one: "filter (\<lambda>x. f k = f x) zs = replicate (count (mset zs) k) k" if "set zs \<subseteq> set xs" for zs
    using that inj k by (induction zs) (auto simp: inj_on_def)
  show "filter (\<lambda>x. f k = f x) (sort_key f ys) = filter (\<lambda>x. f k = f x) xs"
    using one [of "sort_key f ys"] one [of xs] assms(1)
    by (metis mset_sort order_refl set_mset_mset set_sort)
qed

lemma sort_key_map_values:
  "list_all2 (\<lambda>a b. fst a = fst b \<and> R (snd a) (snd b)) kvs lws \<Longrightarrow>
     list_all2 (\<lambda>a b. fst a = fst b \<and> R (snd a) (snd b)) (sort_key fst kvs) (sort_key fst lws)"
proof (induction rule: list_all2_induct)
  case Nil
  then show ?case by simp
next
  case (Cons kv kvs lw lws)
  have ins: "list_all2 (\<lambda>a b. fst a = fst b \<and> R (snd a) (snd b)) xs ys \<Longrightarrow> (\<lambda>a b. fst a = fst b \<and> R (snd a) (snd b)) a b
     \<Longrightarrow> list_all2 (\<lambda>a b. fst a = fst b \<and> R (snd a) (snd b)) (insort_key fst a xs) (insort_key fst b ys)" for a b xs ys
    by (induction rule: list_all2_induct) auto
  from Cons ins show ?case by simp
qed

text \<open>Remembered approvals survive re-serialisation.  Reordering the keys of objects, at any depth,
  does not change the canonical text, so it does not change the signature an approval is stored under.\<close>

theorem signature_ignores_key_order:
  assumes "reordered v w"
  shows "input_signature quote digest v = input_signature quote digest w"
proof -
  have "write_canonical quote v = write_canonical quote w"
    using assms
  proof (induction rule: reordered.induct)
    case (arr vs ws)
    then have "map (write_canonical quote) vs = map (write_canonical quote) ws"
      by (induction rule: list_all2_induct) auto
    then show ?case by simp
  next
    case (perm kvs lws)
    then show ?case by (simp add: sort_key_distinct_mset)
  next
    case (obj kvs lws)
    then have "list_all2 (\<lambda>a b. fst a = fst b \<and> write_canonical quote (snd a) = write_canonical quote (snd b)) kvs lws"
      by (rule list_all2_mono) auto
    then have "list_all2 (\<lambda>a b. fst a = fst b \<and> write_canonical quote (snd a) = write_canonical quote (snd b))
        (sort_key fst kvs) (sort_key fst lws)"
      by (rule sort_key_map_values)
    then have "map (\<lambda>(k, v). quote k @ '':'' @ write_canonical quote v) (sort_key fst kvs)
        = map (\<lambda>(k, v). quote k @ '':'' @ write_canonical quote v) (sort_key fst lws)"
      by (induction rule: list_all2_induct) auto
    then show ?case by simp
  qed simp_all
  then show ?thesis by (simp add: input_signature_def)
qed

theorem signature_ignores_key_order_witness:
  "input_signature id id (JObject [(''b'', JNull), (''a'', JBool True)])
     = input_signature id id (JObject [(''a'', JBool True), (''b'', JNull)])"
  by (rule signature_ignores_key_order) (rule reordered.perm, simp_all)

end
