(* ===== verification/Tool_Calls.thy ===== *)
theory Tool_Calls
  imports History Store Guard
begin

text \<open>
  Running a batch of tool calls: \<open>gate_check\<close>, \<open>execute_one\<close>, \<open>run_one_to_block\<close> and
  \<open>run_tool_calls\<close> of \<open>crates/snaca-engine/src/engine.rs\<close>, with the tool interface of
  \<open>crates/snaca-tools-api\<close> and the approval interface of \<open>crates/snaca-agent-api\<close>.

  What the tools and the approval gate do is outside the engine: they are functions on a state \<open>'w\<close> of
  the world, given by the record \<open>tool_env\<close> together with the identity of the call's project, the
  registry and the clock.  The database is that of \<open>Store\<close>; its calls fail only on constraints.  A
  parallel segment is executed one call at a time in the order in which the calls complete, any
  permutation of the segment: the argument \<open>order\<close>.
\<close>

subsection \<open>Tools and approvals\<close>

datatype approval_requirement = Never | Always | UnlessRemembered

datatype approval_decision = AllowOnce | AllowAlways | DenyCall

datatype approval_error = ApprovalTimeout | ApprovalCancelled | ApprovalOther string

record approval_request =
  q_tenant :: tenant_id
  q_project :: project_id
  q_tool :: string
  q_input :: json
  q_reason :: string

record tool_capabilities =
  reads_filesystem :: bool
  writes_filesystem :: bool
  executes_commands :: bool
  network_access :: bool

record tool_info =
  t_name :: string
  t_description :: string
  t_capabilities :: tool_capabilities
  t_requirement :: approval_requirement

definition is_read_only :: "tool_info \<Rightarrow> bool" where
  "is_read_only t \<longleftrightarrow> \<not> writes_filesystem (t_capabilities t) \<and> \<not> executes_commands (t_capabilities t)"

datatype tool_error =
    InvalidInput string
  | NotFound string
  | PermissionDenied string
  | PathOutsideWorkspace string
  | IoError string
  | Execution string
  | SerdeError string
  | Cancelled
  | OtherToolError string

fun tool_error_text :: "tool_error \<Rightarrow> string" where
  "tool_error_text (InvalidInput s) = ''invalid input: '' @ s"
| "tool_error_text (NotFound s) = ''not found: '' @ s"
| "tool_error_text (PermissionDenied s) = ''permission denied: '' @ s"
| "tool_error_text (PathOutsideWorkspace s) = ''path outside workspace: '' @ s"
| "tool_error_text (IoError s) = ''io error: '' @ s"
| "tool_error_text (Execution s) = ''execution failed: '' @ s"
| "tool_error_text (SerdeError s) = ''serialization error: '' @ s"
| "tool_error_text Cancelled = ''tool cancelled''"
| "tool_error_text (OtherToolError s) = s"

fun approval_error_text :: "approval_error \<Rightarrow> string" where
  "approval_error_text ApprovalTimeout = ''approval timed out''"
| "approval_error_text ApprovalCancelled = ''approval channel closed before a decision was made''"
| "approval_error_text (ApprovalOther s) = ''approval gate failed: '' @ s"

datatype tool_output = OutText string | OutJson json | OutBlocks "content_block list"

record 'w tool_env =
  e_tenant :: tenant_id
  e_project :: project_id
  e_registry :: "string \<rightharpoonup> tool_info"
  e_exec :: "string \<Rightarrow> json \<Rightarrow> 'w \<Rightarrow> (tool_error + tool_output) \<times> 'w"
  e_gate :: "approval_request \<Rightarrow> 'w \<Rightarrow> (approval_error + approval_decision) \<times> 'w"
  e_now :: "'w \<Rightarrow> timestamp"
  e_signature :: "json \<Rightarrow> string"
  e_pretty :: "json \<Rightarrow> string"
  e_show_nat :: "nat \<Rightarrow> string"
  e_max_result_bytes :: nat

type_synonym 'w exec_state = "database \<times> 'w"

subsection \<open>The approval gate\<close>

text \<open>\<open>Inl\<close> is the failure of the gate itself, \<open>Some err\<close> a denial, \<open>None\<close> leave to run.\<close>

definition denied_by :: "string \<Rightarrow> string \<Rightarrow> tool_error" where
  "denied_by name why = PermissionDenied (name @ '': '' @ why)"

definition ask_gate ::
  "('w, 'x) tool_env_scheme \<Rightarrow> tool_info \<Rightarrow> json \<Rightarrow> string \<Rightarrow> 'w exec_state
     \<Rightarrow> (approval_error + tool_error option) \<times> 'w exec_state" where
  "ask_gate env tool input signature st =
     (case st of (db, w) \<Rightarrow>
       (case e_gate env \<lparr>q_tenant = e_tenant env, q_project = e_project env, q_tool = t_name tool,
                         q_input = input, q_reason = t_description tool\<rparr> w of
          (Inl err, w') \<Rightarrow> (Inl err, (db, w'))
        | (Inr AllowOnce, w') \<Rightarrow> (Inr None, (db, w'))
        | (Inr AllowAlways, w') \<Rightarrow>
            (Inr None, (remember_decision db (e_now env w') (e_tenant env) (e_project env) (t_name tool)
                          signature Allow, w'))
        | (Inr DenyCall, w') \<Rightarrow> (Inr (Some (denied_by (t_name tool) ''user denied this tool call'')), (db, w'))))"

definition gate_check ::
  "('w, 'x) tool_env_scheme \<Rightarrow> tool_info \<Rightarrow> json \<Rightarrow> 'w exec_state
     \<Rightarrow> (approval_error + tool_error option) \<times> 'w exec_state" where
  "gate_check env tool input st =
     (if t_requirement tool = Never then (Inr None, st)
      else
        (let signature = e_signature env input;
             stored = (if t_requirement tool = UnlessRemembered
                       then find_decision (fst st) (e_tenant env) (e_project env) (t_name tool) signature
                       else None)
         in case stored of
              Some d \<Rightarrow>
                (case d_decision d of
                   Allow \<Rightarrow> (Inr None, st)
                 | Deny \<Rightarrow> (Inr (Some (denied_by (t_name tool) ''project policy denies this tool call'')), st))
            | None \<Rightarrow> ask_gate env tool input signature st))"

subsection \<open>One call\<close>

text \<open>The audit value of an output: block outputs are summarised by shape.\<close>

fun audit_block :: "(nat \<Rightarrow> string) \<Rightarrow> content_block \<Rightarrow> json" where
  "audit_block shown (Text t) = JObject [(''len'', JNumber (shown (length t))), (''type'', JString ''text'')]"
| "audit_block shown (Image (Url u)) = JObject [(''media'', JString ''url''), (''type'', JString ''image'')]"
| "audit_block shown (Image (Base64 mt _)) = JObject [(''media'', JString mt), (''type'', JString ''image'')]"
| "audit_block shown _ = JObject [(''type'', JString ''other'')]"

fun audit_value :: "(nat \<Rightarrow> string) \<Rightarrow> tool_error + tool_output \<Rightarrow> json \<times> bool" where
  "audit_value shown (Inr (OutText t)) = (JObject [(''text'', JString t)], False)"
| "audit_value shown (Inr (OutJson v)) = (v, False)"
| "audit_value shown (Inr (OutBlocks bs)) = (JObject [(''blocks'', JArray (map (audit_block shown) bs))], False)"
| "audit_value shown (Inl e) = (JObject [(''error'', JString (tool_error_text e))], True)"

definition audit_start :: "('w, 'x) tool_env_scheme \<Rightarrow> tool_use_id \<Rightarrow> message_id \<Rightarrow> string \<Rightarrow> json
    \<Rightarrow> 'w exec_state \<Rightarrow> 'w exec_state" where
  "audit_start env i mid name input st =
     (case st of (db, w) \<Rightarrow>
       (case record_tool_start db (e_now env w) i mid name input of
          Inl _ \<Rightarrow> (db, w)
        | Inr db' \<Rightarrow> (db', w)))"

definition audit_completion :: "('w, 'x) tool_env_scheme \<Rightarrow> tool_use_id \<Rightarrow> tool_error + tool_output
    \<Rightarrow> 'w exec_state \<Rightarrow> 'w exec_state" where
  "audit_completion env i result st =
     (case st of (db, w) \<Rightarrow>
       (case audit_value (e_show_nat env) result of
          (v, err) \<Rightarrow> (record_tool_completion db (e_now env w) i v err, w)))"

definition not_registered :: "string \<Rightarrow> tool_error" where
  "not_registered name = NotFound (''tool '' @ [CHR 0x27] @ name @ [CHR 0x27] @ '' not registered'')"

definition execute_one ::
  "('w, 'x) tool_env_scheme \<Rightarrow> tool_use_id \<Rightarrow> string \<Rightarrow> json \<Rightarrow> message_id
     \<Rightarrow> (tool_error + tool_output) option \<Rightarrow> 'w exec_state
     \<Rightarrow> (approval_error + (tool_error + tool_output)) \<times> 'w exec_state" where
  "execute_one env i name input mid prebuilt st =
     (case e_registry env name of
        None \<Rightarrow> (Inr (Inl (not_registered name)), st)
      | Some tool \<Rightarrow>
          (case gate_check env tool input st of
             (Inl err, st1) \<Rightarrow> (Inl err, st1)
           | (Inr (Some deny), st1) \<Rightarrow> (Inr (Inl deny), st1)
           | (Inr None, st1) \<Rightarrow>
               (let st2 = audit_start env i mid name input st1;
                    (result, w') = (case prebuilt of
                                      Some cached \<Rightarrow> (cached, snd st2)
                                    | None \<Rightarrow> e_exec env name input (snd st2))
                in (Inr result, audit_completion env i result (fst st2, w')))))"

record tool_failure =
  f_tool :: string
  f_input :: json
  f_signature :: string
  f_error :: string

fun render_output :: "(json \<Rightarrow> string) \<Rightarrow> tool_output \<Rightarrow> content_block list" where
  "render_output pretty (OutBlocks bs) = bs"
| "render_output pretty (OutText t) = [Text t]"
| "render_output pretty (OutJson v) = [Text (pretty v)]"

definition run_one_to_block ::
  "('w, 'x) tool_env_scheme \<Rightarrow> tool_use_id \<Rightarrow> string \<Rightarrow> json \<Rightarrow> message_id
     \<Rightarrow> (tool_error + tool_output) option \<Rightarrow> 'w exec_state
     \<Rightarrow> (content_block \<times> tool_failure option) \<times> 'w exec_state" where
  "run_one_to_block env i name input mid prebuilt st =
     (let (outcome, st') = execute_one env i name input mid prebuilt st;
          failed = (\<lambda>err. (tool_error_block i err,
             Some \<lparr>f_tool = name, f_input = input, f_signature = e_signature env input, f_error = err\<rparr>));
          (block, failure) =
            (case outcome of
               Inr (Inr out) \<Rightarrow> (tool_result i (render_output (e_pretty env) out), None)
             | Inr (Inl e) \<Rightarrow> failed (tool_error_text e)
             | Inl e \<Rightarrow> failed (''tool dispatch failed: approval gate error: '' @ approval_error_text e))
      in ((cap_tool_result_block block (e_max_result_bytes env), failure), st'))"

subsection \<open>A batch\<close>

record pending =
  p_position :: nat
  p_id :: tool_use_id
  p_name :: string
  p_input :: json
  p_read_only :: bool
  p_prebuilt :: "(tool_error + tool_output) option"

text \<open>\<open>prerun_cache.remove(id)\<close>: a cached result is handed out once.\<close>

fun collect_pending ::
  "('w, 'x) tool_env_scheme \<Rightarrow> nat \<Rightarrow> (tool_use_id \<rightharpoonup> (tool_error + tool_output)) \<Rightarrow> content_block list
     \<Rightarrow> pending list" where
  "collect_pending env pos cache [] = []"
| "collect_pending env pos cache (ToolUse i name input # bs) =
     \<lparr>p_position = pos, p_id = i, p_name = name, p_input = input,
      p_read_only = (case e_registry env name of Some t \<Rightarrow> is_read_only t | None \<Rightarrow> False),
      p_prebuilt = cache i\<rparr>
       # collect_pending env (pos + 1) (cache(i := None)) bs"
| "collect_pending env pos cache (_ # bs) = collect_pending env pos cache bs"

fun guard_all ::
  "(json \<Rightarrow> string option) \<Rightarrow> (string \<Rightarrow> string) \<Rightarrow> loop_guard \<Rightarrow> pending list
     \<Rightarrow> (string \<times> nat) option \<times> loop_guard" where
  "guard_all to_vec digest g [] = (None, g)"
| "guard_all to_vec digest g (p # ps) =
     (case record_call to_vec digest g (p_name p) (p_input p) of
        (Inl trip, g') \<Rightarrow> (Some trip, g')
      | (Inr _, g') \<Rightarrow> guard_all to_vec digest g' ps)"

text \<open>The loop that cuts the calls into segments: maximal runs of read-only calls, and every other call
  by itself.\<close>

fun segments :: "pending list \<Rightarrow> pending list \<Rightarrow> pending list list" where
  "segments current [] = (if current = [] then [] else [current])"
| "segments current (p # ps) =
     (if p_read_only p then segments (current @ [p]) ps
      else (if current = [] then [] else [current]) @ [p] # segments [] ps)"

type_synonym outcome = "content_block \<times> tool_failure option"

fun run_segment ::
  "('w, 'x) tool_env_scheme \<Rightarrow> message_id \<Rightarrow> pending list \<Rightarrow> 'w exec_state
     \<Rightarrow> (nat \<times> outcome) list \<times> 'w exec_state" where
  "run_segment env mid [] st = ([], st)"
| "run_segment env mid (p # ps) st =
     (let (out, st') = run_one_to_block env (p_id p) (p_name p) (p_input p) mid (p_prebuilt p) st;
          (outs, st'') = run_segment env mid ps st'
      in ((p_position p, out) # outs, st''))"

text \<open>\<open>order\<close> is the order in which the calls of a parallel segment complete.\<close>

fun run_segments ::
  "('w, 'x) tool_env_scheme \<Rightarrow> (pending list \<Rightarrow> pending list) \<Rightarrow> message_id \<Rightarrow> pending list list
     \<Rightarrow> 'w exec_state \<Rightarrow> (nat \<times> outcome) list \<times> 'w exec_state" where
  "run_segments env order mid [] st = ([], st)"
| "run_segments env order mid (seg # segs) st =
     (let (outs, st') = run_segment env mid (if length seg = 1 then seg else order seg) st;
          (outs', st'') = run_segments env order mid segs st'
      in (outs @ outs', st''))"

definition run_pending ::
  "('w, 'x) tool_env_scheme \<Rightarrow> (pending list \<Rightarrow> pending list) \<Rightarrow> message_id \<Rightarrow> pending list
     \<Rightarrow> 'w exec_state \<Rightarrow> (content_block list \<times> tool_failure list) \<times> 'w exec_state" where
  "run_pending env order mid ps st =
     (let (results, st') = run_segments env order mid (segments [] ps) st;
          sorted_outs = map snd (sort_key fst results)
      in ((map fst sorted_outs, concat (map (\<lambda>(_, f). case f of None \<Rightarrow> [] | Some e \<Rightarrow> [e]) sorted_outs)), st'))"

datatype batch_error = LoopGuardTripped string nat

definition run_tool_calls ::
  "(json \<Rightarrow> string option) \<Rightarrow> (string \<Rightarrow> string) \<Rightarrow> ('w, 'x) tool_env_scheme
     \<Rightarrow> (pending list \<Rightarrow> pending list) \<Rightarrow> content_block list \<Rightarrow> message_id \<Rightarrow> loop_guard option
     \<Rightarrow> (tool_use_id \<rightharpoonup> (tool_error + tool_output)) \<Rightarrow> 'w exec_state
     \<Rightarrow> (batch_error + (content_block list \<times> tool_failure list)) \<times> loop_guard option \<times> 'w exec_state" where
  "run_tool_calls to_vec digest env order content mid guard cache st =
     (let ps = collect_pending env 0 cache content;
          (trip, guard') = (case guard of
                              None \<Rightarrow> (None, None)
                            | Some g \<Rightarrow> (case guard_all to_vec digest g ps of (t, g') \<Rightarrow> (t, Some g')))
      in case trip of
           Some (tool, n) \<Rightarrow> (Inl (LoopGuardTripped tool n), guard', st)
         | None \<Rightarrow> (case run_pending env order mid ps st of (batch, st') \<Rightarrow> (Inr batch, guard', st')))"

subsection \<open>Every call is answered, in order\<close>

fun result_id :: "content_block \<Rightarrow> tool_use_id option" where
  "result_id (ToolResult i _ _) = Some i"
| "result_id _ = None"

lemma result_id_cap [simp]: "result_id (cap_tool_result_block b m) = result_id b"
  by (cases b) simp_all

lemma run_one_result_id:
  "run_one_to_block env i name input mid pre st = ((b, f), st') \<Longrightarrow> result_id b = Some i"
  by (auto simp: run_one_to_block_def Let_def tool_result_def tool_error_block_def
      split: prod.splits sum.splits)

lemma concat_segments: "concat (segments cur ps) = cur @ ps"
  by (induction cur ps rule: segments.induct) auto

definition permuting :: "(pending list \<Rightarrow> pending list) \<Rightarrow> bool" where
  "permuting order \<longleftrightarrow> (\<forall>seg. mset (order seg) = mset seg)"

definition out_key :: "nat \<times> outcome \<Rightarrow> nat \<times> tool_use_id option" where
  "out_key r = (fst r, result_id (fst (snd r)))"

definition pending_key :: "pending \<Rightarrow> nat \<times> tool_use_id option" where
  "pending_key p = (p_position p, Some (p_id p))"

lemma run_segment_keys:
  "run_segment env mid ps st = (outs, st') \<Longrightarrow> map out_key outs = map pending_key ps"
  by (induction ps arbitrary: st outs st')
    (auto simp: Let_def out_key_def pending_key_def split: prod.splits dest: run_one_result_id)

lemma run_segments_keys:
  assumes "permuting order"
  shows "run_segments env order mid segs st = (outs, st') \<Longrightarrow>
    mset (map out_key outs) = mset (map pending_key (concat segs))"
proof (induction segs arbitrary: st outs st')
  case Nil
  then show ?case by simp
next
  case (Cons seg segs)
  let ?seg = "if length seg = 1 then seg else order seg"
  obtain o1 st1 where s: "run_segment env mid ?seg st = (o1, st1)" by (metis surj_pair)
  obtain o2 st2 where r: "run_segments env order mid segs st1 = (o2, st2)" by (metis surj_pair)
  have "outs = o1 @ o2" using Cons.prems s r by (simp add: Let_def)
  moreover have "mset ?seg = mset seg" using assms by (simp add: permuting_def)
  ultimately show ?case
    using run_segment_keys [OF s] Cons.IH [OF r] by (metis concat.simps(2) map_append mset_append mset_map)
qed

lemma sort_key_map: "sort_key f (map g xs) = map g (sort_key (\<lambda>x. f (g x)) xs)"
proof (induction xs)
  case (Cons x xs)
  have "insort_key f (g x) (map g ys) = map g (insort_key (\<lambda>x. f (g x)) x ys)" for ys
    by (induction ys) auto
  with Cons show ?case by simp
qed simp

lemma collect_pending_keys:
  "map p_position (collect_pending env pos cache bs) = [pos..<pos + length (tool_use_ids bs)]
   \<and> map p_id (collect_pending env pos cache bs) = tool_use_ids bs"
proof (induction bs arbitrary: pos cache)
  case (Cons b bs)
  have up: "[pos..<pos + Suc n] = pos # [Suc pos..<Suc pos + n]" for n
    by (simp add: upt_conv_Cons)
  show ?case
  proof (cases b)
    case (ToolUse i name input)
    with Cons.IH [of "Suc pos" "cache(i := None)"] show ?thesis
      using up [of "length (tool_use_ids bs)"] by (simp del: upt_Suc fun_upd_apply)
  qed (use Cons.IH [of pos cache] in simp_all)
qed simp

lemma sort_by_position:
  assumes "mset (map out_key outs) = mset (map pending_key ps)" "sorted (map p_position ps)" "distinct (map p_position ps)"
  shows "map out_key (sort_key fst outs) = map pending_key ps"
proof -
  have "map out_key (sort_key fst outs) = map out_key (sort_key (\<lambda>x. fst (out_key x)) outs)"
    by (simp add: out_key_def)
  also have "\<dots> = sort_key fst (map out_key outs)"
    by (simp add: sort_key_map)
  also have "\<dots> = sort_key fst (map pending_key ps)"
  proof (rule sort_key_distinct_mset)
    have "mset (map fst (map out_key outs)) = mset (map fst (map pending_key ps))"
      using assms(1) by (metis mset_map)
    also have "map fst (map pending_key ps) = map p_position ps" by (simp add: pending_key_def)
    finally show "distinct (map fst (map out_key outs))"
      using assms(3) by (metis mset_eq_imp_distinct_iff)
  qed (rule assms(1))
  also have "\<dots> = map pending_key ps"
    using assms(2) by (intro sort_key_id_if_sorted) (simp add: pending_key_def comp_def)
  finally show ?thesis .
qed

lemma batch_answers:
  assumes "permuting order"
    and "run_tool_calls to_vec digest env order content mid guard cache st = (Inr (blocks, failures), guard', st')"
  shows "map result_id blocks = map Some (tool_use_ids content)"
proof -
  let ?ps = "collect_pending env 0 cache content"
  obtain outs st1 where run: "run_segments env order mid (segments [] ?ps) st = (outs, st1)" by (metis surj_pair)
  have blocks: "blocks = map fst (map snd (sort_key fst outs))"
    using assms(2) run
    by (auto simp: run_tool_calls_def run_pending_def Let_def split: option.splits prod.splits)
  have keys: "map p_position ?ps = [0..<length (tool_use_ids content)]" "map p_id ?ps = tool_use_ids content"
    using collect_pending_keys [of env 0 cache content] by simp_all
  have "map out_key (sort_key fst outs) = map pending_key ?ps"
    using run_segments_keys [OF assms(1) run] keys(1)
    by (intro sort_by_position) (simp_all add: concat_segments)
  then have "map snd (map out_key (sort_key fst outs)) = map snd (map pending_key ?ps)" by simp
  then have "map result_id blocks = map (Some \<circ> p_id) ?ps"
    by (simp add: blocks out_key_def pending_key_def comp_def)
  then show ?thesis using keys(2) by (metis map_map)
qed

text \<open>A batch leaves the conversation and the threads alone.\<close>

definition conversation :: "'w exec_state \<Rightarrow> message_row list \<times> thread_row list" where
  "conversation st = (messages (fst st), threads (fst st))"

lemma conversation_audit [simp]:
  "conversation (audit_start env i mid n inp st) = conversation st"
  "conversation (audit_completion env i r st) = conversation st"
  by (auto simp: conversation_def audit_start_def audit_completion_def record_tool_start_def
      record_tool_completion_def Let_def split: prod.splits sum.splits if_splits)

lemma conversation_gate: "gate_check env tool inp st = (r, st') \<Longrightarrow> conversation st' = conversation st"
  by (auto simp: conversation_def gate_check_def ask_gate_def remember_decision_def Let_def
      split: prod.splits sum.splits option.splits if_splits approval_decision.splits persisted_decision.splits)

lemma conversation_run_one:
  assumes "run_one_to_block env i n inp mid pre st = (o1, st')"
  shows "conversation st' = conversation st"
proof -
  obtain r where x: "execute_one env i n inp mid pre st = (r, st')"
    using assms by (auto simp: run_one_to_block_def Let_def split: prod.splits)
  have pair: "conversation (fst s, w) = conversation s" for s :: "'a exec_state" and w
    by (simp add: conversation_def)
  from x show ?thesis
    by (auto simp: execute_one_def pair Let_def split: option.splits prod.splits sum.splits dest!: conversation_gate)
qed

lemma conversation_segment: "run_segment env mid ps st = (outs, st') \<Longrightarrow> conversation st' = conversation st"
  by (induction ps arbitrary: st outs) (auto simp: Let_def split: prod.splits dest!: conversation_run_one)

lemma conversation_segments: "run_segments env order mid segs st = (outs, st') \<Longrightarrow> conversation st' = conversation st"
  by (induction segs arbitrary: st outs) (auto simp: Let_def split: prod.splits dest!: conversation_segment)

lemma batch_keeps_conversation:
  "run_tool_calls to_vec digest env order content mid guard cache st = (r, guard', st') \<Longrightarrow>
    conversation st' = conversation st"
  by (auto simp: run_tool_calls_def run_pending_def Let_def split: prod.splits option.splits
      dest!: conversation_segments)

text \<open>C4: Every tool call gets its answer.  A batch that runs returns exactly one result block per call
  of the assistant message, carrying the call's id, in the order of the calls: whatever the tools
  return, fail with or deny, and in whatever order the calls of parallel segments complete.\<close>

theorem batch_answers_every_call:
  assumes "permuting order"
    and "run_tool_calls to_vec digest env order content mid guard cache st = (Inr (blocks, failures), guard', st')"
  shows "map result_id blocks = map Some (tool_use_ids content)"
  using assms by (rule batch_answers)

definition sample_env :: "unit tool_env" where
  "sample_env = \<lparr>e_tenant = ''a'', e_project = ''p'',
     e_registry = [''Read'' \<mapsto> \<lparr>t_name = ''Read'', t_description = [],
        t_capabilities = \<lparr>reads_filesystem = True, writes_filesystem = False, executes_commands = False,
          network_access = False\<rparr>, t_requirement = Never\<rparr>],
     e_exec = (\<lambda>_ _ w. (Inr (OutText ''ok''), w)), e_gate = (\<lambda>_ w. (Inr AllowOnce, w)),
     e_now = (\<lambda>_. 0), e_signature = (\<lambda>_. ''sig''), e_pretty = (\<lambda>_. []), e_show_nat = show_nat,
     e_max_result_bytes = 0\<rparr>"

theorem batch_answers_every_call_witness:
  "\<exists>blocks. fst (run_tool_calls (\<lambda>_. None) id sample_env rev
       [ToolUse ''x'' ''Read'' JNull, Text ''t'', ToolUse ''y'' ''Read'' JNull, ToolUse ''z'' ''Nope'' JNull]
       0 None Map.empty (empty_db, ())) = Inr blocks
     \<and> map result_id (fst blocks) = [Some ''x'', Some ''y'', Some ''z'']"
proof -
  let ?c = "[ToolUse ''x'' ''Read'' JNull, Text ''t'', ToolUse ''y'' ''Read'' JNull, ToolUse ''z'' ''Nope'' JNull]"
  have p: "permuting rev" by (simp add: permuting_def)
  obtain bs fs g st where r: "run_tool_calls (\<lambda>_. None) id sample_env rev ?c 0 None Map.empty (empty_db, ())
      = (Inr (bs, fs), g, st)"
    by (cases "run_pending sample_env rev 0 (collect_pending sample_env 0 Map.empty ?c) (empty_db, ())")
      (auto simp: run_tool_calls_def Let_def)
  from batch_answers_every_call [OF p r] show ?thesis by (simp add: r)
qed

subsection \<open>Approvals\<close>

lemma find_decision_other:
  assumes "sig \<noteq> []" "sig' \<noteq> sig"
  shows "find_decision (remember_decision db now t p tool sig dec) t p tool sig' = find_decision db t p tool sig'"
  using assms by (auto simp: find_decision_def exact_decision_remember split: option.splits)

lemma find_decision_same:
  assumes "sig \<noteq> []"
  shows "map_option d_decision (find_decision (remember_decision db now t p tool sig dec) t p tool sig) = Some dec"
  using assms by (simp add: find_decision_def exact_decision_remember)

lemma ask_gate_pass:
  assumes "ask_gate env tool input sig (db, w) = (Inr None, (db', w'))"
  shows "db' = db \<or> db' = remember_decision db (e_now env w') (e_tenant env) (e_project env) (t_name tool) sig Allow"
  using assms by (auto simp: ask_gate_def split: prod.splits sum.splits approval_decision.splits)

lemma gate_check_pass:
  assumes "gate_check env tool input (db, w) = (Inr None, (db', w'))"
  shows "db' = db \<or> db' = remember_decision db (e_now env w') (e_tenant env) (e_project env) (t_name tool)
    (e_signature env input) Allow"
  using assms ask_gate_pass
  by (fastforce simp: gate_check_def Let_def split: if_splits option.splits persisted_decision.splits)

text \<open>Allowing a call never allows another.  After a call of a tool passed the gate, whether allowed
  once or always, a call of the same tool with a different input and no decision of its own is put to
  the user again.\<close>

theorem approval_does_not_leak:
  assumes "t_requirement tool = UnlessRemembered"
    and "gate_check env tool a (db, w) = (Inr None, (db', w'))"
    and "e_signature env a \<noteq> []" "e_signature env b \<noteq> e_signature env a"
    and "find_decision db (e_tenant env) (e_project env) (t_name tool) (e_signature env b) = None"
  shows "gate_check env tool b (db', w') = ask_gate env tool b (e_signature env b) (db', w')"
proof -
  have "find_decision db' (e_tenant env) (e_project env) (t_name tool) (e_signature env b) = None"
    using gate_check_pass [OF assms(2)] assms(3-5) find_decision_other by auto
  then show ?thesis using assms(1) by (simp add: gate_check_def Let_def)
qed

definition bash_tool :: tool_info where
  "bash_tool = \<lparr>t_name = ''Bash'', t_description = [],
     t_capabilities = \<lparr>reads_filesystem = True, writes_filesystem = True, executes_commands = True,
       network_access = True\<rparr>, t_requirement = UnlessRemembered\<rparr>"

definition asking_env :: "nat tool_env" where
  "asking_env = \<lparr>e_tenant = ''a'', e_project = ''p'', e_registry = [''Bash'' \<mapsto> bash_tool],
     e_exec = (\<lambda>_ _ w. (Inr (OutText ''done''), w + 100)), e_gate = (\<lambda>_ w. (Inr AllowAlways, w + 1)),
     e_now = int, e_signature = (\<lambda>v. case v of JString s \<Rightarrow> s | _ \<Rightarrow> ''sig''), e_pretty = (\<lambda>_. []),
     e_show_nat = show_nat, e_max_result_bytes = 0\<rparr>"

theorem approval_does_not_leak_witness:
  "\<exists>db'. gate_check asking_env bash_tool (JString ''ls'') (empty_db, 0) = (Inr None, (db', 1))
     \<and> gate_check asking_env bash_tool (JString ''rm'') (db', 1)
         = ask_gate asking_env bash_tool (JString ''rm'') ''rm'' (db', 1)"
proof -
  obtain db' where g: "gate_check asking_env bash_tool (JString ''ls'') (empty_db, 0) = (Inr None, (db', 1))"
    by (simp add: gate_check_def ask_gate_def asking_env_def bash_tool_def find_decision_def exact_decision_def
      find_row_def empty_db_def)
  have "gate_check asking_env bash_tool (JString ''rm'') (db', 1)
      = ask_gate asking_env bash_tool (JString ''rm'') (e_signature asking_env (JString ''rm'')) (db', 1)"
    by (rule approval_does_not_leak [OF _ g])
      (simp_all add: bash_tool_def asking_env_def find_decision_def exact_decision_def find_row_def empty_db_def)
  with g show ?thesis by (auto simp: asking_env_def)
qed

text \<open>C5: ``Allow always'' is honoured and a denial executes nothing.  When the user answers ``allow
  always'', the same call passes afterwards without asking and without any effect.  When the gate or
  the remembered policy denies, or the gate fails, the call yields an error block and the tool is not
  run: the database and the world are as the gate left them.\<close>

theorem gate_decides_execution:
  assumes "e_registry env name = Some tool" "t_name tool = name"
  shows "(t_requirement tool = UnlessRemembered \<and> e_signature env input \<noteq> []
      \<and> find_decision db (e_tenant env) (e_project env) name (e_signature env input) = None
      \<and> e_gate env \<lparr>q_tenant = e_tenant env, q_project = e_project env, q_tool = name,
           q_input = input, q_reason = t_description tool\<rparr> w = (Inr AllowAlways, w') \<longrightarrow>
      (\<exists>db'. gate_check env tool input (db, w) = (Inr None, (db', w'))
         \<and> (\<forall>w''. gate_check env tool input (db', w'') = (Inr None, (db', w'')))))
    \<and> (fst (gate_check env tool input st) \<noteq> Inr None \<longrightarrow>
        (\<exists>err f. run_one_to_block env i name input mid pre st
           = ((cap_tool_result_block (tool_error_block i err) (e_max_result_bytes env), Some f),
              snd (gate_check env tool input st))))"
proof (intro conjI impI)
  let ?sig = "e_signature env input"
  let ?db' = "remember_decision db (e_now env w') (e_tenant env) (e_project env) name ?sig Allow"
  assume a: "t_requirement tool = UnlessRemembered \<and> ?sig \<noteq> []
      \<and> find_decision db (e_tenant env) (e_project env) name ?sig = None
      \<and> e_gate env \<lparr>q_tenant = e_tenant env, q_project = e_project env, q_tool = name,
           q_input = input, q_reason = t_description tool\<rparr> w = (Inr AllowAlways, w')"
  then have "gate_check env tool input (db, w) = (Inr None, (?db', w'))"
    using assms(2) by (simp add: gate_check_def Let_def ask_gate_def)
  moreover have "gate_check env tool input (?db', w'') = (Inr None, (?db', w''))" for w''
    using a assms(2) find_decision_same [of ?sig db "e_now env w'" "e_tenant env" "e_project env" name Allow]
    by (auto simp: gate_check_def Let_def)
  ultimately show "\<exists>db'. gate_check env tool input (db, w) = (Inr None, (db', w'))
         \<and> (\<forall>w''. gate_check env tool input (db', w'') = (Inr None, (db', w'')))"
    by blast
next
  assume "fst (gate_check env tool input st) \<noteq> Inr None"
  then show "\<exists>err f. run_one_to_block env i name input mid pre st
           = ((cap_tool_result_block (tool_error_block i err) (e_max_result_bytes env), Some f),
              snd (gate_check env tool input st))"
    using assms(1)
    by (cases "gate_check env tool input st")
      (auto simp: run_one_to_block_def execute_one_def Let_def split: sum.splits option.splits)
qed

theorem gate_decides_execution_witness:
  "\<exists>db'. gate_check asking_env bash_tool (JString ''ls'') (empty_db, 0) = (Inr None, (db', 1))
     \<and> gate_check asking_env bash_tool (JString ''ls'') (db', 7) = (Inr None, (db', 7))"
proof -
  have r: "e_registry asking_env ''Bash'' = Some bash_tool" "t_name bash_tool = ''Bash''"
    by (simp_all add: asking_env_def bash_tool_def)
  from gate_decides_execution [OF r, of "JString ''ls''" empty_db 0 1 "(empty_db, 0)" "[]" 0 None]
  show ?thesis
    by (auto simp: asking_env_def bash_tool_def find_decision_def exact_decision_def find_row_def empty_db_def)
qed

text \<open>A failing approval gate does not end the turn: the call is answered with an error block and
  the batch goes on with the next call.\<close>

theorem gate_failure_becomes_tool_error:
  "fst (run_tool_calls (\<lambda>_. None) id (asking_env\<lparr>e_gate := \<lambda>_ w. (Inl ApprovalTimeout, w)\<rparr>) id
      [ToolUse ''x'' ''Bash'' JNull, ToolUse ''y'' ''Bash'' JNull] 0 None Map.empty (empty_db, 0))
   = Inr ([tool_error_block ''x'' ''tool dispatch failed: approval gate error: approval timed out'',
           tool_error_block ''y'' ''tool dispatch failed: approval gate error: approval timed out''],
      [\<lparr>f_tool = ''Bash'', f_input = JNull, f_signature = ''sig'',
         f_error = ''tool dispatch failed: approval gate error: approval timed out''\<rparr>,
       \<lparr>f_tool = ''Bash'', f_input = JNull, f_signature = ''sig'',
         f_error = ''tool dispatch failed: approval gate error: approval timed out''\<rparr>])"
  by (simp add: run_tool_calls_def run_pending_def Let_def asking_env_def bash_tool_def is_read_only_def
      run_one_to_block_def execute_one_def gate_check_def ask_gate_def find_decision_def exact_decision_def
      find_row_def empty_db_def tool_error_block_def cap_tool_result_content_def)

subsection \<open>The loop guard stops a batch before it starts\<close>

text \<open>When the loop guard trips on any call of a batch, nothing of the batch is run: no tool, no
  approval prompt, no audit row.  Without a guard, or when it does not trip, the batch runs.\<close>

theorem tripped_batch_runs_nothing:
  "(case run_tool_calls to_vec digest env order content mid guard cache st of
      (Inl e, _, st') \<Rightarrow> st' = st
        \<and> (\<exists>g. guard = Some g \<and> fst (guard_all to_vec digest g (collect_pending env 0 cache content)) \<noteq> None)
    | (Inr batch, _, st') \<Rightarrow>
        run_pending env order mid (collect_pending env 0 cache content) st = (batch, st')
        \<and> (\<forall>g. guard = Some g \<longrightarrow> fst (guard_all to_vec digest g (collect_pending env 0 cache content)) = None))"
  by (auto simp: run_tool_calls_def Let_def split: option.splits prod.splits)

theorem tripped_batch_runs_nothing_witness:
  "snd (snd (run_tool_calls (\<lambda>_. None) id sample_env id [ToolUse ''x'' ''Read'' JNull] 0
     (Some (new_guard 1)) Map.empty (empty_db, ()))) = (empty_db, ())"
  using tripped_batch_runs_nothing [where to_vec = "\<lambda>_. None" and digest = id and env = sample_env
      and order = id and content = "[ToolUse ''x'' ''Read'' JNull]" and mid = 0
      and guard = "Some (new_guard 1)" and cache = Map.empty and st = "(empty_db, ())"]
  by (auto simp: new_guard_def record_call_def Let_def split: prod.splits sum.splits)

subsection \<open>Parallel segments\<close>

text \<open>States that differ in the audit tables only.\<close>

definition same_obs :: "'w exec_state \<Rightarrow> 'w exec_state \<Rightarrow> bool" where
  "same_obs s t \<longleftrightarrow> decisions (fst s) = decisions (fst t) \<and> snd s = snd t"

lemma same_obs_refl [simp]: "same_obs s s"
  by (simp add: same_obs_def)

lemma same_obs_trans: "same_obs s t \<Longrightarrow> same_obs t u \<Longrightarrow> same_obs s u"
  by (simp add: same_obs_def)

lemma same_obs_sym: "same_obs s t \<Longrightarrow> same_obs t s"
  by (simp add: same_obs_def)

lemma find_decision_decisions:
  "decisions db = decisions db' \<Longrightarrow> find_decision db t p n s = find_decision db' t p n s"
proof -
  assume "decisions db = decisions db'"
  then have e: "exact_decision db = exact_decision db'" by (simp add: fun_eq_iff exact_decision_def)
  show ?thesis unfolding find_decision_def e by (rule refl)
qed

lemma remember_decision_decisions:
  "decisions db = decisions db' \<Longrightarrow>
     decisions (remember_decision db now t p n s d) = decisions (remember_decision db' now t p n s d)"
  by (simp add: remember_decision_def)

lemma audit_start_obs: "same_obs (audit_start env i mid n inp st) st"
  by (auto simp: audit_start_def same_obs_def record_tool_start_def split: prod.splits sum.splits if_splits)

lemma audit_completion_obs: "same_obs (audit_completion env i r st) st"
  by (auto simp: audit_completion_def same_obs_def record_tool_completion_def split: prod.splits)

lemma gate_check_obs:
  assumes "same_obs s t" "gate_check env tool inp s = (r, s')" "gate_check env tool inp t = (r', t')"
  shows "r = r' \<and> same_obs s' t'"
proof -
  obtain db w db2 where s: "s = (db, w)" "t = (db2, w)" "decisions db = decisions db2"
    using assms(1) by (cases s; cases t) (auto simp: same_obs_def)
  then show ?thesis
    using assms(2,3) find_decision_decisions [OF s(3)] remember_decision_decisions [OF s(3)]
    by (auto simp: gate_check_def ask_gate_def Let_def same_obs_def split: if_splits option.splits
        persisted_decision.splits prod.splits sum.splits approval_decision.splits)
qed

lemma execute_one_obs:
  assumes "same_obs s t" "execute_one env i n inp mid pre s = (r, s')" "execute_one env i n inp mid pre t = (r', t')"
  shows "r = r' \<and> same_obs s' t'"
proof (cases "e_registry env n")
  case None
  with assms show ?thesis by (auto simp: execute_one_def)
next
  case (Some tool)
  obtain g s1 where gs: "gate_check env tool inp s = (g, s1)" by (metis surj_pair)
  obtain g' t1 where gt: "gate_check env tool inp t = (g', t1)" by (metis surj_pair)
  from gate_check_obs [OF assms(1) gs gt] have g: "g = g'" and o: "same_obs s1 t1" by simp_all
  have "same_obs (audit_start env i mid n inp s1) (audit_start env i mid n inp t1)"
    using o audit_start_obs same_obs_trans same_obs_sym by metis
  then obtain da db w where a: "audit_start env i mid n inp s1 = (da, w)" "audit_start env i mid n inp t1 = (db, w)"
    "decisions da = decisions db"
    by (cases "audit_start env i mid n inp s1"; cases "audit_start env i mid n inp t1") (auto simp: same_obs_def)
  have c: "same_obs (audit_completion env i r (da, w)) (audit_completion env i r (db, w))" for r w
    using a(3) audit_completion_obs [of env i r "(da, w)"] audit_completion_obs [of env i r "(db, w)"]
    by (simp add: same_obs_def)
  show ?thesis
  proof (cases g)
    case (Inl e)
    with g have "g' = Inl e" by simp
    with assms(2,3) Some gs gt g o Inl show ?thesis by (auto simp: execute_one_def)
  next
    case (Inr d)
    show ?thesis
    proof (cases d)
      case None
      then show ?thesis
        using assms(2,3) Some gs gt g a c Inr
        by (cases pre) (auto simp: execute_one_def Let_def split: prod.splits)
    next
      case (Some e)
      with assms(2,3) \<open>e_registry env n = Some tool\<close> gs gt g o Inr show ?thesis
        by (auto simp: execute_one_def)
    qed
  qed
qed

lemma run_one_obs:
  assumes "same_obs s t"
  shows "fst (run_one_to_block env i n inp mid pre s) = fst (run_one_to_block env i n inp mid pre t)
    \<and> same_obs (snd (run_one_to_block env i n inp mid pre s)) (snd (run_one_to_block env i n inp mid pre t))"
proof -
  obtain r s' where s: "execute_one env i n inp mid pre s = (r, s')" by (metis surj_pair)
  obtain r' t' where t: "execute_one env i n inp mid pre t = (r', t')" by (metis surj_pair)
  from execute_one_obs [OF assms s t] show ?thesis
    by (auto simp: run_one_to_block_def s t Let_def split: prod.splits)
qed

definition pure_reads :: "('w, 'x) tool_env_scheme \<Rightarrow> bool" where
  "pure_reads env \<longleftrightarrow>
     (\<forall>name tool. e_registry env name = Some tool \<and> is_read_only tool \<longrightarrow>
        t_requirement tool = Never \<and> (\<forall>inp w. snd (e_exec env name inp w) = w))"

definition reads_ok :: "('w, 'x) tool_env_scheme \<Rightarrow> pending \<Rightarrow> bool" where
  "reads_ok env p \<longleftrightarrow> (p_read_only p \<longrightarrow> (\<exists>tool. e_registry env (p_name p) = Some tool \<and> is_read_only tool))"

lemma collect_reads_ok: "\<forall>p \<in> set (collect_pending env pos cache bs). reads_ok env p"
  by (induction env pos cache bs rule: collect_pending.induct) (auto simp: reads_ok_def simp del: fun_upd_apply split: option.splits)

definition run_p :: "('w, 'x) tool_env_scheme \<Rightarrow> message_id \<Rightarrow> pending \<Rightarrow> 'w exec_state \<Rightarrow> outcome \<times> 'w exec_state" where
  "run_p env mid p st = run_one_to_block env (p_id p) (p_name p) (p_input p) mid (p_prebuilt p) st"

lemma run_p_obs: "same_obs s t \<Longrightarrow> fst (run_p env mid p s) = fst (run_p env mid p t) \<and> same_obs (snd (run_p env mid p s)) (snd (run_p env mid p t))"
  unfolding run_p_def by (rule run_one_obs)

lemma run_p_pure:
  assumes "pure_reads env" "reads_ok env p" "p_read_only p"
  shows "same_obs (snd (run_p env mid p st)) st"
proof -
  obtain tool where tool: "e_registry env (p_name p) = Some tool" "is_read_only tool"
    using assms by (auto simp: reads_ok_def)
  with assms(1) have "t_requirement tool = Never" "\<And>inp w. snd (e_exec env (p_name p) inp w) = w"
    by (auto simp: pure_reads_def)
  then have never: "gate_check env tool (p_input p) st = (Inr None, st)"
    and pure: "\<And>inp w. snd (e_exec env (p_name p) inp w) = w"
    by (simp_all add: gate_check_def)
  obtain db w where a: "audit_start env (p_id p) mid (p_name p) (p_input p) st = (db, w)" by (metis surj_pair)
  have o: "same_obs (db, w) st" using audit_start_obs [of env "p_id p" mid "p_name p" "p_input p" st] a by simp
  obtain r where x: "execute_one env (p_id p) (p_name p) (p_input p) mid (p_prebuilt p) st
      = (Inr r, audit_completion env (p_id p) r (db, w))"
  proof (cases "p_prebuilt p")
    case None
    obtain r w' where e: "e_exec env (p_name p) (p_input p) w = (r, w')" by (metis surj_pair)
    then have "w' = w" using pure [of "p_input p" w] by simp
    with None e that [of r] show ?thesis by (simp add: execute_one_def tool(1) never a Let_def)
  next
    case (Some r)
    with that [of r] show ?thesis by (simp add: execute_one_def tool(1) never a Let_def)
  qed
  have "snd (run_p env mid p st) = audit_completion env (p_id p) r (db, w)"
    by (simp add: run_p_def run_one_to_block_def x Let_def split: prod.split)
  then show ?thesis using audit_completion_obs same_obs_trans o by metis
qed

lemma run_segment_Cons:
  "run_segment env mid (p # ps) st =
     ((p_position p, fst (run_p env mid p st)) # fst (run_segment env mid ps (snd (run_p env mid p st))),
      snd (run_segment env mid ps (snd (run_p env mid p st))))"
  by (simp add: run_p_def Let_def split: prod.split)

lemma run_reads:
  assumes "pure_reads env" "\<forall>p \<in> set ps. reads_ok env p \<and> p_read_only p" "same_obs s st"
  shows "fst (run_segment env mid ps s) = map (\<lambda>p. (p_position p, fst (run_p env mid p st))) ps
    \<and> same_obs (snd (run_segment env mid ps s)) st"
  using assms(2,3)
proof (induction ps arbitrary: s)
  case Nil
  then show ?case by simp
next
  case (Cons p ps)
  have "same_obs (snd (run_p env mid p s)) st"
    using run_p_pure [OF assms(1), of p mid s] Cons.prems same_obs_trans by (metis list.set_intros(1))
  with Cons run_p_obs [of s st env mid p] show ?case
    by (simp add: run_segment_Cons del: run_segment.simps)
qed

lemma segments_read_only:
  "\<forall>p \<in> set cur. p_read_only p \<Longrightarrow> seg \<in> set (segments cur ps) \<Longrightarrow> length seg \<noteq> 1 \<Longrightarrow> \<forall>p \<in> set seg. p_read_only p"
proof (induction cur ps rule: segments.induct)
  case (1 cur)
  then show ?case by (simp split: if_splits)
next
  case (2 cur p ps)
  show ?case
  proof (cases "p_read_only p")
    case True
    have "\<forall>q \<in> set (cur @ [p]). p_read_only q" "seg \<in> set (segments (cur @ [p]) ps)"
      using "2.prems"(1,2) True by simp_all
    then show ?thesis using "2.IH"(1) [OF True] "2.prems"(3) by blast
  next
    case False
    then consider "seg = cur" | "seg = [p]" | "seg \<in> set (segments [] ps)"
      using "2.prems"(2) by (cases "cur = []") auto
    then show ?thesis
    proof cases
      case 1
      then show ?thesis using "2.prems"(1) by simp
    next
      case 2
      then show ?thesis using "2.prems"(3) by simp
    next
      case 3
      then show ?thesis using "2.IH"(2) [OF False _ _ "2.prems"(3)] by simp
    qed
  qed
qed

lemma run_single_obs:
  assumes "length seg = 1" "same_obs s t"
  shows "fst (run_segment env mid seg s) = fst (run_segment env mid seg t)
    \<and> same_obs (snd (run_segment env mid seg s)) (snd (run_segment env mid seg t))"
proof -
  obtain p where "seg = [p]" using assms(1) by (cases seg) auto
  then show ?thesis using run_p_obs [OF assms(2), of env mid p]
    by (simp add: run_segment_Cons del: run_segment.simps(2))
qed

lemma run_segments_order:
  assumes "pure_reads env" "permuting order" "permuting order'"
    and "\<forall>seg \<in> set segs. (\<forall>p \<in> set seg. reads_ok env p) \<and> (length seg \<noteq> 1 \<longrightarrow> (\<forall>p \<in> set seg. p_read_only p))"
    and "same_obs s t"
  shows "mset (fst (run_segments env order mid segs s)) = mset (fst (run_segments env order' mid segs t))
    \<and> same_obs (snd (run_segments env order mid segs s)) (snd (run_segments env order' mid segs t))"
  using assms(4,5)
proof (induction segs arbitrary: s t)
  case Nil
  then show ?case by simp
next
  case (Cons seg segs)
  define xs where "xs = (if length seg = 1 then seg else order seg)"
  define ys where "ys = (if length seg = 1 then seg else order' seg)"
  have head: "mset (fst (run_segment env mid xs s)) = mset (fst (run_segment env mid ys t))
      \<and> same_obs (snd (run_segment env mid xs s)) (snd (run_segment env mid ys t))"
  proof (cases "length seg = 1")
    case True
    then show ?thesis using run_single_obs [OF True Cons.prems(2), of env mid] by (simp add: xs_def ys_def)
  next
    case False
    then have m: "mset xs = mset seg" "mset ys = mset seg"
      using assms(2,3) by (simp_all add: xs_def ys_def permuting_def)
    have "set xs = set seg" "set ys = set seg" using m by (metis set_mset_mset)+
    then have ok: "\<forall>p \<in> set xs. reads_ok env p \<and> p_read_only p" "\<forall>p \<in> set ys. reads_ok env p \<and> p_read_only p"
      using Cons.prems(1) False by simp_all
    have eq: "mset (map f xs) = mset (map f ys)" for f :: "pending \<Rightarrow> nat \<times> outcome" using m by simp
    note x = run_reads [OF assms(1) ok(1) Cons.prems(2), of mid]
    note y = run_reads [OF assms(1) ok(2) same_obs_refl, of mid t]
    have "mset (fst (run_segment env mid xs s)) = mset (fst (run_segment env mid ys t))"
      using x y eq [of "\<lambda>p. (p_position p, fst (run_p env mid p t))"] by simp
    moreover have "same_obs (snd (run_segment env mid xs s)) (snd (run_segment env mid ys t))"
      using x y same_obs_trans same_obs_sym by blast
    ultimately show ?thesis ..
  qed
  have split: "run_segments env ord mid (seg # segs) u =
      (fst (run_segment env mid (if length seg = 1 then seg else ord seg) u)
        @ fst (run_segments env ord mid segs (snd (run_segment env mid (if length seg = 1 then seg else ord seg) u))),
       snd (run_segments env ord mid segs (snd (run_segment env mid (if length seg = 1 then seg else ord seg) u))))"
    for ord u by (simp add: Let_def split: prod.split)
  have tail: "\<forall>seg \<in> set segs. (\<forall>p \<in> set seg. reads_ok env p) \<and> (length seg \<noteq> 1 \<longrightarrow> (\<forall>p \<in> set seg. p_read_only p))"
    using Cons.prems(1) by simp
  show ?case
    using head Cons.IH [OF tail head [THEN conjunct2]]
    unfolding split xs_def [symmetric] ys_def [symmetric] by simp
qed

lemma fst_out_key: "map fst (map out_key outs) = map fst outs"
  by (simp add: out_key_def)



end
