(* ===== verification/System_Prompt.thy ===== *)
theory System_Prompt
  imports Stream_Events History "HOL-Library.Char_ord" "HOL-Library.List_Lexorder" "HOL-Library.Product_Lexorder"
begin

text \<open>
  What the model is told besides the conversation: the system segments (\<open>compose_system_segments\<close>,
  \<open>system_prompt_for\<close>, \<open>render_workspace_files\<close>) and the synthetic feedback texts of
  \<open>crates/snaca-engine/src/engine.rs\<close>, and the request of \<open>crates/snaca-llm/src/request.rs\<close>.  The
  calendar (\<open>chrono\<close>) supplies the date and the weekday, the file system the directory entries; the
  one-decimal rendering of a size is a parameter.
\<close>

subsection \<open>Text helpers\<close>

definition nl :: string where
  "nl = [newline]"

definition dq :: string where
  "dq = [CHR 0x22]"

definition sq :: string where
  "sq = [CHR 0x27]"

text \<open>\<open>rfind(char::is_whitespace)\<close>.\<close>

fun rfind_whitespace :: "string \<Rightarrow> nat option" where
  "rfind_whitespace [] = None"
| "rfind_whitespace (c # cs) =
     (case rfind_whitespace cs of
        Some i \<Rightarrow> Some (Suc i)
      | None \<Rightarrow> if list_ex (\<lambda>w. prefix w (c # cs)) whitespace_seqs then Some 0 else None)"

definition excerpt :: "string \<Rightarrow> nat \<Rightarrow> string" where
  "excerpt s max_bytes =
     (if length s \<le> max_bytes then s
      else
        (let cut_at = floor_loop s max_bytes;
             head = take cut_at s;
             trim_to = (case rfind_whitespace head of Some i \<Rightarrow> i | None \<Rightarrow> cut_at)
         in trim_end (take trim_to head) @ '' '' @ ellipsis))"

definition snippet :: "string \<Rightarrow> nat \<Rightarrow> string" where
  "snippet s max_chars =
     take (char_prefix max_chars s) s @ (if max_chars < char_count s then ''...'' else [])"

text \<open>\<open>str::lines\<close>: cut at newlines, with the carriage return before one dropped.\<close>

definition strip_cr :: "string \<Rightarrow> string" where
  "strip_cr s = (if suffix [CHR 0x0D] s then butlast s else s)"

fun lines_loop :: "string \<Rightarrow> string \<Rightarrow> string list" where
  "lines_loop line [] = (if line = [] then [] else [line])"
| "lines_loop line (c # cs) =
     (if c = newline then strip_cr line # lines_loop [] cs else lines_loop (line @ [c]) cs)"

fun join_lines :: "string list \<Rightarrow> string" where
  "join_lines [] = []"
| "join_lines [l] = l"
| "join_lines (l # ls) = l @ nl @ join_lines ls"

definition input_snippet :: "(json \<Rightarrow> string) \<Rightarrow> json \<Rightarrow> string" where
  "input_snippet ser input = snippet (ser input) 500"

definition error_snippet :: "string \<Rightarrow> string" where
  "error_snippet error =
     (let ls = lines_loop [] error; start = length ls - 20
      in snippet (join_lines (drop start ls)) 2000)"

subsection \<open>Feedback messages\<close>

definition repeated_tool_failure_feedback ::
  "(json \<Rightarrow> string) \<Rightarrow> string \<Rightarrow> json \<Rightarrow> string \<Rightarrow> nat \<Rightarrow> string" where
  "repeated_tool_failure_feedback ser tool input error n =
     ''Your previous identical tool call failed '' @ show_nat n @ '' times in this turn.'' @ nl @ nl
     @ ''Tool: `'' @ tool @ ''`'' @ nl
     @ ''Input: `'' @ input_snippet ser input @ ''`'' @ nl @ nl
     @ ''Latest error excerpt:'' @ nl
     @ ''```text'' @ nl @ error_snippet error @ nl @ ''```'' @ nl @ nl
     @ ''Do not run this exact same `'' @ tool @ ''` call again. First inspect the ''
     @ ''error output, explain the likely root cause, and change the approach ''
     @ ''before retrying. For example, modify the command/script/arguments, ''
     @ ''restore corrupted inputs, or run a different diagnostic command that ''
     @ ''can disambiguate the failure.''"

definition backslash :: string where
  "backslash = [CHR 0x5C]"

definition malformed_args_feedback :: "string \<Rightarrow> string \<Rightarrow> string" where
  "malformed_args_feedback tool msg =
     ''Your previous response attempted to call tool `'' @ tool @ ''` ''
     @ ''but the JSON arguments could not be parsed.'' @ nl @ nl
     @ ''Parser error: '' @ msg @ nl @ nl
     @ ''The most common cause is an unescaped `'' @ dq @ ''` inside a ''
     @ ''JSON string value. Please retry the same tool call, ''
     @ ''making sure every `'' @ dq @ ''` that appears INSIDE a JSON ''
     @ ''string is escaped as `'' @ backslash @ dq @ ''`. Chinese curly quotes ''
     @ ''(`'' @ map (\<lambda>n. char_of (n::nat)) [0xE2, 0x80, 0x9C] @ ''` U+201C and `''
     @ map (\<lambda>n. char_of (n::nat)) [0xE2, 0x80, 0x9D] @ ''` U+201D) do NOT need ''
     @ ''escaping. Newlines inside string values must be `'' @ backslash @ ''n`, ''
     @ ''not literal line breaks. Backslashes themselves must ''
     @ ''be escaped as `'' @ backslash @ backslash @ ''`.''"

subsection \<open>The loop-guard hint\<close>

record loop_guard_hint =
  h_tool :: string
  h_input_snippet :: string
  h_count :: nat

fun last_tool_input :: "(json \<Rightarrow> string) \<Rightarrow> string \<Rightarrow> content_block list \<Rightarrow> string option" where
  "last_tool_input ser tool [] = None"
| "last_tool_input ser tool (ToolUse i name input # bs) =
     (if name = tool then Some (ser input) else last_tool_input ser tool bs)"
| "last_tool_input ser tool (_ # bs) = last_tool_input ser tool bs"

definition loop_guard_input_snippet :: "(json \<Rightarrow> string) \<Rightarrow> content_block list \<Rightarrow> string \<Rightarrow> string" where
  "loop_guard_input_snippet ser content tool =
     excerpt (case last_tool_input ser tool (rev content) of Some s \<Rightarrow> s | None \<Rightarrow> []) 240"

subsection \<open>The workspace listing\<close>

definition NOISE_DIRS :: "string list" where
  "NOISE_DIRS = [''node_modules'', ''target'', ''bin'', ''obj'', ''venv'', ''__pycache__'', ''dist'', ''build'']"

text \<open>\<open>one_decimal x\<close> is \<open>format!("{:.1}", x)\<close> of an exactly represented quotient.\<close>

definition human_size :: "(nat \<Rightarrow> nat \<Rightarrow> string) \<Rightarrow> nat \<Rightarrow> string" where
  "human_size one_decimal b =
     (if b < 1024 then show_nat b @ '' B''
      else if b < 1024 * 1024 then one_decimal b 1024 @ '' KiB''
      else if b < 1024 * 1024 * 1024 then one_decimal b (1024 * 1024) @ '' MiB''
      else one_decimal b (1024 * 1024 * 1024) @ '' GiB'')"

text \<open>A directory entry: its name, and whether it is a directory and its size when its metadata can be read.\<close>

definition listed_entries :: "(string \<times> (bool \<times> nat) option) list \<Rightarrow> (bool \<times> string \<times> nat) list" where
  "listed_entries ents =
     concat (map (\<lambda>(name, meta).
       if prefix ''.'' name then []
       else (case meta of
               None \<Rightarrow> []
             | Some (is_dir, bytes) \<Rightarrow>
                 if is_dir \<and> name \<in> set NOISE_DIRS then []
                 else [(is_dir, name, if is_dir then 0 else bytes)])) ents)"

definition entry_line :: "(nat \<Rightarrow> nat \<Rightarrow> string) \<Rightarrow> bool \<times> string \<times> nat \<Rightarrow> string" where
  "entry_line one_decimal e =
     (case e of (is_dir, name, bytes) \<Rightarrow>
       if is_dir then ''- '' @ name @ ''/'' @ nl
       else ''- '' @ name @ '' ('' @ human_size one_decimal bytes @ '')'' @ nl)"

text \<open>The lines that fit, with what was written so far as the accumulator.\<close>

fun listing_loop :: "nat \<Rightarrow> string list \<Rightarrow> string \<Rightarrow> nat \<Rightarrow> string \<times> nat" where
  "listing_loop max_chars [] out shown = (out, shown)"
| "listing_loop max_chars (l # ls) out shown =
     (if max_chars < length out + length l then (out, shown)
      else listing_loop max_chars ls (out @ l) (shown + 1))"

definition render_workspace_files ::
  "(nat \<Rightarrow> nat \<Rightarrow> string) \<Rightarrow> (string \<times> (bool \<times> nat) option) list option \<Rightarrow> string" where
  "render_workspace_files one_decimal dir =
     (case dir of
        None \<Rightarrow> []
      | Some ents \<Rightarrow>
          (let entries = listed_entries ents in
           if entries = [] then []
           else
             (let entries = sort_key (\<lambda>(is_dir, name, bytes). (is_dir, name)) entries;
                  (out, shown) = listing_loop 4096 (map (entry_line one_decimal) (take 60 entries)) [] 0
              in if shown < length entries
                 then out @ ''- ['' @ ellipsis @ show_nat (length entries - shown) @ '' more not shown]'' @ nl
                 else out)))"

subsection \<open>System segments\<close>

record system_segment =
  sg_text :: string
  sg_cacheable :: bool

definition cacheable :: "string \<Rightarrow> system_segment" where
  "cacheable t = \<lparr>sg_text = t, sg_cacheable = True\<rparr>"

definition volatile :: "string \<Rightarrow> system_segment" where
  "volatile t = \<lparr>sg_text = t, sg_cacheable = False\<rparr>"

text \<open>\<open>ymd\<close> and \<open>weekday\<close> are today's date and weekday as \<open>chrono\<close> formats them.\<close>

definition current_date_preamble :: "string \<Rightarrow> string \<Rightarrow> string" where
  "current_date_preamble ymd weekday =
     ''Today'' @ sq @ ''s date is '' @ ymd @ '' ('' @ weekday @ '').'' @ nl @ nl"

definition memory_section :: "string \<Rightarrow> string" where
  "memory_section index =
     nl @ nl @ ''---'' @ nl @ nl @ ''## Project Memory'' @ nl @ nl
     @ ''A frozen snapshot of this project'' @ sq
     @ ''s memory tree. Each entry is shown verbatim under its `scope/name` heading. The ''
     @ ''snapshot was taken at the start of this thread session '' @ em_dash
     @ '' writes you make through `MemoryWrite` only become visible on the next session. ''
     @ ''If a `[truncated, N more entries hidden]` marker is present, use the ''
     @ ''`MemoryRead` tool with `scope` and `name` to fetch entries that didn'' @ sq @ ''t fit.'' @ nl
     @ nl
     @ trim index"

definition workspace_section :: "string \<Rightarrow> string \<Rightarrow> string" where
  "workspace_section dir files =
     nl @ nl @ ''---'' @ nl @ nl @ ''## Workspace Files'' @ nl @ nl
     @ (if trim dir = [] then []
        else ''Your working directory '' @ em_dash
          @ '' the cwd for `Bash` and the root that `Read`/`Write`/`Edit` resolve every path ''
          @ ''against '' @ em_dash @ '' is:'' @ nl @ nl @ ''    '' @ trim dir @ nl @ nl)
     @ ''The files below are in your project workspace '' @ em_dash
     @ '' the durable source of truth for anything the user uploaded. **Always reference ''
     @ ''them by workspace-relative path** (e.g. `report.pdf` or `sub/dir/data.xlsx`) ''
     @ ''and read them with the `Read` tool. Do NOT use absolute paths: anything ''
     @ ''pointing outside the root above '' @ em_dash
     @ '' a host path like `/home/user/...`, `/root/...` or `/workspace/...`, or a path ''
     @ ''from the user'' @ sq @ ''s own machine '' @ em_dash
     @ '' is rejected by the sandbox and fails with '' @ dq @ ''outside workspace root'' @ dq
     @ '' or '' @ dq @ ''No such file'' @ dq
     @ ''. This list is current as of THIS turn; before telling the user you don'' @ sq
     @ ''t have a file, check here first.'' @ nl @ nl @ trim files"

definition loop_guard_section :: "loop_guard_hint \<Rightarrow> string" where
  "loop_guard_section h =
     nl @ nl @ ''---'' @ nl @ nl @ ''## Previous turn aborted: loop guard'' @ nl @ nl
     @ ''The previous turn on this thread was aborted because you called `'' @ h_tool h @ ''` ''
     @ show_nat (h_count h)
     @ '' times with identical input. Do **not** repeat that exact call. If the same ''
     @ ''operation is still required, change the approach '' @ em_dash
     @ '' e.g. read the file in full (no offset/limit), split a large MultiEdit into ''
     @ ''smaller Edits, or use Grep to locate the target before retrying. The exact ''
     @ ''input that tripped the guard was: `''
     @ (if h_input_snippet h = [] then ''(input not captured)'' else h_input_snippet h) @ ''`.'' @ nl"

definition compose_system_segments ::
  "string \<Rightarrow> string \<Rightarrow> string \<Rightarrow> string \<Rightarrow> string \<Rightarrow> string \<Rightarrow> string option
     \<Rightarrow> loop_guard_hint option \<Rightarrow> system_segment list" where
  "compose_system_segments ymd weekday base index workspace_files workspace_root ephemeral hint =
     cacheable (current_date_preamble ymd weekday @ base
       @ (if trim index = [] then [] else memory_section index))
     # (case ephemeral of
          Some extra \<Rightarrow> if trim extra = [] then [] else [volatile extra]
        | None \<Rightarrow> [])
     @ (if trim workspace_files = [] then [] else [volatile (workspace_section workspace_root workspace_files)])
     @ (case hint of Some h \<Rightarrow> [volatile (loop_guard_section h)] | None \<Rightarrow> [])"

text \<open>
  \<open>system_prompt_for\<close> with the map of frozen snapshots: \<open>rendered\<close> is what a render of the memory tree
  returns now, used only when the thread has no snapshot yet.
\<close>

definition system_prompt_for ::
  "(string \<rightharpoonup> string) \<Rightarrow> string \<Rightarrow> string \<Rightarrow> string \<Rightarrow> string \<Rightarrow> string \<Rightarrow> string \<Rightarrow> string
     \<Rightarrow> string option \<Rightarrow> loop_guard_hint option \<Rightarrow> system_segment list \<times> (string \<rightharpoonup> string)" where
  "system_prompt_for snapshots thread ymd weekday base rendered workspace_files workspace_root ephemeral hint =
     (case snapshots thread of
        Some cached \<Rightarrow>
          (compose_system_segments ymd weekday base cached workspace_files workspace_root ephemeral hint,
           snapshots)
      | None \<Rightarrow>
          (compose_system_segments ymd weekday base rendered workspace_files workspace_root ephemeral hint,
           snapshots(thread \<mapsto> rendered)))"

definition invalidate_memory_snapshot :: "(string \<rightharpoonup> string) \<Rightarrow> string \<Rightarrow> (string \<rightharpoonup> string)" where
  "invalidate_memory_snapshot snapshots thread = snapshots(thread := None)"

subsection \<open>Requests\<close>

record message_request =
  rq_model :: string
  rq_system :: "string option"
  rq_system_segments :: "system_segment list"
  rq_messages :: "message list"
  rq_tools :: "tool_schema list"
  rq_max_tokens :: "nat option"
  rq_temperature :: "rat option"
  rq_stop_sequences :: "string list"

definition new_request :: "string \<Rightarrow> message_request" where
  "new_request model = \<lparr>rq_model = model, rq_system = None, rq_system_segments = [], rq_messages = [],
     rq_tools = [], rq_max_tokens = None,
     rq_temperature = None, rq_stop_sequences = []\<rparr>"

definition with_system :: "message_request \<Rightarrow> string \<Rightarrow> message_request" where
  "with_system r s = r\<lparr>rq_system := Some s, rq_system_segments := []\<rparr>"

definition with_system_segments :: "message_request \<Rightarrow> system_segment list \<Rightarrow> message_request" where
  "with_system_segments r segs = r\<lparr>rq_system_segments := segs, rq_system := None\<rparr>"

fun join_segments :: "system_segment list \<Rightarrow> string" where
  "join_segments [] = []"
| "join_segments [s] = sg_text s"
| "join_segments (s # ss) = sg_text s @ nl @ nl @ join_segments ss"

definition flat_system :: "message_request \<Rightarrow> string option" where
  "flat_system r = (if rq_system_segments r \<noteq> [] then Some (join_segments (rq_system_segments r)) else rq_system r)"

subsection \<open>The cacheable prefix\<close>

text \<open>The cacheable prefix of the system prompt is frozen for a thread.  Whatever the memory tree
  renders to later, and whatever files, editor context or loop-guard hint a turn adds, the first
  segment of every turn of the thread (on one day) is the one of its first turn and the only cacheable
  one; the added texts stand behind it, so they never invalidate the provider's prompt cache.  Only an
  invalidation lets a new render in.\<close>

theorem system_prefix_frozen:
  "(case system_prompt_for snaps thread ymd weekday base rendered files dir extra hint of (segs, snaps1) \<Rightarrow>
      (case system_prompt_for snaps1 thread ymd weekday base rendered' files' dir' extra' hint' of (segs', snaps2) \<Rightarrow>
         hd segs' = hd segs \<and> sg_cacheable (hd segs) \<and> filter sg_cacheable (tl segs') = []
         \<and> snaps2 = snaps1
         \<and> hd (fst (system_prompt_for (invalidate_memory_snapshot snaps1 thread) thread ymd weekday base rendered'
                 files' dir' extra' hint'))
             = hd (compose_system_segments ymd weekday base rendered' files' dir' extra' hint')))"
  by (auto simp: system_prompt_for_def compose_system_segments_def cacheable_def volatile_def
      invalidate_memory_snapshot_def split: option.splits)

subsection \<open>The workspace listing is bounded\<close>

lemma listing_loop_spec:
  "listing_loop m ls out shown = (o', s') \<Longrightarrow> length out \<le> m
    \<Longrightarrow> length o' \<le> m \<and> shown \<le> s' \<and> s' - shown \<le> length ls \<and> o' = out @ concat (take (s' - shown) ls)"
proof (induction ls arbitrary: out shown)
  case (Cons l ls)
  show ?case
  proof (cases "m < length out + length l")
    case False
    with Cons.prems have "listing_loop m ls (out @ l) (shown + 1) = (o', s')" "length (out @ l) \<le> m" by auto
    from Cons.IH [OF this] show ?thesis
      by (auto simp: take_Cons' Suc_diff_Suc dest: Suc_diff_le)
  qed (use Cons.prems in auto)
qed auto

text \<open>The listing is a run of whole lines from the front of the sorted entries, in the budget, and says how
  many it left out.\<close>

lemma workspace_listing_bounded:
  assumes "listed_entries ents \<noteq> []"
    and "es = sort_key (\<lambda>(is_dir, name, bytes). (is_dir, name)) (listed_entries ents)"
  obtains k where "k \<le> 60" and "length (concat (map (entry_line f) (take k es))) \<le> 4096"
    and "render_workspace_files f (Some ents) = concat (map (entry_line f) (take k es))
      @ (if k < length es then ''- ['' @ ellipsis @ show_nat (length es - k) @ '' more not shown]'' @ nl else [])"
proof -
  obtain out' k where run: "listing_loop 4096 (map (entry_line f) (take 60 es)) [] 0 = (out', k)"
    by (metis surj_pair)
  from listing_loop_spec [OF run]
  have k: "length out' \<le> 4096" "k \<le> length (take 60 es)" "out' = concat (take k (map (entry_line f) (take 60 es)))"
    by auto
  then have out: "out' = concat (map (entry_line f) (take k es))"
    by (simp add: take_map min_absorb1)
  show ?thesis
  proof (rule that [of k])
    show "k \<le> 60" using k(2) by simp
    show "length (concat (map (entry_line f) (take k es))) \<le> 4096" using k(1) out by simp
    show "render_workspace_files f (Some ents) = concat (map (entry_line f) (take k es))
      @ (if k < length es then ''- ['' @ ellipsis @ show_nat (length es - k) @ '' more not shown]'' @ nl else [])"
      using assms(1) run out by (simp add: render_workspace_files_def assms(2) [symmetric])
  qed
qed

end
