(* ===== verification/Llm_Call.thy ===== *)
theory Llm_Call
  imports Tool_Calls System_Prompt Config Pairing
begin

text \<open>
  One round trip with the provider: \<open>call_llm_and_prerun\<close>, \<open>call_llm_and_prerun_once\<close>,
  \<open>maybe_spawn_prerun\<close>, \<open>is_streamable_tool\<close> and \<open>stream_retry_delay\<close> of
  \<open>crates/snaca-engine/src/engine.rs\<close>.

  The provider is part of the world: the record \<open>turn_env\<close> extends the tool environment with the
  outcome of a streaming and of a plain request.  A stream is the list of what it yields, up to the
  first error.  A task spawned for an early tool run is run when it is spawned; it is detached, so it
  runs whatever becomes of the stream.  The listener's observations are the list \<open>ss_heard\<close>.
\<close>

subsection \<open>The environment of a turn\<close>

record 'w turn_env = "'w tool_env" +
  v_stream :: "message_request \<Rightarrow> 'w \<Rightarrow> (llm_error + (llm_error + stream_event) list) \<times> 'w"
  v_message :: "message_request \<Rightarrow> 'w \<Rightarrow> (llm_error + message_response) \<times> 'w"
  v_parse :: "string \<Rightarrow> json option"
  v_parse_error :: "string \<Rightarrow> string"
  v_serialize :: "json \<Rightarrow> string"
  v_show_duration :: "duration option \<Rightarrow> string"
  v_uuid :: "'w \<Rightarrow> message_id \<times> 'w"
  v_request_ids :: "'w \<Rightarrow> nat \<Rightarrow> message_id \<times> timestamp"

subsection \<open>Error texts\<close>

fun llm_error_text :: "(duration option \<Rightarrow> string) \<Rightarrow> llm_error \<Rightarrow> string" where
  "llm_error_text shown (Transport e) = ''transport error: '' @ e"
| "llm_error_text shown (Serde e) = ''serialization error: '' @ e"
| "llm_error_text shown (HttpStatus status body) = ''provider returned http '' @ show_nat status @ '': '' @ body"
| "llm_error_text shown (RateLimited d) = ''rate limited (retry_after='' @ shown d @ '')''"
| "llm_error_text shown ContextOverflow = ''context window exceeded''"
| "llm_error_text shown (ServerTransient status) = ''server transient error: http '' @ show_nat status"
| "llm_error_text shown (AuthExpired status) = ''authentication failed: http '' @ show_nat status"
| "llm_error_text shown (StreamInterrupted e) = ''stream interrupted: '' @ e"
| "llm_error_text shown (MalformedResponse e) = ''provider returned malformed response: '' @ e"
| "llm_error_text shown (MalformedToolArgs _ _ msg) = ''provider returned malformed response: '' @ msg"
| "llm_error_text shown (Provider code msg) = ''provider error '' @ code @ '': '' @ msg"
| "llm_error_text shown (ContentFiltered code msg) = ''content filtered by provider '' @ code @ '': '' @ msg"
| "llm_error_text shown Timeout = ''operation timed out''"
| "llm_error_text shown (InvalidConfig e) = ''invalid configuration: '' @ e"
| "llm_error_text shown (Unsupported provider feature) = ''unsupported feature for '' @ provider @ '': '' @ feature"
| "llm_error_text shown (OtherError e) = e"

subsection \<open>Early tool runs\<close>

type_synonym prerun_cache = "tool_use_id \<rightharpoonup> (tool_error + tool_output)"

definition is_streamable_tool :: "('w, 'x) tool_env_scheme \<Rightarrow> string \<Rightarrow> bool" where
  "is_streamable_tool env name =
     (case e_registry env name of
        None \<Rightarrow> False
      | Some tool \<Rightarrow> is_read_only tool \<and> t_requirement tool = Never)"

record stream_tool_use =
  u_id :: string
  u_name :: string
  u_args :: string

text \<open>The call to spawn for a completed block, if any.\<close>

definition maybe_spawn_prerun ::
  "('w, 'x) turn_env_scheme \<Rightarrow> stream_tool_use \<Rightarrow> (tool_use_id \<times> string \<times> json) option" where
  "maybe_spawn_prerun env p =
     (case e_registry env (u_name p) of
        None \<Rightarrow> None
      | Some tool \<Rightarrow>
          if \<not> is_read_only tool then None
          else if t_requirement tool \<noteq> Never then None
          else
            (case (if trim (u_args p) = [] then Some (JObject []) else v_parse env (u_args p)) of
               None \<Rightarrow> None
             | Some input \<Rightarrow> Some (u_id p, u_name p, input)))"

record 'w stream_state =
  ss_scrubbers :: scrubbers
  ss_acc :: accumulator
  ss_partials :: "(nat \<times> stream_tool_use) list"
  ss_barrier :: bool
  ss_handles :: "(tool_use_id \<times> (tool_error + tool_output)) list"
  ss_spawned :: "(tool_use_id \<times> string \<times> json) list"
  ss_heard :: "stream_event list"
  ss_world :: 'w

definition new_stream_state :: "'w \<Rightarrow> 'w stream_state" where
  "new_stream_state w = \<lparr>ss_scrubbers = [], ss_acc = new_accumulator, ss_partials = [], ss_barrier = False,
     ss_handles = [], ss_spawned = [], ss_heard = [], ss_world = w\<rparr>"

text \<open>The end of a tool-use block: the barrier, or an early run.\<close>

definition finish_tool_block ::
  "('w, 'x) turn_env_scheme \<Rightarrow> stream_tool_use \<Rightarrow> 'w stream_state \<Rightarrow> 'w stream_state" where
  "finish_tool_block env p s =
     (if ss_barrier s then s
      else if \<not> is_streamable_tool env (u_name p) then s\<lparr>ss_barrier := True\<rparr>
      else
        (case maybe_spawn_prerun env p of
           None \<Rightarrow> s
         | Some (i, name, input) \<Rightarrow>
             (case e_exec env name input (ss_world s) of
                (result, w') \<Rightarrow>
                  s\<lparr>ss_handles := ss_handles s @ [(i, result)],
                    ss_spawned := ss_spawned s @ [(i, name, input)], ss_world := w'\<rparr>)))"

fun track_tool_block ::
  "('w, 'x) turn_env_scheme \<Rightarrow> 'w stream_state \<Rightarrow> stream_event \<Rightarrow> 'w stream_state" where
  "track_tool_block env s (BlockStart i (StartToolUse u name)) =
     s\<lparr>ss_partials := btree_insert i \<lparr>u_id = u, u_name = name, u_args = []\<rparr> (ss_partials s)\<rparr>"
| "track_tool_block env s (BlockDelta i (DeltaToolJson j)) =
     s\<lparr>ss_partials := btree_update i (\<lambda>p. p\<lparr>u_args := u_args p @ j\<rparr>) (ss_partials s)\<rparr>"
| "track_tool_block env s (BlockStop i) =
     (case map_of (ss_partials s) i of
        None \<Rightarrow> s
      | Some p \<Rightarrow> finish_tool_block env p (s\<lparr>ss_partials := AList.delete i (ss_partials s)\<rparr>))"
| "track_tool_block env s ev = s"

definition process_event ::
  "('w, 'x) turn_env_scheme \<Rightarrow> engine_config \<Rightarrow> 'w stream_state \<Rightarrow> stream_event \<Rightarrow> 'w stream_state" where
  "process_event env cfg s ev =
     (let s1 = s\<lparr>ss_heard := ss_heard s @ [ev]\<rparr>;
          s2 = (if stream_tool_execution cfg then track_tool_block env s1 ev else s1)
      in s2\<lparr>ss_acc := ingest (ss_acc s2) ev\<rparr>)"

fun consume ::
  "('w, 'x) turn_env_scheme \<Rightarrow> engine_config \<Rightarrow> 'w stream_state \<Rightarrow> (llm_error + stream_event) list
     \<Rightarrow> llm_error option \<times> 'w stream_state" where
  "consume env cfg s [] = (None, s)"
| "consume env cfg s (Inl e # items) = (Some e, s)"
| "consume env cfg s (Inr ev # items) =
     (case scrub_stream_event (ss_scrubbers s) ev of
        (evs, scrubbers') \<Rightarrow>
          consume env cfg (foldl (process_event env cfg) (s\<lparr>ss_scrubbers := scrubbers'\<rparr>) evs) items)"

text \<open>\<open>PrerunCache::insert\<close>, handle by handle: a later result of the same id wins.\<close>

definition drain_handles :: "(tool_use_id \<times> (tool_error + tool_output)) list \<Rightarrow> prerun_cache" where
  "drain_handles handles = foldl (\<lambda>cache (i, r). cache(i \<mapsto> r)) Map.empty handles"

subsection \<open>One request\<close>

definition turn_request ::
  "engine_config \<Rightarrow> system_segment list \<Rightarrow> message list \<Rightarrow> tool_schema list \<Rightarrow> nat option \<Rightarrow> message_request" where
  "turn_request cfg segs history tools limit =
     (let req = with_system_segments (new_request (cfg_model cfg)) segs;
          req = req\<lparr>rq_messages := history, rq_tools := tools\<rparr>
      in (case limit of Some m \<Rightarrow> req\<lparr>rq_max_tokens := Some m\<rparr> | None \<Rightarrow> req))"

definition call_llm_and_prerun_once ::
  "('w, 'x) turn_env_scheme \<Rightarrow> engine_config \<Rightarrow> message_request \<Rightarrow> 'w
     \<Rightarrow> (llm_error + (message_response \<times> prerun_cache)) \<times> stream_event list \<times> 'w" where
  "call_llm_and_prerun_once env cfg req w =
     (case v_stream env req w of
        (Inl e, w1) \<Rightarrow> (Inl e, [], w1)
      | (Inr items, w1) \<Rightarrow>
          (case consume env cfg (new_stream_state w1) items of
             (Some e, s) \<Rightarrow> (Inl e, ss_heard s, ss_world s)
           | (None, s) \<Rightarrow>
               (let (fresh, now) = v_request_ids env (ss_world s) 0
                in case finalize (v_parse env) (v_parse_error env) fresh now (ss_acc s) of
                     Inr resp \<Rightarrow> (Inr (resp, drain_handles (ss_handles s)), ss_heard s, ss_world s)
                   | Inl (MalformedToolArgs tool n msg) \<Rightarrow>
                       (case v_message env req (ss_world s) of
                          (Inr resp, w2) \<Rightarrow> (Inr (resp, Map.empty), ss_heard s, w2)
                        | (Inl e, w2) \<Rightarrow>
                            (Inl (MalformedToolArgs tool n
                               (msg @ '' (non-streaming retry also failed: ''
                                 @ llm_error_text (v_show_duration env) e @ '')'')), ss_heard s, w2))
                   | Inl e \<Rightarrow> (Inl e, ss_heard s, ss_world s))))"

definition stream_retry_delay :: "nat \<Rightarrow> duration" where
  "stream_retry_delay attempt = from_millis (u64_sat (500 * 2 ^ min (attempt - 1) 5))"

text \<open>The loop over interrupted streams; the second result are the attempts, each with what the
  listener heard of it, and the delay before the next one.\<close>

function stream_attempts ::
  "('w, 'x) turn_env_scheme \<Rightarrow> engine_config \<Rightarrow> message_request \<Rightarrow> nat \<Rightarrow> 'w
     \<Rightarrow> (llm_error + (message_response \<times> prerun_cache)) \<times> (stream_event list \<times> duration) list \<times> 'w" where
  "stream_attempts env cfg req attempt w =
     (case call_llm_and_prerun_once env cfg req w of
        (Inl (StreamInterrupted e), heard, w1) \<Rightarrow>
          if attempt < stream_interrupted_max_retries cfg
          then (case stream_attempts env cfg req (attempt + 1) w1 of
                  (r, log1, w2) \<Rightarrow> (r, (heard, stream_retry_delay (attempt + 1)) # log1, w2))
          else (Inl (StreamInterrupted e), [(heard, 0)], w1)
      | (r, heard, w1) \<Rightarrow> (r, [(heard, 0)], w1))"
  by pat_completeness auto
termination
  by (relation "measure (\<lambda>(env, cfg, req, attempt, w). stream_interrupted_max_retries cfg - attempt)") auto

declare stream_attempts.simps [simp del]

definition call_llm_and_prerun ::
  "('w, 'x) turn_env_scheme \<Rightarrow> engine_config \<Rightarrow> system_segment list \<Rightarrow> message list \<Rightarrow> tool_schema list \<Rightarrow> nat option
     \<Rightarrow> 'w \<Rightarrow> (llm_error + (message_response \<times> prerun_cache)) \<times> (stream_event list \<times> duration) list \<times> 'w" where
  "call_llm_and_prerun env cfg segs history tools limit w =
     (let history' = ensure_tool_result_pairing (v_request_ids env w) history
      in stream_attempts env cfg (turn_request cfg segs history' tools limit) 0 w)"

subsection \<open>Only reads in front of every other call run early\<close>

fun leading_reads :: "('w, 'x) tool_env_scheme \<Rightarrow> content_block list \<Rightarrow> (tool_use_id \<times> string \<times> json) list" where
  "leading_reads env [] = []"
| "leading_reads env (ToolUse i name v # bs) =
     (if is_streamable_tool env name then (i, name, v) # leading_reads env bs else [])"
| "leading_reads env (_ # bs) = leading_reads env bs"

text \<open>The part of the stream state the early runs depend on.\<close>

definition early :: "'w stream_state \<Rightarrow> (nat \<times> stream_tool_use) list \<times> bool \<times> (tool_use_id \<times> string \<times> json) list" where
  "early s = (ss_partials s, ss_barrier s, ss_spawned s)"

fun is_text_delta :: "stream_event \<Rightarrow> bool" where
  "is_text_delta (BlockDelta _ (DeltaText _)) = True"
| "is_text_delta (BlockDelta _ (DeltaThinking _)) = True"
| "is_text_delta _ = False"

lemma process_text_delta: "is_text_delta ev \<Longrightarrow> early (process_event env cfg s ev) = early s"
  by (cases ev rule: is_text_delta.cases) (simp_all add: process_event_def early_def Let_def)

lemma process_text_deltas: "list_all is_text_delta evs \<Longrightarrow> early (foldl (process_event env cfg) s evs) = early s"
  by (induction evs arbitrary: s) (simp_all add: process_text_delta)

lemma scrub_delta_text:
  "scrub_delta ss i DeltaText t = (out, ss') \<Longrightarrow> list_all is_text_delta out"
  "scrub_delta ss i DeltaThinking t = (out, ss') \<Longrightarrow> list_all is_text_delta out"
  by (auto simp: scrub_delta_def split: option.splits prod.splits if_splits)

lemma scrub_stop:
  "scrub_stream_event ss (BlockStop i) = (out, ss') \<Longrightarrow> \<exists>ts. out = ts @ [BlockStop i] \<and> list_all is_text_delta ts"
  by (auto simp: Let_def split: option.splits prod.splits if_splits fence_kind.splits)

lemma consume_append:
  "consume env cfg s (map Inr evs @ rest) =
     (case consume env cfg s (map Inr evs) of (_, s') \<Rightarrow> consume env cfg s' rest)"
  by (induction evs arbitrary: s) (auto split: prod.splits)

lemma consume_ok: "fst (consume env cfg s (map Inr evs)) = None"
  by (induction evs arbitrary: s) (auto split: prod.splits)

definition advance :: "('w, 'x) turn_env_scheme \<Rightarrow> engine_config \<Rightarrow> 'w stream_state \<Rightarrow> stream_event list \<Rightarrow> 'w stream_state" where
  "advance env cfg s evs = snd (consume env cfg s (map Inr evs))"

lemma advance_Nil [simp]: "advance env cfg s [] = s"
  by (simp add: advance_def)

lemma advance_Cons:
  "advance env cfg s (ev # evs) =
     advance env cfg (foldl (process_event env cfg) (s\<lparr>ss_scrubbers := snd (scrub_stream_event (ss_scrubbers s) ev)\<rparr>)
       (fst (scrub_stream_event (ss_scrubbers s) ev))) evs"
  by (simp add: advance_def split: prod.splits)

lemma advance_append: "advance env cfg s (xs @ ys) = advance env cfg (advance env cfg s xs) ys"
  by (simp add: advance_def consume_append split: prod.splits)

lemma early_scrubbers [simp]: "early (s\<lparr>ss_scrubbers := x\<rparr>) = early s"
  by (simp add: early_def)

lemma early_start:
  "early (process_event env cfg s (BlockStart i StartText)) = early s"
  "early (process_event env cfg s (BlockStart i StartThinking)) = early s"
  by (simp_all add: process_event_def early_def Let_def)

lemma early_stop_text:
  "ss_partials s = [] \<Longrightarrow> early (process_event env cfg s (BlockStop i)) = early s"
  by (simp add: process_event_def early_def Let_def)

lemma early_Pair: "early s = (p, b, q) \<longleftrightarrow> ss_partials s = p \<and> ss_barrier s = b \<and> ss_spawned s = q"
  by (auto simp: early_def)

lemma advance_text_delta:
  "is_text_delta ev \<Longrightarrow> early (advance env cfg s [ev]) = early s"
  using scrub_delta_text
  by (cases ev rule: is_text_delta.cases)
    (simp_all add: advance_Cons process_text_deltas prod_eq_iff)

lemma advance_stop:
  obtains s0 where "early s0 = early s" "advance env cfg s [BlockStop i] = process_event env cfg s0 (BlockStop i)"
proof -
  obtain out ss' where e: "scrub_stream_event (ss_scrubbers s) (BlockStop i) = (out, ss')" by (metis surj_pair)
  from scrub_stop [OF e] obtain ts where ts: "out = ts @ [BlockStop i]" "list_all is_text_delta ts" by blast
  show ?thesis
  proof (rule that [of "foldl (process_event env cfg) (s\<lparr>ss_scrubbers := ss'\<rparr>) ts"])
    show "early (foldl (process_event env cfg) (s\<lparr>ss_scrubbers := ss'\<rparr>) ts) = early s"
      using process_text_deltas [OF ts(2), of env cfg "s\<lparr>ss_scrubbers := ss'\<rparr>"] by simp
  next
    show "advance env cfg s [BlockStop i] =
        process_event env cfg (foldl (process_event env cfg) (s\<lparr>ss_scrubbers := ss'\<rparr>) ts) (BlockStop i)"
      unfolding advance_Cons e ts(1) by simp
  qed
qed

lemma advance_stop_text:
  assumes "ss_partials s = []"
  shows "early (advance env cfg s [BlockStop i]) = early s"
proof -
  obtain s0 where s0: "early s0 = early s" "advance env cfg s [BlockStop i] = process_event env cfg s0 (BlockStop i)"
    by (rule advance_stop)
  with assms have "ss_partials s0 = []" by (simp add: early_def)
  with early_stop_text s0 show ?thesis by metis
qed

lemma process_tool_start:
  assumes "stream_tool_execution cfg" "ss_partials s = []"
  shows "early (process_event env cfg s (BlockStart i (StartToolUse u n)))
    = ([(i, \<lparr>u_id = u, u_name = n, u_args = []\<rparr>)], ss_barrier s, ss_spawned s)"
  using assms by (simp add: process_event_def early_def Let_def)

lemma process_tool_delta:
  assumes "stream_tool_execution cfg" "early s = ([(i, p)], b, q)"
  shows "early (process_event env cfg s (BlockDelta i (DeltaToolJson j)))
    = ([(i, p\<lparr>u_args := u_args p @ j\<rparr>)], b, q)"
  using assms by (simp add: process_event_def early_def Let_def btree_update_def)

definition spawns :: "('w, 'x) turn_env_scheme \<Rightarrow> stream_tool_use \<Rightarrow> (tool_use_id \<times> string \<times> json) list" where
  "spawns env p = (case maybe_spawn_prerun env p of None \<Rightarrow> [] | Some c \<Rightarrow> [c])"

lemma process_tool_stop:
  assumes "stream_tool_execution cfg" "early s = ([(i, p)], b, q)"
  shows "early (process_event env cfg s (BlockStop i))
    = ([], b \<or> \<not> is_streamable_tool env (u_name p),
       q @ (if b \<or> \<not> is_streamable_tool env (u_name p) then [] else spawns env p))"
  using assms
  by (auto simp: process_event_def early_def Let_def finish_tool_block_def spawns_def
      split: option.splits prod.splits)

lemma advance_pass:
  assumes "scrub_stream_event (ss_scrubbers s) ev = ([ev], x)"
  shows "advance env cfg s [ev] = process_event env cfg (s\<lparr>ss_scrubbers := x\<rparr>) ev"
  by (simp add: advance_Cons assms)

lemma early_fields: "early s = (p, b, q) \<Longrightarrow> early (s\<lparr>ss_scrubbers := x\<rparr>) = (p, b, q)"
  by simp

lemma advance_tool_stop:
  assumes "stream_tool_execution cfg" "early s = ([(i, p)], b, q)"
  shows "early (advance env cfg s [BlockStop i])
    = ([], b \<or> \<not> is_streamable_tool env (u_name p),
       q @ (if b \<or> \<not> is_streamable_tool env (u_name p) then [] else spawns env p))"
proof -
  obtain s0 where s0: "early s0 = early s" "advance env cfg s [BlockStop i] = process_event env cfg s0 (BlockStop i)"
    by (rule advance_stop)
  with assms(2) have "early s0 = ([(i, p)], b, q)" by simp
  from process_tool_stop [OF assms(1) this] show ?thesis by (simp only: s0(2))
qed

text \<open>One block of a well-formed stream.\<close>

lemma advance_block:
  assumes on: "stream_tool_execution cfg" and empty: "ss_partials s = []"
    and parse_ok: "case b of ToolUse _ _ v \<Rightarrow> v_parse env (v_serialize env v) = Some v \<and> trim (v_serialize env v) \<noteq> [] | _ \<Rightarrow> True"
  shows "early (advance env cfg s (synthesize_block (v_serialize env) i b)) =
    ([], ss_barrier s \<or> (case b of ToolUse _ n _ \<Rightarrow> \<not> is_streamable_tool env n | _ \<Rightarrow> False),
     ss_spawned s @ (case b of ToolUse u n v \<Rightarrow> if ss_barrier s \<or> \<not> is_streamable_tool env n then [] else [(u, n, v)] | _ \<Rightarrow> []))"
proof -
  have s: "early s = ([], ss_barrier s, ss_spawned s)" using empty by (simp add: early_def)
  have three: "advance env cfg s [x, y, z] = advance env cfg (advance env cfg (advance env cfg s [x]) [y]) [z]" for x y z
    using advance_append [of env cfg s "[x]" "[y, z]"] advance_append [of env cfg "advance env cfg s [x]" "[y]" "[z]"] by simp
  have blk: "early (advance env cfg s [BlockStart i st, d, BlockStop i]) = early s"
    if is_st: "st = StartText \<or> st = StartThinking" and d: "is_text_delta d" for st d
  proof -
    let ?s1 = "advance env cfg s [BlockStart i st]"
    have 1: "early ?s1 = early s" using is_st by (auto simp: advance_Cons early_start)
    have 2: "early (advance env cfg ?s1 [d]) = early s" using advance_text_delta [OF d, of env cfg ?s1] 1 by simp
    then have "ss_partials (advance env cfg ?s1 [d]) = []" using s by (simp add: early_def)
    from advance_stop_text [OF this] 2 show ?thesis unfolding three by simp
  qed
  show ?thesis
  proof (cases b)
    case (Text t)
    then show ?thesis using blk [of StartText "BlockDelta i (DeltaText t)"] s by simp
  next
    case (Thinking t sg)
    then show ?thesis using blk [of StartThinking "BlockDelta i (DeltaThinking t)"] s by simp
  next
    case (ToolUse u n v)
    let ?p = "\<lparr>u_id = u, u_name = n, u_args = v_serialize env v\<rparr>"
    let ?s1 = "advance env cfg s [BlockStart i (StartToolUse u n)]"
    have 1: "early ?s1 = ([(i, \<lparr>u_id = u, u_name = n, u_args = []\<rparr>)], ss_barrier s, ss_spawned s)"
      using process_tool_start [OF on, of "s\<lparr>ss_scrubbers := ss_scrubbers s\<rparr>"] empty by (simp add: advance_Cons)
    let ?s2 = "advance env cfg ?s1 [BlockDelta i (DeltaToolJson (v_serialize env v))]"
    have 2: "early ?s2 = ([(i, ?p)], ss_barrier s, ss_spawned s)"
      using process_tool_delta [OF on 1, of env "v_serialize env v"] by (simp add: advance_Cons)
    have "spawns env ?p = [(u, n, v)]" if "is_streamable_tool env n"
      using that parse_ok ToolUse
      by (auto simp: spawns_def maybe_spawn_prerun_def is_streamable_tool_def split: option.splits)
    with advance_tool_stop [OF on 2, of env] ToolUse show ?thesis unfolding ToolUse synthesize_block.simps three by auto
  next
    case (ToolResult i c e)
    then show ?thesis using s by simp
  next
    case (Image x)
    then show ?thesis using s by simp
  qed
qed


lemma advance_blocks:
  assumes on: "stream_tool_execution cfg"
  shows "ss_partials s = [] \<Longrightarrow>
    \<forall>v \<in> set (tool_inputs bs). v_parse env (v_serialize env v) = Some v \<and> trim (v_serialize env v) \<noteq> [] \<Longrightarrow>
    ss_spawned (advance env cfg s (synthesize_blocks (v_serialize env) i bs)) =
      ss_spawned s @ (if ss_barrier s then [] else leading_reads env bs)"
proof (induction bs arbitrary: s i)
  case Nil
  then show ?case by simp
next
  case (Cons b bs)
  let ?s = "advance env cfg s (synthesize_block (v_serialize env) i b)"
  have "case b of ToolUse _ _ v \<Rightarrow> v_parse env (v_serialize env v) = Some v \<and> trim (v_serialize env v) \<noteq> [] | _ \<Rightarrow> True"
    using Cons.prems(2) by (cases b) (simp_all add: tool_inputs_def)
  from advance_block [OF on Cons.prems(1) this, of i]
  have step: "ss_partials ?s = []"
    "ss_barrier ?s = (ss_barrier s \<or> (case b of ToolUse _ n _ \<Rightarrow> \<not> is_streamable_tool env n | _ \<Rightarrow> False))"
    "ss_spawned ?s = ss_spawned s @ (case b of ToolUse u n v \<Rightarrow>
       if ss_barrier s \<or> \<not> is_streamable_tool env n then [] else [(u, n, v)] | _ \<Rightarrow> [])"
    by (simp_all add: early_def)
  have rest: "\<forall>v \<in> set (tool_inputs bs). v_parse env (v_serialize env v) = Some v \<and> trim (v_serialize env v) \<noteq> []"
    using Cons.prems(2) by (auto simp: tool_inputs_def)
  show ?case
    using Cons.IH [OF step(1) rest, of "i + 1"] step(2,3)
    unfolding synthesize_blocks.simps advance_append by (cases b) auto
qed

text \<open>Tools run early exactly when that cannot be told from running them later.  Of an assistant
  message that arrives as a stream, the calls run before it is complete are the streamable ones
  (registered, read-only, free of approval) in front of the first call that is not, in order, with the
  arguments of the message; with early execution off there are none.  No call behind a write, an
  approval or an unknown tool is run early.\<close>

theorem early_runs_are_leading_reads:
  assumes "\<forall>v \<in> set (tool_inputs (m_content (resp_message resp))).
    v_parse env (v_serialize env v) = Some v \<and> trim (v_serialize env v) \<noteq> []"
  shows "ss_spawned (snd (consume env cfg (new_stream_state w) (map Inr (synthesize_events (v_serialize env) resp))))
    = (if stream_tool_execution cfg then leading_reads env (m_content (resp_message resp)) else [])"
proof -
  let ?bs = "synthesize_blocks (v_serialize env) 0 (m_content (resp_message resp))"
  let ?s0 = "advance env cfg (new_stream_state w) [MessageStart (resp_id resp) None]"
  let ?s1 = "advance env cfg ?s0 ?bs"
  have events: "synthesize_events (v_serialize env) resp =
      [MessageStart (resp_id resp) None] @ ?bs @ [MessageDelta (Some (resp_stop resp)) (Some (resp_usage resp)), MessageStop]"
    by (simp add: synthesize_events_def)
  have run: "snd (consume env cfg (new_stream_state w) (map Inr (synthesize_events (v_serialize env) resp)))
      = advance env cfg ?s1 [MessageDelta (Some (resp_stop resp)) (Some (resp_usage resp)), MessageStop]"
    by (simp only: events advance_def [symmetric] advance_append)
  have last: "ss_spawned (advance env cfg s [MessageDelta a b, MessageStop]) = ss_spawned s" for s a b
    by (simp add: advance_Cons process_event_def Let_def)
  have s0: "ss_partials ?s0 = []" "ss_barrier ?s0 = False" "ss_spawned ?s0 = []"
    by (simp_all add: advance_Cons process_event_def Let_def new_stream_state_def)
  show ?thesis
  proof (cases "stream_tool_execution cfg")
    case True
    from advance_blocks [OF True s0(1) assms, of 0] s0 True show ?thesis by (simp add: run last)
  next
    case False
    then have "ss_spawned (process_event env cfg s ev) = ss_spawned s" for s ev
      by (simp add: process_event_def Let_def)
    then have "ss_spawned (foldl (process_event env cfg) s evs) = ss_spawned s" for s evs
      by (induction evs arbitrary: s) auto
    then have off: "ss_spawned (advance env cfg s evs) = ss_spawned s" for s evs
      by (induction evs arbitrary: s) (auto simp: advance_Cons)
    have "ss_spawned (new_stream_state w) = []" by (simp add: new_stream_state_def)
    with False off show ?thesis by (simp add: advance_def [symmetric])
  qed
qed


definition quiet_env :: "(llm_error + stream_event) list \<Rightarrow> message_response \<Rightarrow> unit turn_env" where
  "quiet_env items resp = tool_env.extend sample_env
     (turn_env.fields (\<lambda>_ _. (Inr items, ())) (\<lambda>_ _. (Inr resp, ()))
        (\<lambda>s. if s = ''null'' then Some JNull else None) (\<lambda>_. ''bad'') (\<lambda>_. ''null'') (\<lambda>_. ''x'')
        (\<lambda>_. (7, ())) (\<lambda>_ n. (n, 0)))"

definition assistant_response :: "content_block list \<Rightarrow> stop_reason \<Rightarrow> message_response" where
  "assistant_response content stop = \<lparr>resp_id = ''r'', resp_message = \<lparr>m_id = 1, m_role = Assistant,
     m_content = content, m_created_at = 0\<rparr>, resp_usage = usage_default, resp_stop = stop\<rparr>"

lemma quiet_env_simps [simp]:
  "v_stream (quiet_env items resp) r w = (Inr items, ())"
  "v_message (quiet_env items resp) r w = (Inr resp, ())"
  "v_parse (quiet_env items resp) s = (if s = ''null'' then Some JNull else None)"
  "v_parse_error (quiet_env items resp) s = ''bad''"
  "v_serialize (quiet_env items resp) = (\<lambda>_. ''null'')"
  "v_request_ids (quiet_env items resp) w n = (n, 0)"
  "v_uuid (quiet_env items resp) w = (7, ())"
  "e_registry (quiet_env items resp) = e_registry sample_env"
  by (simp_all add: quiet_env_def tool_env.defs turn_env.defs sample_env_def)

theorem early_runs_are_leading_reads_witness:
  "ss_spawned (snd (consume (quiet_env [] (assistant_response [] EndTurn)) default_config (new_stream_state ())
      (map Inr (synthesize_events (\<lambda>_. ''null'')
        (assistant_response [ToolUse ''a'' ''Read'' JNull, ToolUse ''b'' ''Nope'' JNull, ToolUse ''c'' ''Read'' JNull] ToolUseStop)))))
   = leading_reads (quiet_env [] (assistant_response [] EndTurn))
       [ToolUse ''a'' ''Read'' JNull, ToolUse ''b'' ''Nope'' JNull, ToolUse ''c'' ''Read'' JNull]"
proof -
  let ?r = "assistant_response [ToolUse ''a'' ''Read'' JNull, ToolUse ''b'' ''Nope'' JNull, ToolUse ''c'' ''Read'' JNull] ToolUseStop"
  let ?env = "quiet_env [] (assistant_response [] EndTurn)"
  have "trim ''null'' \<noteq> []" by code_simp
  then have "\<forall>v \<in> set (tool_inputs (m_content (resp_message ?r))).
      v_parse ?env (v_serialize ?env v) = Some v \<and> trim (v_serialize ?env v) \<noteq> []"
    by (simp add: assistant_response_def tool_inputs_def)
  from early_runs_are_leading_reads [OF this, of default_config "()"]
  show ?thesis by (simp add: assistant_response_def default_config_def default_for_def)
qed

subsection \<open>The fallback to a plain request\<close>

text \<open>The fallback for malformed tool arguments bypasses the fence.  When the arguments of a streamed
  call do not parse, the request is repeated without streaming and that answer is used as it is: a
  protected block in its text is not scrubbed but reaches the transcript, and the listener, which has
  heard the text of the discarded stream, is not told that the attempt was discarded.\<close>

theorem fallback_bypasses_fence:
  "(let events = [MessageStart ''m'' None, BlockStart 0 StartText, BlockDelta 0 (DeltaText ''draft''), BlockStop 0,
                  BlockStart 1 (StartToolUse ''t'' ''Write''), BlockDelta 1 (DeltaToolJson ''{''), BlockStop 1, MessageStop];
        answer = assistant_response [Text ''<memory-context>secret</memory-context>''] EndTurn;
        result = call_llm_and_prerun (quiet_env (map Inr events) answer) default_config [] [] [] None ()
    in map_sum id fst (fst result) = Inr answer \<and> fst (snd result) = [(events, 0)]
       \<and> sanitize_context (collect_text (m_content (resp_message answer))) = [])"
proof -
  have push: "push new_scrubber ''draft'' = (''draft'', new_scrubber)" by code_simp
  have flush: "fst (flush new_scrubber) = []" by code_simp
  have clean: "sanitize_context ''<memory-context>secret</memory-context>'' = []" by code_simp
  have args: "trim ''{'' \<noteq> []" by code_simp
  show ?thesis
    by (simp add: call_llm_and_prerun_def stream_attempts.simps call_llm_and_prerun_once_def push flush clean args
        scrub_delta_def new_stream_state_def process_event_def finish_tool_block_def is_streamable_tool_def
        btree_update_def new_accumulator_def finalize_def assistant_response_def collect_text_def
        sample_env_def default_config_def default_for_def Let_def)
qed

end
