(* ===== verification/Thread_History.thy ===== *)
theory Thread_History
  imports Config History Pairing Store Summary Llm
begin

text \<open>
  The history a turn is built from: \<open>load_history\<close>, \<open>maybe_compact_thread\<close>, \<open>build_probe_history\<close>,
  \<open>probe_content_filter\<close> and \<open>localize_and_redact_poison\<close> of \<open>crates/snaca-engine/src/engine.rs\<close> on the
  store of \<open>Store\<close>.  The provider is a parameter: \<open>ask\<close> is the outcome of a probe request for a
  history, \<open>summarise\<close> the answer to a summary request for a transcript.  The advisory hook of the
  memory provider has no effect on the thread and is left out.
\<close>

subsection \<open>Loading\<close>

definition summary_preamble :: "compaction \<Rightarrow> string" where
  "summary_preamble c =
     ''[SNACA SUMMARY of earlier conversation '' @ em_dash @ '' '' @ show_nat (c_msg_count c)
       @ '' messages compacted]'' @ [newline, newline] @ c_summary c"

definition bound_and_collapse :: "(json \<Rightarrow> string option) \<Rightarrow> engine_config \<Rightarrow> message list \<Rightarrow> message list" where
  "bound_and_collapse ser cfg msgs =
     collapse_old_tool_results
       (enforce_history_byte_cap ser msgs (history_max_bytes cfg) (compact_keep_recent cfg)
          (max_tool_result_bytes cfg))
       (compact_keep_recent cfg) (collapse_tool_results_threshold cfg)"

definition load_history ::
  "(json \<Rightarrow> string option) \<Rightarrow> engine_config \<Rightarrow> message_id \<Rightarrow> database \<Rightarrow> thread_id \<Rightarrow> message list" where
  "load_history ser cfg fresh db thread =
     (case get_thread_summary db thread of
        Some c \<Rightarrow>
          (let head = (case c_from c of
                         Some from_id \<Rightarrow>
                           map message_from_persisted (messages_before db thread from_id (max (protect_first_n cfg) 1))
                       | None \<Rightarrow> []);
               live = messages_after db thread (c_until c) (conversation_history_limit cfg);
               preamble = \<lparr>m_id = fresh, m_role = User, m_content = [Text (summary_preamble c)],
                           m_created_at = c_compacted_at c\<rparr>
           in head @ [preamble] @ bound_and_collapse ser cfg (map message_from_persisted live))
      | None \<Rightarrow>
          bound_and_collapse ser cfg
            (trim_to_conversation_window
               (map message_from_persisted (recent_messages db thread (pool_limit cfg)))
               (conversation_history_limit cfg)))"

subsection \<open>Compaction\<close>

definition SUMMARY_BLOCK_MAX_BYTES :: nat where
  "SUMMARY_BLOCK_MAX_BYTES = 16 * 1024"

definition SUMMARY_TOTAL_MAX_BYTES :: nat where
  "SUMMARY_TOTAL_MAX_BYTES = 256 * 1024"

definition maybe_compact_thread ::
  "(json \<Rightarrow> string option) \<Rightarrow> (string \<Rightarrow> llm_error + content_block list) \<Rightarrow> engine_config \<Rightarrow> database
     \<Rightarrow> timestamp \<Rightarrow> thread_id \<Rightarrow> nat \<Rightarrow> nat option \<Rightarrow> llm_error + database" where
  "maybe_compact_thread ser summarise cfg db now thread last_input_tokens keep_recent_override =
     (let protect_last = max (case keep_recent_override of Some k \<Rightarrow> k | None \<Rightarrow> compact_keep_recent cfg) 2;
          protect_first = protect_first_n cfg;
          rows = recent_messages db thread (pool_limit cfg)
      in if length rows < protect_first + protect_last + 2 then Inr db
         else
           (let compress_start = protect_first;
                compress_end = length rows - protect_last;
                from_id = r_id (rows ! compress_start);
                cutoff = r_id (rows ! (compress_end - 1));
                body = take (compress_end - compress_start) (drop compress_start rows);
                body_collapsed = collapse_old_tool_results (map message_from_persisted body) 0
                                   (collapse_tool_results_threshold cfg);
                body_text = render_for_summary ser body_collapsed SUMMARY_BLOCK_MAX_BYTES SUMMARY_TOTAL_MAX_BYTES
            in case summarise body_text of
                 Inl e \<Rightarrow> Inl e
               | Inr content \<Rightarrow>
                   (case sanitize_thread_summary (collect_text content) of
                      None \<Rightarrow> Inr db
                    | Some summary \<Rightarrow>
                        Inr (set_thread_summary db now thread summary cutoff
                               (if protect_first = 0 then None else Some from_id)
                               (length body) last_input_tokens))))"

subsection \<open>Locating a message the content filter rejects\<close>

datatype probe_outcome = Passed | Filtered

datatype poison_location = Redacted "message_id list" | Unredactable

definition build_probe_history ::
  "(json \<Rightarrow> string option) \<Rightarrow> engine_config \<Rightarrow> message_row list \<Rightarrow> message_id set \<Rightarrow> message list" where
  "build_probe_history ser cfg rows redact_ids =
     (let msgs = map (\<lambda>r. \<lparr>m_id = r_id r, m_role = r_role r,
                           m_content = (if r_redacted_at r \<noteq> None \<or> r_id r \<in> redact_ids
                                        then redact_message_content (r_content r) else r_content r),
                           m_created_at = r_created_at r\<rparr>) rows
      in bound_and_collapse ser cfg (trim_to_conversation_window msgs (conversation_history_limit cfg)))"

definition probe_content_filter ::
  "(json \<Rightarrow> string option) \<Rightarrow> (nat \<Rightarrow> message_id \<times> timestamp) \<Rightarrow> (message list \<Rightarrow> llm_error + unit)
     \<Rightarrow> engine_config \<Rightarrow> message_row list \<Rightarrow> message_id set \<Rightarrow> llm_error + probe_outcome" where
  "probe_content_filter ser fresh ask cfg rows redact_ids =
     (case ask (ensure_tool_result_pairing fresh (build_probe_history ser cfg rows redact_ids)) of
        Inr _ \<Rightarrow> Inr Passed
      | Inl (ContentFiltered _ _) \<Rightarrow> Inr Filtered
      | Inl e \<Rightarrow> Inl e)"

text \<open>The binary search: the suspects left when it stops, \<open>probe\<close> being one probe request.\<close>

function search_poison ::
  "(message_id set \<Rightarrow> llm_error + probe_outcome) \<Rightarrow> nat \<Rightarrow> message_id set \<Rightarrow> message_id list
     \<Rightarrow> llm_error + message_id list" where
  "search_poison probe probes base suspects =
     (if 1 < length suspects \<and> probes < 24 then
        (let mid = length suspects div 2; left = take mid suspects; right = drop mid suspects
         in case probe (base \<union> set right) of
              Inl e \<Rightarrow> Inl e
            | Inr Passed \<Rightarrow> search_poison probe (probes + 1) base right
            | Inr Filtered \<Rightarrow>
                (case probe (base \<union> set left) of
                   Inl e \<Rightarrow> Inl e
                 | Inr Passed \<Rightarrow> search_poison probe (probes + 2) base left
                 | Inr Filtered \<Rightarrow> search_poison probe (probes + 2) (base \<union> set right) left))
      else Inr suspects)"
  by pat_completeness auto
termination
  by (relation "measure (\<lambda>(probe, probes, base, suspects). length suspects)") auto

declare search_poison.simps [simp del]

definition redaction_candidates ::
  "(json \<Rightarrow> string option) \<Rightarrow> engine_config \<Rightarrow> message_row list \<Rightarrow> message_id list" where
  "redaction_candidates ser cfg rows =
     (let in_window = m_id ` set (build_probe_history ser cfg rows {})
      in map r_id (filter (\<lambda>r. r_role r \<in> {Tool, Assistant} \<and> r_redacted_at r = None \<and> r_id r \<in> in_window) rows))"

definition localize_and_redact_poison ::
  "(json \<Rightarrow> string option) \<Rightarrow> (nat \<Rightarrow> message_id \<times> timestamp) \<Rightarrow> (message list \<Rightarrow> llm_error + unit)
     \<Rightarrow> engine_config \<Rightarrow> database \<Rightarrow> timestamp \<Rightarrow> thread_id \<Rightarrow> llm_error + (poison_location \<times> database)" where
  "localize_and_redact_poison ser fresh ask cfg db now thread =
     (let rows = recent_messages db thread (pool_limit cfg);
          candidates = redaction_candidates ser cfg rows;
          probe = probe_content_filter ser fresh ask cfg rows
      in if candidates = [] then Inr (Unredactable, db)
         else case probe (set candidates) of
                Inl e \<Rightarrow> Inl e
              | Inr Filtered \<Rightarrow> Inr (Unredactable, db)
              | Inr Passed \<Rightarrow>
                  (case search_poison probe 1 {} candidates of
                     Inl e \<Rightarrow> Inl e
                   | Inr suspects \<Rightarrow>
                       (case suspects of
                          [target] \<Rightarrow> Inr (Redacted [target], mark_message_redacted db now target)
                        | _ \<Rightarrow> Inr (Unredactable, db))))"

subsection \<open>The poison search\<close>

text \<open>A provider that rejects a history exactly when some row of \<open>P\<close> is in it unredacted.\<close>

definition rejects_rows ::
  "(message_id set \<Rightarrow> llm_error + probe_outcome) \<Rightarrow> message_id set \<Rightarrow> bool" where
  "rejects_rows probe P \<longleftrightarrow> (\<forall>S. probe S = Inr (if P \<subseteq> S then Passed else Filtered))"

text \<open>Neither half alone helping means poison in both: the right half is held redacted.  Each halving
  costs at most two probes.\<close>

lemma search_poison_isolates:
  assumes "rejects_rows probe P"
  shows "suspects \<noteq> [] \<Longrightarrow> length suspects \<le> 2 ^ k \<Longrightarrow> probes + 2 * k \<le> 25
    \<Longrightarrow> \<not> P \<subseteq> base \<Longrightarrow> P \<subseteq> base \<union> set suspects
    \<Longrightarrow> \<exists>t \<in> P. t \<in> set suspects \<and> search_poison probe probes base suspects = Inr [t]"
proof (induction k arbitrary: probes base suspects)
  case 0
  then obtain t where t: "suspects = [t]" by (cases suspects) auto
  with 0 have "t \<in> P" by auto
  with t show ?case by (simp add: search_poison.simps)
next
  case (Suc k)
  have probe: "probe S = Inr (if P \<subseteq> S then Passed else Filtered)" for S
    using assms by (simp add: rejects_rows_def)
  show ?case
  proof (cases "length suspects = 1")
    case True
    then obtain t where t: "suspects = [t]" by (cases suspects) auto
    with Suc have "t \<in> P" by auto
    with t show ?thesis by (simp add: search_poison.simps)
  next
    case False
    let ?mid = "length suspects div 2"
    let ?left = "take ?mid suspects" and ?right = "drop ?mid suspects"
    from False Suc.prems(1) have long: "1 < length suspects" by (cases suspects) auto
    have parts: "set suspects = set ?left \<union> set ?right"
      by (metis append_take_drop_id set_append)
    have ne: "?left \<noteq> []" "?right \<noteq> []" using long by auto
    have len: "length ?left \<le> 2 ^ k" "length ?right \<le> 2 ^ k" using Suc.prems(2) by auto
    have step: "search_poison probe probes base suspects =
        (if P \<subseteq> base \<union> set ?right then search_poison probe (probes + 1) base ?right
         else if P \<subseteq> base \<union> set ?left then search_poison probe (probes + 2) base ?left
         else search_poison probe (probes + 2) (base \<union> set ?right) ?left)"
      using long Suc.prems(3) by (subst search_poison.simps) (simp add: probe Let_def)
    consider "P \<subseteq> base \<union> set ?right" | "\<not> P \<subseteq> base \<union> set ?right" "P \<subseteq> base \<union> set ?left"
      | "\<not> P \<subseteq> base \<union> set ?right" "\<not> P \<subseteq> base \<union> set ?left" by blast
    then show ?thesis
    proof cases
      case 1
      with Suc.IH [of ?right "probes + 1" base] ne len Suc.prems(3,4) step parts show ?thesis by auto
    next
      case 2
      with Suc.IH [of ?left "probes + 2" base] ne len Suc.prems(3,4) step parts show ?thesis by auto
    next
      case 3
      have "P \<subseteq> base \<union> set ?right \<union> set ?left" using Suc.prems(5) parts by auto
      with 3 Suc.IH [of ?left "probes + 2" "base \<union> set ?right"] ne len Suc.prems(3) step parts
      show ?thesis by auto
    qed
  qed
qed

text \<open>C34: One round of recovery from the content filter.  If the provider rejects exactly the histories
  that contain one of the rows \<open>P\<close> unredacted, the search, within its cap of 24 probes for every
  possible window, marks one row of \<open>P\<close> and nothing else; and when a rejected row is not among the
  tool and assistant rows in the window, nothing is changed.\<close>

theorem poison_row_localized:
  assumes "rejects_rows (probe_content_filter ser fresh ask cfg (recent_messages db thread (pool_limit cfg))) P"
    and "P \<noteq> {}"
    and "C = redaction_candidates ser cfg (recent_messages db thread (pool_limit cfg))"
  shows "if P \<subseteq> set C
    then \<exists>t \<in> P. localize_and_redact_poison ser fresh ask cfg db now thread
           = Inr (Redacted [t], mark_message_redacted db now t)
    else localize_and_redact_poison ser fresh ask cfg db now thread = Inr (Unredactable, db)"
proof -
  let ?rows = "recent_messages db thread (pool_limit cfg)"
  let ?probe = "probe_content_filter ser fresh ask cfg ?rows"
  have probe: "?probe S = Inr (if P \<subseteq> S then Passed else Filtered)" for S
    using assms(1) by (simp add: rejects_rows_def)
  show ?thesis
  proof (cases "P \<subseteq> set C")
    case False
    then show ?thesis
      by (simp add: localize_and_redact_poison_def Let_def assms(3) [symmetric] probe)
  next
    case True
    with assms(2) have ne: "C \<noteq> []" by auto
    have "length C \<le> length ?rows" by (simp add: assms(3) redaction_candidates_def Let_def)
    also have "\<dots> \<le> pool_limit cfg" by (simp add: recent_messages_def limit_last_def)
    also have "\<dots> \<le> 2 ^ 11" using pool_limit_le [of cfg] by simp
    finally obtain t where "t \<in> P" "search_poison ?probe 1 {} C = Inr [t]"
      using search_poison_isolates [OF assms(1) ne, of 11 1 "{}"] assms(2) True by auto
    with True ne show ?thesis
      by (auto simp: localize_and_redact_poison_def Let_def assms(3) [symmetric] probe)
  qed
qed

subsection \<open>Loaded histories stay within bounds\<close>

lemma length_show_nat_div: "length (show_nat n) \<le> n div 10 + 1"
proof (induction n rule: less_induct)
  case (less n)
  show ?case
  proof (cases "n < 10")
    case False
    then have "length (show_nat (n div 10)) \<le> n div 10 div 10 + 1" by (intro less.IH) auto
    with False show ?thesis by (simp add: show_nat.simps [of n])
  qed (simp add: show_nat.simps [of n])
qed

lemma elided_marker_shrinks:
  assumes "n \<in> set COLLAPSIBLE_TOOL_NAMES" "128 \<le> tot"
  shows "length (elided_marker n tot) \<le> tot"
proof -
  have "length n \<le> 10" using assms(1) by (auto simp: COLLAPSIBLE_TOOL_NAMES_def)
  then have "length (elided_marker n tot) \<le> 10 + 78 + length (show_nat tot)"
    by (simp add: elided_marker_def)
  with length_show_nat_div [of tot] assms(2) show ?thesis by linarith
qed

lemma collapse_block_size:
  assumes "128 \<le> th"
  shows "block_byte_size ser (collapse_block_if_old_read b names th) \<le> block_byte_size ser b"
proof (cases "collapse_block_if_old_read b names th = b")
  case False
  then show ?thesis
  proof (rule collapse_block_changed)
    fix tid content n
    assume "b = ToolResult tid content False" "n \<in> set COLLAPSIBLE_TOOL_NAMES" "th \<le> tool_result_text_len content"
      "collapse_block_if_old_read b names th = ToolResult tid [Text (elided_marker n (tool_result_text_len content))] False"
    then show ?thesis
      using elided_marker_shrinks [of n "tool_result_text_len content"] assms
      by simp
  qed
qed simp

lemma collapse_size:
  assumes "th = 0 \<or> 128 \<le> th"
  shows "messages_byte_size ser (collapse_old_tool_results ms keep th) \<le> messages_byte_size ser ms"
proof -
  have m: "128 \<le> th \<Longrightarrow> message_byte_size ser (collapse_message names th x) \<le> message_byte_size ser x" for names x
    by (auto simp: collapse_message_def message_byte_size_def comp_def intro!: sum_list_mono collapse_block_size)
  have "128 \<le> th \<Longrightarrow> messages_byte_size ser (map (collapse_message names th) xs) \<le> messages_byte_size ser xs" for names xs
    by (auto simp: messages_byte_size_def comp_def intro!: sum_list_mono m)
  then have "128 \<le> th \<Longrightarrow> messages_byte_size ser (map (collapse_message names th) (take c ms) @ drop c ms)
      \<le> messages_byte_size ser (take c ms @ drop c ms)" for names c
    unfolding messages_byte_size_append by (intro add_right_mono) blast
  then show ?thesis
    using assms by (auto simp: collapse_old_tool_results_def Let_def)
qed

text \<open>What a turn loads is bounded.  Without a summary on file, and with the default-style limits,
  the loaded history is within the byte cap unless it is a single message, holds at most the configured
  number of conversational messages, and does not begin with a tool message.\<close>

theorem loaded_history_bounded:
  assumes "get_thread_summary db thread = None"
    and "history_max_bytes cfg \<noteq> 0" "conversation_history_limit cfg \<noteq> 0"
    and "collapse_tool_results_threshold cfg = 0 \<or> 128 \<le> collapse_tool_results_threshold cfg"
    and "h = load_history ser cfg fresh db thread"
  shows "(messages_byte_size ser h \<le> history_max_bytes cfg \<or> length h \<le> 1)
    \<and> conv_count h \<le> conversation_history_limit cfg
    \<and> (h \<noteq> [] \<longrightarrow> m_role (hd h) \<noteq> Tool)"
proof -
  define w where "w = trim_to_conversation_window
    (map message_from_persisted (recent_messages db thread (pool_limit cfg))) (conversation_history_limit cfg)"
  define e where "e = enforce_history_byte_cap ser w (history_max_bytes cfg) (compact_keep_recent cfg) (max_tool_result_bytes cfg)"
  have h: "h = collapse_old_tool_results e (compact_keep_recent cfg) (collapse_tool_results_threshold cfg)"
    using assms(1,5) by (simp add: load_history_def bound_and_collapse_def w_def e_def)
  have roles: "map m_role xs = map m_role ys" if "map wire xs = map wire ys" for xs ys
  proof -
    have "map m_role zs = map (\<lambda>w. fst (snd w)) (map wire zs)" for zs by (simp add: wire_def)
    with that show ?thesis by metis
  qed
  have hr: "map m_role h = map m_role e" unfolding h by (rule roles, rule collapse_wire)
  have conv: "conv_count xs = length (filter (\<lambda>r. r = User \<or> r = Assistant) (map m_role xs))" for xs
    by (induction xs) (auto simp: conversational_def)
  have "suffix (map m_role e) (map m_role w)"
  proof -
    obtain pre where pre: "map wire w = pre @ map wire e"
      using enforce_wire_suffix [of ser w "history_max_bytes cfg" "compact_keep_recent cfg" "max_tool_result_bytes cfg"]
      unfolding e_def by (auto simp: suffix_def)
    then have "map wire (drop (length pre) w) = map wire e" by (simp add: drop_map [symmetric])
    then have "map m_role (drop (length pre) w) = map m_role e" by (rule roles)
    then show ?thesis by (metis drop_map suffix_drop)
  qed
  then obtain zs where zs: "map m_role w = zs @ map m_role e" by (auto simp: suffix_def)
  have "conv_count e \<le> conv_count w" unfolding conv zs by simp
  moreover have "conv_count w \<le> conversation_history_limit cfg"
    using trim_conv_count [OF assms(3)] by (simp add: w_def)
  moreover have "conv_count h = conv_count e" unfolding conv hr ..
  moreover have "messages_byte_size ser h \<le> messages_byte_size ser e" "length h = length e"
    using collapse_size [OF assms(4)] by (simp_all add: h)
  moreover have "messages_byte_size ser e \<le> history_max_bytes cfg \<or> length e \<le> 1"
    unfolding e_def by (rule enforce_bound [OF assms(2)])
  moreover have "m_role (hd h) \<noteq> Tool" if "h \<noteq> []"
  proof -
    from that hr obtain m rest where m: "e = m # rest" "m_role (hd h) = m_role m"
      by (cases h; cases e) auto
    with enforce_head [OF assms(2)] show ?thesis unfolding e_def by metis
  qed
  ultimately show ?thesis by linarith
qed

definition history_row :: "message_id \<Rightarrow> role \<Rightarrow> string \<Rightarrow> message_row" where
  "history_row i rl t = \<lparr>r_id = i, r_thread_id = ''t'', r_session_id = 0, r_role = rl, r_content = [Text t],
     r_created_at = int i, r_redacted_at = None\<rparr>"

definition thread_db :: "message_row list \<Rightarrow> database" where
  "thread_db rows = empty_db\<lparr>threads := [\<lparr>t_id = ''t'', t_tenant = ''a'', t_project = ''p'', t_created_at = 0\<rparr>],
     messages := rows\<rparr>"

theorem loaded_history_bounded_witness:
  "conv_count (load_history (\<lambda>_. None) default_config 9 (thread_db [history_row 1 User ''hi'']) ''t'') \<le> 30"
  using loaded_history_bounded [of "thread_db [history_row 1 User ''hi'']" "''t''" default_config
      "load_history (\<lambda>_. None) default_config 9 (thread_db [history_row 1 User ''hi'']) ''t''" "\<lambda>_. None" 9]
  by (simp add: thread_db_def get_thread_summary_def empty_db_def default_config_def default_for_def find_row_def)

theorem poison_row_localized_witness:
  "localize_and_redact_poison (\<lambda>_. None) (\<lambda>n. (n, 0))
     (\<lambda>h. if list_ex (\<lambda>m. m_content m = [Text ''poison'']) h then Inl (ContentFiltered [] []) else Inr ())
     default_config (thread_db [history_row 3 User ''hi'', history_row 4 Assistant ''poison'']) 7 ''t''
   = Inr (Redacted [4], mark_message_redacted
       (thread_db [history_row 3 User ''hi'', history_row 4 Assistant ''poison'']) 7 4)"
proof -
  let ?db = "thread_db [history_row 3 User ''hi'', history_row 4 Assistant ''poison'']"
  let ?ask = "\<lambda>h. if list_ex (\<lambda>m. m_content m = [Text ''poison'']) h then Inl (ContentFiltered [] []) else Inr ()"
  let ?rows = "recent_messages ?db ''t'' (pool_limit default_config)"
  let ?two = "[history_row 3 User ''hi'', history_row 4 Assistant ''poison'']"
  have pool: "pool_limit default_config = 120"
    by (simp add: pool_limit_def default_config_def default_for_def u32_max_def MAX_POOL_ROWS_def)
  have rows: "?rows = ?two"
    by (simp add: recent_messages_def thread_messages_def limit_last_def thread_db_def history_row_def pool)
  have build: "build_probe_history (\<lambda>_. None) default_config ?two S =
     [\<lparr>m_id = 3, m_role = User, m_content = (if 3 \<in> S then [Text REDACTED_PLACEHOLDER] else [Text ''hi'']), m_created_at = 3\<rparr>,
      \<lparr>m_id = 4, m_role = Assistant, m_content = (if 4 \<in> S then [Text REDACTED_PLACEHOLDER] else [Text ''poison'']), m_created_at = 4\<rparr>]" for S
    by (simp add: build_probe_history_def bound_and_collapse_def trim_to_conversation_window_def conv_count_def
        conversational_def enforce_history_byte_cap_def clamp_results_def clamp_message_def clear_old_results_def
        messages_byte_size_def message_byte_size_def block_byte_size_def REDACTED_PLACEHOLDER_def em_dash_def
        collapse_old_tool_results_def history_row_def redact_message_content_def default_config_def default_for_def Let_def)
  have "rejects_rows (probe_content_filter (\<lambda>_. None) (\<lambda>n. (n, 0)) ?ask default_config ?rows) {4}"
    unfolding rows rejects_rows_def
    by (simp add: probe_content_filter_def build ensure_tool_result_pairing_def assistant_tool_uses_def
        REDACTED_PLACEHOLDER_def)
  moreover have c: "redaction_candidates (\<lambda>_. None) default_config ?rows = [4]"
    unfolding rows by (simp add: redaction_candidates_def build) (simp add: history_row_def)
  ultimately show ?thesis
    using poison_row_localized [of "\<lambda>_. None" "\<lambda>n. (n, 0)" ?ask default_config ?db "''t''" "{4}" "[4]" 7] by simp
qed

subsection \<open>Compaction keeps every message in exactly one place\<close>

lemma filter_before_nth:
  "sorted_wrt (<) (map f xs) \<Longrightarrow> k < length xs \<Longrightarrow> filter (\<lambda>x. f x < (f (xs ! k) :: int)) xs = take k xs"
proof (induction xs arbitrary: k)
  case (Cons x xs)
  show ?case
  proof (cases k)
    case 0
    have "filter (\<lambda>y. f y < f x) xs = []" using Cons.prems(1) by (auto simp: filter_empty_conv)
    with 0 show ?thesis by simp
  next
    case (Suc j)
    with Cons.prems have "f x < f (xs ! j)" by simp
    with Cons.IH [of j] Cons.prems Suc show ?thesis by simp
  qed
qed simp

lemma filter_after_nth:
  "sorted_wrt (<) (map f xs) \<Longrightarrow> k < length xs \<Longrightarrow> filter (\<lambda>x. (f (xs ! k) :: int) < f x) xs = drop (Suc k) xs"
proof (induction xs arbitrary: k)
  case (Cons x xs)
  show ?case
  proof (cases k)
    case 0
    have "filter (\<lambda>y. f x < f y) xs = xs" using Cons.prems(1) by (auto simp: filter_id_conv)
    with 0 show ?thesis by simp
  next
    case (Suc j)
    with Cons.prems have "f x < f (xs ! j)" by simp
    then have "\<not> f (xs ! j) < f x" by simp
    with Cons.IH [of j] Cons.prems Suc show ?thesis by simp
  qed
qed simp

definition well_kept :: "database \<Rightarrow> thread_id \<Rightarrow> bool" where
  "well_kept db thread \<longleftrightarrow>
     distinct (map r_id (messages db)) \<and> sorted_wrt (<) (map r_created_at (thread_messages db thread))"

lemma message_time_nth:
  assumes "well_kept db thread" "k < length (thread_messages db thread)"
  shows "message_time db (r_id (thread_messages db thread ! k)) = Some (r_created_at (thread_messages db thread ! k))"
proof -
  let ?r = "thread_messages db thread ! k"
  have in_db: "?r \<in> set (messages db)"
    using nth_mem [OF assms(2)] by (auto simp: thread_messages_def)
  have "distinct (map r_id rs) \<Longrightarrow> r \<in> set rs \<Longrightarrow> find_row r_id (r_id r) rs = Some r" for r and rs :: "message_row list"
    by (induction rs) (auto simp: image_iff)
  with in_db assms(1) show ?thesis by (simp add: message_time_def well_kept_def)
qed

lemma messages_before_nth:
  assumes "well_kept db thread" "k < length (thread_messages db thread)"
  shows "messages_before db thread (r_id (thread_messages db thread ! k)) n = take n (take k (thread_messages db thread))"
  using assms message_time_nth [OF assms] filter_before_nth [of r_created_at "thread_messages db thread" k]
  by (simp add: messages_before_def well_kept_def)

lemma messages_after_nth:
  assumes "well_kept db thread" "k < length (thread_messages db thread)"
  shows "messages_after db thread (r_id (thread_messages db thread ! k)) n = take n (drop (Suc k) (thread_messages db thread))"
  using assms message_time_nth [OF assms] filter_after_nth [of r_created_at "thread_messages db thread" k]
  by (simp add: messages_after_def well_kept_def)

lemma set_thread_summary_messages [simp]:
  "messages (set_thread_summary db now t s u f n k) = messages db"
  "thread_messages (set_thread_summary db now t s u f n k) t' = thread_messages db t'"
  "messages_before (set_thread_summary db now t s u f n k) t' = messages_before db t'"
  "messages_after (set_thread_summary db now t s u f n k) t' = messages_after db t'"
  by (simp_all add: set_thread_summary_def thread_messages_def messages_before_def messages_after_def
      message_time_def fun_eq_iff)

lemma get_set_thread_summary:
  "get_thread_summary (set_thread_summary db now t s u f n k) t =
     Some \<lparr>c_thread = t, c_summary = s, c_until = u, c_from = f, c_msg_count = n, c_input_tokens = k,
           c_compacted_at = now\<rparr>"
  by (simp add: get_thread_summary_def set_thread_summary_def find_row_upsert)


definition tiny_config :: engine_config where
  "tiny_config = default_config\<lparr>conversation_history_limit := 2, protect_first_n := 1, compact_keep_recent := 2\<rparr>"

definition gist :: string where
  "gist = ''the user asked for a plan''"

definition compacted :: "database \<Rightarrow> database" where
  "compacted db = (case maybe_compact_thread (\<lambda>_. None) (\<lambda>_. Inr [Text gist]) tiny_config db 50 ''t'' 0 None of
     Inr db' \<Rightarrow> db' | Inl _ \<Rightarrow> db)"

definition numbered :: "nat list \<Rightarrow> database" where
  "numbered is = thread_db (map (\<lambda>i. history_row i User ''msg'') is)"

lemma gist_stored: "sanitize_thread_summary (collect_text [Text gist]) = Some gist"
  by code_simp

lemma tiny_limits:
  "pool_limit tiny_config = 8" "conversation_history_limit tiny_config = 2" "protect_first_n tiny_config = 1"
  "compact_keep_recent tiny_config = 2" "history_max_bytes tiny_config = 1500000"
  "collapse_tool_results_threshold tiny_config = 1024" "max_tool_result_bytes tiny_config = 204800"
  by (simp_all add: tiny_config_def default_config_def default_for_def pool_limit_def u32_max_def MAX_POOL_ROWS_def)

lemmas compact_simps = compacted_def maybe_compact_thread_def recent_messages_def thread_messages_def
  limit_last_def thread_db_def numbered_def history_row_def tiny_limits Let_def gist_stored

lemma small_numerals: "(3::nat) = Suc (Suc (Suc 0))" "(5::nat) = Suc (Suc (Suc (Suc (Suc 0))))"
  by simp_all

lemma compacted_6:
  "compacted (numbered [11, 12, 13, 14, 15, 16]) =
     set_thread_summary (numbered [11, 12, 13, 14, 15, 16]) 50 ''t'' gist 14 (Some 12) 3 0"
  by (simp add: compact_simps small_numerals)

lemma compacted_12:
  "compacted (numbered [11, 12, 13, 14, 15, 16, 17, 18, 19, 20, 21, 22]) =
     set_thread_summary (numbered [11, 12, 13, 14, 15, 16, 17, 18, 19, 20, 21, 22]) 50 ''t'' gist 20 (Some 16) 5 0"
  by (simp add: compact_simps small_numerals)

lemmas load_simps = load_history_def get_thread_summary_def set_thread_summary_def upsert_def
  messages_before_def messages_after_def message_time_def thread_messages_def find_row_def empty_db_def
  thread_db_def numbered_def history_row_def tiny_limits Let_def message_from_persisted_def
  bound_and_collapse_def enforce_history_byte_cap_def clamp_results_def clamp_message_def clear_old_results_def
  messages_byte_size_def message_byte_size_def block_byte_size_def collapse_old_tool_results_def


text \<open>Compacting a thread longer than the row pool loses the messages in front of the pool.  Of
  twelve messages the next load shows the first and the last two, and the summary was made from five:
  the second to the fifth are in neither.\<close>

theorem compaction_beyond_pool_loses_messages:
  "(let db = compacted (numbered [11, 12, 13, 14, 15, 16, 17, 18, 19, 20, 21, 22])
    in (map m_id (load_history (\<lambda>_. None) tiny_config 99 db ''t''),
        map_option (\<lambda>c. (c_from c, c_until c, c_msg_count c)) (get_thread_summary db ''t'')))
   = ([11, 99, 21, 22], Some (Some 16, 20, 5))"
  unfolding compacted_12 by (simp add: load_simps)


end
