(* ===== verification/Turn.thy ===== *)
theory Turn
  imports Llm_Call Thread_History
begin

text \<open>
  The turn loop of \<open>crates/snaca-engine/src/engine.rs\<close>: \<open>handle_turn_full\<close> with its recovery paths
  (shrinking compaction, feedback on malformed arguments, redaction of filtered content, escalation of
  the output cap, feedback on repeated failures) and \<open>ensure_thread\<close>.

  A turn is a machine whose steps are the stretches between two writes to the store, so that every
  point where a cancelled turn can stop is a state: \<open>Top\<close> (load and ask the provider), \<open>Answered\<close>
  (persist the answer), \<open>Calling\<close> (run its tool calls), \<open>Answering\<close> (persist their results),
  \<open>Feeding\<close> (persist the feedback on a repeated failure), \<open>Done\<close>.
  \<open>turn_step\<close> is one step, \<open>run_turn\<close> the loop.  The probes of one search for filtered content and the
  request for a summary are answered by the provider from one state of the world; \<open>v_idle\<close> is the world
  after them.  Logging is left out.
\<close>

subsection \<open>Errors and outcomes\<close>

datatype engine_error =
    StateError db_error
  | WorkspaceFailure string
  | LlmFailure llm_error
  | MaxIterationsExceeded nat
  | LoopGuardTrip string nat
  | Aborted
  | TurnTimeout nat

text \<open>What a turn leaves to background tasks: a compaction with the recorded token count, and the memory
  extraction of the thread.\<close>

datatype background = BackgroundCompaction nat | BackgroundExtraction

record turn_outcome =
  out_session :: nat
  out_text :: string
  out_iterations :: nat
  out_usage :: usage
  out_files :: "string list"
  out_background :: "background list"

record 'w loop_env = "'w turn_env" +
  v_idle :: "'w \<Rightarrow> 'w"
  v_drain :: "'w \<Rightarrow> string list \<times> 'w"
  v_order :: "pending list \<Rightarrow> pending list"
  v_to_vec :: "json \<Rightarrow> string option"
  v_digest :: "string \<Rightarrow> string"
  v_ensure_project :: "'w \<Rightarrow> string option \<times> 'w"
  v_today :: "'w \<Rightarrow> string \<times> string"
  v_memory :: "'w \<Rightarrow> string"
  v_files :: "'w \<Rightarrow> string"
  v_root :: string

subsection \<open>The state of a turn\<close>

record turn_ctx =
  x_thread :: thread_id
  x_session :: nat
  x_segments :: "system_segment list"
  x_tools :: "tool_schema list"

record 'w turn_state =
  ts_db :: database
  ts_world :: 'w
  ts_iterations :: nat
  ts_usage :: usage
  ts_guard :: "loop_guard option"
  ts_max_tokens :: "nat option"
  ts_escalations :: nat
  ts_too_long :: nat
  ts_malformed :: nat
  ts_filtered :: nat
  ts_failures :: "(string \<times> string) \<rightharpoonup> nat"
  ts_hints :: "thread_id \<rightharpoonup> loop_guard_hint"

datatype phase =
    Top
  | Answered message_response prerun_cache
  | Calling message_response message_id prerun_cache
  | Answering "content_block list" "tool_failure list"
  | Feeding string
  | Done "engine_error + turn_outcome"

type_synonym 'w config = "phase \<times> 'w turn_state"

definition new_turn :: "engine_config \<Rightarrow> database \<Rightarrow> 'w \<Rightarrow> (thread_id \<rightharpoonup> loop_guard_hint) \<Rightarrow> 'w turn_state" where
  "new_turn cfg db w hints = \<lparr>ts_db = db, ts_world = w, ts_iterations = 0, ts_usage = usage_default,
     ts_guard = map_option new_guard (loop_guard_max_repeats cfg), ts_max_tokens = None, ts_escalations = 0,
     ts_too_long = 0, ts_malformed = 0, ts_filtered = 0, ts_failures = Map.empty, ts_hints = hints\<rparr>"

definition fail :: "'w turn_state \<Rightarrow> engine_error \<Rightarrow> 'w config" where
  "fail st e = (Done (Inl e), st)"

definition finish ::
  "('w, 'x) loop_env_scheme \<Rightarrow> turn_ctx \<Rightarrow> 'w turn_state \<Rightarrow> string \<Rightarrow> background list \<Rightarrow> 'w config" where
  "finish env ctx st txt bg =
     (case v_drain env (ts_world st) of
        (files, w') \<Rightarrow>
          (Done (Inr \<lparr>out_session = x_session ctx, out_text = txt, out_iterations = ts_iterations st,
                      out_usage = ts_usage st, out_files = files, out_background = bg\<rparr>),
           st\<lparr>ts_world := w'\<rparr>))"

text \<open>\<open>append_message\<close> with a drawn id and the current time; \<open>k\<close> continues with the stored row.\<close>

definition persist ::
  "('w, 'x) loop_env_scheme \<Rightarrow> turn_ctx \<Rightarrow> 'w turn_state \<Rightarrow> role \<Rightarrow> content_block list
     \<Rightarrow> (message_row \<Rightarrow> 'w turn_state \<Rightarrow> 'w config) \<Rightarrow> 'w config" where
  "persist env ctx st rl content k =
     (case v_uuid env (ts_world st) of
        (i, w') \<Rightarrow>
          (case append_message (ts_db st) i (e_now env w') (x_thread ctx) (x_session ctx) rl content of
             Inl e \<Rightarrow> fail (st\<lparr>ts_world := w'\<rparr>) (StateError e)
           | Inr (row, db') \<Rightarrow> k row (st\<lparr>ts_db := db', ts_world := w'\<rparr>)))"

subsection \<open>Compaction and probes on behalf of a turn\<close>

definition SUMMARY_PROMPT :: string where
  "SUMMARY_PROMPT =
     ''You are a context summariser. Compress the provided conversation to a tight paragraph ''
     @ ''(under 250 words) capturing: open questions, user goals, decisions made, ''
     @ ''and any concrete facts the assistant must remember. ''
     @ ''Drop pleasantries. No bullet lists; one paragraph.''"

definition summary_request :: "engine_config \<Rightarrow> message_id \<times> timestamp \<Rightarrow> string \<Rightarrow> message_request" where
  "summary_request cfg fresh body =
     (with_system (new_request (cfg_model cfg)) SUMMARY_PROMPT)
       \<lparr>rq_messages := [\<lparr>m_id = fst fresh, m_role = User, m_content = [Text body], m_created_at = snd fresh\<rparr>],
        rq_tools := [], rq_max_tokens := Some (compact_summary_max_tokens cfg)\<rparr>"

definition compact ::
  "('w, 'x) loop_env_scheme \<Rightarrow> engine_config \<Rightarrow> turn_ctx \<Rightarrow> 'w turn_state \<Rightarrow> nat \<Rightarrow> nat option
     \<Rightarrow> llm_error + 'w turn_state" where
  "compact env cfg ctx st tokens keep =
     (let w = ts_world st;
          summarise = (\<lambda>body. map_sum id (\<lambda>r. m_content (resp_message r))
                         (fst (v_message env (summary_request cfg (v_request_ids env w 0) body) w)))
      in case maybe_compact_thread (\<lambda>v. Some (v_serialize env v)) summarise cfg (ts_db st) (e_now env w)
                (x_thread ctx) tokens keep of
           Inl e \<Rightarrow> Inl e
         | Inr db' \<Rightarrow> Inr (st\<lparr>ts_db := db', ts_world := v_idle env w\<rparr>))"

text \<open>A probe is a request with the output capped at one token, of which only the error matters.\<close>

definition probe_request :: "engine_config \<Rightarrow> turn_ctx \<Rightarrow> message list \<Rightarrow> message_request" where
  "probe_request cfg ctx history = turn_request cfg (x_segments ctx) history (x_tools ctx) (Some 1)"

definition localize ::
  "('w, 'x) loop_env_scheme \<Rightarrow> engine_config \<Rightarrow> turn_ctx \<Rightarrow> 'w turn_state
     \<Rightarrow> llm_error + (poison_location \<times> 'w turn_state)" where
  "localize env cfg ctx st =
     (let w = ts_world st;
          ask = (\<lambda>h. map_sum id (\<lambda>_. ()) (fst (v_message env (probe_request cfg ctx h) w)))
      in case localize_and_redact_poison (\<lambda>v. Some (v_serialize env v)) (v_request_ids env w) ask cfg (ts_db st)
                (e_now env w) (x_thread ctx) of
           Inl e \<Rightarrow> Inl e
         | Inr (loc, db') \<Rightarrow> Inr (loc, st\<lparr>ts_db := db', ts_world := v_idle env w\<rparr>))"

definition FILTER_NOTICE :: string where
  "FILTER_NOTICE = map (\<lambda>n. char_of (n::nat))
     [0xE6, 0x8A, 0xB1, 0xE6, 0xAD, 0x89, 0xEF, 0xBC, 0x8C, 0xE6, 0x9C, 0xAC, 0xE8, 0xBD, 0xAE,
      0xE5, 0xAF, 0xB9, 0xE8, 0xAF, 0x9D, 0xE4, 0xB8, 0xAD, 0xE5, 0x8C, 0x85, 0xE5, 0x90, 0xAB,
      0xE6, 0x97, 0xA0, 0xE6, 0xB3, 0x95, 0xE9, 0x80, 0x9A, 0xE8, 0xBF, 0x87, 0xE5, 0x86, 0x85,
      0xE5, 0xAE, 0xB9, 0xE5, 0xAE, 0x89, 0xE5, 0x85, 0xA8, 0xE5, 0xAE, 0xA1, 0xE6, 0xA0, 0xB8,
      0xE7, 0x9A, 0x84, 0xE5, 0x86, 0x85, 0xE5, 0xAE, 0xB9, 0xEF, 0xBC, 0x8C, 0xE6, 0x88, 0x91,
      0xE6, 0x9A, 0x82, 0xE6, 0x97, 0xB6, 0xE6, 0x97, 0xA0, 0xE6, 0xB3, 0x95, 0xE7, 0xBB, 0xA7,
      0xE7, 0xBB, 0xAD, 0xE5, 0xA4, 0x84, 0xE7, 0x90, 0x86, 0xE3, 0x80, 0x82, 0xE8, 0xAF, 0xB7,
      0xE6, 0x8D, 0xA2, 0xE4, 0xB8, 0x80, 0xE7, 0xA7, 0x8D, 0xE8, 0xA1, 0xA8, 0xE8, 0xBF, 0xB0,
      0xEF, 0xBC, 0x8C, 0xE6, 0x88, 0x96, 0xE5, 0xBC, 0x80, 0xE5, 0x90, 0xAF, 0xE4, 0xB8, 0x80,
      0xE4, 0xB8, 0xAA, 0xE6, 0x96, 0xB0, 0xE7, 0x9A, 0x84, 0xE8, 0xAF, 0x9D, 0xE9, 0xA2, 0x98,
      0xE3, 0x80, 0x82]"

subsection \<open>One step\<close>

text \<open>A failed request: what can be recovered from, in the order of the match arms.\<close>

definition recover ::
  "('w, 'x) loop_env_scheme \<Rightarrow> engine_config \<Rightarrow> turn_ctx \<Rightarrow> 'w turn_state \<Rightarrow> llm_error \<Rightarrow> 'w config" where
  "recover env cfg ctx st e =
     (if ts_too_long st < compact_max_retries cfg \<and> is_context_length_error e then
        (let attempt = ts_too_long st + 1;
             shrunk = max (compact_keep_recent cfg div 2 ^ min attempt 6) 2
         in case compact env cfg ctx (st\<lparr>ts_too_long := attempt\<rparr>) 0 (Some shrunk) of
              Inl e' \<Rightarrow> fail st (LlmFailure e')
            | Inr st' \<Rightarrow> (Top, st'))
      else case e of
        MalformedToolArgs tool n msg \<Rightarrow>
          if ts_malformed st < malformed_tool_args_max_retries cfg then
            persist env ctx (st\<lparr>ts_malformed := ts_malformed st + 1\<rparr>) User
              [Text (malformed_args_feedback tool msg)] (\<lambda>_ st'. (Top, st'))
          else fail st (LlmFailure e)
      | _ \<Rightarrow>
          if ts_filtered st < content_filter_max_retries cfg \<and> is_content_filter_error e then
            (case localize env cfg ctx (st\<lparr>ts_filtered := ts_filtered st + 1\<rparr>) of
               Inl e' \<Rightarrow> fail st (LlmFailure e')
             | Inr (Redacted ids, st') \<Rightarrow> (Top, st')
             | Inr (Unredactable, st') \<Rightarrow>
                 persist env ctx st' Assistant [Text FILTER_NOTICE]
                   (\<lambda>_ st''. finish env ctx st'' FILTER_NOTICE []))
          else fail st (LlmFailure e))"

definition request_max_tokens :: "engine_config \<Rightarrow> 'w turn_state \<Rightarrow> nat option" where
  "request_max_tokens cfg st = (case ts_max_tokens st of Some m \<Rightarrow> Some m | None \<Rightarrow> cfg_max_tokens cfg)"

definition ask_provider ::
  "('w, 'x) loop_env_scheme \<Rightarrow> engine_config \<Rightarrow> turn_ctx \<Rightarrow> 'w turn_state \<Rightarrow> 'w config" where
  "ask_provider env cfg ctx st =
     (if max_iterations cfg \<le> ts_iterations st then fail st (MaxIterationsExceeded (max_iterations cfg))
      else
        (let st = st\<lparr>ts_iterations := ts_iterations st + 1\<rparr>;
             history = load_history (\<lambda>v. Some (v_serialize env v)) cfg (fst (v_request_ids env (ts_world st) 0))
                         (ts_db st) (x_thread ctx)
         in case call_llm_and_prerun env cfg (x_segments ctx) history (x_tools ctx)
                   (request_max_tokens cfg st) (ts_world st) of
              (Inl e, _, w') \<Rightarrow> recover env cfg ctx (st\<lparr>ts_world := w'\<rparr>) e
            | (Inr (resp, cache), _, w') \<Rightarrow>
                (Answered resp cache, st\<lparr>ts_world := w', ts_usage := usage_add (ts_usage st) (resp_usage resp)\<rparr>)))"

text \<open>The larger cap to continue with after an answer cut off at the cap, if there is one.\<close>

definition escalated_cap :: "engine_config \<Rightarrow> 'w turn_state \<Rightarrow> message_response \<Rightarrow> nat option" where
  "escalated_cap cfg st resp =
     (if resp_stop resp = MaxTokens \<and> \<not> list_ex is_ToolUse (m_content (resp_message resp))
         \<and> ts_escalations st < max_output_token_escalation_attempts cfg
      then
        (let prev = (case request_max_tokens cfg st of
                       Some m \<Rightarrow> m
                     | None \<Rightarrow> (case cfg_max_tokens cfg of Some m \<Rightarrow> m | None \<Rightarrow> 4096));
             bumped = min (min (prev * 2) u32_max) (max_output_token_ceiling cfg)
         in if prev < bumped then Some bumped else None)
      else None)"

definition after_turn ::
  "('w, 'x) loop_env_scheme \<Rightarrow> engine_config \<Rightarrow> turn_ctx \<Rightarrow> 'w turn_state \<Rightarrow> message_response
     \<Rightarrow> 'w turn_state \<times> background list" where
  "after_turn env cfg ctx st resp =
     (case compact_after_input_tokens cfg of
        Some threshold \<Rightarrow>
          if threshold \<le> unat (input_tokens (resp_usage resp)) then
            (let last_tokens = unat (input_tokens (resp_usage resp)) mod 2 ^ 32
             in if compact_blocking cfg then
                  (case compact env cfg ctx st last_tokens None of
                     Inl _ \<Rightarrow> (st, [BackgroundExtraction])
                   | Inr st' \<Rightarrow> (st', [BackgroundExtraction]))
                else (st, [BackgroundCompaction last_tokens, BackgroundExtraction]))
          else (st, [BackgroundExtraction])
      | None \<Rightarrow> (st, [BackgroundExtraction]))"

definition take_answer ::
  "('w, 'x) loop_env_scheme \<Rightarrow> engine_config \<Rightarrow> turn_ctx \<Rightarrow> 'w turn_state \<Rightarrow> message_response
     \<Rightarrow> prerun_cache \<Rightarrow> 'w config" where
  "take_answer env cfg ctx st resp cache =
     (let content = m_content (resp_message resp)
      in if content = [] then finish env ctx st [] []
         else persist env ctx st Assistant content (\<lambda>row st.
           (case escalated_cap cfg st resp of
              Some cap \<Rightarrow> (Top, st\<lparr>ts_escalations := ts_escalations st + 1, ts_max_tokens := Some cap\<rparr>)
            | None \<Rightarrow>
                if is_terminal (resp_stop resp) then
                  (case after_turn env cfg ctx st resp of
                     (st', bg) \<Rightarrow> finish env ctx st' (collect_text content) bg)
                else (Calling resp (r_id row) cache, st))))"

definition run_calls ::
  "('w, 'x) loop_env_scheme \<Rightarrow> turn_ctx \<Rightarrow> 'w turn_state \<Rightarrow> message_response \<Rightarrow> message_id
     \<Rightarrow> prerun_cache \<Rightarrow> 'w config" where
  "run_calls env ctx st resp mid cache =
     (let content = m_content (resp_message resp)
      in case run_tool_calls (v_to_vec env) (v_digest env) env (v_order env) content mid
                (ts_guard st) cache (ts_db st, ts_world st) of
           (Inl (LoopGuardTripped tool n), guard', (db', w')) \<Rightarrow>
             fail (st\<lparr>ts_db := db', ts_world := w', ts_guard := guard',
                     ts_hints := (ts_hints st)(x_thread ctx \<mapsto>
                       \<lparr>h_tool = tool, h_input_snippet = loop_guard_input_snippet (v_serialize env) content tool,
                        h_count = n\<rparr>)\<rparr>) (LoopGuardTrip tool n)
         | (Inr (blocks, failures), guard', (db', w')) \<Rightarrow>
             (let st' = st\<lparr>ts_db := db', ts_world := w', ts_guard := guard'\<rparr>
              in if blocks = [] then finish env ctx st' (collect_text content) []
                 else (Answering blocks failures, st')))"

text \<open>The count of every failure up to the first repeated one, which is answered with feedback.\<close>

fun count_failures ::
  "(json \<Rightarrow> string) \<Rightarrow> (string \<times> string \<rightharpoonup> nat) \<Rightarrow> tool_failure list
     \<Rightarrow> string option \<times> (string \<times> string \<rightharpoonup> nat)" where
  "count_failures ser counts [] = (None, counts)"
| "count_failures ser counts (f # fs) =
     (let key = (f_tool f, f_signature f);
          n = (case counts key of Some c \<Rightarrow> c | None \<Rightarrow> 0) + 1;
          counts' = counts(key \<mapsto> n)
      in if 2 \<le> n then (Some (repeated_tool_failure_feedback ser (f_tool f) (f_input f) (f_error f) n), counts')
         else count_failures ser counts' fs)"

definition answer_calls ::
  "('w, 'x) loop_env_scheme \<Rightarrow> engine_config \<Rightarrow> turn_ctx \<Rightarrow> 'w turn_state \<Rightarrow> content_block list
     \<Rightarrow> tool_failure list \<Rightarrow> 'w config" where
  "answer_calls env cfg ctx st blocks failures =
     persist env ctx st Tool blocks (\<lambda>_ st.
       if repeated_tool_failure_feedback_on cfg then
         (case count_failures (v_serialize env) (ts_failures st) failures of
            (feedback, counts) \<Rightarrow>
              (let st' = st\<lparr>ts_failures := counts\<rparr>
               in case feedback of
                    Some t \<Rightarrow> (Feeding t, st')
                  | None \<Rightarrow> (Top, st')))
       else (Top, st))"

fun turn_step ::
  "('w, 'x) loop_env_scheme \<Rightarrow> engine_config \<Rightarrow> turn_ctx \<Rightarrow> 'w config \<Rightarrow> 'w config" where
  "turn_step env cfg ctx (Top, st) = ask_provider env cfg ctx st"
| "turn_step env cfg ctx (Answered resp cache, st) = take_answer env cfg ctx st resp cache"
| "turn_step env cfg ctx (Calling resp mid cache, st) = run_calls env ctx st resp mid cache"
| "turn_step env cfg ctx (Answering blocks failures, st) = answer_calls env cfg ctx st blocks failures"
| "turn_step env cfg ctx (Feeding t, st) = persist env ctx st User [Text t] (\<lambda>_ st'. (Top, st'))"
| "turn_step env cfg ctx (Done r, st) = (Done r, st)"

subsection \<open>The loop ends\<close>

fun phase_rank :: "phase \<Rightarrow> nat" where
  "phase_rank (Done _) = 0"
| "phase_rank Top = 1"
| "phase_rank (Feeding _) = 2"
| "phase_rank (Answering _ _) = 3"
| "phase_rank (Calling _ _ _) = 4"
| "phase_rank (Answered _ _) = 5"

definition turn_measure :: "engine_config \<Rightarrow> 'w config \<Rightarrow> nat" where
  "turn_measure cfg c =
     (if phase_rank (fst c) = 0 then 0
      else 5 * (max_iterations cfg - ts_iterations (snd c)) + phase_rank (fst c))"

text \<open>What a step can lead to: the phase after it and the iteration count.\<close>

definition leads :: "engine_config \<Rightarrow> nat \<Rightarrow> nat \<Rightarrow> 'w config \<Rightarrow> bool" where
  "leads cfg i r c \<longleftrightarrow> phase_rank (fst c) \<le> r \<and> ts_iterations (snd c) = i"

lemma leads_fail [simp]: "leads cfg (ts_iterations st) r (fail st e)"
  by (simp add: leads_def fail_def)

lemma leads_finish [simp]: "leads cfg (ts_iterations st) r (finish env ctx st t bg)"
  by (simp add: leads_def finish_def split: prod.splits)

lemma leads_persist:
  "(\<And>row st'. ts_iterations st' = ts_iterations st \<Longrightarrow> leads cfg (ts_iterations st) r (k row st'))
    \<Longrightarrow> leads cfg (ts_iterations st) r (persist env ctx st rl content k)"
  by (auto simp: persist_def leads_def fail_def split: prod.splits sum.splits)

lemma compact_keeps: "compact env cfg ctx st n keep = Inr st' \<Longrightarrow> \<exists>db w. st' = st\<lparr>ts_db := db, ts_world := w\<rparr>"
  by (auto simp: compact_def Let_def split: sum.splits)

lemma localize_keeps: "localize env cfg ctx st = Inr (l, st') \<Longrightarrow> \<exists>db w. st' = st\<lparr>ts_db := db, ts_world := w\<rparr>"
  by (auto simp: localize_def Let_def split: sum.splits)

lemma leads_Top [simp]: "ts_iterations st = i \<Longrightarrow> 1 \<le> r \<Longrightarrow> leads cfg i r (Top, st)"
  by (simp add: leads_def)

subsection \<open>What a step may do to the thread\<close>

text \<open>Rows up to their redaction mark, the one change a stored row may suffer.\<close>

definition unmarked :: "message_row list \<Rightarrow> message_row list" where
  "unmarked rows = map (\<lambda>r. r\<lparr>r_redacted_at := None\<rparr>) rows"

text \<open>How a row may follow the row before it in what a turn appends.\<close>

definition row_follows :: "turn_ctx \<Rightarrow> message_row option \<Rightarrow> message_row \<Rightarrow> bool" where
  "row_follows ctx prev r \<longleftrightarrow>
     r_thread_id r = x_thread ctx \<and> r_session_id r = x_session ctx
     \<and> (case r_role r of
          System \<Rightarrow> False
        | User \<Rightarrow> True
        | Assistant \<Rightarrow> r_content r \<noteq> []
        | Tool \<Rightarrow> (\<exists>p. prev = Some p \<and> r_role p = Assistant \<and> r_content r \<noteq> []
                     \<and> tool_result_ids (r_content r) = tool_use_ids (r_content p)))"

fun transcript :: "turn_ctx \<Rightarrow> message_row option \<Rightarrow> message_row list \<Rightarrow> bool" where
  "transcript ctx prev [] = True"
| "transcript ctx prev (r # rs) = (row_follows ctx prev r \<and> transcript ctx (Some r) rs)"

definition last_row :: "message_row option \<Rightarrow> message_row list \<Rightarrow> message_row option" where
  "last_row prev rs = (if rs = [] then prev else Some (last rs))"

lemma transcript_snoc: "transcript ctx prev (rs @ [r]) = (transcript ctx prev rs \<and> row_follows ctx (last_row prev rs) r)"
  by (induction rs arbitrary: prev) (auto simp: last_row_def)

lemma last_row_snoc [simp]: "last_row prev (rs @ [r]) = Some r"
  by (simp add: last_row_def)

text \<open>The store is the one at the start, up to redaction marks, with a transcript appended.\<close>

definition extends :: "turn_ctx \<Rightarrow> database \<Rightarrow> database \<Rightarrow> message_row list \<Rightarrow> bool" where
  "extends ctx db0 db new \<longleftrightarrow>
     unmarked (messages db) = unmarked (messages db0) @ new \<and> transcript ctx None new"

text \<open>What a phase knows about the last row.\<close>

fun phase_knows :: "phase \<Rightarrow> message_row option \<Rightarrow> bool" where
  "phase_knows (Calling resp mid cache) prev \<longleftrightarrow>
     (\<exists>p. prev = Some p \<and> r_role p = Assistant \<and> r_content p = m_content (resp_message resp))"
| "phase_knows (Answering blocks failures) prev \<longleftrightarrow>
     (\<exists>p. prev = Some p \<and> r_role p = Assistant \<and> blocks \<noteq> [] \<and> tool_result_ids blocks = tool_use_ids (r_content p))"
| "phase_knows _ prev \<longleftrightarrow> True"

definition budgets :: "engine_config \<Rightarrow> 'w turn_state \<Rightarrow> bool" where
  "budgets cfg st \<longleftrightarrow>
     ts_iterations st \<le> max_iterations cfg
     \<and> ts_escalations st \<le> max_output_token_escalation_attempts cfg
     \<and> ts_too_long st \<le> compact_max_retries cfg
     \<and> ts_malformed st \<le> malformed_tool_args_max_retries cfg
     \<and> ts_filtered st \<le> content_filter_max_retries cfg
     \<and> (\<forall>m. ts_max_tokens st = Some m \<longrightarrow> m \<le> max_output_token_ceiling cfg)"

definition sound :: "engine_config \<Rightarrow> turn_ctx \<Rightarrow> database \<Rightarrow> 'w config \<Rightarrow> bool" where
  "sound cfg ctx db0 c \<longleftrightarrow>
     budgets cfg (snd c) \<and> (\<exists>new. extends ctx db0 (ts_db (snd c)) new \<and> phase_knows (fst c) (last_row None new))"

lemma soundI:
  "budgets cfg st \<Longrightarrow> extends ctx db0 (ts_db st) new \<Longrightarrow> phase_knows p (last_row None new) \<Longrightarrow> sound cfg ctx db0 (p, st)"
  by (auto simp: sound_def)

lemma sound_fail: "budgets cfg st \<Longrightarrow> extends ctx db0 (ts_db st) new \<Longrightarrow> sound cfg ctx db0 (fail st e)"
  by (simp add: fail_def soundI)

lemma sound_finish: "budgets cfg st \<Longrightarrow> extends ctx db0 (ts_db st) new \<Longrightarrow> sound cfg ctx db0 (finish env ctx st t bg)"
  by (auto simp: finish_def soundI budgets_def split: prod.splits)

lemma unmarked_append [simp]: "unmarked (xs @ ys) = unmarked xs @ unmarked ys"
  by (simp add: unmarked_def)

lemma extends_append:
  assumes "extends ctx db0 db new" "append_message db i now (x_thread ctx) (x_session ctx) rl content = Inr (row, db')"
    and "\<And>r. r_thread_id r = x_thread ctx \<Longrightarrow> r_session_id r = x_session ctx \<Longrightarrow> r_role r = rl \<Longrightarrow> r_content r = content
          \<Longrightarrow> row_follows ctx (last_row None new) r"
  shows "extends ctx db0 db' (new @ [row]) \<and> r_role row = rl \<and> r_content row = content"
  using assms
  by (auto simp: append_message_def extends_def transcript_snoc unmarked_def Let_def split: if_splits)

text \<open>A write of a row that may follow, continued by anything that keeps the invariant.\<close>

lemma sound_persist:
  assumes "budgets cfg st" "extends ctx db0 (ts_db st) new"
    and "\<And>r. r_thread_id r = x_thread ctx \<Longrightarrow> r_session_id r = x_session ctx \<Longrightarrow> r_role r = rl \<Longrightarrow> r_content r = content
          \<Longrightarrow> row_follows ctx (last_row None new) r"
    and "\<And>row db w. extends ctx db0 db (new @ [row]) \<Longrightarrow> r_role row = rl \<Longrightarrow> r_content row = content
          \<Longrightarrow> budgets cfg (st\<lparr>ts_db := db, ts_world := w\<rparr>)
          \<Longrightarrow> sound cfg ctx db0 (k row (st\<lparr>ts_db := db, ts_world := w\<rparr>))"
  shows "sound cfg ctx db0 (persist env ctx st rl content k)"
proof -
  have b: "budgets cfg (st\<lparr>ts_db := db, ts_world := w\<rparr>)" "budgets cfg (st\<lparr>ts_world := w\<rparr>)" for db w
    using assms(1) by (simp_all add: budgets_def)
  show ?thesis
    using assms(2,4) b extends_append [OF assms(2) _ assms(3)]
    by (auto simp: persist_def split: prod.splits sum.splits intro: sound_fail)
qed

lemma compact_extends:
  assumes "compact env cfg ctx st n keep = Inr st'" "extends ctx db0 (ts_db st) new"
  shows "extends ctx db0 (ts_db st') new"
  using assms
  by (auto simp: compact_def maybe_compact_thread_def set_thread_summary_def extends_def Let_def
      split: sum.splits if_splits option.splits)

lemma unmarked_redact: "unmarked (messages (mark_message_redacted db now i)) = unmarked (messages db)"
  by (auto simp: unmarked_def mark_message_redacted_def update_where_def)

lemma localize_extends:
  assumes "localize env cfg ctx st = Inr (l, st')" "extends ctx db0 (ts_db st) new"
  shows "extends ctx db0 (ts_db st') new"
  using assms
  by (auto simp: localize_def localize_and_redact_poison_def extends_def unmarked_redact Let_def
      split: sum.splits if_splits probe_outcome.splits list.splits)

lemma tool_result_ids_of: "map result_id bs = map Some ids \<Longrightarrow> tool_result_ids bs = ids"
proof (induction bs arbitrary: ids)
  case (Cons b bs)
  then obtain i js where "ids = i # js" "result_id b = Some i" "map result_id bs = map Some js"
    by (cases ids) auto
  with Cons.IH [of js] show ?case by (cases b) auto
qed simp

lemma row_follows_user: "r_thread_id r = x_thread ctx \<Longrightarrow> r_session_id r = x_session ctx \<Longrightarrow> r_role r = User \<Longrightarrow> row_follows ctx prev r"
  by (simp add: row_follows_def)

lemma row_follows_assistant:
  "r_thread_id r = x_thread ctx \<Longrightarrow> r_session_id r = x_session ctx \<Longrightarrow> r_role r = Assistant \<Longrightarrow> r_content r \<noteq> []
    \<Longrightarrow> row_follows ctx prev r"
  by (simp add: row_follows_def)

lemma FILTER_NOTICE_neq: "FILTER_NOTICE \<noteq> []"
  by (simp add: FILTER_NOTICE_def)

lemma sound_recover:
  assumes "budgets cfg st" "extends ctx db0 (ts_db st) new"
  shows "sound cfg ctx db0 (recover env cfg ctx st e)"
proof -
  have long: "sound cfg ctx db0 (case compact env cfg ctx (st\<lparr>ts_too_long := ts_too_long st + 1\<rparr>) 0 k of
      Inl e' \<Rightarrow> fail st (LlmFailure e') | Inr st' \<Rightarrow> (Top, st'))"
    if "ts_too_long st < compact_max_retries cfg" for k
  proof (cases "compact env cfg ctx (st\<lparr>ts_too_long := ts_too_long st + 1\<rparr>) 0 k")
    case (Inl e')
    then show ?thesis using assms by (simp add: sound_fail)
  next
    case (Inr st')
    have "extends ctx db0 (ts_db st') new" using compact_extends [OF Inr] assms(2) by simp
    moreover have "budgets cfg st'" using compact_keeps [OF Inr] assms(1) that by (auto simp: budgets_def)
    ultimately show ?thesis using Inr by (auto intro: soundI)
  qed
  have malformed: "sound cfg ctx db0 (persist env ctx (st\<lparr>ts_malformed := ts_malformed st + 1\<rparr>) User c (\<lambda>_ st'. (Top, st')))"
    if "ts_malformed st < malformed_tool_args_max_retries cfg" for c
    using assms that
    by (intro sound_persist) (auto simp: budgets_def row_follows_user intro!: soundI)
  have filtered: "sound cfg ctx db0 (case localize env cfg ctx (st\<lparr>ts_filtered := ts_filtered st + 1\<rparr>) of
       Inl e' \<Rightarrow> fail st (LlmFailure e')
     | Inr (Redacted ids, st') \<Rightarrow> (Top, st')
     | Inr (Unredactable, st') \<Rightarrow> persist env ctx st' Assistant [Text FILTER_NOTICE] (\<lambda>_ st''. finish env ctx st'' FILTER_NOTICE []))"
    if "ts_filtered st < content_filter_max_retries cfg"
  proof (cases "localize env cfg ctx (st\<lparr>ts_filtered := ts_filtered st + 1\<rparr>)")
    case (Inl e')
    then show ?thesis using assms by (simp add: sound_fail)
  next
    case (Inr r)
    obtain l st' where r: "r = (l, st')" by (metis surj_pair)
    have x: "extends ctx db0 (ts_db st') new" using localize_extends [OF Inr [unfolded r]] assms(2) by simp
    have b: "budgets cfg st'" using localize_keeps [OF Inr [unfolded r]] assms(1) that by (auto simp: budgets_def)
    have "sound cfg ctx db0 (persist env ctx st' Assistant [Text FILTER_NOTICE] (\<lambda>_ st''. finish env ctx st'' FILTER_NOTICE []))"
      using b x by (intro sound_persist) (auto simp: row_follows_assistant intro: sound_finish)
    with Inr r x b show ?thesis by (cases l) (auto intro: soundI)
  qed
  from assms long malformed filtered show ?thesis
    by (cases e) (simp_all add: recover_def Let_def sound_fail)
qed

lemma sound_ask:
  assumes "budgets cfg st" "extends ctx db0 (ts_db st) new"
  shows "sound cfg ctx db0 (ask_provider env cfg ctx st)"
proof (cases "max_iterations cfg \<le> ts_iterations st")
  case True
  then show ?thesis using assms by (simp add: ask_provider_def sound_fail)
next
  case False
  let ?st = "st\<lparr>ts_iterations := ts_iterations st + 1\<rparr>"
  obtain r heard w where call: "call_llm_and_prerun env cfg (x_segments ctx)
      (load_history (\<lambda>v. Some (v_serialize env v)) cfg (fst (v_request_ids env (ts_world ?st) 0)) (ts_db ?st) (x_thread ctx))
      (x_tools ctx) (request_max_tokens cfg ?st) (ts_world ?st) = (r, heard, w)" by (metis surj_pair)
  have b: "budgets cfg (?st\<lparr>ts_world := w, ts_usage := u\<rparr>)" "budgets cfg (?st\<lparr>ts_world := w\<rparr>)" for u
    using assms(1) False by (simp_all add: budgets_def)
  have x: "extends ctx db0 (ts_db (?st\<lparr>ts_world := w\<rparr>)) new" using assms(2) by simp
  show ?thesis
  proof (cases r)
    case (Inl e)
    then show ?thesis using sound_recover [OF b(2) x, of env e] call False by (simp add: ask_provider_def Let_def)
  next
    case (Inr a)
    then show ?thesis using call False b(1) x by (auto simp: ask_provider_def Let_def split: prod.splits intro!: soundI)
  qed
qed

lemma escalated_cap_bound:
  "escalated_cap cfg st resp = Some m \<Longrightarrow>
    m \<le> max_output_token_ceiling cfg \<and> ts_escalations st < max_output_token_escalation_attempts cfg"
  by (auto simp: escalated_cap_def Let_def split: if_splits)

lemma after_turn_sound:
  assumes "after_turn env cfg ctx st resp = (st', bg)" "budgets cfg st" "extends ctx db0 (ts_db st) new"
  shows "budgets cfg st' \<and> extends ctx db0 (ts_db st') new"
  using assms
  by (auto simp: after_turn_def Let_def budgets_def split: option.splits if_splits sum.splits
      dest: compact_keeps compact_extends)

lemma sound_take:
  assumes "budgets cfg st" "extends ctx db0 (ts_db st) new"
  shows "sound cfg ctx db0 (take_answer env cfg ctx st resp cache)"
proof (cases "m_content (resp_message resp) = []")
  case True
  then show ?thesis using assms by (simp add: take_answer_def sound_finish)
next
  case False
  have step: "sound cfg ctx db0
      (case escalated_cap cfg st' resp of
         Some cap \<Rightarrow> (Top, st'\<lparr>ts_escalations := ts_escalations st' + 1, ts_max_tokens := Some cap\<rparr>)
       | None \<Rightarrow> if is_terminal (resp_stop resp)
           then (case after_turn env cfg ctx st' resp of (st'', bg) \<Rightarrow>
                   finish env ctx st'' (collect_text (m_content (resp_message resp))) bg)
           else (Calling resp (r_id row) cache, st'))"
    if "budgets cfg st'" "extends ctx db0 (ts_db st') (new @ [row])" "r_role row = Assistant"
      "r_content row = m_content (resp_message resp)" for st' row
  proof (cases "escalated_cap cfg st' resp")
    case (Some cap)
    with escalated_cap_bound [OF Some] that show ?thesis by (auto simp: budgets_def intro!: soundI)
  next
    case None
    then show ?thesis
      using that after_turn_sound [of env cfg ctx st' resp] by (auto intro!: soundI sound_finish split: prod.splits)
  qed
  show ?thesis
    using assms False step
    by (auto simp: take_answer_def Let_def row_follows_assistant intro!: sound_persist)
qed

lemma sound_calls:
  assumes "budgets cfg st" "extends ctx db0 (ts_db st) new" "phase_knows (Calling resp mid cache) (last_row None new)"
    and "permuting (v_order env)"
  shows "sound cfg ctx db0 (run_calls env ctx st resp mid cache)"
proof -
  let ?c = "m_content (resp_message resp)"
  obtain r guard' db' w' where run: "run_tool_calls (v_to_vec env) (v_digest env) env (v_order env) ?c mid
      (ts_guard st) cache (ts_db st, ts_world st) = (r, guard', (db', w'))" by (metis surj_pair)
  have "messages db' = messages (ts_db st)"
    using batch_keeps_conversation [OF run] by (simp add: conversation_def)
  then have x: "extends ctx db0 db' new" using assms(2) by (simp add: extends_def)
  have b: "budgets cfg (st\<lparr>ts_db := db', ts_world := w', ts_guard := guard'\<rparr>)"
    "budgets cfg (st\<lparr>ts_db := db', ts_world := w', ts_guard := guard', ts_hints := h\<rparr>)" for h
    using assms(1) by (simp_all add: budgets_def)
  show ?thesis
  proof (cases r)
    case (Inl e)
    with run x b(2) show ?thesis by (cases e) (auto simp: run_calls_def Let_def intro!: sound_fail)
  next
    case (Inr bf)
    obtain blocks failures where bf: "bf = (blocks, failures)" by (metis surj_pair)
    have ids: "tool_result_ids blocks = tool_use_ids ?c"
      using batch_answers [OF assms(4) run [unfolded Inr bf]] by (rule tool_result_ids_of)
    show ?thesis
      using run x b(1) Inr bf ids assms(3)
      by (auto simp: run_calls_def Let_def intro!: sound_finish soundI)
  qed
qed

lemma sound_answer:
  assumes "budgets cfg st" "extends ctx db0 (ts_db st) new" "phase_knows (Answering blocks failures) (last_row None new)"
  shows "sound cfg ctx db0 (answer_calls env cfg ctx st blocks failures)"
proof -
  have cont: "sound cfg ctx db0
      (if repeated_tool_failure_feedback_on cfg then
         (case count_failures (v_serialize env) (ts_failures st') failures of
            (feedback, counts) \<Rightarrow>
              (let st'' = st'\<lparr>ts_failures := counts\<rparr>
               in case feedback of Some t \<Rightarrow> (Feeding t, st'') | None \<Rightarrow> (Top, st'')))
       else (Top, st'))"
    if "budgets cfg st'" "extends ctx db0 (ts_db st') new'" for st' new'
  proof -
    have "budgets cfg (st'\<lparr>ts_failures := c\<rparr>)" for c using that(1) by (simp add: budgets_def)
    with that show ?thesis by (auto simp: Let_def split: prod.splits option.splits intro!: soundI)
  qed
  show ?thesis
    unfolding answer_calls_def
  proof (rule sound_persist [OF assms(1,2)])
    fix r :: message_row
    assume "r_thread_id r = x_thread ctx" "r_session_id r = x_session ctx" "r_role r = Tool" "r_content r = blocks"
    then show "row_follows ctx (last_row None new) r" using assms(3) by (auto simp: row_follows_def)
  next
    fix row db w
    assume "extends ctx db0 db (new @ [row])" "budgets cfg (st\<lparr>ts_db := db, ts_world := w\<rparr>)"
    then show "sound cfg ctx db0
        (if repeated_tool_failure_feedback_on cfg then
           (case count_failures (v_serialize env) (ts_failures (st\<lparr>ts_db := db, ts_world := w\<rparr>)) failures of
              (feedback, counts) \<Rightarrow>
                (let st' = st\<lparr>ts_db := db, ts_world := w\<rparr>\<lparr>ts_failures := counts\<rparr>
                 in case feedback of Some t \<Rightarrow> (Feeding t, st') | None \<Rightarrow> (Top, st')))
         else (Top, st\<lparr>ts_db := db, ts_world := w\<rparr>))"
      by (intro cont) simp_all
  qed
qed

lemma sound_step:
  assumes "sound cfg ctx db0 c" "permuting (v_order env)"
  shows "sound cfg ctx db0 (turn_step env cfg ctx c)"
proof -
  obtain p st where c: "c = (p, st)" by (metis surj_pair)
  from assms(1) c obtain new where inv: "budgets cfg st" "extends ctx db0 (ts_db st) new" "phase_knows p (last_row None new)"
    by (auto simp: sound_def)
  show ?thesis
  proof (cases p)
    case (Feeding t)
    then show ?thesis using inv(1,2) c by (auto simp: row_follows_user intro!: sound_persist soundI)
  qed (use inv c assms in \<open>auto intro: sound_ask sound_take sound_calls sound_answer\<close>)
qed

subsection \<open>Runs\<close>

lemma leads_recover: "leads cfg (ts_iterations st) 1 (recover env cfg ctx st e)"
proof -
  have c: "leads cfg (ts_iterations st) 1 (case compact env cfg ctx (st\<lparr>ts_too_long := a\<rparr>) n k of
      Inl e' \<Rightarrow> fail st (LlmFailure e') | Inr st' \<Rightarrow> (Top, st'))" for a n k
    by (auto split: sum.splits dest!: compact_keeps)
  have m: "leads cfg (ts_iterations st) 1 (persist env ctx (st\<lparr>ts_malformed := a\<rparr>) User t (\<lambda>_ st'. (Top, st')))" for a t
    using leads_persist [of "st\<lparr>ts_malformed := a\<rparr>" cfg 1 "\<lambda>_ st'. (Top, st')"] by simp
  have f: "leads cfg (ts_iterations st) 1 (case localize env cfg ctx (st\<lparr>ts_filtered := a\<rparr>) of
       Inl e' \<Rightarrow> fail st (LlmFailure e')
     | Inr (Redacted ids, st') \<Rightarrow> (Top, st')
     | Inr (Unredactable, st') \<Rightarrow> persist env ctx st' Assistant [Text FILTER_NOTICE] (\<lambda>_ st''. finish env ctx st'' FILTER_NOTICE []))" for a
  proof (cases "localize env cfg ctx (st\<lparr>ts_filtered := a\<rparr>)")
    case (Inr r)
    obtain l st' where r: "r = (l, st')" by (metis surj_pair)
    have i: "ts_iterations st' = ts_iterations st" using localize_keeps [OF Inr [unfolded r]] by auto
    have "leads cfg (ts_iterations st') 1 (persist env ctx st' Assistant [Text FILTER_NOTICE] (\<lambda>_ st''. finish env ctx st'' FILTER_NOTICE []))"
      by (rule leads_persist) (metis leads_finish)
    with Inr r i show ?thesis by (cases l) auto
  qed simp
  from c m f show ?thesis by (cases e) (simp_all add: recover_def Let_def)
qed

lemma leads_ask:
  "ts_iterations st < max_iterations cfg \<Longrightarrow> leads cfg (ts_iterations st + 1) 5 (ask_provider env cfg ctx st)"
  using leads_recover [of cfg "st\<lparr>ts_iterations := ts_iterations st + 1, ts_world := w\<rparr>" env ctx e for w e]
  by (auto simp: ask_provider_def Let_def leads_def split: prod.splits sum.splits) (metis One_nat_def le_Suc_eq numeral_le_one_iff order_trans one_le_numeral)+

lemma leads_finish_eq: "ts_iterations st = i \<Longrightarrow> leads cfg i r (finish env ctx st t bg)"
  by auto

lemma leads_take: "leads cfg (ts_iterations st) 4 (take_answer env cfg ctx st resp cache)"
proof -
  have a: "ts_iterations st'' = ts_iterations st'" if "after_turn env cfg ctx st' resp = (st'', bg)" for st' st'' bg
    using that by (auto simp: after_turn_def Let_def split: option.splits if_splits sum.splits dest!: compact_keeps)
  have "leads cfg (ts_iterations st) 4
      (case escalated_cap cfg st' resp of
         Some cap \<Rightarrow> (Top, st'\<lparr>ts_escalations := ts_escalations st' + 1, ts_max_tokens := Some cap\<rparr>)
       | None \<Rightarrow> if is_terminal (resp_stop resp)
           then (case after_turn env cfg ctx st' resp of (st'', bg) \<Rightarrow>
                   finish env ctx st'' (collect_text (m_content (resp_message resp))) bg)
           else (Calling resp (r_id row) cache, st'))"
    if "ts_iterations st' = ts_iterations st" for st' row
    using that
    by (auto simp: leads_def [of _ _ _ "(Calling _ _ _, _)"] split: option.splits prod.splits intro!: leads_finish_eq dest!: a)
  then show ?thesis
    by (auto simp: take_answer_def Let_def intro!: leads_persist)
qed

lemma leads_calls: "leads cfg (ts_iterations st) 3 (run_calls env ctx st resp mid cache)"
  by (auto simp: run_calls_def Let_def leads_def fail_def finish_def split: prod.splits sum.splits batch_error.splits)

lemma leads_answer: "leads cfg (ts_iterations st) 2 (answer_calls env cfg ctx st blocks failures)"
  unfolding answer_calls_def
  by (rule leads_persist) (auto simp: Let_def leads_def split: prod.splits option.splits)

lemma turn_step_decreases:
  assumes "phase_rank (fst c) \<noteq> 0"
  shows "turn_measure cfg (turn_step env cfg ctx c) < turn_measure cfg c"
proof -
  obtain p st where c: "c = (p, st)" by (metis surj_pair)
  have same: "turn_measure cfg d < turn_measure cfg c" if "leads cfg (ts_iterations st) r d" "r < phase_rank p" for d r
    using that by (auto simp: c turn_measure_def leads_def)
  show ?thesis
  proof (cases p)
    case Top
    show ?thesis
    proof (cases "ts_iterations st < max_iterations cfg")
      case True
      with leads_ask [OF True, of env ctx] Top show ?thesis by (auto simp: c turn_measure_def leads_def)
    next
      case False
      with Top show ?thesis by (simp add: c turn_measure_def ask_provider_def fail_def)
    qed
  next
    case (Feeding t)
    have "leads cfg (ts_iterations st) 1 (persist env ctx st User [Text t] (\<lambda>_ st'. (Top, st')))"
      by (rule leads_persist) simp
    from same [OF this] Feeding show ?thesis by (simp add: c)
  next
    case (Answered resp cache)
    from same [OF leads_take] Answered show ?thesis by (simp add: c)
  next
    case (Calling resp mid cache)
    from same [OF leads_calls] Calling show ?thesis by (simp add: c)
  next
    case (Answering blocks failures)
    from same [OF leads_answer] Answering show ?thesis by (simp add: c)
  next
    case (Done r)
    with assms show ?thesis by (simp add: c)
  qed
qed

function run_turn :: "('w, 'x) loop_env_scheme \<Rightarrow> engine_config \<Rightarrow> turn_ctx \<Rightarrow> 'w config \<Rightarrow> 'w config" where
  "run_turn env cfg ctx c =
     (if phase_rank (fst c) = 0 then c else run_turn env cfg ctx (turn_step env cfg ctx c))"
  by pat_completeness auto
termination
  by (relation "measure (\<lambda>(env, cfg, ctx, c). turn_measure cfg c)") (simp_all add: turn_step_decreases)

declare run_turn.simps [simp del]

lemma run_turn_steps:
  "\<exists>k. k \<le> turn_measure cfg c \<and> run_turn env cfg ctx c = (turn_step env cfg ctx ^^ k) c
     \<and> phase_rank (fst (run_turn env cfg ctx c)) = 0"
proof (induction "turn_measure cfg c" arbitrary: c rule: less_induct)
  case less
  show ?case
  proof (cases "phase_rank (fst c) = 0")
    case True
    then show ?thesis by (intro exI [of _ 0]) (simp add: run_turn.simps)
  next
    case False
    from less [OF turn_step_decreases [OF False]] obtain k where
      "k \<le> turn_measure cfg (turn_step env cfg ctx c)"
      "run_turn env cfg ctx (turn_step env cfg ctx c) = (turn_step env cfg ctx ^^ k) (turn_step env cfg ctx c)"
      "phase_rank (fst (run_turn env cfg ctx (turn_step env cfg ctx c))) = 0" by blast
    with False turn_step_decreases [OF False, of cfg env ctx] show ?thesis
      by (intro exI [of _ "Suc k"]) (simp add: run_turn.simps [of env cfg ctx c] funpow_swap1)
  qed
qed

lemma phase_rank_Done: "phase_rank p = 0 \<longleftrightarrow> (\<exists>r. p = Done r)"
  by (cases p) auto

text \<open>C2: Every turn ends.  Whatever the provider, the tools, the approval gate and the store answer, the
  loop stops within \<open>5 * max_iterations + 1\<close> steps with an outcome or an error: recovery from too long
  prompts, malformed arguments, filtered content, cut-off answers and failing tools never runs forever.\<close>

theorem turn_terminates:
  "\<exists>k r st. k \<le> 5 * max_iterations cfg + 1
     \<and> (turn_step env cfg ctx ^^ k) (Top, new_turn cfg db w hints) = (Done r, st)
     \<and> run_turn env cfg ctx (Top, new_turn cfg db w hints) = (Done r, st)"
proof -
  have "turn_measure cfg (Top, new_turn cfg db w hints) = 5 * max_iterations cfg + 1"
    by (simp add: turn_measure_def new_turn_def)
  with run_turn_steps [of cfg "(Top, new_turn cfg db w hints)" env ctx] show ?thesis
    by (metis phase_rank_Done prod.collapse)
qed

subsection \<open>Reachable states, with cancellation\<close>

inductive turn_reaches ::
  "('w, 'x) loop_env_scheme \<Rightarrow> engine_config \<Rightarrow> turn_ctx \<Rightarrow> 'w config \<Rightarrow> 'w config \<Rightarrow> bool"
  for env cfg ctx c0 where
  start: "turn_reaches env cfg ctx c0 c0"
| step: "turn_reaches env cfg ctx c0 c \<Longrightarrow> turn_reaches env cfg ctx c0 (turn_step env cfg ctx c)"
| abort: "turn_reaches env cfg ctx c0 (p, st) \<Longrightarrow> phase_rank p \<noteq> 0
    \<Longrightarrow> turn_reaches env cfg ctx c0 (Done (Inl Aborted), st)"
| timeout: "turn_reaches env cfg ctx c0 (p, st) \<Longrightarrow> phase_rank p \<noteq> 0 \<Longrightarrow> turn_timeout_secs cfg = Some s
    \<Longrightarrow> turn_reaches env cfg ctx c0 (Done (Inl (TurnTimeout s)), st)"

lemma reaches_sound:
  assumes "turn_reaches env cfg ctx (Top, new_turn cfg db w hints) c" "permuting (v_order env)"
  shows "sound cfg ctx db c"
  using assms(1)
proof (induction rule: turn_reaches.induct)
  case start
  show ?case by (rule soundI [where new = "[]"]) (auto simp: new_turn_def budgets_def extends_def)
next
  case (step c)
  then show ?case using assms(2) by (intro sound_step)
qed (auto simp: sound_def)


text \<open>C8: Every recovery is bounded.  In every reachable state the round trips, the retries of each kind
  and the escalations are within their configured limits, and a raised output cap is within its
  ceiling.\<close>

theorem turn_budgets:
  assumes "turn_reaches env cfg ctx (Top, new_turn cfg db w hints) (p, st)"
    and "permuting (v_order env)"
  shows "ts_iterations st \<le> max_iterations cfg
     \<and> ts_escalations st \<le> max_output_token_escalation_attempts cfg
     \<and> ts_too_long st \<le> compact_max_retries cfg
     \<and> ts_malformed st \<le> malformed_tool_args_max_retries cfg
     \<and> ts_filtered st \<le> content_filter_max_retries cfg
     \<and> (\<forall>m. ts_max_tokens st = Some m \<longrightarrow> m \<le> max_output_token_ceiling cfg)"
  using reaches_sound [OF assms] by (simp add: sound_def budgets_def)

subsection \<open>A whole turn\<close>

text \<open>\<open>between\<close> is what other turns do to the store between the lookup and the insert.\<close>

definition ensure_thread ::
  "(database \<Rightarrow> database) \<Rightarrow> timestamp \<Rightarrow> database \<Rightarrow> thread_id \<Rightarrow> tenant_id \<Rightarrow> project_id
     \<Rightarrow> db_error + database" where
  "ensure_thread between now db thread tenant project =
     (if find_thread db thread \<noteq> None then Inr db
      else
        (let db1 = between db
         in case insert_thread db1 now thread tenant project of
              Inr (_, db2) \<Rightarrow> Inr db2
            | Inl e \<Rightarrow> if find_thread db1 thread \<noteq> None then Inr db1 else Inl e))"

text \<open>Two messages that arrive at once on a new thread both get their turn.  Whatever other turns
  write between the lookup and the insert, \<open>ensure_thread\<close> succeeds, the thread exists afterwards, and
  an existing thread row is left as it is.\<close>

theorem ensure_thread_survives_race:
  "ensure_thread between now db thread tenant project =
     Inr (if find_thread db thread \<noteq> None then db
          else if find_thread (between db) thread \<noteq> None then between db
          else (between db)\<lparr>threads := threads (between db)
                 @ [\<lparr>t_id = thread, t_tenant = tenant, t_project = project, t_created_at = now\<rparr>]\<rparr>)
   \<and> (\<exists>db'. ensure_thread between now db thread tenant project = Inr db' \<and> find_thread db' thread \<noteq> None)"
  by (auto simp: ensure_thread_def insert_thread_def find_thread_def find_row_append Let_def)

record turn_input =
  tr_tenant :: tenant_id
  tr_project :: project_id
  tr_thread :: thread_id
  tr_text :: string
  tr_message_id :: "string option"
  tr_ephemeral :: "string option"

record engine_memory =
  em_hints :: "thread_id \<rightharpoonup> loop_guard_hint"
  em_snapshots :: "thread_id \<rightharpoonup> string"

text \<open>The inner key of the inflight map: the message id of the channel, or a fresh one.\<close>

definition turn_message_id :: "string \<Rightarrow> turn_input \<Rightarrow> string" where
  "turn_message_id fresh req =
     (case tr_message_id req of Some i \<Rightarrow> if i \<noteq> [] then i else fresh | None \<Rightarrow> fresh)"

definition turn_prompt ::
  "('w, 'x) loop_env_scheme \<Rightarrow> engine_config \<Rightarrow> turn_input \<Rightarrow> engine_memory \<Rightarrow> 'w
     \<Rightarrow> system_segment list \<times> engine_memory" where
  "turn_prompt env cfg req mem w =
     (case v_today env w of (ymd, weekday) \<Rightarrow>
       (case system_prompt_for (em_snapshots mem) (tr_thread req) ymd weekday (system_prompt cfg) (v_memory env w)
               (v_files env w) (v_root env) (tr_ephemeral req) (em_hints mem (tr_thread req)) of
          (segs, snaps) \<Rightarrow>
            (segs, mem\<lparr>em_snapshots := snaps, em_hints := (em_hints mem)(tr_thread req := None)\<rparr>)))"

definition handle_turn_full ::
  "('w, 'x) loop_env_scheme \<Rightarrow> engine_config \<Rightarrow> (database \<Rightarrow> database) \<Rightarrow> nat \<Rightarrow> tool_schema list \<Rightarrow> turn_input
     \<Rightarrow> engine_memory \<Rightarrow> database \<Rightarrow> 'w
     \<Rightarrow> (engine_error + turn_outcome) \<times> engine_memory \<times> database \<times> 'w" where
  "handle_turn_full env cfg between session tools req mem db w =
     (case ensure_thread between (e_now env w) db (tr_thread req) (tr_tenant req) (tr_project req) of
        Inl e \<Rightarrow> (Inl (StateError e), mem, db, w)
      | Inr db1 \<Rightarrow>
          (case v_ensure_project env w of
             (Some e, w1) \<Rightarrow> (Inl (WorkspaceFailure e), mem, db1, w1)
           | (None, w1) \<Rightarrow>
               (case v_uuid env w1 of
                  (i, w2) \<Rightarrow>
                    (case append_message db1 i (e_now env w2) (tr_thread req) session User [Text (tr_text req)] of
                       Inl e \<Rightarrow> (Inl (StateError e), mem, db1, w2)
                     | Inr (_, db2) \<Rightarrow>
                         (case turn_prompt env cfg req mem w2 of
                            (segs, mem1) \<Rightarrow>
                              (let ctx = \<lparr>x_thread = tr_thread req, x_session = session, x_segments = segs,
                                          x_tools = tools\<rparr>;
                                   (p, st) = run_turn env cfg ctx (Top, new_turn cfg db2 w2 (em_hints mem1))
                               in (case p of Done r \<Rightarrow> r | _ \<Rightarrow> Inl Aborted,
                                   mem1\<lparr>em_hints := ts_hints st\<rparr>, ts_db st, ts_world st)))))))"

subsection \<open>Answers cut off inside a tool call\<close>

text \<open>An answer cut off at the output cap ends the turn with its tool calls unanswered.  Such an answer
  is terminal and not escalated, so its calls are neither run nor answered with an error: the turn
  succeeds, and what it appended is the answer alone.\<close>

theorem cut_off_calls_end_turn:
  assumes "resp_stop resp = MaxTokens" "list_ex is_ToolUse (m_content (resp_message resp))"
    and "v_uuid env (ts_world st) = (i, w)"
    and "append_message (ts_db st) i (e_now env w) (x_thread ctx) (x_session ctx) Assistant
           (m_content (resp_message resp)) = Inr (row, db')"
    and "compact_after_input_tokens cfg = None"
  shows "\<exists>out st'. turn_step env cfg ctx (Answered resp cache, st) = (Done (Inr out), st')
    \<and> messages (ts_db st') = messages (ts_db st) @ [row] \<and> tool_calls (ts_db st') = tool_calls (ts_db st)"
proof -
  have "m_content (resp_message resp) \<noteq> []" using assms(2) by auto
  moreover have "messages db' = messages (ts_db st) @ [row] \<and> tool_calls db' = tool_calls (ts_db st)"
    using assms(4) by (auto simp: append_message_def Let_def split: if_splits)
  ultimately show ?thesis
    using assms
    by (simp add: take_answer_def persist_def escalated_cap_def is_terminal_def after_turn_def finish_def
        split: prod.splits)
qed

subsection \<open>Witnesses\<close>

definition loop_fields where
  "loop_fields = loop_env.fields (\<lambda>w :: unit. w) (\<lambda>w. ([], w)) (\<lambda>ps. ps) (\<lambda>_. None) (\<lambda>s. s)
     (\<lambda>w. (None, w)) (\<lambda>_. (''2026-01-01'', ''Thursday'')) (\<lambda>_. []) (\<lambda>_. []) []"

definition quiet_loop :: "(llm_error + stream_event) list \<Rightarrow> message_response \<Rightarrow> unit loop_env" where
  "quiet_loop items resp = turn_env.extend (quiet_env items resp) loop_fields"

lemma quiet_loop_simps [simp]:
  "v_uuid (quiet_loop items resp) w = (7, ())"
  "e_now (quiet_loop items resp) w = 0"
  "v_order (quiet_loop items resp) = (\<lambda>ps. ps)"
  by (simp_all add: quiet_loop_def quiet_env_def loop_fields_def turn_env.defs tool_env.defs loop_env.defs sample_env_def)

definition plain_ctx :: turn_ctx where
  "plain_ctx = \<lparr>x_thread = ''t'', x_session = 1, x_segments = [], x_tools = []\<rparr>"

lemma quiet_permuting: "permuting (v_order (quiet_loop items resp))"
  by (simp add: permuting_def)


theorem turn_budgets_witness:
  "ts_iterations (snd (turn_step (quiet_loop [] (assistant_response [] EndTurn)) default_config plain_ctx
      (Top, new_turn default_config (thread_db []) () Map.empty))) \<le> max_iterations default_config"
proof -
  let ?env = "quiet_loop [] (assistant_response [] EndTurn)"
  let ?c0 = "(Top, new_turn default_config (thread_db []) () Map.empty)"
  have "turn_reaches ?env default_config plain_ctx ?c0 (turn_step ?env default_config plain_ctx ?c0)"
    by (intro turn_reaches.step turn_reaches.start)
  then have r: "turn_reaches ?env default_config plain_ctx ?c0
      (fst (turn_step ?env default_config plain_ctx ?c0), snd (turn_step ?env default_config plain_ctx ?c0))"
    by (simp only: prod.collapse)
  show ?thesis using turn_budgets [OF r quiet_permuting] by blast
qed

theorem cut_off_calls_end_turn_witness:
  "\<exists>out st'. turn_step (quiet_loop [] (assistant_response [] EndTurn)) default_config plain_ctx
      (Answered (assistant_response [ToolUse ''c'' ''Write'' JNull] MaxTokens) Map.empty,
       new_turn default_config (thread_db []) () Map.empty) = (Done (Inr out), st')
    \<and> map r_content (messages (ts_db st')) = [[ToolUse ''c'' ''Write'' JNull]]"
proof -
  let ?env = "quiet_loop [] (assistant_response [] EndTurn)"
  let ?resp = "assistant_response [ToolUse ''c'' ''Write'' JNull] MaxTokens"
  let ?st = "new_turn default_config (thread_db []) () Map.empty"
  let ?row = "\<lparr>r_id = 7, r_thread_id = ''t'', r_session_id = 1, r_role = Assistant,
     r_content = m_content (resp_message ?resp), r_created_at = 0, r_redacted_at = None\<rparr>"
  have app: "append_message (ts_db ?st) 7 (e_now ?env ()) (x_thread plain_ctx) (x_session plain_ctx) Assistant
      (m_content (resp_message ?resp)) = Inr (?row, (ts_db ?st)\<lparr>messages := [?row]\<rparr>)"
    by (simp add: append_message_def new_turn_def thread_db_def empty_db_def find_thread_def find_row_def plain_ctx_def Let_def)
  have "\<exists>out st'. turn_step ?env default_config plain_ctx (Answered ?resp Map.empty, ?st) = (Done (Inr out), st')
    \<and> messages (ts_db st') = messages (ts_db ?st) @ [?row] \<and> tool_calls (ts_db st') = tool_calls (ts_db ?st)"
    by (rule cut_off_calls_end_turn [OF _ _ _ app]) (simp_all add: assistant_response_def default_config_def default_for_def)
  then show ?thesis
    by (auto simp: new_turn_def thread_db_def empty_db_def assistant_response_def)
qed

subsection \<open>From the question to the last row\<close>

lemma transcript_later: "transcript ctx None rs \<Longrightarrow> transcript ctx prev rs"
  by (cases rs) (auto simp: row_follows_def split: role.splits)

lemma append_unmarked:
  "append_message db i now t s rl c = Inr (row, db') \<Longrightarrow>
    unmarked (messages db') = unmarked (messages db) @ [row] \<and> r_role row = rl \<and> r_content row = c"
  by (auto simp: append_message_def unmarked_def Let_def split: if_splits)

lemma ensure_thread_messages:
  "ensure_thread between now db t tn pr = Inr db' \<Longrightarrow>
    messages db' = messages (if find_thread db t \<noteq> None then db else between db)"
  by (auto simp: ensure_thread_def insert_thread_def Let_def split: if_splits sum.splits)

lemma run_turn_reaches: "turn_reaches env cfg ctx c0 c \<Longrightarrow> turn_reaches env cfg ctx c0 (run_turn env cfg ctx c)"
proof (induction "turn_measure cfg c" arbitrary: c rule: less_induct)
  case less
  then show ?case
    using turn_step_decreases [of c cfg env ctx] turn_reaches.step [OF less.prems]
    by (subst run_turn.simps) auto
qed



end
