(* ===== verification/Inflight.thy ===== *)
theory Inflight
  imports Store "HOL-Library.Multiset"
begin

text \<open>
  The registry of running turns of \<open>crates/snaca-engine/src/engine.rs\<close>: the map from a thread and a
  message id to a cancellation token, the guard that removes the entry when a turn ends, and the two
  ways to abort from outside (\<open>abort_thread\<close>, \<open>abort_turn\<close>).  A token is a number, the cancelled tokens
  a set.  A poisoned lock is not modelled.
\<close>

subsection \<open>The registry\<close>

type_synonym turn_key = "thread_id \<times> string"
type_synonym token = nat

record inflight =
  n_map :: "(turn_key \<times> token) list"
  n_cancelled :: "token set"

definition empty_inflight :: inflight where
  "empty_inflight = \<lparr>n_map = [], n_cancelled = {}\<rparr>"

text \<open>\<open>HashMap::insert\<close> overwrites an entry with the same key.\<close>

definition register :: "inflight \<Rightarrow> turn_key \<Rightarrow> token \<Rightarrow> inflight" where
  "register f key tok = f\<lparr>n_map := (key, tok) # filter (\<lambda>(k, _). k \<noteq> key) (n_map f)\<rparr>"

text \<open>The drop of \<open>InflightGuard\<close> removes whatever stands under its key.\<close>

definition drop_guard :: "inflight \<Rightarrow> turn_key \<Rightarrow> inflight" where
  "drop_guard f key = f\<lparr>n_map := filter (\<lambda>(k, _). k \<noteq> key) (n_map f)\<rparr>"

definition abort_thread :: "inflight \<Rightarrow> thread_id \<Rightarrow> nat \<times> inflight" where
  "abort_thread f thread =
     (let hits = filter (\<lambda>((t, _), _). t = thread) (n_map f)
      in (length hits, f\<lparr>n_cancelled := n_cancelled f \<union> set (map snd hits)\<rparr>))"

definition abort_turn :: "inflight \<Rightarrow> thread_id \<Rightarrow> string \<Rightarrow> bool \<times> inflight" where
  "abort_turn f thread message =
     (case map_of (n_map f) (thread, message) of
        Some tok \<Rightarrow> (True, f\<lparr>n_cancelled := insert tok (n_cancelled f)\<rparr>)
      | None \<Rightarrow> (False, f))"

subsection \<open>Turns come and go\<close>

text \<open>The running turns, each with its key and token, beside the registry.  A turn starts with a token
  never used before and ends by dropping its guard.\<close>

record turns =
  w_running :: "(turn_key \<times> token) list"
  w_used :: "token set"
  w_flight :: inflight

inductive turns_step :: "turns \<Rightarrow> turns \<Rightarrow> bool" where
  begin_turn: "tok \<notin> w_used s \<Longrightarrow>
    turns_step s (s\<lparr>w_running := w_running s @ [(key, tok)], w_used := insert tok (w_used s),
                    w_flight := register (w_flight s) key tok\<rparr>)"
| end_turn: "w_running s = xs @ (key, tok) # ys \<Longrightarrow>
    turns_step s (s\<lparr>w_running := xs @ ys, w_flight := drop_guard (w_flight s) key\<rparr>)"
| recall: "turns_step s (s\<lparr>w_flight := snd (abort_turn (w_flight s) thread message)\<rparr>)"
| sweep: "turns_step s (s\<lparr>w_flight := snd (abort_thread (w_flight s) thread)\<rparr>)"

definition no_turns :: turns where
  "no_turns = \<lparr>w_running = [], w_used = {}, w_flight = empty_inflight\<rparr>"

text \<open>Runs in which no turn starts under the key of a running one.\<close>

inductive reachable_turns :: "turns \<Rightarrow> bool" where
  init: "reachable_turns no_turns"
| move: "reachable_turns s \<Longrightarrow> turns_step s s' \<Longrightarrow> distinct (map fst (w_running s')) \<Longrightarrow> reachable_turns s'"

inductive_cases turns_stepE: "turns_step s s'"

definition tracked :: "turns \<Rightarrow> bool" where
  "tracked s \<longleftrightarrow>
     set (n_map (w_flight s)) = set (w_running s) \<and> distinct (map fst (n_map (w_flight s)))
     \<and> distinct (map fst (w_running s)) \<and> snd ` set (w_running s) \<subseteq> w_used s \<and> distinct (map snd (w_running s))"

lemma abort_keeps_map [simp]:
  "n_map (snd (abort_turn f t m)) = n_map f" "n_map (snd (abort_thread f t)) = n_map f"
  by (auto simp: abort_turn_def abort_thread_def Let_def split: option.splits)

lemma distinct_fst_filter: "distinct (map fst xs) \<Longrightarrow> distinct (map fst (filter P xs))"
  by (induction xs) auto

lemma tracked_step:
  assumes "tracked s" "turns_step s s'" "distinct (map fst (w_running s'))"
  shows "tracked s'"
  using assms(2)
proof (cases rule: turns_step.cases)
  case (begin_turn tok key)
  with assms show ?thesis
    by (auto simp: tracked_def register_def distinct_fst_filter image_iff)
next
  case (end_turn xs key tok ys)
  with assms show ?thesis
    by (auto simp: tracked_def drop_guard_def distinct_fst_filter image_iff)
next
  case recall
  with assms show ?thesis by (auto simp: tracked_def)
next
  case sweep
  with assms show ?thesis by (auto simp: tracked_def)
qed

lemma reachable_tracked: "reachable_turns s \<Longrightarrow> tracked s"
  by (induction rule: reachable_turns.induct)
    (auto simp: tracked_step, auto simp: tracked_def no_turns_def empty_inflight_def)

text \<open>An abort hits its target and nothing else.  As long as no turn starts under the key of a running
  one, aborting by message id succeeds exactly when a turn of that key runs and cancels that turn only,
  and sweeping a thread cancels exactly its running turns and reports how many there are.\<close>

theorem abort_hits_exactly:
  assumes "reachable_turns s"
  shows "(fst (abort_turn (w_flight s) thread message) \<longleftrightarrow> (thread, message) \<in> fst ` set (w_running s))
    \<and> n_cancelled (snd (abort_turn (w_flight s) thread message)) =
        n_cancelled (w_flight s) \<union> {tok. ((thread, message), tok) \<in> set (w_running s)}
    \<and> n_cancelled (snd (abort_thread (w_flight s) thread)) =
        n_cancelled (w_flight s) \<union> {tok. \<exists>m. ((thread, m), tok) \<in> set (w_running s)}
    \<and> fst (abort_thread (w_flight s) thread) = length (filter (\<lambda>((t, _), _). t = thread) (w_running s))"
proof -
  have t: "tracked s" using assms by (rule reachable_tracked)
  then have d: "distinct (map fst (n_map (w_flight s)))" and same: "set (n_map (w_flight s)) = set (w_running s)"
    and d': "distinct (map fst (w_running s))" by (simp_all add: tracked_def)
  have look: "map_of (n_map (w_flight s)) k = Some tok \<longleftrightarrow> (k, tok) \<in> set (w_running s)" for k tok
    using d same by simp
  have none: "map_of (n_map (w_flight s)) k = None \<longleftrightarrow> k \<notin> fst ` set (w_running s)" for k
    using same by (simp add: map_of_eq_None_iff)
  have len: "length (filter P (n_map (w_flight s))) = length (filter P (w_running s))" for P
  proof -
    have "distinct (n_map (w_flight s))" "distinct (w_running s)" using d d' by (simp_all add: distinct_map)
    then have "mset (n_map (w_flight s)) = mset (w_running s)" using same by (simp add: set_eq_iff_mset_eq_distinct)
    then show ?thesis by (metis mset_filter size_mset)
  qed
  have hit: "fst (abort_turn (w_flight s) thread message) \<longleftrightarrow> (thread, message) \<in> fst ` set (w_running s)"
    using none [of "(thread, message)"] by (auto simp: abort_turn_def split: option.splits)
  have one: "n_cancelled (snd (abort_turn (w_flight s) thread message)) =
      n_cancelled (w_flight s) \<union> {tok. ((thread, message), tok) \<in> set (w_running s)}"
    unfolding look [symmetric] by (auto simp: abort_turn_def split: option.splits)
  have all: "n_cancelled (snd (abort_thread (w_flight s) thread)) =
      n_cancelled (w_flight s) \<union> {tok. \<exists>m. ((thread, m), tok) \<in> set (w_running s)}"
    by (simp add: abort_thread_def Let_def same) force
  have "fst (abort_thread (w_flight s) thread) = length (filter (\<lambda>((t, _), _). t = thread) (w_running s))"
    by (simp add: abort_thread_def Let_def len)
  with hit one all show ?thesis by blast
qed

text \<open>A replayed message id takes a running turn out of reach.  When a second turn starts under the
  key of a running one and the first ends, its guard removes the entry of the second: it keeps running
  and neither its message id nor a sweep of its thread can abort it.\<close>

theorem replayed_turn_unreachable:
  "(let s1 = register empty_inflight (''t'', ''m'') 1;
        s2 = register s1 (''t'', ''m'') 2;
        s3 = drop_guard s2 (''t'', ''m'')
    in abort_turn s2 ''t'' ''m'' = (True, s2\<lparr>n_cancelled := {2}\<rparr>)
       \<and> abort_turn s3 ''t'' ''m'' = (False, s3) \<and> fst (abort_thread s3 ''t'') = 0)"
  by (simp add: register_def drop_guard_def empty_inflight_def abort_turn_def abort_thread_def)

theorem abort_hits_exactly_witness:
  "\<exists>s. reachable_turns s \<and> fst (abort_turn (w_flight s) ''t'' ''m'')"
proof -
  let ?s = "no_turns\<lparr>w_running := [((''t'', ''m''), 1)], w_used := {1}, w_flight := register empty_inflight (''t'', ''m'') 1\<rparr>"
  have "turns_step no_turns ?s"
    using turns_step.begin_turn [of 1 no_turns "(''t'', ''m'')"] by (simp add: no_turns_def)
  then have r: "reachable_turns ?s"
    by (rule reachable_turns.move [OF reachable_turns.init]) simp
  then have "fst (abort_turn (w_flight ?s) ''t'' ''m'')"
    using abort_hits_exactly [OF r, of "''t''" "''m''"] by simp
  with r show ?thesis by blast
qed

end
