(* ===== verification/Workspace.thy ===== *)
theory Workspace
  imports Prelude
begin

text \<open>
  \<open>crates/snaca-workspace\<close>: the path guard (\<open>path_guard.rs\<close>) every file tool resolves its argument
  with, and the directory layout of tenants and projects (\<open>layout.rs\<close>).

  A path is the list of its components, which is what \<open>Path\<close> compares, joins and normalises; \<open>components\<close>
  reads them off a string as \<open>Path::components\<close> does on Unix, so Windows prefixes are left out.
  Nothing here looks at the file system: symbolic links are outside the guard, as its documentation
  says.
\<close>

subsection \<open>Paths\<close>

datatype component = RootDir | CurDir | ParentDir | Normal string

type_synonym path = "component list"

fun split_slash :: "string \<Rightarrow> string list" where
  "split_slash [] = [[]]"
| "split_slash (c # cs) =
     (if c = CHR ''/'' then [] # split_slash cs
      else (case split_slash cs of p # ps \<Rightarrow> (c # p) # ps | [] \<Rightarrow> [[c]]))"

definition component_of :: "string \<Rightarrow> component" where
  "component_of p = (if p = ''.'' then CurDir else if p = ''..'' then ParentDir else Normal p)"

text \<open>Repeated and trailing separators are dropped, and \<open>.\<close> except at the start of a relative path.\<close>

definition components :: "string \<Rightarrow> path" where
  "components s =
     (let parts = map component_of (filter (\<lambda>p. p \<noteq> []) (split_slash s))
      in if prefix ''/'' s then RootDir # filter (\<lambda>c. c \<noteq> CurDir) parts
         else (case parts of
                 [] \<Rightarrow> []
               | c # cs \<Rightarrow> c # filter (\<lambda>c. c \<noteq> CurDir) cs))"

fun is_absolute :: "path \<Rightarrow> bool" where
  "is_absolute (RootDir # _) = True"
| "is_absolute _ = False"

text \<open>\<open>Path::join\<close>: an absolute argument replaces the path.\<close>

definition join :: "path \<Rightarrow> path \<Rightarrow> path" where
  "join p q = (if is_absolute q \<or> p = [] then q else p @ filter (\<lambda>c. c \<noteq> CurDir) q)"

text \<open>\<open>PathBuf::pop\<close>: false at the root and on the empty path.\<close>

definition path_pop :: "path \<Rightarrow> bool \<times> path" where
  "path_pop p = (if p = [] \<or> last p = RootDir then (False, p) else (True, butlast p))"

definition starts_with :: "path \<Rightarrow> path \<Rightarrow> bool" where
  "starts_with p base = prefix base p"

subsection \<open>The guard\<close>

datatype workspace_error =
    PathOutsideRoot path
  | AbsoluteNotInRoot path
  | RootNotAbsolute path

fun normalize_step :: "path \<Rightarrow> component \<Rightarrow> path" where
  "normalize_step out RootDir = [RootDir]"
| "normalize_step out CurDir = out"
| "normalize_step out ParentDir =
     (case path_pop out of (popped, out') \<Rightarrow> if popped then out' else out' @ [ParentDir])"
| "normalize_step out (Normal name) = out @ [Normal name]"

definition lexically_normalize :: "path \<Rightarrow> path" where
  "lexically_normalize p = foldl normalize_step [] p"

definition resolve_within :: "path \<Rightarrow> path \<Rightarrow> workspace_error + path" where
  "resolve_within base input =
     (if \<not> is_absolute base then Inl (RootNotAbsolute base)
      else
        (let base_normalized = lexically_normalize base
         in if is_absolute input then
              (let normalized = lexically_normalize input
               in if \<not> starts_with normalized base_normalized then Inl (AbsoluteNotInRoot input)
                  else if \<not> starts_with normalized base_normalized then Inl (PathOutsideRoot input)
                  else Inr normalized)
            else
              (let candidate = lexically_normalize (join base_normalized input)
               in if \<not> starts_with candidate base_normalized then Inl (PathOutsideRoot input)
                  else Inr candidate)))"

subsection \<open>What a path denotes\<close>

text \<open>
  The place an absolute path names when no component is a symbolic link: the names from the root down,
  where \<open>..\<close> at the root stays there.
\<close>

fun walk :: "string list \<Rightarrow> component \<Rightarrow> string list" where
  "walk at RootDir = []"
| "walk at CurDir = at"
| "walk at ParentDir = butlast at"
| "walk at (Normal name) = at @ [name]"

definition denotes :: "path \<Rightarrow> string list" where
  "denotes p = foldl walk [] p"

text \<open>Paths as \<open>components\<close> yields them: the root stands first only, and nothing but a relative path starts
  with \<open>.\<close>.\<close>

definition wf_path :: "path \<Rightarrow> bool" where
  "wf_path p \<longleftrightarrow> RootDir \<notin> set (drop 1 p)"

lemma component_of_neq [simp]: "component_of p \<noteq> RootDir"
  by (simp add: component_of_def)

lemma components_wf [simp]: "wf_path (components s)"
proof -
  have free: "RootDir \<notin> set (map component_of ps)" for ps
    by (auto dest: sym)
  show ?thesis
  proof (cases "map component_of (filter (\<lambda>p. p \<noteq> []) (split_slash s))")
    case Nil
    then show ?thesis by (simp add: components_def wf_path_def)
  next
    case (Cons c cs)
    with free [of "filter (\<lambda>p. p \<noteq> []) (split_slash s)"] have "RootDir \<notin> set (c # cs)" by simp
    with Cons show ?thesis by (simp add: components_def wf_path_def Let_def)
  qed
qed

lemma components_absolute: "is_absolute (components s) \<longleftrightarrow> prefix ''/'' s"
proof (cases "map component_of (filter (\<lambda>p. p \<noteq> []) (split_slash s))")
  case (Cons c cs)
  then have "c \<noteq> RootDir" by (auto simp: map_eq_Cons_conv)
  with Cons show ?thesis by (cases c) (auto simp: components_def Let_def)
qed (simp add: components_def Let_def)

lemma is_absolute_iff: "is_absolute p \<longleftrightarrow> (\<exists>q. p = RootDir # q)"
  by (cases p rule: is_absolute.cases) auto

text \<open>A normalised absolute path: the root, at most one \<open>..\<close>, then names.\<close>

definition anchored :: "path \<Rightarrow> bool" where
  "anchored p \<longleftrightarrow> (\<exists>up names. p = RootDir # up @ map Normal names \<and> (up = [] \<or> up = [ParentDir]))"

lemma anchoredE:
  assumes "anchored p"
  obtains names up where "p = RootDir # up @ map Normal names" "up = [] \<or> up = [ParentDir]"
  using assms unfolding anchored_def by blast

lemma denotes_names [simp]: "foldl walk at (map Normal names) = at @ names"
  by (induction names arbitrary: at) auto

lemma denotes_anchored: "up = [] \<or> up = [ParentDir] \<Longrightarrow> denotes (RootDir # up @ map Normal names) = names"
  by (auto simp: denotes_def)

lemma normalize_step_anchored:
  assumes "anchored out" "c \<noteq> RootDir"
  shows "anchored (normalize_step out c) \<and> denotes (normalize_step out c) = walk (denotes out) c"
proof -
  from assms(1) obtain names up where out: "out = RootDir # up @ map Normal names" "up = [] \<or> up = [ParentDir]"
    by (rule anchoredE)
  have d: "denotes out = names" using out by (simp add: denotes_anchored)
  have snoc: "anchored (out @ [Normal n]) \<and> denotes (out @ [Normal n]) = names @ [n]" for n
  proof -
    have e: "out @ [Normal n] = RootDir # up @ map Normal (names @ [n])" using out(1) by simp
    show ?thesis unfolding e using out(2) denotes_anchored [of up "names @ [n]"] unfolding anchored_def by blast
  qed
  show ?thesis
  proof (cases c)
    case ParentDir
    show ?thesis
    proof (cases names rule: rev_cases)
      case Nil
      then show ?thesis using out ParentDir d by (auto simp: path_pop_def anchored_def denotes_def)
    next
      case (snoc ns n)
      then have e: "normalize_step out ParentDir = RootDir # up @ map Normal ns"
        using out by (simp add: path_pop_def butlast_append)
      show ?thesis unfolding ParentDir e d using out(2) snoc denotes_anchored [of up ns]
        unfolding anchored_def by auto
    qed
  qed (use assms d snoc in auto)
qed

lemma normalize_fold:
  "anchored out \<Longrightarrow> RootDir \<notin> set cs \<Longrightarrow>
    anchored (foldl normalize_step out cs) \<and> denotes (foldl normalize_step out cs) = foldl walk (denotes out) cs"
proof (induction cs arbitrary: out)
  case (Cons c cs)
  then show ?case using normalize_step_anchored [of out c] by auto
qed simp

lemma anchored_root: "anchored [RootDir]"
  unfolding anchored_def by (rule exI [of _ "[]"], rule exI [of _ "[]"]) simp

lemma normalize_absolute:
  assumes "is_absolute p" "wf_path p"
  shows "anchored (lexically_normalize p) \<and> denotes (lexically_normalize p) = denotes p"
proof -
  from assms obtain q where "p = RootDir # q" "RootDir \<notin> set q" by (auto simp: is_absolute_iff wf_path_def)
  then show ?thesis using normalize_fold [OF anchored_root, of q] by (simp add: lexically_normalize_def denotes_def)
qed

lemma walk_filter: "foldl walk at (filter (\<lambda>c. c \<noteq> CurDir) q) = foldl walk at q"
  by (induction q arbitrary: at) auto

lemma denotes_join:
  "is_absolute p \<Longrightarrow> denotes (join p q) = (if is_absolute q then denotes q else foldl walk (denotes p) q)"
  by (auto simp: join_def denotes_def walk_filter)

lemma anchored_absolute: "anchored p \<Longrightarrow> is_absolute p"
  by (auto simp: anchored_def)

lemma anchored_wf: "anchored p \<Longrightarrow> wf_path p"
  by (auto simp: anchored_def wf_path_def)

lemma relative_rootless: "wf_path q \<Longrightarrow> \<not> is_absolute q \<Longrightarrow> RootDir \<notin> set q"
  by (cases q) (auto simp: wf_path_def)

lemma join_relative:
  assumes "anchored p" "wf_path q" "\<not> is_absolute q"
  shows "is_absolute (join p q) \<and> wf_path (join p q)"
proof -
  from assms(1) obtain up names where "p = RootDir # up @ map Normal names" "up = [] \<or> up = [ParentDir]"
    by (rule anchoredE)
  then have "p = RootDir # (up @ map Normal names)" "RootDir \<notin> set (up @ map Normal names)" by auto
  then show ?thesis using assms(3) relative_rootless [OF assms(2,3)] by (auto simp: join_def wf_path_def)
qed

lemma prefix_names [simp]: "prefix (map Normal m) (map Normal n) \<longleftrightarrow> prefix m n"
proof (induction m arbitrary: n)
  case (Cons a m)
  then show ?case by (cases n) auto
qed simp

lemma anchored_prefix:
  assumes "anchored p" "anchored q" "prefix p q"
  shows "prefix (denotes p) (denotes q)"
proof -
  obtain m u where p: "p = RootDir # u @ map Normal m" "u = [] \<or> u = [ParentDir]" using assms(1) by (rule anchoredE)
  obtain n v where q: "q = RootDir # v @ map Normal n" "v = [] \<or> v = [ParentDir]" using assms(2) by (rule anchoredE)
  have "prefix m n"
  proof (cases "u = v")
    case True
    with p q assms(3) show ?thesis by simp
  next
    case False
    with p q assms(3) show ?thesis by (cases m; cases n) auto
  qed
  with p q show ?thesis by (simp add: denotes_anchored)
qed

lemma resolve_candidate:
  assumes "resolve_within base input = Inr p" "wf_path base" "wf_path input"
  shows "anchored p \<and> prefix (lexically_normalize base) p \<and> is_absolute base
    \<and> denotes p = denotes (join base input)"
proof -
  have b: "is_absolute base" using assms(1) by (auto simp: resolve_within_def split: if_splits)
  note nb = normalize_absolute [OF b assms(2)]
  show ?thesis
  proof (cases "is_absolute input")
    case True
    then show ?thesis
      using assms(1) b normalize_absolute [OF True assms(3)]
      by (auto simp: resolve_within_def starts_with_def join_def Let_def split: if_splits)
  next
    case False
    note j = join_relative [OF conjunct1 [OF nb] assms(3) False]
    have "denotes (join (lexically_normalize base) input) = denotes (join base input)"
      using False b nb anchored_absolute by (simp add: denotes_join)
    then show ?thesis
      using assms(1) b False normalize_absolute [of "join (lexically_normalize base) input"] j
      by (auto simp: resolve_within_def starts_with_def Let_def split: if_splits)
  qed
qed

text \<open>The path guard confines every path.  Whatever root and argument are given, with any mix of
  \<open>.\<close>, \<open>..\<close>, repeated separators and absolute spellings, a path the guard returns is absolute, free of \<open>.\<close>
  and names the same place as the argument read from the root, and that place lies in the root.\<close>

theorem guard_confines:
  assumes "resolve_within (components base) (components input) = Inr p"
  shows "is_absolute p \<and> CurDir \<notin> set p
    \<and> denotes p = denotes (join (components base) (components input))
    \<and> prefix (denotes (components base)) (denotes p)"
proof -
  note c = resolve_candidate [OF assms components_wf components_wf]
  have nb: "anchored (lexically_normalize (components base))"
    "denotes (lexically_normalize (components base)) = denotes (components base)"
    using c normalize_absolute [of "components base"] by auto
  have "prefix (denotes (components base)) (denotes p)"
    using anchored_prefix [OF nb(1)] nb(2) c by metis
  with c show ?thesis by (auto simp: anchored_def)
qed

text \<open>Arguments that never climb above the root of the file system are not refused without need.\<close>

fun climbs :: "nat \<Rightarrow> path \<Rightarrow> bool" where
  "climbs d [] = False"
| "climbs d (RootDir # cs) = climbs 0 cs"
| "climbs d (CurDir # cs) = climbs d cs"
| "climbs d (ParentDir # cs) = (d = 0 \<or> climbs (d - 1) cs)"
| "climbs d (Normal n # cs) = climbs (Suc d) cs"

lemma normalize_unclimbing:
  "\<not> climbs (length at) cs \<Longrightarrow> RootDir \<notin> set cs \<Longrightarrow>
    foldl normalize_step (RootDir # map Normal at) cs = RootDir # map Normal (foldl walk at cs)"
proof (induction cs arbitrary: at)
  case (Cons c cs)
  show ?case
  proof (cases c)
    case ParentDir
    with Cons.prems obtain ns n where "at = ns @ [n]" by (cases at rule: rev_cases) auto
    with Cons ParentDir show ?thesis by (simp add: path_pop_def butlast_append)
  next
    case (Normal n)
    with Cons.prems Cons.IH [of "at @ [n]"] show ?thesis by simp
  qed (use Cons in auto)
qed simp

lemma normalize_filter: "foldl normalize_step out (filter (\<lambda>c. c \<noteq> CurDir) q) = foldl normalize_step out q"
  by (induction q arbitrary: out) auto

lemma climbs_names [simp]: "\<not> climbs d (map Normal names)"
  by (induction names arbitrary: d) auto

text \<open>C19: The path guard is exact.  As long as neither root nor argument climbs above the root of the file
  system, the guard accepts an argument exactly when the place it names lies in the root, and answers
  with the shortest path to that place.\<close>

theorem guard_exact:
  assumes "prefix ''/'' base" "\<not> climbs 0 (components base)"
    and "\<not> climbs (if prefix ''/'' input then 0 else length (denotes (components base))) (components input)"
  defines "place \<equiv> denotes (join (components base) (components input))"
  shows "resolve_within (components base) (components input) =
     (if prefix (denotes (components base)) place then Inr (RootDir # map Normal place)
      else Inl ((if prefix ''/'' input then AbsoluteNotInRoot else PathOutsideRoot) (components input)))"
proof -
  let ?b = "components base" and ?i = "components input"
  have abs_norm: "lexically_normalize p = RootDir # map Normal (denotes p)"
    if "is_absolute p" "wf_path p" "\<not> climbs 0 p" for p
    using that normalize_unclimbing [of "[]" "drop 1 p"]
    by (auto simp: is_absolute_iff wf_path_def lexically_normalize_def denotes_def)
  have b: "is_absolute ?b" using assms(1) by (simp add: components_absolute)
  note nb = abs_norm [OF b components_wf assms(2)]
  show ?thesis
  proof (cases "prefix ''/'' input")
    case True
    then have i: "is_absolute ?i" by (simp add: components_absolute)
    then show ?thesis
      using b nb abs_norm [OF i components_wf] assms(3) True
      by (simp add: resolve_within_def starts_with_def Let_def place_def join_def)
  next
    case False
    then have i: "\<not> is_absolute ?i" by (simp add: components_absolute)
    have "lexically_normalize (join (lexically_normalize ?b) ?i)
        = foldl normalize_step (RootDir # map Normal (denotes ?b)) ?i"
    proof -
      have "RootDir \<notin> set (map Normal (denotes ?b))" by auto
      with normalize_unclimbing [of "[]" "map Normal (denotes ?b)"] i show ?thesis
        unfolding nb by (simp add: join_def lexically_normalize_def normalize_filter)
    qed
    also have "\<dots> = RootDir # map Normal place"
      using normalize_unclimbing [of "denotes ?b" ?i] assms(3) False i b relative_rootless [OF components_wf i]
      by (simp add: place_def denotes_join)
    finally show ?thesis
      using b nb i False by (simp add: resolve_within_def starts_with_def Let_def)
  qed
qed

subsection \<open>Where tenants and projects live\<close>

datatype layout_mode = MultiTenant path | SingleProject path

record layout =
  ly_mode :: layout_mode
  ly_explicit :: "path option"

definition new_layout :: "path \<Rightarrow> workspace_error + layout" where
  "new_layout data_root =
     (if \<not> is_absolute data_root then Inl (RootNotAbsolute data_root)
      else Inr \<lparr>ly_mode = MultiTenant data_root, ly_explicit = None\<rparr>)"

definition single_project :: "path \<Rightarrow> workspace_error + layout" where
  "single_project workspace_root =
     (if \<not> is_absolute workspace_root then Inl (RootNotAbsolute workspace_root)
      else Inr \<lparr>ly_mode = SingleProject workspace_root, ly_explicit = None\<rparr>)"

definition with_explicit_workspace :: "layout \<Rightarrow> path \<Rightarrow> workspace_error + layout" where
  "with_explicit_workspace l dir =
     (if \<not> is_absolute dir then Inl (RootNotAbsolute dir) else Inr (l\<lparr>ly_explicit := Some dir\<rparr>))"

definition data_root :: "layout \<Rightarrow> path" where
  "data_root l = (case ly_mode l of MultiTenant r \<Rightarrow> r | SingleProject r \<Rightarrow> r)"

definition tenant_root :: "layout \<Rightarrow> string \<Rightarrow> path" where
  "tenant_root l tenant =
     (case ly_mode l of
        MultiTenant r \<Rightarrow> join r (components tenant)
      | SingleProject r \<Rightarrow> join (join r (components ''.snaca'')) (components ''tenant''))"

definition project_root :: "layout \<Rightarrow> string \<Rightarrow> string \<Rightarrow> path" where
  "project_root l tenant project =
     (case ly_mode l of
        MultiTenant r \<Rightarrow> join (join (tenant_root l tenant) (components ''projects'')) (components project)
      | SingleProject r \<Rightarrow> join r (components ''.snaca''))"

definition workspace_dir :: "layout \<Rightarrow> string \<Rightarrow> string \<Rightarrow> path" where
  "workspace_dir l tenant project =
     (case ly_explicit l of
        Some dir \<Rightarrow> dir
      | None \<Rightarrow>
          (case ly_mode l of
             MultiTenant r \<Rightarrow> join (project_root l tenant project) (components ''workspace'')
           | SingleProject r \<Rightarrow> r))"

definition tenant_settings :: "layout \<Rightarrow> string \<Rightarrow> path" where
  "tenant_settings l tenant = join (tenant_root l tenant) (components ''settings.json'')"

definition tenant_skills_dir :: "layout \<Rightarrow> string \<Rightarrow> path" where
  "tenant_skills_dir l tenant = join (tenant_root l tenant) (components ''skills'')"

definition memory_dir :: "layout \<Rightarrow> string \<Rightarrow> string \<Rightarrow> path" where
  "memory_dir l tenant project = join (project_root l tenant project) (components ''memory'')"

definition project_settings :: "layout \<Rightarrow> string \<Rightarrow> string \<Rightarrow> path" where
  "project_settings l tenant project = join (project_root l tenant project) (components ''settings.json'')"

definition project_skills_dir :: "layout \<Rightarrow> string \<Rightarrow> string \<Rightarrow> path" where
  "project_skills_dir l tenant project = join (project_root l tenant project) (components ''skills'')"

text \<open>The directories \<open>ensure_project\<close> creates, in order.\<close>

definition ensure_project :: "layout \<Rightarrow> string \<Rightarrow> string \<Rightarrow> path list" where
  "ensure_project l tenant project =
     workspace_dir l tenant project #
     map (\<lambda>sub. join (memory_dir l tenant project) (components sub)) [''user'', ''project'', ''reference'', ''feedback'']"

text \<open>A name that is one ordinary path component.\<close>

definition plain_name :: "string \<Rightarrow> bool" where
  "plain_name s \<longleftrightarrow> components s = [Normal s]"

lemma fixed_names [simp]:
  "components ''projects'' = [Normal ''projects'']" "components ''workspace'' = [Normal ''workspace'']"
  by (simp_all add: components_def component_of_def Let_def)

lemma join_plain: "is_absolute p \<Longrightarrow> plain_name s \<Longrightarrow>
    is_absolute (join p (components s)) \<and> denotes (join p (components s)) = denotes p @ [s]"
  by (cases p rule: is_absolute.cases) (auto simp: plain_name_def join_def denotes_def)

lemma project_root_denotes:
  assumes "is_absolute r" "plain_name t" "plain_name p"
  shows "is_absolute (project_root \<lparr>ly_mode = MultiTenant r, ly_explicit = e\<rparr> t p)
    \<and> denotes (project_root \<lparr>ly_mode = MultiTenant r, ly_explicit = e\<rparr> t p) = denotes r @ [t, ''projects'', p]"
proof -
  have "plain_name ''projects''" by (simp add: plain_name_def)
  with assms show ?thesis
    by (simp add: project_root_def tenant_root_def join_plain del: fixed_names)
qed

text \<open>C20: Projects are isolated by the guard.  In a multi-tenant layout without a pinned workspace, a path
  the guard returns for one project never lies in the directory of another project or tenant, be it
  their files, memory, skills or settings, whatever path the model asks for, as long as tenant and
  project ids are ordinary file names.\<close>

theorem projects_isolated:
  assumes "prefix ''/'' r" "plain_name t" "plain_name p" "plain_name t'" "plain_name p'" "(t, p) \<noteq> (t', p')"
    and "l = \<lparr>ly_mode = MultiTenant (components r), ly_explicit = None\<rparr>"
    and "resolve_within (workspace_dir l t p) (components i) = Inr q"
  shows "\<not> prefix (denotes (project_root l t' p')) (denotes q)"
proof
  assume inside: "prefix (denotes (project_root l t' p')) (denotes q)"
  let ?r = "components r"
  have r: "is_absolute ?r" using assms(1) by (simp add: components_absolute)
  have w: "plain_name ''workspace''" by (simp add: plain_name_def)
  note own = project_root_denotes [OF r assms(2,3), of None, folded assms(7)]
  note other = project_root_denotes [OF r assms(4,5), of None, folded assms(7)]
  have dir: "workspace_dir l t p = join (project_root l t p) (components ''workspace'')"
    by (simp add: workspace_dir_def assms(7) del: fixed_names)
  have dd: "is_absolute (workspace_dir l t p)" "denotes (workspace_dir l t p) = denotes ?r @ [t, ''projects'', p, ''workspace'']"
    using own join_plain [of "project_root l t p", OF _ w] by (simp_all add: dir del: fixed_names)
  have "wf_path (workspace_dir l t p)"
    using assms(2,3) r components_wf [of r]
    unfolding dir
    unfolding project_root_def tenant_root_def assms(7)
    by (auto simp: plain_name_def join_def is_absolute_iff wf_path_def)
  note c = resolve_candidate [OF assms(8) this components_wf]
  have nb: "anchored (lexically_normalize (workspace_dir l t p))"
    "denotes (lexically_normalize (workspace_dir l t p)) = denotes (workspace_dir l t p)"
    using normalize_absolute [OF dd(1) \<open>wf_path (workspace_dir l t p)\<close>] by auto
  have "prefix (denotes (workspace_dir l t p)) (denotes q)"
    using anchored_prefix [OF nb(1)] nb(2) c by metis
  then obtain rest where "denotes q = denotes ?r @ [t, ''projects'', p, ''workspace''] @ rest"
    using dd(2) by (auto simp: prefix_def)
  with inside other have "prefix [t', ''projects'', p'] [t, ''projects'', p, ''workspace'']"
    by (auto simp: prefix_def)
  with assms(6) show False by auto
qed

text \<open>A tenant id that is a path leaves the data directory.  Ids are joined to the data directory as
  they are: an absolute id replaces it, one of dots climbs out of it, and the guard confines the tools
  to the directory that results.\<close>

theorem tenant_id_escapes_data_root:
  "workspace_dir \<lparr>ly_mode = MultiTenant (components ''/data''), ly_explicit = None\<rparr> ''/etc'' ''p''
     = components ''/etc/projects/p/workspace''
   \<and> denotes (workspace_dir \<lparr>ly_mode = MultiTenant (components ''/data''), ly_explicit = None\<rparr> ''..'' ''p'')
     = [''projects'', ''p'', ''workspace'']
   \<and> resolve_within (workspace_dir \<lparr>ly_mode = MultiTenant (components ''/data''), ly_explicit = None\<rparr> ''..'' ''p'')
       (components ''a'') = Inr (components ''/projects/p/workspace/a'')"
  by code_simp

theorem guard_confines_witness:
  "prefix (denotes (components ''/w/x'')) (denotes (components ''/w/x/b''))"
proof -
  have "resolve_within (components ''/w//x/'') (components ''./a/../b'') = Inr (components ''/w/x/b'')" by code_simp
  from guard_confines [OF this] show ?thesis by code_simp
qed

theorem guard_exact_witness:
  "resolve_within (components ''/w'') (components ''a/../../v'') = Inl (PathOutsideRoot (components ''a/../../v''))
   \<and> resolve_within (components ''/w'') (components ''../w/v'') = Inr (components ''/w/v'')"
proof -
  have a: "prefix ''/'' ''/w''" "\<not> climbs 0 (components ''/w'')" by code_simp+
  have b: "\<not> climbs (if prefix ''/'' ''a/../../v'' then 0 else length (denotes (components ''/w''))) (components ''a/../../v'')"
    "\<not> climbs (if prefix ''/'' ''../w/v'' then 0 else length (denotes (components ''/w''))) (components ''../w/v'')"
    by code_simp+
  have e: "\<not> prefix (denotes (components ''/w'')) (denotes (join (components ''/w'') (components ''a/../../v'')))"
    "\<not> prefix ''/'' ''a/../../v''"
    "prefix (denotes (components ''/w'')) (denotes (join (components ''/w'') (components ''../w/v'')))"
    "RootDir # map Normal (denotes (join (components ''/w'') (components ''../w/v''))) = components ''/w/v''"
    by code_simp+
  show ?thesis
    unfolding guard_exact [OF a b(1)] guard_exact [OF a b(2)] using e by simp
qed

theorem projects_isolated_witness:
  "\<not> prefix (denotes (project_root \<lparr>ly_mode = MultiTenant (components ''/data''), ly_explicit = None\<rparr> ''u'' ''p''))
     (denotes (components ''/data/t/projects/p/workspace/x''))"
proof -
  let ?l = "\<lparr>ly_mode = MultiTenant (components ''/data''), ly_explicit = None\<rparr>"
  have "plain_name ''t'' \<and> plain_name ''u'' \<and> plain_name ''p'' \<and> prefix ''/'' ''/data''" by code_simp
  moreover have "resolve_within (workspace_dir ?l ''t'' ''p'') (components ''y/../x'')
      = Inr (components ''/data/t/projects/p/workspace/x'')" by code_simp
  ultimately show ?thesis
    by (intro projects_isolated [where t = "''t''" and p = "''p''" and r = "''/data''"]) simp_all
qed

end
