(* ===== verification/Tasks.thy ===== *)
theory Tasks
  imports Texts Tool_Calls
begin

text \<open>
  Background tasks of \<open>crates/snaca-tools\<close>: the tail-keeping output buffers and the registry of
  \<open>task_registry.rs\<close>, and the tools that read and stop a task (\<open>task_output.rs\<close>, \<open>task_stop.rs\<close>).

  The registry holds the handles in the order they were spawned; \<open>HashMap::values\<close> promises no order.  A
  child process is what the registry can observe of it: whether it runs and with what status it ended.
  The lock of a handle's child, the process, the reaper and the callers of \<open>stop\<close> are the parts of the
  step relation \<open>task_step\<close>.  The message of a failed deserialisation is an argument.
\<close>

subsection \<open>Output buffers\<close>

definition STREAM_CAP_BYTES :: nat where
  "STREAM_CAP_BYTES = 256 * 1024"

record ring_bytes =
  rb_data :: string
  rb_truncated :: bool

definition ring_default :: ring_bytes where
  "ring_default = \<lparr>rb_data = [], rb_truncated = False\<rparr>"

definition ring_append :: "ring_bytes \<Rightarrow> string \<Rightarrow> ring_bytes" where
  "ring_append r chunk =
     (if length (rb_data r) + length chunk \<le> STREAM_CAP_BYTES then r\<lparr>rb_data := rb_data r @ chunk\<rparr>
      else
        (let sum = length (rb_data r) + length chunk;
             excess = sum - STREAM_CAP_BYTES
         in if length (rb_data r) \<le> excess then
              (let keep = min (length chunk) STREAM_CAP_BYTES
               in \<lparr>rb_data = drop (length chunk - keep) chunk, rb_truncated = True\<rparr>)
            else \<lparr>rb_data = drop excess (rb_data r) @ chunk, rb_truncated = True\<rparr>))"

definition ring_snapshot :: "ring_bytes \<Rightarrow> string \<times> bool" where
  "ring_snapshot r = (from_utf8_lossy (rb_data r), rb_truncated r)"

text \<open>\<open>pump\<close> appends every non-empty read until the stream ends or fails (\<open>None\<close>).\<close>

fun pump :: "string option list \<Rightarrow> ring_bytes \<Rightarrow> ring_bytes" where
  "pump [] r = r"
| "pump (None # reads) r = r"
| "pump (Some chunk # reads) r = (if chunk = [] then r else pump reads (ring_append r chunk))"

definition ring_of :: "string \<Rightarrow> ring_bytes" where
  "ring_of s = \<lparr>rb_data = drop (length s - STREAM_CAP_BYTES) s, rb_truncated = (STREAM_CAP_BYTES < length s)\<rparr>"

lemma ring_append_of: "ring_append (ring_of s) chunk = ring_of (s @ chunk)"
proof (cases "length s + length chunk \<le> STREAM_CAP_BYTES")
  case True
  then show ?thesis by (simp add: ring_append_def ring_of_def)
next
  case False
  show ?thesis
  proof (cases "length s \<le> STREAM_CAP_BYTES")
    case True
    with False show ?thesis by (auto simp: ring_append_def ring_of_def Let_def min_def)
  next
    case long: False
    have "drop (length chunk) (drop (length s - STREAM_CAP_BYTES) s) = drop (length s + length chunk - STREAM_CAP_BYTES) s"
      using long by (simp add: add.commute)
    with long show ?thesis by (auto simp: ring_append_def ring_of_def Let_def min_def)
  qed
qed

text \<open>What a stream delivered before it ended.\<close>

fun delivered :: "string option list \<Rightarrow> string" where
  "delivered [] = []"
| "delivered (None # reads) = []"
| "delivered (Some chunk # reads) = (if chunk = [] then [] else chunk @ delivered reads)"

text \<open>An output buffer holds the end of the stream.  However the output of a task is cut into reads,
  the buffer holds its last 256 KiB, and says it is truncated exactly when the stream was longer.\<close>

theorem pump_keeps_tail:
  "pump reads ring_default =
     \<lparr>rb_data = drop (length (delivered reads) - STREAM_CAP_BYTES) (delivered reads),
      rb_truncated = (STREAM_CAP_BYTES < length (delivered reads))\<rparr>"
proof -
  have "pump reads (ring_of s) = ring_of (s @ delivered reads)" for s
    by (induction reads arbitrary: s rule: delivered.induct) (simp_all add: ring_append_of)
  from this [of "[]"] show ?thesis by (simp add: ring_of_def ring_default_def)
qed

subsection \<open>Handles\<close>

datatype task_status = Running | Exited int | Killed

fun status_str :: "task_status \<Rightarrow> string" where
  "status_str Running = ''running''"
| "status_str (Exited _) = ''exited''"
| "status_str Killed = ''killed''"

text \<open>A process runs, with or without a kill signal under way, or has ended with a code, or none when a
  signal ended it.\<close>

datatype process = Alive bool | Ended "int option"

text \<open>The reaper holds the lock of the child from its start until the process has ended.\<close>

datatype reaper = NotStarted | Waiting | Finished

record task_handle =
  th_id :: string
  th_cmd :: string
  th_started :: nat
  th_tenant :: tenant_id
  th_project :: project_id
  th_thread :: thread_id
  th_status :: task_status
  th_stdout :: ring_bytes
  th_stderr :: ring_bytes
  th_child :: bool
  th_process :: process
  th_reaper :: reaper
  th_stoppers :: nat

type_synonym task_registry = "task_handle list"

definition stamp :: "task_handle \<Rightarrow> task_status \<Rightarrow> task_handle" where
  "stamp h s = (if th_status h = Killed then h else h\<lparr>th_status := s\<rparr>)"

definition start_kill :: "task_handle \<Rightarrow> task_handle" where
  "start_kill h =
     (if th_child h then (case th_process h of Alive _ \<Rightarrow> h\<lparr>th_process := Alive True\<rparr> | Ended _ \<Rightarrow> h) else h)"

datatype task_event =
    ReaperLocks
  | ProcessEnds "int option"
  | WaitReturns
  | WaitFails
  | StopMarks
  | StopKills
  | RegistryDrops
  | StdoutRead string
  | StderrRead string

text \<open>One event of a task, \<open>None\<close> when it cannot happen.  Between \<open>StopMarks\<close> and \<open>StopKills\<close> a caller of
  \<open>stop\<close> waits for the lock; the drop of the registry only tries it.  A child dropped after a failed wait is
  killed, as \<open>Bash\<close> asks with \<open>kill_on_drop\<close>.\<close>

fun task_step :: "task_event \<Rightarrow> task_handle \<Rightarrow> task_handle option" where
  "task_step ReaperLocks h =
     (if th_reaper h = NotStarted then Some (h\<lparr>th_reaper := (if th_child h then Waiting else Finished)\<rparr>) else None)"
| "task_step (ProcessEnds code) h =
     (case th_process h of Alive _ \<Rightarrow> Some (h\<lparr>th_process := Ended code\<rparr>) | Ended _ \<Rightarrow> None)"
| "task_step WaitReturns h =
     (case (th_reaper h, th_process h) of
        (Waiting, Ended (Some code)) \<Rightarrow> Some ((stamp h (Exited code))\<lparr>th_child := False, th_reaper := Finished\<rparr>)
      | (Waiting, Ended None) \<Rightarrow> Some ((stamp h Killed)\<lparr>th_child := False, th_reaper := Finished\<rparr>)
      | _ \<Rightarrow> None)"
| "task_step WaitFails h =
     (if th_reaper h = Waiting then Some ((start_kill (stamp h (Exited (- 1))))\<lparr>th_child := False, th_reaper := Finished\<rparr>)
      else None)"
| "task_step StopMarks h = Some (h\<lparr>th_status := Killed, th_stoppers := th_stoppers h + 1\<rparr>)"
| "task_step StopKills h =
     (if th_reaper h \<noteq> Waiting \<and> 0 < th_stoppers h
      then Some ((start_kill h)\<lparr>th_stoppers := th_stoppers h - 1\<rparr>) else None)"
| "task_step RegistryDrops h = Some (if th_reaper h \<noteq> Waiting then start_kill h else h)"
| "task_step (StdoutRead chunk) h = Some (h\<lparr>th_stdout := ring_append (th_stdout h) chunk\<rparr>)"
| "task_step (StderrRead chunk) h = Some (h\<lparr>th_stderr := ring_append (th_stderr h) chunk\<rparr>)"

fun task_steps :: "task_event list \<Rightarrow> task_handle \<Rightarrow> task_handle option" where
  "task_steps [] h = Some h"
| "task_steps (e # es) h = (case task_step e h of None \<Rightarrow> None | Some h' \<Rightarrow> task_steps es h')"

definition new_handle ::
  "string \<Rightarrow> nat \<Rightarrow> tenant_id \<Rightarrow> project_id \<Rightarrow> thread_id \<Rightarrow> string \<Rightarrow> task_handle" where
  "new_handle i now tenant project thread cmd =
     \<lparr>th_id = i, th_cmd = cmd, th_started = now, th_tenant = tenant, th_project = project, th_thread = thread,
      th_status = Running, th_stdout = ring_default, th_stderr = ring_default, th_child = True,
      th_process = Alive False, th_reaper = NotStarted, th_stoppers = 0\<rparr>"

lemma task_step_Killed: "task_step e h = Some h' \<Longrightarrow> th_status h = Killed \<Longrightarrow> th_status h' = Killed"
  by (cases e) (auto simp: stamp_def start_kill_def split: if_splits process.splits reaper.splits option.splits)

lemma task_step_owner:
  "task_step e h = Some h' \<Longrightarrow>
    th_id h' = th_id h \<and> th_tenant h' = th_tenant h \<and> th_project h' = th_project h \<and> th_cmd h' = th_cmd h"
  by (cases e) (auto simp: stamp_def start_kill_def split: if_splits process.splits reaper.splits option.splits)

subsection \<open>Kill and exit\<close>

text \<open>What is true of a handle in every state.\<close>

definition task_ok :: "task_handle \<Rightarrow> bool" where
  "task_ok h \<longleftrightarrow>
     th_child h = (th_reaper h \<noteq> Finished)
     \<and> (th_reaper h \<noteq> Finished \<longrightarrow> (\<forall>c. th_status h \<noteq> Exited c))
     \<and> (th_status h = Running \<longrightarrow> th_reaper h \<noteq> Finished \<and> th_stoppers h = 0)"

lemma task_step_ok: "task_step e h = Some h' \<Longrightarrow> task_ok h \<Longrightarrow> task_ok h'"
  by (cases e) (auto simp: task_ok_def stamp_def start_kill_def split: if_splits process.splits reaper.splits option.splits)

lemma task_steps_ok: "task_steps es h = Some h' \<Longrightarrow> task_ok h \<Longrightarrow> task_ok h'"
  by (induction es arbitrary: h) (auto simp: task_step_ok split: option.splits)

lemma task_steps_Killed: "task_steps es h = Some h' \<Longrightarrow> th_status h = Killed \<Longrightarrow> th_status h' = Killed"
  by (induction es arbitrary: h) (auto dest: task_step_Killed split: option.splits)

lemma new_handle_ok: "task_ok (new_handle i now tenant project thread cmd)"
  by (simp add: task_ok_def new_handle_def)

definition ends_process :: "task_event \<Rightarrow> bool" where
  "ends_process e \<longleftrightarrow> (case e of ProcessEnds _ \<Rightarrow> True | WaitFails \<Rightarrow> True | _ \<Rightarrow> False)"

lemma waiting_step:
  "task_step e h = Some h' \<Longrightarrow> \<not> ends_process e \<Longrightarrow> th_reaper h = Waiting \<Longrightarrow> th_process h = Alive False \<Longrightarrow>
    th_reaper h' = Waiting \<and> th_process h' = Alive False \<and> th_stoppers h \<le> th_stoppers h'"
  by (cases e) (auto simp: ends_process_def split: if_splits)

lemma waiting_steps:
  "task_steps es h = Some h' \<Longrightarrow> list_all (\<lambda>e. \<not> ends_process e) es \<Longrightarrow> th_reaper h = Waiting \<Longrightarrow> th_process h = Alive False \<Longrightarrow>
    th_reaper h' = Waiting \<and> th_process h' = Alive False \<and> th_stoppers h \<le> th_stoppers h'"
proof (induction es arbitrary: h)
  case (Cons e es)
  from Cons.prems(1) obtain h1 where s: "task_step e h = Some h1" "task_steps es h1 = Some h'"
    by (auto split: option.splits)
  with waiting_step [OF s(1)] Cons.prems Cons.IH [OF s(2)] show ?case by fastforce
qed simp

text \<open>Stopping a running task does not kill it.  Once the reaper waits for the process, it holds the
  lock a kill needs: after a stop, and whatever else happens short of the process ending by itself,
  the task is reported as killed while its process runs without any signal, the caller of the stop
  still waits, and dropping the registry kills nothing either.\<close>

theorem stop_never_kills_awaited:
  assumes "th_reaper h = Waiting" "th_process h = Alive False" "list_all (\<lambda>e. \<not> ends_process e) es"
    and "task_steps (StopMarks # es) h = Some h'"
  shows "th_status h' = Killed \<and> th_process h' = Alive False \<and> th_stoppers h < th_stoppers h'
    \<and> task_step StopKills h' = None \<and> task_step RegistryDrops h' = Some h'"
proof -
  let ?h = "h\<lparr>th_status := Killed, th_stoppers := th_stoppers h + 1\<rparr>"
  have run: "task_steps es ?h = Some h'" using assms(4) by simp
  show ?thesis using waiting_steps [OF run assms(3)] task_steps_Killed [OF run] assms(1,2) by simp
qed

lemma started_steps:
  "task_steps [ReaperLocks, StdoutRead x] (new_handle i n t p c s) =
     Some ((new_handle i n t p c s)\<lparr>th_reaper := Waiting, th_stdout := ring_append ring_default x\<rparr>)"
  by (simp add: new_handle_def)

theorem stop_never_kills_awaited_witness:
  "\<exists>h h'. task_steps [ReaperLocks, StdoutRead ''x''] (new_handle ''i'' 0 ''t'' ''p'' ''c'' ''sleep 30'') = Some h
    \<and> task_steps [StopMarks, StdoutRead ''y'', RegistryDrops] h = Some h' \<and> th_status h' = Killed \<and> th_process h' = Alive False"
proof -
  let ?h = "(new_handle ''i'' 0 ''t'' ''p'' ''c'' ''sleep 30'')\<lparr>th_reaper := Waiting, th_stdout := ring_append ring_default ''x''\<rparr>"
  have b: "th_reaper ?h = Waiting" "th_process ?h = Alive False" by (simp_all add: new_handle_def)
  have c: "list_all (\<lambda>e. \<not> ends_process e) [StdoutRead ''y'', RegistryDrops]" by (simp add: ends_process_def)
  have "task_steps (StopMarks # [StdoutRead ''y'', RegistryDrops]) ?h \<noteq> None" using b(1) by simp
  then obtain h' where d: "task_steps (StopMarks # [StdoutRead ''y'', RegistryDrops]) ?h = Some h'" by blast
  with stop_never_kills_awaited [OF b c d] show ?thesis using started_steps by blast
qed

subsection \<open>The registry\<close>

definition reg_spawn ::
  "task_registry \<Rightarrow> string \<Rightarrow> nat \<Rightarrow> tenant_id \<Rightarrow> project_id \<Rightarrow> thread_id \<Rightarrow> string \<Rightarrow> task_registry" where
  "reg_spawn reg i now tenant project thread cmd =
     filter (\<lambda>h. th_id h \<noteq> i) reg @ [new_handle i now tenant project thread cmd]"

definition reg_get :: "task_registry \<Rightarrow> string \<Rightarrow> task_handle option" where
  "reg_get reg i = find (\<lambda>h. th_id h = i) reg"

definition owned :: "tenant_id \<Rightarrow> project_id \<Rightarrow> task_handle \<Rightarrow> bool" where
  "owned tenant project h \<longleftrightarrow> th_tenant h = tenant \<and> th_project h = project"

record task_snapshot =
  sn_id :: string
  sn_cmd :: string
  sn_status :: task_status
  sn_stdout :: "string \<times> bool"
  sn_stderr :: "string \<times> bool"
  sn_elapsed_ms :: nat

definition reg_snapshot ::
  "task_registry \<Rightarrow> nat \<Rightarrow> string \<Rightarrow> tenant_id \<Rightarrow> project_id \<Rightarrow> task_snapshot option" where
  "reg_snapshot reg now i tenant project =
     (case reg_get reg i of
        None \<Rightarrow> None
      | Some h \<Rightarrow>
          if \<not> owned tenant project h then None
          else Some \<lparr>sn_id = th_id h, sn_cmd = th_cmd h, sn_status = th_status h,
                     sn_stdout = ring_snapshot (th_stdout h), sn_stderr = ring_snapshot (th_stderr h),
                     sn_elapsed_ms = (now - th_started h) mod 2 ^ 64\<rparr>)"

definition reg_put :: "task_registry \<Rightarrow> task_handle \<Rightarrow> task_registry" where
  "reg_put reg h = map (\<lambda>g. if th_id g = th_id h then h else g) reg"

text \<open>\<open>stop\<close> with the events of the task while it waits for the lock (\<open>waiting\<close>) and during the pause
  before it returns (\<open>pause\<close>); the outer \<open>None\<close> when it does not return after these events.\<close>

definition reg_stop ::
  "task_registry \<Rightarrow> string \<Rightarrow> tenant_id \<Rightarrow> project_id \<Rightarrow> task_event list \<Rightarrow> task_event list
     \<Rightarrow> (task_status option \<times> task_registry) option" where
  "reg_stop reg i tenant project waiting pause =
     (case reg_get reg i of
        None \<Rightarrow> Some (None, reg)
      | Some h \<Rightarrow>
          if \<not> owned tenant project h then Some (None, reg)
          else (case task_steps (StopMarks # waiting @ StopKills # pause) h of
                  None \<Rightarrow> None
                | Some h' \<Rightarrow> Some (Some (th_status h'), reg_put reg h')))"

definition reg_list :: "task_registry \<Rightarrow> tenant_id \<Rightarrow> project_id \<Rightarrow> string list" where
  "reg_list reg tenant project = map th_id (filter (owned tenant project) reg)"

subsection \<open>The tools\<close>

text \<open>A struct of one string field as serde reads it: an object with the field, or an array of one string.\<close>

fun task_id_input :: "json \<Rightarrow> string option" where
  "task_id_input (JObject kvs) = (case map_of kvs ''task_id'' of Some (JString s) \<Rightarrow> Some s | _ \<Rightarrow> None)"
| "task_id_input (JArray [JString s]) = Some s"
| "task_id_input _ = None"

definition snapshot_json :: "task_snapshot \<Rightarrow> json" where
  "snapshot_json s = JObject
     [(''cmd'', JString (sn_cmd s)),
      (''elapsed_ms'', JNumber (show_nat (sn_elapsed_ms s))),
      (''exit_code'', (case sn_status s of Exited c \<Rightarrow> JNumber (show_int c) | _ \<Rightarrow> JNull)),
      (''status'', JString (status_str (sn_status s))),
      (''stderr'', JString (fst (sn_stderr s))),
      (''stderr_truncated'', JBool (snd (sn_stderr s))),
      (''stdout'', JString (fst (sn_stdout s))),
      (''stdout_truncated'', JBool (snd (sn_stdout s))),
      (''task_id'', JString (sn_id s))]"

definition no_registry :: tool_error where
  "no_registry = Execution (''no TaskRegistry attached '' @ em_dash @ '' background tasks are unavailable in this deployment'')"

definition task_not_found :: "string \<Rightarrow> tool_error" where
  "task_not_found i = NotFound (''task '' @ i @ '' not found'')"

definition task_output_execute ::
  "(json \<Rightarrow> string) \<Rightarrow> task_registry option \<Rightarrow> nat \<Rightarrow> tenant_id \<Rightarrow> project_id \<Rightarrow> json \<Rightarrow> tool_error + tool_output" where
  "task_output_execute serde_message attached now tenant project input =
     (case task_id_input input of
        None \<Rightarrow> Inl (InvalidInput (serde_message input))
      | Some i \<Rightarrow>
          (case attached of
             None \<Rightarrow> Inl no_registry
           | Some reg \<Rightarrow>
               (case reg_snapshot reg now i tenant project of
                  None \<Rightarrow> Inl (task_not_found i)
                | Some s \<Rightarrow> Inr (OutJson (snapshot_json s)))))"

definition task_stop_execute ::
  "(json \<Rightarrow> string) \<Rightarrow> task_registry option \<Rightarrow> tenant_id \<Rightarrow> project_id \<Rightarrow> task_event list \<Rightarrow> task_event list \<Rightarrow> json
     \<Rightarrow> ((tool_error + tool_output) \<times> task_registry option) option" where
  "task_stop_execute serde_message attached tenant project waiting pause input =
     (case task_id_input input of
        None \<Rightarrow> Some (Inl (InvalidInput (serde_message input)), attached)
      | Some i \<Rightarrow>
          (case attached of
             None \<Rightarrow> Some (Inl no_registry, attached)
           | Some reg \<Rightarrow>
               (case reg_stop reg i tenant project waiting pause of
                  None \<Rightarrow> None
                | Some (None, reg') \<Rightarrow> Some (Inl (task_not_found i), Some reg')
                | Some (Some status, reg') \<Rightarrow>
                    Some (Inr (OutJson (JObject [(''status'', JString (status_str status)), (''task_id'', JString i)])),
                          Some reg'))))"

text \<open>Ids are unique in a registry.\<close>

lemma reg_spawn_distinct: "distinct (map th_id reg) \<Longrightarrow> distinct (map th_id (reg_spawn reg i now t p th c))"
  by (auto simp: reg_spawn_def new_handle_def distinct_map_filter)

lemma reg_put_ids [simp]: "map th_id (reg_put reg h) = map th_id reg"
  by (induction reg) (auto simp: reg_put_def)

lemma find_owned:
  "distinct (map th_id reg) \<Longrightarrow>
    find (\<lambda>h. th_id h = i) (filter P reg) =
      (case find (\<lambda>h. th_id h = i) reg of Some h \<Rightarrow> if P h then Some h else None | None \<Rightarrow> None)"
proof (induction reg)
  case (Cons h reg)
  moreover have "find (\<lambda>h. th_id h = i) (filter P reg) = None" if "th_id h = i" "th_id h \<notin> th_id ` set reg"
    using that by (auto simp: find_None_iff image_iff)
  ultimately show ?case by auto
qed simp

lemma reg_put_get: "reg_get reg i = Some h \<Longrightarrow> th_id h' = i \<Longrightarrow> reg_get (reg_put reg h') i = Some h'"
  by (induction reg) (auto simp: reg_get_def reg_put_def split: if_splits)

lemma reg_put_foreign:
  "distinct (map th_id reg) \<Longrightarrow> h \<in> set reg \<Longrightarrow> owned tenant project h \<Longrightarrow> owned tenant project h' \<Longrightarrow> th_id h' = th_id h \<Longrightarrow>
    filter (\<lambda>h. \<not> owned tenant project h) (reg_put reg h') = filter (\<lambda>h. \<not> owned tenant project h) reg"
proof (induction reg)
  case (Cons g reg)
  show ?case
  proof (cases "th_id g = th_id h")
    case True
    with Cons.prems have "g = h" "th_id h \<notin> th_id ` set reg" by force+
    then have "reg_put reg h' = reg" using Cons.prems(5) by (auto simp: reg_put_def image_iff intro!: map_idI)
    with Cons.prems \<open>g = h\<close> show ?thesis by (simp add: reg_put_def)
  next
    case False
    with Cons show ?thesis by (auto simp: reg_put_def)
  qed
qed simp

lemma task_steps_owner:
  "task_steps es h = Some h' \<Longrightarrow> th_id h' = th_id h \<and> th_tenant h' = th_tenant h \<and> th_project h' = th_project h"
proof (induction es arbitrary: h)
  case (Cons e es)
  then show ?case by (auto split: option.splits dest!: task_step_owner)
qed simp

lemma reg_stop_keeps:
  assumes "distinct (map th_id reg)" "reg_stop reg i tenant project ws ps = Some (r, reg')"
  shows "filter (\<lambda>h. \<not> owned tenant project h) reg' = filter (\<lambda>h. \<not> owned tenant project h) reg"
proof -
  consider "reg' = reg" | h h' where "reg_get reg i = Some h" "owned tenant project h"
    "task_steps (StopMarks # ws @ StopKills # ps) h = Some h'" "reg' = reg_put reg h'"
    using assms(2) by (auto simp: reg_stop_def split: option.splits if_splits)
  then show ?thesis
  proof cases
    case 2
    then have "h \<in> set reg" by (auto simp: reg_get_def find_Some_iff)
    moreover have "owned tenant project h'" "th_id h' = th_id h"
      using 2(2) task_steps_owner [OF 2(3)] by (simp_all add: owned_def)
    ultimately show ?thesis using 2(2,4) reg_put_foreign [OF assms(1)] by simp
  qed simp
qed

text \<open>Tasks of others do not exist.  For a tenant and project, reading a task, listing tasks and stopping
  one answer as if the registry held their own tasks only, and a stop leaves the tasks of others as
  they are, so an id of another tenant is like one never given.\<close>

theorem foreign_tasks_invisible:
  assumes "distinct (map th_id reg)" and "mine = filter (owned tenant project) reg"
  shows "task_output_execute msg (Some reg) now tenant project input =
       task_output_execute msg (Some mine) now tenant project input
     \<and> reg_list reg tenant project = reg_list mine tenant project
     \<and> map_option fst (task_stop_execute msg (Some reg) tenant project ws ps input) =
       map_option fst (task_stop_execute msg (Some mine) tenant project ws ps input)
     \<and> (case task_stop_execute msg (Some reg) tenant project ws ps input of
          None \<Rightarrow> True
        | Some (_, reg') \<Rightarrow> map_option (filter (\<lambda>h. \<not> owned tenant project h)) reg' =
                             Some (filter (\<lambda>h. \<not> owned tenant project h) reg))"
proof -
  have get: "reg_get mine i = (case reg_get reg i of Some h \<Rightarrow> if owned tenant project h then Some h else None | None \<Rightarrow> None)" for i
    unfolding reg_get_def assms(2) by (rule find_owned [OF assms(1)])
  have out: "task_output_execute msg (Some reg) now tenant project input =
      task_output_execute msg (Some mine) now tenant project input"
    by (auto simp: task_output_execute_def reg_snapshot_def get split: option.splits)
  have stop: "map_option fst (reg_stop reg i tenant project ws ps) = map_option fst (reg_stop mine i tenant project ws ps)" for i
    by (auto simp: reg_stop_def get split: option.splits)
  have stops: "map_option fst (task_stop_execute msg (Some reg) tenant project ws ps input) =
      map_option fst (task_stop_execute msg (Some mine) tenant project ws ps input)"
  proof (cases "task_id_input input")
    case (Some i)
    with stop [of i] show ?thesis
      by (cases "reg_stop reg i tenant project ws ps"; cases "reg_stop mine i tenant project ws ps")
        (auto simp: task_stop_execute_def split: option.splits)
  qed (simp add: task_stop_execute_def)
  have keep: "filter (\<lambda>h. \<not> owned tenant project h) reg' = filter (\<lambda>h. \<not> owned tenant project h) reg"
    if "reg_stop reg i tenant project ws ps = Some (r, reg')" for i r reg'
    using that reg_stop_keeps [OF assms(1)] by blast
  have "case task_stop_execute msg (Some reg) tenant project ws ps input of
      None \<Rightarrow> True
    | Some (_, reg') \<Rightarrow> map_option (filter (\<lambda>h. \<not> owned tenant project h)) reg' =
                         Some (filter (\<lambda>h. \<not> owned tenant project h) reg)"
    by (auto simp: task_stop_execute_def keep split: option.splits)
  with out stops show ?thesis by (simp add: assms(2) reg_list_def)
qed

text \<open>Stopping a finished task erases how it ended.  A task that ended by itself is marked as killed by a
  later stop, which answers so, and its exit code is gone from then on.\<close>

theorem stop_erases_exit_code:
  assumes "reg_get reg i = Some h" "owned tenant project h" "th_reaper h = Finished" "th_status h = Exited code"
    and "distinct (map th_id reg)"
  shows "\<exists>reg' s. reg_stop reg i tenant project [] [] = Some (Some Killed, reg')
    \<and> reg_snapshot reg' now i tenant project = Some s \<and> sn_status s = Killed"
proof -
  let ?h = "(start_kill (h\<lparr>th_status := Killed, th_stoppers := th_stoppers h + 1\<rparr>))\<lparr>th_stoppers := th_stoppers h\<rparr>"
  have i: "th_id h = i" "h \<in> set reg" using assms(1) by (auto simp: reg_get_def find_Some_iff)
  have k: "th_id ?h = i" "th_status ?h = Killed" "owned tenant project ?h"
    using i(1) assms(2) by (simp_all add: start_kill_def owned_def split: process.splits)
  have "task_steps [StopMarks, StopKills] h = Some ?h"
    using assms(3) by (simp add: start_kill_def split: process.splits)
  then have "reg_stop reg i tenant project [] [] = Some (Some Killed, reg_put reg ?h)"
    using assms(1,2) k(2) by (simp add: reg_stop_def)
  moreover have "reg_get (reg_put reg ?h) i = Some ?h"
    using reg_put_get [OF assms(1), of ?h] k(1) by simp
  ultimately show ?thesis using k by (simp add: reg_snapshot_def)
qed

definition finished_handle :: task_handle where
  "finished_handle = (new_handle ''i'' 0 ''t'' ''p'' ''c'' ''true'')\<lparr>th_status := Exited 0, th_child := False,
     th_process := Ended (Some 0), th_reaper := Finished\<rparr>"

theorem foreign_tasks_invisible_witness:
  "task_output_execute (\<lambda>_. []) (Some [finished_handle]) 5 ''u'' ''p'' (JObject [(''task_id'', JString ''i'')])
     = Inl (task_not_found ''i'')"
proof -
  have "distinct (map th_id [finished_handle])" "[] = filter (owned ''u'' ''p'') [finished_handle]"
    by (simp_all add: finished_handle_def new_handle_def owned_def)
  then have "task_output_execute (\<lambda>_. []) (Some [finished_handle]) 5 ''u'' ''p'' (JObject [(''task_id'', JString ''i'')])
      = task_output_execute (\<lambda>_. []) (Some []) 5 ''u'' ''p'' (JObject [(''task_id'', JString ''i'')])"
    by (rule conjunct1 [OF foreign_tasks_invisible])
  then show ?thesis by (simp add: task_output_execute_def reg_snapshot_def reg_get_def)
qed

theorem stop_erases_exit_code_witness:
  "\<exists>reg' s. reg_stop [finished_handle] ''i'' ''t'' ''p'' [] [] = Some (Some Killed, reg')
    \<and> reg_snapshot reg' 9 ''i'' ''t'' ''p'' = Some s \<and> sn_status s = Killed"
  by (rule stop_erases_exit_code [of _ _ finished_handle _ _ 0])
    (simp_all add: reg_get_def finished_handle_def new_handle_def owned_def)

end
