(* ===== verification/Questions.thy ===== *)
theory Questions
  imports Texts Tool_Calls
begin

text \<open>
  Asking the user: the tool \<open>AskUserQuestion\<close> (\<open>crates/snaca-tools/src/ask_user_question.rs\<close>, types of
  \<open>crates/snaca-agent-api/src/question.rs\<close>), and the fallback for channels without interactive cards, where
  the question is a plain message and the next message of the chat is the answer
  (\<open>crates/snaca-server/src/text_question.rs\<close> and \<open>question_gate.rs\<close>).

  The deserialised input of the tool is an argument, as are the clock and the user who answers.  A
  waiting gate is a number; what became of it is its entry in \<open>tq_waiters\<close>.
\<close>

subsection \<open>Numbers and words in a text\<close>

definition utf8 :: "nat list \<Rightarrow> string" where
  "utf8 ns = map char_of ns"

text \<open>\<open>split(|c| c == ',' || c.is_whitespace())\<close>; the first argument is the piece read so far.\<close>

function split_tokens :: "string \<Rightarrow> string \<Rightarrow> string list" where
  "split_tokens cur [] = [cur]"
| "split_tokens cur (c # cs) =
     (if c = CHR '','' then cur # split_tokens [] cs
      else (case ws_at (c # cs) of
              Some w \<Rightarrow> cur # split_tokens [] (drop (length w) (c # cs))
            | None \<Rightarrow> split_tokens (cur @ [c]) cs))"
  by pat_completeness auto
termination
proof (relation "measure (\<lambda>(_, s). length s)", simp_all)
  fix c :: char and cs w
  assume "ws_at (c # cs) = Some w"
  then have "w \<noteq> []" by (auto simp: ws_at_def find_Some_iff)
  then show "Suc (length cs) - length w < Suc (length cs)" by (cases w) auto
qed

subsection \<open>Questions and answers\<close>

record question_option =
  qo_id :: string
  qo_label :: string
  qo_description :: "string option"
  qo_preview :: "string option"

record question_spec =
  qs_id :: string
  qs_question :: string
  qs_header :: "string option"
  qs_options :: "question_option list"
  qs_multi :: bool
  qs_allow_other :: bool

record question_answer =
  qa_question :: string
  qa_selected :: "string list"
  qa_other :: "string option"
  qa_notes :: "string option"

record question_answers =
  an_answers :: "question_answer list"
  an_user :: string
  an_decided_at :: string

datatype question_error = QuestionTimeout | QuestionCancelled | QuestionUnsupported | QuestionOther string

definition empty_answer :: "string \<Rightarrow> question_answer" where
  "empty_answer i = \<lparr>qa_question = i, qa_selected = [], qa_other = None, qa_notes = None\<rparr>"

subsection \<open>The tool\<close>

record input_option =
  io_label :: string
  io_description :: "string option"
  io_preview :: "string option"

record input_question =
  iq_question :: string
  iq_header :: "string option"
  iq_options :: "input_option list"
  iq_multi :: bool
  iq_allow_other :: bool

definition MAX_QUESTIONS :: nat where "MAX_QUESTIONS = 4"
definition MIN_OPTIONS :: nat where "MIN_OPTIONS = 2"
definition MAX_OPTIONS :: nat where "MAX_OPTIONS = 4"
definition MAX_HEADER_CHARS :: nat where "MAX_HEADER_CHARS = 12"

text \<open>The loop over the labels of a question; \<open>seen\<close> are the labels before.\<close>

fun validate_options :: "nat \<Rightarrow> nat \<Rightarrow> string list \<Rightarrow> input_option list \<Rightarrow> tool_error option" where
  "validate_options qi oi seen [] = None"
| "validate_options qi oi seen (opt # opts) =
     (if trim (io_label opt) = [] then
        Some (InvalidInput (''question '' @ show_nat qi @ '' option '' @ show_nat oi @ '': label is empty''))
      else if io_label opt \<in> set seen then
        Some (InvalidInput (''question '' @ show_nat qi @ '': duplicate option label: '' @ io_label opt))
      else if eq_ignore_ascii_case (io_label opt) ''other'' then
        Some (InvalidInput (''question '' @ show_nat qi @ '' option '' @ show_nat oi
          @ '': do not include an '' @ utf8 [0x22] @ ''Other'' @ utf8 [0x22] @ '' option '' @ em_dash
          @ '' the user always gets a free-form fallback automatically''))
      else validate_options qi (oi + 1) (io_label opt # seen) opts)"

fun validate_questions :: "nat \<Rightarrow> string list \<Rightarrow> input_question list \<Rightarrow> tool_error option" where
  "validate_questions qi seen [] = None"
| "validate_questions qi seen (q # qs) =
     (if trim (iq_question q) = [] then
        Some (InvalidInput (''question '' @ show_nat qi @ '': text is empty''))
      else if iq_question q \<in> set seen then
        Some (InvalidInput (''duplicate question text at index '' @ show_nat qi @ '': '' @ iq_question q))
      else if length (iq_options q) < MIN_OPTIONS \<or> MAX_OPTIONS < length (iq_options q) then
        Some (InvalidInput (''question '' @ show_nat qi @ '': options must be '' @ show_nat MIN_OPTIONS @ ''..=''
          @ show_nat MAX_OPTIONS @ ''; got '' @ show_nat (length (iq_options q))))
      else (case validate_options qi 0 [] (iq_options q) of
              Some e \<Rightarrow> Some e
            | None \<Rightarrow> validate_questions (qi + 1) (iq_question q # seen) qs))"

definition validate_input :: "input_question list \<Rightarrow> tool_error option" where
  "validate_input qs =
     (if qs = [] then Some (InvalidInput ''questions must contain at least 1 entry'')
      else if MAX_QUESTIONS < length qs then
        Some (InvalidInput (''at most '' @ show_nat MAX_QUESTIONS @ '' questions allowed; got '' @ show_nat (length qs)))
      else validate_questions 0 [] qs)"

definition normalize_header :: "string option \<Rightarrow> string option" where
  "normalize_header header =
     (case header of
        None \<Rightarrow> None
      | Some h \<Rightarrow> if trim h = [] then None else Some (take_chars MAX_HEADER_CHARS (trim h)))"

definition build_option :: "nat \<Rightarrow> input_option \<Rightarrow> question_option" where
  "build_option oi opt = \<lparr>qo_id = ''opt_'' @ show_nat oi, qo_label = io_label opt,
     qo_description = io_description opt, qo_preview = io_preview opt\<rparr>"

definition build_question :: "nat \<Rightarrow> input_question \<Rightarrow> question_spec" where
  "build_question qi q = \<lparr>qs_id = ''q_'' @ show_nat qi, qs_question = iq_question q,
     qs_header = normalize_header (iq_header q),
     qs_options = map (\<lambda>(oi, opt). build_option oi opt) (enumerate 0 (iq_options q)),
     qs_multi = iq_multi q, qs_allow_other = iq_allow_other q\<rparr>"

definition build_questions :: "input_question list \<Rightarrow> question_spec list" where
  "build_questions qs = map (\<lambda>(qi, q). build_question qi q) (enumerate 0 qs)"

definition selected_labels :: "input_question \<Rightarrow> string list \<Rightarrow> string list" where
  "selected_labels q ids =
     List.map_filter (\<lambda>sid.
       if prefix ''opt_'' sid then
         (case parse_usize (drop 4 sid) of
            Some i \<Rightarrow> if i < length (iq_options q) then Some (io_label (iq_options q ! i)) else None
          | None \<Rightarrow> None)
       else None) ids"

definition opt_json :: "string option \<Rightarrow> json" where
  "opt_json v = (case v of Some s \<Rightarrow> JString s | None \<Rightarrow> JNull)"

definition find_answer :: "question_answers \<Rightarrow> nat \<Rightarrow> question_answer" where
  "find_answer answers qi =
     (case find (\<lambda>a. qa_question a = ''q_'' @ show_nat qi) (an_answers answers) of
        Some a \<Rightarrow> a
      | None \<Rightarrow> empty_answer [])"

definition answer_entry :: "input_question \<Rightarrow> question_answer \<Rightarrow> json" where
  "answer_entry q a = JObject
     [(''notes'', opt_json (qa_notes a)), (''other_text'', opt_json (qa_other a)),
      (''selected'', JArray (map JString (selected_labels q (qa_selected a)))),
      (''selected_option_ids'', JArray (map JString (qa_selected a)))]"

text \<open>The map from question texts to entries; a \<open>serde_json\<close> map is ordered by key.\<close>

definition reply_json :: "input_question list \<Rightarrow> question_answers \<Rightarrow> json" where
  "reply_json qs answers = JObject
     [(''answers'', JObject (sort_key fst
         (map (\<lambda>(qi, q). (iq_question q, answer_entry q (find_answer answers qi))) (enumerate 0 qs)))),
      (''decided_at'', JString (an_decided_at answers)), (''user_id'', JString (an_user answers))]"

definition no_gate :: tool_error where
  "no_gate = Execution (''AskUserQuestion: no question gate is attached to this engine '' @ em_dash
     @ '' this deployment does not support interactive questions. ''
     @ ''Fall back to asking the question in plain prose.'')"

fun ask_error :: "question_error \<Rightarrow> tool_error" where
  "ask_error QuestionTimeout = Execution (''User did not answer within the timeout window. ''
     @ ''Consider asking again or proceeding with a safe default.'')"
| "ask_error QuestionCancelled = Cancelled"
| "ask_error QuestionUnsupported = Execution (''This IM channel does not support interactive multiple-choice ''
     @ ''questions. Fall back to asking the question in plain prose.'')"
| "ask_error (QuestionOther msg) = Execution msg"

text \<open>\<open>execute\<close>: the input or the message of its deserialisation, the gate if one is attached, and whether
  the turn is cancelled before the gate answers.\<close>

definition ask_execute ::
  "string + input_question list \<Rightarrow> (question_spec list \<Rightarrow> question_error + question_answers) option \<Rightarrow> bool
     \<Rightarrow> tool_error + tool_output" where
  "ask_execute parsed gate cancelled =
     (case parsed of
        Inl msg \<Rightarrow> Inl (InvalidInput msg)
      | Inr qs \<Rightarrow>
          (case validate_input qs of
             Some e \<Rightarrow> Inl e
           | None \<Rightarrow>
               (case gate of
                  None \<Rightarrow> Inl no_gate
                | Some ask \<Rightarrow>
                    if cancelled then Inl Cancelled
                    else (case ask (build_questions qs) of
                            Inl e \<Rightarrow> Inl (ask_error e)
                          | Inr answers \<Rightarrow> Inr (OutJson (reply_json qs answers))))))"

subsection \<open>The reply of the tool\<close>

lemma validate_questions_distinct:
  "validate_questions qi seen qs = None \<Longrightarrow>
    distinct (map iq_question qs) \<and> set (map iq_question qs) \<inter> set seen = {}
    \<and> list_all (\<lambda>q. MIN_OPTIONS \<le> length (iq_options q) \<and> length (iq_options q) \<le> MAX_OPTIONS) qs"
proof (induction qi seen qs rule: validate_questions.induct)
  case (2 qi seen q qs)
  then show ?case by (auto split: if_splits option.splits)
qed simp

lemma validated:
  assumes "validate_input qs = None"
  shows "distinct (map iq_question qs)" "length qs \<le> 4"
    "\<And>q. q \<in> set qs \<Longrightarrow> length (iq_options q) \<le> 4"
  using assms validate_questions_distinct [of 0 "[]" qs]
  by (auto simp: validate_input_def MAX_QUESTIONS_def MAX_OPTIONS_def list_all_iff split: if_splits)

lemma built: "qi < length qs \<Longrightarrow> build_questions qs ! qi = build_question qi (qs ! qi)"
  by (simp add: build_questions_def nth_enumerate_eq)

lemma built_option: "oi < length (iq_options q) \<Longrightarrow> qs_options (build_question qi q) ! oi = build_option oi (iq_options q ! oi)"
  by (simp add: build_question_def nth_enumerate_eq)

lemma selected_built:
  "length (iq_options q) \<le> 4 \<Longrightarrow> list_all (\<lambda>j. j < length (iq_options q)) js \<Longrightarrow>
    selected_labels q (map (\<lambda>j. ''opt_'' @ show_nat j) js) = map (\<lambda>j. io_label (iq_options q ! j)) js"
  by (induction js) (auto simp: selected_labels_def List.map_filter_def)

lemma show_nat_inj: "show_nat m = show_nat n \<Longrightarrow> m = n"
  by (metis digits_value_show)

lemma find_unique: "distinct (map f xs) \<Longrightarrow> x \<in> set xs \<Longrightarrow> find (\<lambda>y. f y = f x) xs = Some x"
  by (induction xs) (auto simp: image_iff)

lemma map_of_sorted: "distinct (map fst kvs) \<Longrightarrow> map_of (sort_key fst kvs) k = map_of kvs k"
proof -
  assume d: "distinct (map fst kvs)"
  then have d': "distinct (map fst (sort_key fst kvs))"
    by (metis distinct_map distinct_sort set_sort)
  have "map_of (sort_key fst kvs) = map_of kvs"
    by (rule map_of_inject_set [THEN iffD2]) (use d d' in simp_all)
  then show ?thesis by simp
qed

text \<open>What the user picks is what the model reads.  For input the tool accepts, an answer that selects
  options of the card by the ids the tool gave them is reported under the text of its own question with
  exactly the labels of those options, in that order, and no question overwrites another.\<close>

theorem picked_labels_reported:
  assumes "validate_input qs = None" "qi < length qs"
    and "distinct (map qa_question (an_answers answers))" "a \<in> set (an_answers answers)"
    and "qa_question a = qs_id (build_questions qs ! qi)"
    and "qa_selected a = map (\<lambda>j. qo_id (qs_options (build_questions qs ! qi) ! j)) js"
    and "list_all (\<lambda>j. j < length (iq_options (qs ! qi))) js"
  shows "\<exists>kvs rest entry. reply_json qs answers = JObject ((''answers'', JObject kvs) # rest)
    \<and> distinct (map fst kvs) \<and> length kvs = length qs
    \<and> map_of kvs (iq_question (qs ! qi)) = Some (JObject entry)
    \<and> map_of entry ''selected'' = Some (JArray (map (\<lambda>j. JString (io_label (iq_options (qs ! qi) ! j))) js))"
proof -
  define kvs where "kvs = map (\<lambda>(qi, q). (iq_question q, answer_entry q (find_answer answers qi))) (enumerate 0 qs)"
  have keys: "map fst kvs = map iq_question qs"
    by (rule nth_equalityI) (simp_all add: kvs_def nth_enumerate_eq)
  have d: "distinct (map fst kvs)" using validated(1) [OF assms(1)] by (simp add: keys)
  have "find_answer answers qi = a"
    using find_unique [OF assms(3,4)] assms(2,5) by (simp add: find_answer_def built build_question_def)
  then have "kvs ! qi = (iq_question (qs ! qi), answer_entry (qs ! qi) a)"
    using assms(2) by (simp add: kvs_def nth_enumerate_eq)
  then have "(iq_question (qs ! qi), answer_entry (qs ! qi) a) \<in> set kvs"
    using assms(2) by (metis kvs_def length_enumerate length_map nth_mem)
  with d have look: "map_of (sort_key fst kvs) (iq_question (qs ! qi)) = Some (answer_entry (qs ! qi) a)"
    by (simp add: map_of_sorted)
  have "qa_selected a = map (\<lambda>j. ''opt_'' @ show_nat j) js"
    using assms(2,6,7) by (auto simp: built built_option build_option_def list_all_iff)
  then have "selected_labels (qs ! qi) (qa_selected a) = map (\<lambda>j. io_label (iq_options (qs ! qi) ! j)) js"
    using validated(3) [OF assms(1)] selected_built [OF _ assms(7)] assms(2) by simp
  moreover have "distinct (map fst (sort_key fst kvs))"
    using d by (metis distinct_map distinct_sort set_sort)
  moreover have "length (sort_key fst kvs) = length qs" by (simp add: kvs_def)
  moreover have "\<exists>entry. answer_entry (qs ! qi) a = JObject entry
      \<and> map_of entry ''selected'' = Some (JArray (map JString (selected_labels (qs ! qi) (qa_selected a))))"
    by (simp add: answer_entry_def)
  ultimately show ?thesis
    using look unfolding reply_json_def kvs_def [symmetric] by (fastforce simp: comp_def)
qed

subsection \<open>The question as a plain message\<close>

definition prompt_option :: "nat \<Rightarrow> question_option \<Rightarrow> string" where
  "prompt_option oi opt =
     ''  '' @ show_nat (oi + 1) @ '') '' @ qo_label opt @ [newline]
     @ (case qo_description opt of
          Some d \<Rightarrow> if d = [] then [] else ''     '' @ utf8 [0xC2, 0xB7] @ '' '' @ d @ [newline]
        | None \<Rightarrow> [])"

definition prompt_question :: "nat \<Rightarrow> nat \<Rightarrow> question_spec \<Rightarrow> string" where
  "prompt_question n qi q =
     [newline]
     @ (if n = 1 then ''**'' @ qs_question q @ ''**'' @ [newline]
        else ''**Q'' @ show_nat (qi + 1) @ '': '' @ qs_question q @ ''**'' @ [newline])
     @ concat (map (\<lambda>(oi, opt). prompt_option oi opt) (enumerate 0 (qs_options q)))"

definition HINT_MULTI :: string where
  "HINT_MULTI = utf8 [0xE5, 0x9B, 0x9E, 0xE5, 0xA4, 0x8D, 0xE4, 0xB8, 0x80, 0xE4, 0xB8, 0xAA, 0xE6, 0x88, 0x96, 0xE5, 0xA4, 0x9A, 0xE4, 0xB8, 0xAA, 0xE6, 0x95, 0xB0, 0xE5, 0xAD, 0x97]
     @ ''(''
     @ utf8 [0xE9, 0x80, 0x97, 0xE5, 0x8F, 0xB7, 0xE5, 0x88, 0x86, 0xE9, 0x9A, 0x94]
     @ '',''
     @ utf8 [0xE5, 0xA6, 0x82]
     @ '' ''
     @ utf8 [0x60]
     @ ''1,3''
     @ utf8 [0x60]
     @ ''),''
     @ utf8 [0xE6, 0x88, 0x96, 0xE7, 0x9B, 0xB4, 0xE6, 0x8E, 0xA5, 0xE8, 0xBE, 0x93, 0xE5, 0x85, 0xA5, 0xE6, 0x96, 0x87, 0xE6, 0x9C, 0xAC, 0xE4, 0xBD, 0x9C, 0xE4, 0xB8, 0xBA, 0x22, 0xE5, 0x85, 0xB6, 0xE4, 0xBB, 0x96, 0x22, 0xE7, 0xAD, 0x94, 0xE6, 0xA1, 0x88, 0xE3, 0x80, 0x82]"

definition HINT_SINGLE :: string where
  "HINT_SINGLE = utf8 [0xE5, 0x9B, 0x9E, 0xE5, 0xA4, 0x8D, 0xE4, 0xB8, 0x80, 0xE4, 0xB8, 0xAA, 0xE6, 0x95, 0xB0, 0xE5, 0xAD, 0x97]
     @ ''(''
     @ utf8 [0xE5, 0xA6, 0x82]
     @ '' ''
     @ utf8 [0x60]
     @ ''2''
     @ utf8 [0x60]
     @ ''),''
     @ utf8 [0xE6, 0x88, 0x96, 0xE7, 0x9B, 0xB4, 0xE6, 0x8E, 0xA5, 0xE8, 0xBE, 0x93, 0xE5, 0x85, 0xA5, 0xE6, 0x96, 0x87, 0xE6, 0x9C, 0xAC, 0xE4, 0xBD, 0x9C, 0xE4, 0xB8, 0xBA, 0x22, 0xE5, 0x85, 0xB6, 0xE4, 0xBB, 0x96, 0x22, 0xE7, 0xAD, 0x94, 0xE6, 0xA1, 0x88, 0xE3, 0x80, 0x82]"

definition HINT_LINES :: string where
  "HINT_LINES = utf8 [0xE6, 0x8C, 0x89, 0xE9, 0xA1, 0xBA, 0xE5, 0xBA, 0x8F, 0xE5, 0x9B, 0x9E, 0xE5, 0xA4, 0x8D]
     @ '',''
     @ utf8 [0xE6, 0xAF, 0x8F, 0xE9, 0x97, 0xAE, 0xE4, 0xB8, 0x80, 0xE8, 0xA1, 0x8C]
     @ '',''
     @ utf8 [0xE6, 0x95, 0xB0, 0xE5, 0xAD, 0x97, 0xE6, 0x88, 0x96, 0xE6, 0x96, 0x87, 0xE6, 0x9C, 0xAC, 0xE5, 0x9D, 0x87, 0xE5, 0x8F, 0xAF, 0xE3, 0x80, 0x82, 0xE5, 0xA4, 0x9A, 0xE9, 0x80, 0x89, 0xE9, 0xA2, 0x98, 0xE7, 0x94, 0xA8, 0xE9, 0x80, 0x97, 0xE5, 0x8F, 0xB7, 0xE5, 0x88, 0x86, 0xE9, 0x9A, 0x94]
     @ ''(''
     @ utf8 [0xE5, 0xA6, 0x82]
     @ '' ''
     @ utf8 [0x60]
     @ ''1,3''
     @ utf8 [0x60]
     @ '')''
     @ utf8 [0xE3, 0x80, 0x82]"

definition render_text_prompt :: "question_spec list \<Rightarrow> string" where
  "render_text_prompt qs =
     utf8 [0xE2, 0x9D, 0x93] @ '' '' @ utf8 [0xE8, 0xAF, 0xB7, 0xE5, 0x9B, 0x9E, 0xE7, 0xAD, 0x94] @ '':'' @ [newline]
     @ concat (map (\<lambda>(qi, q). prompt_question (length qs) qi q) (enumerate 0 qs))
     @ [newline]
     @ (if length qs = 1 \<and> qs_multi (hd qs) then HINT_MULTI
        else if length qs = 1 then HINT_SINGLE
        else HINT_LINES)"

subsection \<open>The next message as the answer\<close>

fun token_ids :: "question_spec \<Rightarrow> string list \<Rightarrow> string list option" where
  "token_ids q [] = Some []"
| "token_ids q (tok # toks) =
     (case parse_usize tok of
        None \<Rightarrow> None
      | Some n \<Rightarrow>
          if n = 0 \<or> length (qs_options q) < n then None
          else map_option (\<lambda>ids. qo_id (qs_options q ! (n - 1)) # ids) (token_ids q toks))"

definition parse_indices :: "string \<Rightarrow> question_spec \<Rightarrow> string list option" where
  "parse_indices s q =
     (let tokens = filter (\<lambda>p. p \<noteq> []) (split_tokens [] s)
      in if tokens = [] then None
         else (case token_ids q tokens of
                 None \<Rightarrow> None
               | Some ids \<Rightarrow> if \<not> qs_multi q \<and> 1 < length ids then None else Some ids))"

definition match_label_unique :: "string \<Rightarrow> question_spec \<Rightarrow> string option" where
  "match_label_unique s q =
     (case filter (\<lambda>opt. contains (map ascii_lower (qo_label opt)) (map ascii_lower s)) (qs_options q) of
        [opt] \<Rightarrow> Some (qo_id opt)
      | _ \<Rightarrow> None)"

text \<open>\<open>parse_text_answer\<close>; the code indexes the first answer, so it panics on no questions and a non-empty
  text, which no validated request leads to.\<close>

definition parse_text_answer :: "question_spec list \<Rightarrow> string \<Rightarrow> string \<Rightarrow> string \<Rightarrow> question_answers" where
  "parse_text_answer qs raw user now =
     (let t = trim raw;
          blank = map (\<lambda>q. empty_answer (qs_id q)) qs;
          answers =
            (if t = [] then blank
             else (case (qs, blank) of
                ([q], _) \<Rightarrow>
                  (case parse_indices t q of
                     Some ids \<Rightarrow> [(empty_answer (qs_id q))\<lparr>qa_selected := ids\<rparr>]
                   | None \<Rightarrow>
                       (case match_label_unique t q of
                          Some i \<Rightarrow> [(empty_answer (qs_id q))\<lparr>qa_selected := [i]\<rparr>]
                        | None \<Rightarrow> [(empty_answer (qs_id q))\<lparr>qa_other := Some t\<rparr>]))
              | (_, a # as) \<Rightarrow> a\<lparr>qa_other := Some t\<rparr> # as
              | (_, []) \<Rightarrow> []))
      in \<lparr>an_answers = answers, an_user = user, an_decided_at = now\<rparr>)"

lemma token_ids_sound: "token_ids q toks = Some ids \<Longrightarrow> set ids \<subseteq> qo_id ` set (qs_options q) \<and> length ids = length toks"
proof (induction q toks arbitrary: ids rule: token_ids.induct)
  case (2 q tok toks)
  then obtain n js where n: "parse_usize tok = Some n" "n \<noteq> 0" "n \<le> length (qs_options q)"
    and js: "token_ids q toks = Some js" "ids = qo_id (qs_options q ! (n - 1)) # js"
    by (auto split: option.splits if_splits)
  have "set js \<subseteq> qo_id ` set (qs_options q) \<and> length js = length toks"
    using 2 n js(1) by (simp add: not_less)
  with n js(2) show ?case by auto
qed simp

text \<open>A typed answer means one thing.  The answer to a single question selects options of the question, at
  most one unless it is multi-select, or it is the whole trimmed text as a free answer, or, for a blank
  message, nothing: never a selection and a text at once, never an option that was not offered.\<close>

theorem typed_answer_unambiguous:
  "\<exists>a. an_answers (parse_text_answer [q] raw user now) = [a] \<and> qa_question a = qs_id q
    \<and> set (qa_selected a) \<subseteq> qo_id ` set (qs_options q)
    \<and> (qs_multi q \<or> length (qa_selected a) \<le> 1)
    \<and> (if trim raw = [] then qa_selected a = [] \<and> qa_other a = None
       else (qa_selected a \<noteq> [] \<and> qa_other a = None) \<or> (qa_selected a = [] \<and> qa_other a = Some (trim raw)))"
proof -
  have idx: "set ids \<subseteq> qo_id ` set (qs_options q) \<and> ids \<noteq> [] \<and> (qs_multi q \<or> length ids \<le> 1)"
    if "parse_indices (trim raw) q = Some ids" for ids
  proof -
    from that obtain toks where "toks \<noteq> []" "token_ids q toks = Some ids" "qs_multi q \<or> length ids \<le> 1"
      by (auto simp: parse_indices_def Let_def split: if_splits option.splits)
    with token_ids_sound [of q toks ids] show ?thesis by auto
  qed
  have lab: "i \<in> qo_id ` set (qs_options q)" if "match_label_unique (trim raw) q = Some i" for i
  proof -
    let ?f = "filter (\<lambda>opt. contains (map ascii_lower (qo_label opt)) (map ascii_lower (trim raw))) (qs_options q)"
    from that obtain opt where "?f = [opt]" "i = qo_id opt"
      by (auto simp: match_label_unique_def split: list.splits)
    then have "opt \<in> set ?f" by simp
    with \<open>i = qo_id opt\<close> show ?thesis by auto
  qed
  show ?thesis
    using idx lab by (auto simp: parse_text_answer_def empty_answer_def Let_def split: option.splits)
qed

lemma whitespace_no_digit:
  "list_all (\<lambda>w. \<not> is_digit (hd w)) whitespace_seqs" "list_all (\<lambda>w. \<not> is_digit (hd w)) (map rev whitespace_seqs)"
  by code_simp+

lemma find_no_digit:
  "list_all (\<lambda>w. \<not> is_digit (hd w)) ws \<Longrightarrow> is_digit c \<Longrightarrow> find (\<lambda>w. w \<noteq> [] \<and> prefix w (c # cs)) ws = None"
  by (induction ws) (auto simp: prefix_Cons)

lemma no_ws_digit: "is_digit c \<Longrightarrow> ws_at (c # cs) = None"
  unfolding ws_at_def by (rule find_no_digit [OF whitespace_no_digit(1)])

lemma digit_not_comma: "is_digit c \<Longrightarrow> c \<noteq> CHR '',''"
  by (auto simp: is_digit_def)

lemma split_digits: "list_all is_digit s \<Longrightarrow> split_tokens cur s = [cur @ s]"
proof (induction s arbitrary: cur)
  case (Cons c s)
  then have "c \<noteq> CHR '',''" using digit_not_comma by auto
  with Cons show ?case by (simp add: no_ws_digit)
qed simp

lemma no_ws_digit_rev: "is_digit c \<Longrightarrow> find (\<lambda>w. w \<noteq> [] \<and> prefix w (c # cs)) (map rev whitespace_seqs) = None"
  by (rule find_no_digit [OF whitespace_no_digit(2)])

lemma strip_front_Nil: "strip_front ws [] = []"
  using strip_front_suffix [of ws "[]"] by simp

lemma trim_digits:
  assumes "list_all is_digit s"
  shows "trim s = s"
proof -
  have front: "strip_front whitespace_seqs r = r" if "list_all is_digit r" for r
  proof (cases r)
    case Nil
    then show ?thesis by (simp add: strip_front_Nil)
  next
    case (Cons c cs)
    with that no_ws_digit [of c cs] show ?thesis by (simp add: strip_front.simps ws_at_def)
  qed
  have behind: "strip_front (map rev whitespace_seqs) r = r" if "list_all is_digit r" for r
  proof (cases r)
    case Nil
    then show ?thesis by (simp add: strip_front_Nil)
  next
    case (Cons c cs)
    with that no_ws_digit_rev [of c cs] show ?thesis by (simp add: strip_front.simps)
  qed
  have "list_all is_digit (rev s)" using assms by (simp add: list_all_iff)
  then show ?thesis by (simp add: trim_def trim_start_def trim_end_def front [OF assms] behind)
qed

text \<open>The number on the prompt selects its option.  Typing the number printed before an option, and
  nothing else, selects that option, whatever its label.\<close>

theorem typed_number_selects:
  assumes "j < length (qs_options q)" "length (qs_options q) < 2 ^ 64"
  shows "an_answers (parse_text_answer [q] (show_nat (j + 1)) user now)
    = [(empty_answer (qs_id q))\<lparr>qa_selected := [qo_id (qs_options q ! j)]\<rparr>]"
proof -
  have "split_tokens [] (show_nat (j + 1)) = [show_nat (j + 1)]" using split_digits show_nat_digits by fastforce
  then have "parse_indices (show_nat (j + 1)) q = Some [qo_id (qs_options q ! j)]"
    using assms by (simp add: parse_indices_def)
  then show ?thesis by (simp add: parse_text_answer_def trim_digits show_nat_digits del: One_nat_def)
qed

subsection \<open>Questions that wait for a message\<close>

type_synonym text_key = "string \<times> string"
type_synonym waiter = nat

text \<open>What a waiting gate has seen: nothing yet, its answer, or the drop of its sender.\<close>

datatype waiter_state = Listening | Answered question_answers | SenderDropped

record text_questions =
  tq_pending :: "text_key \<rightharpoonup> question_spec list \<times> waiter"
  tq_waiters :: "waiter \<rightharpoonup> waiter_state"

definition no_text_questions :: text_questions where
  "no_text_questions = \<lparr>tq_pending = Map.empty, tq_waiters = Map.empty\<rparr>"

definition drop_sender :: "(question_spec list \<times> waiter) option \<Rightarrow> (waiter \<rightharpoonup> waiter_state) \<Rightarrow> waiter \<rightharpoonup> waiter_state" where
  "drop_sender e ws = (case e of
       Some (_, v) \<Rightarrow> if ws v = Some Listening then ws(v \<mapsto> SenderDropped) else ws
     | None \<Rightarrow> ws)"

text \<open>An ask registers under a fresh waiter; an entry under the same key is dropped with its sender.\<close>

definition tq_register :: "text_questions \<Rightarrow> text_key \<Rightarrow> question_spec list \<Rightarrow> waiter \<Rightarrow> text_questions" where
  "tq_register t key qs w =
     \<lparr>tq_pending = (tq_pending t)(key \<mapsto> (qs, w)),
      tq_waiters = (drop_sender (tq_pending t key) (tq_waiters t))(w \<mapsto> Listening)\<rparr>"

definition tq_take :: "text_questions \<Rightarrow> text_key \<Rightarrow> (question_spec list \<times> waiter) option \<times> text_questions" where
  "tq_take t key = (tq_pending t key, t\<lparr>tq_pending := (tq_pending t)(key := None)\<rparr>)"

interpretation text_slots: one_shot_registry "\<lambda>key (qs, w) t. tq_register t key qs w" "\<lambda>key t. tq_take t key" tq_pending
  by unfold_locales (auto simp: tq_register_def tq_take_def split: prod.split)

text \<open>A release takes the entry and drops it, whoever registered it.\<close>

definition tq_release :: "text_questions \<Rightarrow> text_key \<Rightarrow> text_questions" where
  "tq_release t key =
     (case tq_take t key of (e, t') \<Rightarrow> t'\<lparr>tq_waiters := drop_sender e (tq_waiters t')\<rparr>)"

text \<open>The next message of the chat; the answer is lost when nobody listens any more.\<close>

definition tq_intercept :: "text_questions \<Rightarrow> text_key \<Rightarrow> string \<Rightarrow> string \<Rightarrow> string \<Rightarrow> bool \<times> text_questions" where
  "tq_intercept t key raw user now =
     (case tq_take t key of
        (None, t') \<Rightarrow> (False, t')
      | (Some (qs, w), t') \<Rightarrow>
          (True, if tq_waiters t' w = Some Listening
                 then t'\<lparr>tq_waiters := (tq_waiters t')(w \<mapsto> Answered (parse_text_answer qs raw user now))\<rparr> else t'))"

text \<open>How the gate resumes: with its answer, with the drop of its sender, or at the timeout; the last two
  release the key.  A gate whose turn is aborted is dropped with its receiver and does nothing.\<close>

definition gate_resumes :: "text_questions \<Rightarrow> text_key \<Rightarrow> waiter \<Rightarrow> (question_error + question_answers) option \<times> text_questions" where
  "gate_resumes t key w =
     (case tq_waiters t w of
        Some (Answered a) \<Rightarrow> (Some (Inr a), t\<lparr>tq_waiters := (tq_waiters t)(w := None)\<rparr>)
      | Some SenderDropped \<Rightarrow>
          (Some (Inl QuestionCancelled), tq_release (t\<lparr>tq_waiters := (tq_waiters t)(w := None)\<rparr>) key)
      | _ \<Rightarrow> (None, t))"

definition gate_times_out :: "text_questions \<Rightarrow> text_key \<Rightarrow> waiter \<Rightarrow> (question_error + question_answers) \<times> text_questions" where
  "gate_times_out t key w =
     (case tq_waiters t w of
        Some (Answered a) \<Rightarrow> (Inr a, t\<lparr>tq_waiters := (tq_waiters t)(w := None)\<rparr>)
      | Some SenderDropped \<Rightarrow>
          (Inl QuestionCancelled, tq_release (t\<lparr>tq_waiters := (tq_waiters t)(w := None)\<rparr>) key)
      | _ \<Rightarrow> (Inl QuestionTimeout, tq_release (t\<lparr>tq_waiters := (tq_waiters t)(w := None)\<rparr>) key))"

definition gate_aborted :: "text_questions \<Rightarrow> waiter \<Rightarrow> text_questions" where
  "gate_aborted t w = t\<lparr>tq_waiters := (tq_waiters t)(w := None)\<rparr>"

text \<open>The next message answers the question.  After an ask, and as long as neither it nor its key is
  touched, a message of the chat is intercepted, the gate that asked resumes with the message parsed
  against its own questions, and the chat is free for the next message.\<close>

theorem next_message_answers:
  "(let t1 = tq_register t key qs w;
        (hit, t2) = tq_intercept t1 key raw user now;
        (res, t3) = gate_resumes t2 key w
    in hit \<and> res = Some (Inr (parse_text_answer qs raw user now)) \<and> tq_pending t3 key = None
       \<and> fst (tq_intercept t3 key raw2 user2 now2) = False)"
  by (simp add: tq_register_def tq_intercept_def tq_take_def gate_resumes_def)

text \<open>A replaced question takes its successor with it.  When a second ask arrives for a chat, the first
  gate is cancelled, and its release removes the entry of the second ask: the second gate is cancelled
  as well, and the message that follows is not taken as an answer to either.\<close>

theorem replaced_question_cancels_both:
  assumes "v \<noteq> w"
  shows "let t2 = tq_register (tq_register t key qs1 v) key qs2 w;
             t3 = snd (gate_resumes t2 key v)
    in fst (gate_resumes t2 key v) = Some (Inl QuestionCancelled)
    \<and> fst (gate_resumes t3 key w) = Some (Inl QuestionCancelled)
    \<and> fst (tq_intercept t3 key raw user now) = False"
  using assms
  by (simp add: Let_def tq_register_def gate_resumes_def tq_release_def tq_take_def tq_intercept_def drop_sender_def)

theorem replaced_question_cancels_both_witness:
  "fst (gate_resumes (snd (gate_resumes (tq_register (tq_register no_text_questions (''p'', ''c'') [] 1) (''p'', ''c'') [] 2)
     (''p'', ''c'') 1)) (''p'', ''c'') 2) = Some (Inl QuestionCancelled)"
  using replaced_question_cancels_both [of "1::nat" 2 no_text_questions "(''p'', ''c'')" "[]" "[]" "[]" "[]" "[]"]
  by (simp add: Let_def)

text \<open>An aborted question swallows the next message.  Aborting the turn drops the gate but not its entry:
  the next message of the chat is intercepted as an answer, reaches nobody, and starts no turn.\<close>

theorem aborted_question_swallows_message:
  "(let t1 = gate_aborted (tq_register t key qs w) w;
        (hit, t2) = tq_intercept t1 key raw user now
    in hit \<and> tq_waiters t2 = tq_waiters t1 \<and> tq_pending t2 key = None)"
  by (simp add: gate_aborted_def tq_register_def tq_intercept_def tq_take_def)

text \<open>Answers line by line are not read line by line.  The prompt for several questions asks for one line
  per question; whatever is typed, the whole text becomes the free answer to the first question and the
  others stay empty.\<close>

theorem multi_question_reply_not_split:
  "an_answers (parse_text_answer (q1 # q2 # qs) (CHR ''1'' # newline # ''2'') user now)
     = (empty_answer (qs_id q1))\<lparr>qa_other := Some (CHR ''1'' # newline # ''2'')\<rparr>
       # map (\<lambda>q. empty_answer (qs_id q)) (q2 # qs)
   \<and> suffix HINT_LINES (render_text_prompt (q1 # q2 # qs))"
proof -
  have "trim (CHR ''1'' # newline # ''2'') = CHR ''1'' # newline # ''2''" by code_simp
  then show ?thesis by (simp add: parse_text_answer_def Let_def render_text_prompt_def suffix_def)
qed

definition pick_input :: "input_question list" where
  "pick_input = [\<lparr>iq_question = ''1'', iq_header = None,
     iq_options = [\<lparr>io_label = ''10'', io_description = None, io_preview = None\<rparr>,
                   \<lparr>io_label = ''20'', io_description = None, io_preview = None\<rparr>],
     iq_multi = False, iq_allow_other = True\<rparr>]"

lemma pick_input_texts:
  "trim ''1'' = ''1''" "trim ''10'' = ''10''" "trim ''20'' = ''20''"
  "\<not> eq_ignore_ascii_case ''10'' ''other''" "\<not> eq_ignore_ascii_case ''20'' ''other''"
  by (auto simp: trim_digits is_digit_def dest: eq_ignore_ascii_case_length)

lemma pick_input_simps:
  "validate_input pick_input = None" "length pick_input = 1" "length (iq_options (pick_input ! 0)) = 2"
  "io_label (iq_options (pick_input ! 0) ! 1) = ''20''"
  by (simp_all add: pick_input_def validate_input_def pick_input_texts MAX_QUESTIONS_def MIN_OPTIONS_def MAX_OPTIONS_def)

theorem picked_labels_reported_witness:
  "\<exists>kvs rest entry. reply_json pick_input
      \<lparr>an_answers = [\<lparr>qa_question = qs_id (build_questions pick_input ! 0),
          qa_selected = [qo_id (qs_options (build_questions pick_input ! 0) ! 1)], qa_other = None, qa_notes = None\<rparr>],
        an_user = ''u'', an_decided_at = ''now''\<rparr> = JObject ((''answers'', JObject kvs) # rest)
    \<and> map_of kvs ''1'' = Some (JObject entry) \<and> map_of entry ''selected'' = Some (JArray [JString ''20''])"
proof -
  let ?a = "\<lparr>qa_question = qs_id (build_questions pick_input ! 0),
      qa_selected = [qo_id (qs_options (build_questions pick_input ! 0) ! 1)], qa_other = None, qa_notes = None\<rparr>"
  let ?as = "\<lparr>an_answers = [?a], an_user = ''u'', an_decided_at = ''now''\<rparr>"
  have "iq_question (pick_input ! 0) = ''1''" by (simp add: pick_input_def)
  moreover have "\<exists>kvs rest entry. reply_json pick_input ?as = JObject ((''answers'', JObject kvs) # rest)
    \<and> distinct (map fst kvs) \<and> length kvs = length pick_input
    \<and> map_of kvs (iq_question (pick_input ! 0)) = Some (JObject entry)
    \<and> map_of entry ''selected'' = Some (JArray (map (\<lambda>j. JString (io_label (iq_options (pick_input ! 0) ! j))) [1]))"
    by (rule picked_labels_reported [where a = ?a]) (simp_all add: pick_input_simps)
  ultimately show ?thesis by (simp only: pick_input_simps list.map) blast
qed

theorem typed_number_selects_witness:
  "an_answers (parse_text_answer [build_question 0 (pick_input ! 0)] (show_nat 2) ''u'' ''now'')
    = [(empty_answer ''q_0'')\<lparr>qa_selected := [''opt_1'']\<rparr>]"
proof -
  have "length (qs_options (build_question 0 (pick_input ! 0))) = 2"
    by (simp add: build_question_def pick_input_simps)
  then have "an_answers (parse_text_answer [build_question 0 (pick_input ! 0)] (show_nat (1 + 1)) ''u'' ''now'')
    = [(empty_answer (qs_id (build_question 0 (pick_input ! 0))))\<lparr>qa_selected := [qo_id (qs_options (build_question 0 (pick_input ! 0)) ! 1)]\<rparr>]"
    by (intro typed_number_selects) simp_all
  moreover have "qs_id (build_question 0 (pick_input ! 0)) = ''q_0''" "qo_id (qs_options (build_question 0 (pick_input ! 0)) ! 1) = ''opt_1''"
    by code_simp+
  ultimately show ?thesis by (simp add: numeral_2_eq_2)
qed

end
