(* ===== verification/File_Tools.thy ===== *)
theory File_Tools
  imports Workspace Tool_Calls Texts Questions
begin

text \<open>
  The tools on files: \<open>Read\<close>, \<open>Edit\<close>, \<open>MultiEdit\<close> and \<open>Write\<close> (\<open>read.rs\<close>, \<open>edit.rs\<close>, \<open>multi_edit.rs\<close>,
  \<open>write.rs\<close>, \<open>fs_util.rs\<close> of \<open>crates/snaca-tools\<close>) with the read tracker of \<open>ToolContext\<close>
  (\<open>crates/snaca-tools-api/src/context.rs\<close>).

  The disk maps paths to files and knows the directories; every write draws a fresh modification time.  Input and
  output errors the disk does not predict are the functions of \<open>io\<close>: a failed write may leave other bytes
  behind.  What other processes do to the disk while a tool runs is a function applied between its system calls.
  Inputs are taken as parsed; PDF extraction, the JSON parser, base64 and the texts of parse errors are
  parameters.
\<close>

subsection \<open>The disk\<close>

record file_node =
  fl_bytes :: string
  fl_mtime :: nat

record disk =
  dk_files :: "path \<rightharpoonup> file_node"
  dk_dirs :: "path set"
  dk_clock :: nat

definition put_file :: "disk \<Rightarrow> path \<Rightarrow> string \<Rightarrow> disk" where
  "put_file dk p bytes =
     dk\<lparr>dk_files := (dk_files dk)(p \<mapsto> \<lparr>fl_bytes = bytes, fl_mtime = dk_clock dk + 1\<rparr>), dk_clock := dk_clock dk + 1\<rparr>"

record io =
  io_stat :: "path \<Rightarrow> string option"
  io_read :: "path \<Rightarrow> string option"
  io_write :: "path \<Rightarrow> (string \<times> string option) option"
  io_mkdir :: "path \<Rightarrow> string option"
  io_mtimes :: bool

text \<open>The metadata of a path: \<open>Some f\<close> for a file, \<open>None\<close> for a directory.\<close>

definition metadata_or_not_found :: "io \<Rightarrow> disk \<Rightarrow> path \<Rightarrow> string \<Rightarrow> tool_error + file_node option" where
  "metadata_or_not_found io dk p display =
     (case io_stat io p of
        Some e \<Rightarrow> Inl (IoError e)
      | None \<Rightarrow>
          (case dk_files dk p of
             Some f \<Rightarrow> Inr (Some f)
           | None \<Rightarrow> if p \<in> dk_dirs dk then Inr None else Inl (NotFound display)))"

definition read_bytes :: "io \<Rightarrow> disk \<Rightarrow> path \<Rightarrow> string \<Rightarrow> tool_error + string" where
  "read_bytes io dk p gone =
     (case io_read io p of
        Some e \<Rightarrow> Inl (IoError e)
      | None \<Rightarrow> (case dk_files dk p of Some f \<Rightarrow> Inr (fl_bytes f) | None \<Rightarrow> Inl (IoError gone)))"

text \<open>\<open>fs::write\<close> truncates before it writes.\<close>

definition write_bytes :: "io \<Rightarrow> disk \<Rightarrow> path \<Rightarrow> string \<Rightarrow> string option \<times> disk" where
  "write_bytes io dk p bytes =
     (case io_write io p of
        Some (e, left) \<Rightarrow> (Some e, case left of None \<Rightarrow> dk | Some l \<Rightarrow> put_file dk p l)
      | None \<Rightarrow> if dk_files dk p = None \<and> p \<in> dk_dirs dk then (Some ''Is a directory (os error 21)'', dk) else (None, put_file dk p bytes))"

definition make_dirs :: "io \<Rightarrow> disk \<Rightarrow> path \<Rightarrow> string option \<times> disk" where
  "make_dirs io dk p =
     (case io_mkdir io p of
        Some e \<Rightarrow> (Some e, dk)
      | None \<Rightarrow>
          if dk_files dk p \<noteq> None then (Some ''File exists (os error 17)'', dk)
          else if list_ex (\<lambda>n. dk_files dk (take n p) \<noteq> None) [0..<length p]
          then (Some ''Not a directory (os error 20)'', dk)
          else (None, dk\<lparr>dk_dirs := dk_dirs dk \<union> set (map (\<lambda>n. take n p) [0..<Suc (length p)])\<rparr>))"

definition os_gone :: string where "os_gone = ''No such file or directory (os error 2)''"

subsection \<open>The read tracker\<close>

record read_record =
  rr_mtime :: nat
  rr_size :: nat
  rr_partial :: bool

type_synonym read_tracker = "path \<rightharpoonup> read_record"

definition record_partial_read :: "read_tracker option \<Rightarrow> path \<Rightarrow> nat \<Rightarrow> nat \<Rightarrow> bool \<Rightarrow> read_tracker option" where
  "record_partial_read tr p mtime sz partial =
     map_option (\<lambda>m. m(p \<mapsto> \<lparr>rr_mtime = mtime, rr_size = sz, rr_partial = partial\<rparr>)) tr"

definition record_read :: "read_tracker option \<Rightarrow> path \<Rightarrow> nat \<Rightarrow> nat \<Rightarrow> read_tracker option" where
  "record_read tr p mtime sz = record_partial_read tr p mtime sz False"

text \<open>Recording what a \<open>stat\<close> saw, where the file system has modification times.\<close>

definition note_read :: "io \<Rightarrow> read_tracker option \<Rightarrow> path \<Rightarrow> file_node \<Rightarrow> bool \<Rightarrow> read_tracker option" where
  "note_read io tr p f partial =
     (if io_mtimes io then record_partial_read tr p (fl_mtime f) (length (fl_bytes f)) partial else tr)"

definition last_read :: "read_tracker option \<Rightarrow> path \<Rightarrow> read_record option" where
  "last_read tr p = (case tr of None \<Rightarrow> None | Some m \<Rightarrow> m p)"

subsection \<open>What every file tool does first\<close>

definition MAX_FILE_BYTES :: nat where "MAX_FILE_BYTES = 5 * 1024 * 1024"

definition guard_error :: "string \<Rightarrow> string \<Rightarrow> workspace_error \<Rightarrow> tool_error" where
  "guard_error base input e =
     PathOutsideWorkspace
       (case e of
          PathOutsideRoot _ \<Rightarrow> ''path escapes workspace root: '' @ input
        | AbsoluteNotInRoot _ \<Rightarrow> ''absolute path outside workspace root: '' @ input
        | RootNotAbsolute _ \<Rightarrow> ''workspace root must be absolute: '' @ base)"

text \<open>The file a tool works on: the resolved path and its metadata, or the error of the first check that
  fails; \<open>verb\<close> ends the message for a file above the ceiling.\<close>

definition open_file ::
  "io \<Rightarrow> disk \<Rightarrow> string \<Rightarrow> string \<Rightarrow> (nat \<Rightarrow> string) \<Rightarrow> tool_error + path \<times> file_node" where
  "open_file io dk base input too_big =
     (case resolve_within (components base) (components input) of
        Inl e \<Rightarrow> Inl (guard_error base input e)
      | Inr p \<Rightarrow>
          (case metadata_or_not_found io dk p input of
             Inl e \<Rightarrow> Inl e
           | Inr None \<Rightarrow> Inl (InvalidInput (input @ '' is not a regular file''))
           | Inr (Some f) \<Rightarrow>
               if MAX_FILE_BYTES < length (fl_bytes f)
               then Inl (Execution (input @ '' is '' @ show_nat (length (fl_bytes f)) @ too_big MAX_FILE_BYTES))
               else Inr (p, f)))"

definition refuse_edit :: "nat \<Rightarrow> string" where
  "refuse_edit limit = '' bytes; refusing to edit (ceiling '' @ show_nat limit @ '')''"

definition refuse_read :: "nat \<Rightarrow> string" where
  "refuse_read limit = '' bytes; refusing to read more than '' @ show_nat limit @ '' bytes (use offset/limit)''"

text \<open>Read before edit: an edit is refused unless the file was read in full and has not changed since.\<close>

definition read_gate ::
  "io \<Rightarrow> read_tracker option \<Rightarrow> path \<Rightarrow> file_node \<Rightarrow> string \<Rightarrow> string \<Rightarrow> string \<Rightarrow> tool_error option" where
  "read_gate io tr p f unread partly changed =
     (if tr = None then None
      else case last_read tr p of
             None \<Rightarrow> Some (InvalidInput unread)
           | Some prev \<Rightarrow>
               if rr_partial prev then Some (InvalidInput partly)
               else if Some (rr_mtime prev) \<noteq> (if io_mtimes io then Some (fl_mtime f) else None)
                       \<or> rr_size prev \<noteq> length (fl_bytes f)
               then Some (Execution changed)
               else None)"

subsection \<open>Edit\<close>

record edit_op =
  eo_old :: string
  eo_new :: string
  eo_all :: bool

definition plural :: "nat \<Rightarrow> string" where
  "plural n = (if n = 1 then [] else ''s'')"

definition apply_edit :: "edit_op \<Rightarrow> string \<Rightarrow> string" where
  "apply_edit e s = (if eo_all e then replace_matches (eo_old e) (eo_new e) s else replace_first (eo_old e) (eo_new e) s)"

definition edit_unread :: "string \<Rightarrow> string" where
  "edit_unread input = input @ '' must be Read before editing '' @ em_dash @ '' call Read first so the current contents are in context''"

definition edit_partly :: "string \<Rightarrow> string" where
  "edit_partly input = input @ '' was Read with offset/limit (only part of the file is in context). Edit refuses partial reads ''
     @ em_dash @ '' the old_string may match text outside the window, which would silently corrupt the unread portion. ''
     @ ''Re-Read without offset/limit, then retry.''"

definition edit_changed :: "string \<Rightarrow> string" where
  "edit_changed input = input @ '' changed on disk since it was last Read (mtime/size differ) '' @ em_dash
     @ '' Read again before editing''"

text \<open>Stores the new text and records it as read; \<open>mid\<close> is what others do before the metadata is read again.\<close>

definition store_edit ::
  "io \<Rightarrow> (disk \<Rightarrow> disk) \<Rightarrow> disk \<Rightarrow> read_tracker option \<Rightarrow> path \<Rightarrow> string \<Rightarrow> string
     \<Rightarrow> (tool_error + tool_output) \<times> disk \<times> read_tracker option" where
  "store_edit io mid dk tr p bytes note =
     (case write_bytes io dk p bytes of
        (Some e, dk') \<Rightarrow> (Inl (IoError e), dk', tr)
      | (None, dk') \<Rightarrow>
          (let dk2 = mid dk'
           in (Inr (OutText note), dk2,
               case metadata_or_not_found io dk2 p [] of
                 Inr (Some f) \<Rightarrow> note_read io tr p f False
               | _ \<Rightarrow> tr)))"

definition edit_execute ::
  "io \<Rightarrow> (disk \<Rightarrow> disk) \<Rightarrow> (disk \<Rightarrow> disk) \<Rightarrow> string \<Rightarrow> string \<Rightarrow> edit_op \<Rightarrow> disk \<Rightarrow> read_tracker option
     \<Rightarrow> (tool_error + tool_output) \<times> disk \<times> read_tracker option" where
  "edit_execute io mid1 mid2 base input e dk tr =
     (if eo_old e = [] then (Inl (InvalidInput ''old_string must not be empty''), dk, tr)
      else if eo_old e = eo_new e then (Inl (InvalidInput ''old_string == new_string would be a no-op''), dk, tr)
      else case open_file io dk base input refuse_edit of
        Inl err \<Rightarrow> (Inl err, dk, tr)
      | Inr (p, f) \<Rightarrow>
          (case read_gate io tr p f (edit_unread input) (edit_partly input) (edit_changed input) of
             Some err \<Rightarrow> (Inl err, dk, tr)
           | None \<Rightarrow>
               (let dk1 = mid1 dk
                in case read_bytes io dk1 p os_gone of
                     Inl err \<Rightarrow> (Inl err, dk1, tr)
                   | Inr original \<Rightarrow>
                       if \<not> valid_utf8 original
                       then (Inl (Execution (input @ '' is not valid UTF-8; refusing to edit'')), dk1, tr)
                       else
                         (let n = count_matches (eo_old e) original
                          in if n = 0 then (Inl (NotFound (''pattern not found in '' @ input)), dk1, tr)
                             else if 1 < n \<and> \<not> eo_all e
                             then (Inl (InvalidInput (''pattern matches '' @ show_nat n @ '' times in '' @ input
                                       @ ''; refine the match or pass replace_all: true'')), dk1, tr)
                             else
                               (let replaced = (if eo_all e then n else 1)
                                in store_edit io mid2 dk1 tr p (apply_edit e original)
                                     (''replaced '' @ show_nat replaced @ '' occurrence'' @ plural replaced @ '' in '' @ input))))))"

subsection \<open>MultiEdit\<close>

definition multi_unread :: "string \<Rightarrow> string" where
  "multi_unread input = input @ '' must be Read before editing '' @ em_dash @ '' call Read first''"

definition multi_partly :: "string \<Rightarrow> string" where
  "multi_partly input = input @ '' was Read with offset/limit (only part of the file is in context). MultiEdit refuses partial reads ''
     @ em_dash @ '' an old_string may match text outside the window, which would silently corrupt the unread portion. ''
     @ ''Re-Read without offset/limit, then retry.''"

definition multi_changed :: "string \<Rightarrow> string" where
  "multi_changed input = input @ '' changed on disk since it was last Read '' @ em_dash @ '' Read again before editing''"

text \<open>The loop over the edits: the text after them and the number of replacements, or the first error.\<close>

fun apply_edits :: "string \<Rightarrow> nat \<Rightarrow> edit_op list \<Rightarrow> string \<Rightarrow> nat \<Rightarrow> tool_error + string \<times> nat" where
  "apply_edits input i [] content done_n = Inr (content, done_n)"
| "apply_edits input i (e # es) content done_n =
     (let no = ''edit #'' @ show_nat (i + 1)
      in if eo_old e = [] then Inl (InvalidInput (no @ '': old_string must not be empty''))
         else if eo_old e = eo_new e then Inl (InvalidInput (no @ '': old_string == new_string would be a no-op''))
         else
           (let n = count_matches (eo_old e) content
            in if n = 0 then Inl (NotFound (no @ '': pattern not found in current state of '' @ input))
               else if 1 < n \<and> \<not> eo_all e
               then Inl (InvalidInput (no @ '': matches '' @ show_nat n @ '' times; refine the match or pass replace_all: true''))
               else apply_edits input (i + 1) es (apply_edit e content) (done_n + (if eo_all e then n else 1))))"

definition multi_edit_execute ::
  "io \<Rightarrow> (disk \<Rightarrow> disk) \<Rightarrow> (disk \<Rightarrow> disk) \<Rightarrow> string \<Rightarrow> string \<Rightarrow> edit_op list \<Rightarrow> disk \<Rightarrow> read_tracker option
     \<Rightarrow> (tool_error + tool_output) \<times> disk \<times> read_tracker option" where
  "multi_edit_execute io mid1 mid2 base input es dk tr =
     (if es = [] then (Inl (InvalidInput ''edits must not be empty''), dk, tr)
      else case open_file io dk base input refuse_edit of
        Inl err \<Rightarrow> (Inl err, dk, tr)
      | Inr (p, f) \<Rightarrow>
          (case read_gate io tr p f (multi_unread input) (multi_partly input) (multi_changed input) of
             Some err \<Rightarrow> (Inl err, dk, tr)
           | None \<Rightarrow>
               (let dk1 = mid1 dk
                in case read_bytes io dk1 p os_gone of
                     Inl err \<Rightarrow> (Inl err, dk1, tr)
                   | Inr original \<Rightarrow>
                       if \<not> valid_utf8 original
                       then (Inl (Execution (input @ '' is not valid UTF-8; refusing to edit'')), dk1, tr)
                       else
                         (case apply_edits input 0 es original 0 of
                            Inl err \<Rightarrow> (Inl err, dk1, tr)
                          | Inr (content, done_n) \<Rightarrow>
                              store_edit io mid2 dk1 tr p content
                                (''applied '' @ show_nat (length es) @ '' edits ('' @ show_nat done_n
                                 @ '' total replacements) to '' @ input)))))"

subsection \<open>Write\<close>

definition line_count :: "string \<Rightarrow> nat" where
  "line_count s =
     (if s = [] then 0
      else (let nl = length (filter (\<lambda>c. c = newline) s) in if last s = newline then nl else nl + 1))"

definition write_execute ::
  "io \<Rightarrow> string \<Rightarrow> string \<Rightarrow> string \<Rightarrow> disk \<Rightarrow> (tool_error + tool_output) \<times> disk" where
  "write_execute io base input content dk =
     (if MAX_FILE_BYTES < length content
      then (Inl (Execution (input @ '': content is '' @ show_nat (length content) @ '' bytes; ceiling is ''
              @ show_nat MAX_FILE_BYTES @ '' bytes'')), dk)
      else case resolve_within (components base) (components input) of
        Inl e \<Rightarrow> (Inl (guard_error base input e), dk)
      | Inr p \<Rightarrow>
          (case (if path_pop p = (False, p) then (None, dk) else make_dirs io dk (snd (path_pop p))) of
             (Some e, dk1) \<Rightarrow> (Inl (IoError e), dk1)
           | (None, dk1) \<Rightarrow>
               (case write_bytes io dk1 p content of
                  (Some e, dk2) \<Rightarrow> (Inl (IoError e), dk2)
                | (None, dk2) \<Rightarrow>
                    (Inr (OutText (''wrote '' @ show_nat (line_count content) @ '' line'' @ plural (line_count content)
                       @ '' ('' @ show_nat (length content) @ '' bytes) to '' @ input)), dk2))))"

subsection \<open>Read\<close>

record read_input =
  ri_path :: string
  ri_offset :: "nat option"
  ri_limit :: "nat option"
  ri_pages :: "string option"

record decoders =
  dc_pdf :: "string \<Rightarrow> string + string"
  dc_json :: "string \<Rightarrow> string + json"
  dc_base64 :: "string \<Rightarrow> string"
  dc_number_error :: "string \<Rightarrow> string"

definition DEFAULT_READ_LIMIT :: nat where "DEFAULT_READ_LIMIT = 2000"
definition MAX_LINE_CHARS :: nat where "MAX_LINE_CHARS = 2000"

definition tab :: char where "tab = CHR 0x09"

definition pad_left :: "nat \<Rightarrow> string \<Rightarrow> string" where
  "pad_left n s = replicate (n - length s) (CHR '' '') @ s"

definition render_line :: "nat \<Rightarrow> string \<Rightarrow> string" where
  "render_line idx line =
     pad_left 6 (show_nat (idx + 1)) @ [tab] @ take_chars MAX_LINE_CHARS line @ [newline]
     @ (if MAX_LINE_CHARS < char_count line then ''       '' @ [tab] @ ''<line truncated>'' @ [newline] else [])"

definition render_lines :: "nat \<Rightarrow> nat \<Rightarrow> string list \<Rightarrow> string" where
  "render_lines offset limit lines =
     (let out = concat (map (\<lambda>(i, l). render_line i l) (take limit (drop offset (enumerate 0 lines))))
      in if out = [] then ''<empty file or offset past end>'' @ [newline] else out)"

definition is_partial_read :: "nat \<Rightarrow> nat \<Rightarrow> string list \<Rightarrow> bool" where
  "is_partial_read offset limit lines \<longleftrightarrow> 0 < offset \<or> limit < length lines - offset"

text \<open>The numbers of a page range: trimmed, one-based.\<close>

definition page_number :: "decoders \<Rightarrow> string \<Rightarrow> tool_error + nat" where
  "page_number dc s =
     (case parse_usize (trim s) of
        None \<Rightarrow> Inl (InvalidInput (dc_number_error dc s))
      | Some n \<Rightarrow> if n = 0 then Inl (InvalidInput ''pages are 1-indexed; 0 is not valid'') else Inr (n - 1))"

definition split_once :: "char \<Rightarrow> string \<Rightarrow> (string \<times> string) option" where
  "split_once c s =
     (if c \<in> set s then Some (takeWhile (\<lambda>d. d \<noteq> c) s, drop 1 (dropWhile (\<lambda>d. d \<noteq> c) s)) else None)"

definition parse_page_range :: "decoders \<Rightarrow> (string \<Rightarrow> string) \<Rightarrow> string \<Rightarrow> nat \<Rightarrow> tool_error + nat \<times> nat" where
  "parse_page_range dc quoted rng total_pages =
     (if total_pages = 0 then Inl (Execution ''PDF has no extractable pages'')
      else
        (let bounds = (case split_once (CHR ''-'') rng of
                         Some (a, b) \<Rightarrow>
                           (case page_number dc a of
                              Inl e \<Rightarrow> Inl e
                            | Inr lo \<Rightarrow> (case page_number dc b of Inl e \<Rightarrow> Inl e | Inr hi \<Rightarrow> Inr (lo, hi)))
                       | None \<Rightarrow> map_sum id (\<lambda>p. (p, p)) (page_number dc rng))
         in case bounds of
              Inl e \<Rightarrow> Inl e
            | Inr (lo, hi) \<Rightarrow>
                if hi < lo then Inl (InvalidInput (''page range '' @ quoted rng @ '': lower bound exceeds upper''))
                else Inr (min lo (min hi (total_pages - 1)), min hi (total_pages - 1))))"

fun split_char :: "char \<Rightarrow> string \<Rightarrow> string list" where
  "split_char d [] = [[]]"
| "split_char d (c # cs) =
     (if c = d then [] # split_char d cs
      else (case split_char d cs of p # ps \<Rightarrow> (c # p) # ps | [] \<Rightarrow> [[c]]))"

definition render_pdf ::
  "decoders \<Rightarrow> (string \<Rightarrow> string) \<Rightarrow> string \<Rightarrow> string option \<Rightarrow> string \<Rightarrow> tool_error + tool_output" where
  "render_pdf dc quoted bytes pages path =
     (case dc_pdf dc bytes of
        Inl e \<Rightarrow> Inl (Execution (''pdf parse failed for '' @ path @ '': '' @ e))
      | Inr raw \<Rightarrow>
          (case pages of
             None \<Rightarrow> Inr (OutText raw)
           | Some rng \<Rightarrow>
               (let split = split_char (CHR 0x0C) raw
                in case parse_page_range dc quoted rng (length split) of
                     Inl e \<Rightarrow> Inl e
                   | Inr (lo, hi) \<Rightarrow>
                       Inr (OutText (glue ([newline] @ ''--- page break ---'' @ [newline])
                              (take (hi + 1 - lo) (drop lo split)))))))"

definition office_nudge :: "string \<Rightarrow> nat \<Rightarrow> string" where
  "office_nudge ext n =
     ''<office file: '' @ ext @ '', '' @ show_nat n @ '' bytes>'' @ [newline]
     @ ''This format is not parsed by Read. Invoke the `office-extract` skill ''
     @ ''(or the equivalent skill your operator has installed) and follow its ''
     @ ''instructions to extract the text via an out-of-process script.''"

definition image_media :: "string \<Rightarrow> string" where
  "image_media ext =
     (if ext = ''png'' then ''image/png''
      else if ext = ''jpg'' \<or> ext = ''jpeg'' then ''image/jpeg''
      else if ext = ''gif'' then ''image/gif''
      else if ext = ''webp'' then ''image/webp''
      else if ext = ''bmp'' then ''image/bmp''
      else ''application/octet-stream'')"

definition render_image :: "decoders \<Rightarrow> string \<Rightarrow> string \<Rightarrow> tool_error + tool_output" where
  "render_image dc bytes ext = Inr (OutBlocks [Image (Base64 (image_media ext) (dc_base64 dc bytes))])"

subsection \<open>Notebooks\<close>

fun join_source :: "json option \<Rightarrow> string" where
  "join_source (Some (JString s)) = s"
| "join_source (Some (JArray vs)) = concat (List.map_filter (\<lambda>v. json_str (Some v)) vs)"
| "join_source _ = []"

definition ended :: "string \<Rightarrow> string" where
  "ended s = (if s \<noteq> [] \<and> last s = newline then s else s @ [newline])"

definition render_cell_output :: "json \<Rightarrow> string" where
  "render_cell_output output =
     (let kind = or_else (json_str (json_get output ''output_type'')) []
      in if kind = ''stream'' then ended (join_source (json_get output ''text''))
         else if kind = ''execute_result'' \<or> kind = ''display_data'' then
           (case json_get output ''data'' of
              Some (JObject kvs) \<Rightarrow>
                (case map_of kvs ''text/plain'' of Some v \<Rightarrow> ended (join_source (Some v)) | None \<Rightarrow> [])
                @ concat (map (\<lambda>(mime, _). ''<output: '' @ mime @ ''>'' @ [newline])
                    (filter (\<lambda>(mime, _). mime \<noteq> ''text/plain'') kvs))
            | _ \<Rightarrow> [])
         else if kind = ''error'' then
           ''Error: '' @ or_else (json_str (json_get output ''ename'')) [] @ '': ''
           @ or_else (json_str (json_get output ''evalue'')) [] @ [newline]
         else ''<output: '' @ kind @ ''>'' @ [newline])"

definition render_cell :: "string \<Rightarrow> nat \<Rightarrow> json \<Rightarrow> string" where
  "render_cell lang idx cell =
     (let kind = or_else (json_str (json_get cell ''cell_type'')) ''unknown'';
          source = join_source (json_get cell ''source'')
      in ''--- cell '' @ show_nat (idx + 1) @ '' ('' @ kind @ '') ---'' @ [newline]
         @ (if kind = ''markdown'' \<or> kind = ''raw'' then ended source
            else if kind = ''code'' then
              ''```'' @ lang @ [newline] @ ended source @ ''```'' @ [newline]
              @ (case json_array (json_get cell ''outputs'') of
                   Some outs \<Rightarrow>
                     if outs = [] then [] else ''=== output ==='' @ [newline] @ concat (map render_cell_output outs)
                 | None \<Rightarrow> [])
            else source @ [newline]))"

definition pointer :: "json \<Rightarrow> string list \<Rightarrow> json option" where
  "pointer v ks = fold (\<lambda>k r. case r of Some u \<Rightarrow> json_get u k | None \<Rightarrow> None) ks (Some v)"

definition notebook_language :: "json \<Rightarrow> string" where
  "notebook_language nb =
     (case json_str (pointer nb [''metadata'', ''kernelspec'', ''language'']) of
        Some l \<Rightarrow> l
      | None \<Rightarrow> or_else (json_str (pointer nb [''metadata'', ''language_info'', ''name''])) ''python'')"

definition render_notebook :: "decoders \<Rightarrow> string \<Rightarrow> string \<Rightarrow> tool_error + tool_output" where
  "render_notebook dc bytes path =
     (case dc_json dc bytes of
        Inl e \<Rightarrow> Inl (Execution (''ipynb parse failed for '' @ path @ '': '' @ e))
      | Inr nb \<Rightarrow>
          (case json_array (json_get nb ''cells'') of
             None \<Rightarrow> Inl (Execution (path @ '' has no `cells` array''))
           | Some cells \<Rightarrow>
               Inr (OutText (concat (map (\<lambda>(i, c). render_cell (notebook_language nb) i c) (enumerate 0 cells))))))"

subsection \<open>The tool\<close>

definition resolved_extension :: "path \<Rightarrow> string" where
  "resolved_extension p = (case p of [] \<Rightarrow> [] | _ \<Rightarrow> (case last p of Normal n \<Rightarrow> map ascii_lower (extension n) | _ \<Rightarrow> []))"

definition read_execute ::
  "decoders \<Rightarrow> (string \<Rightarrow> string) \<Rightarrow> io \<Rightarrow> (disk \<Rightarrow> disk) \<Rightarrow> string \<Rightarrow> read_input \<Rightarrow> disk \<Rightarrow> read_tracker option
     \<Rightarrow> (tool_error + tool_output) \<times> disk \<times> read_tracker option" where
  "read_execute dc quoted io mid base input dk tr =
     (case open_file io dk base (ri_path input) refuse_read of
        Inl err \<Rightarrow> (Inl err, dk, tr)
      | Inr (p, f) \<Rightarrow>
          (let dk1 = mid dk
           in case read_bytes io dk1 p os_gone of
                Inl err \<Rightarrow> (Inl err, dk1, tr)
              | Inr bytes \<Rightarrow>
                  (let tr1 = note_read io tr p f False;
                       ext = resolved_extension p
                   in if ext = ''pdf'' then (render_pdf dc quoted bytes (ri_pages input) (ri_path input), dk1, tr1)
                      else if ext \<in> set [''png'', ''jpg'', ''jpeg'', ''gif'', ''webp'', ''bmp''] then (render_image dc bytes ext, dk1, tr1)
                      else if ext = ''ipynb'' then (render_notebook dc bytes (ri_path input), dk1, tr1)
                      else if ext \<in> set [''docx'', ''xlsx'', ''pptx''] then (Inr (OutText (office_nudge ext (length bytes))), dk1, tr1)
                      else if CHR 0x00 \<in> set bytes
                      then (Inr (OutText (''<binary file: '' @ show_nat (length bytes) @ '' bytes>'')), dk1, tr1)
                      else
                        (let lines = text_lines (from_utf8_lossy bytes);
                             offset = (case ri_offset input of Some n \<Rightarrow> n | None \<Rightarrow> 1) - 1;
                             limit = (case ri_limit input of Some n \<Rightarrow> n | None \<Rightarrow> DEFAULT_READ_LIMIT)
                         in (Inr (OutText (render_lines offset limit lines)), dk1,
                             note_read io tr1 p f (is_partial_read offset limit lines))))))"

lemma page_range_in_bounds:
  "parse_page_range dc quoted rng n = Inr (lo, hi) \<Longrightarrow> lo \<le> hi \<and> hi < n"
  by (auto simp: parse_page_range_def Let_def split: sum.splits option.splits prod.splits if_splits)

subsection \<open>What an edit does\<close>

text \<open>The disk after a tool ran undisturbed: the resolved file has new contents, or nothing changed.\<close>

lemma open_fileD:
  assumes "open_file io dk base input too_big = Inr (p, f)"
  shows "resolve_within (components base) (components input) = Inr p" "dk_files dk p = Some f" "io_stat io p = None"
    "length (fl_bytes f) \<le> MAX_FILE_BYTES"
  using assms by (auto simp: open_file_def metadata_or_not_found_def split: sum.splits option.splits if_splits)

lemma put_file_simps [simp]:
  "dk_files (put_file dk p b) = (dk_files dk)(p \<mapsto> \<lparr>fl_bytes = b, fl_mtime = dk_clock dk + 1\<rparr>)"
  "dk_dirs (put_file dk p b) = dk_dirs dk" "dk_clock (put_file dk p b) = dk_clock dk + 1"
  by (simp_all add: put_file_def)

lemma write_bytes_ok: "write_bytes io dk p b = (None, dk') \<Longrightarrow> dk' = put_file dk p b \<and> io_write io p = None"
  by (auto simp: write_bytes_def split: option.splits if_splits)

lemma store_edit_ok:
  assumes "store_edit io id dk tr p bytes msg = (Inr out, dk', tr')"
  shows "dk' = put_file dk p bytes" "out = OutText msg" "io_write io p = None"
    "io_stat io p = None \<Longrightarrow> tr' = note_read io tr p \<lparr>fl_bytes = bytes, fl_mtime = dk_clock dk + 1\<rparr> False"
  using assms
  by (auto simp: store_edit_def metadata_or_not_found_def Let_def split: prod.splits option.splits dest!: write_bytes_ok)

lemma edit_ok:
  assumes "edit_execute io id id base input e dk tr = (Inr out, dk', tr')"
  obtains p f where
    "open_file io dk base input refuse_edit = Inr (p, f)" "eo_old e \<noteq> []" "eo_old e \<noteq> eo_new e"
    "read_gate io tr p f (edit_unread input) (edit_partly input) (edit_changed input) = None"
    "read_bytes io dk p os_gone = Inr (fl_bytes f)" "valid_utf8 (fl_bytes f)" "0 < count_matches (eo_old e) (fl_bytes f)"
    "count_matches (eo_old e) (fl_bytes f) = 1 \<or> eo_all e"
    "store_edit io id dk tr p (apply_edit e (fl_bytes f))
       (''replaced '' @ show_nat (count_matches (eo_old e) (fl_bytes f)) @ '' occurrence''
         @ plural (count_matches (eo_old e) (fl_bytes f)) @ '' in '' @ input) = (Inr out, dk', tr')"
proof -
  have ne: "eo_old e \<noteq> []" "eo_old e \<noteq> eo_new e"
    using assms by (auto simp: edit_execute_def split: if_splits)
  obtain p f where o: "open_file io dk base input refuse_edit = Inr (p, f)"
    using assms by (auto simp: edit_execute_def split: if_splits sum.splits)
  have g: "read_gate io tr p f (edit_unread input) (edit_partly input) (edit_changed input) = None"
    using assms o ne by (auto simp: edit_execute_def split: option.splits)
  obtain b where b: "read_bytes io dk p os_gone = Inr b"
    using assms o ne g by (auto simp: edit_execute_def split: sum.splits)
  then have bf: "b = fl_bytes f"
    using open_fileD(2) [OF o] by (auto simp: read_bytes_def split: option.splits)
  have v: "valid_utf8 b" and n0: "count_matches (eo_old e) b \<noteq> 0"
    and n1: "\<not> (1 < count_matches (eo_old e) b \<and> \<not> eo_all e)"
    using assms o ne g b by (auto simp: edit_execute_def Let_def split: if_splits)
  have s: "store_edit io id dk tr p (apply_edit e b)
      (''replaced '' @ show_nat (if eo_all e then count_matches (eo_old e) b else 1) @ '' occurrence''
        @ plural (if eo_all e then count_matches (eo_old e) b else 1) @ '' in '' @ input) = (Inr out, dk', tr')"
    using assms o ne g b v n0 n1 by (cases "eo_all e") (simp_all add: edit_execute_def Let_def split: if_splits)
  have "(if eo_all e then count_matches (eo_old e) b else 1) = count_matches (eo_old e) b"
    using n0 n1 by auto
  with o ne g b v n0 n1 s bf show ?thesis by (intro that) auto
qed

lemma apply_edit_pieces:
  assumes "eo_old e \<noteq> []" "count_matches (eo_old e) s = 1 \<or> eo_all e"
  shows "\<exists>ps. length ps = Suc (count_matches (eo_old e) s) \<and> s = glue (eo_old e) ps \<and> apply_edit e s = glue (eo_new e) ps
    \<and> list_all (\<lambda>p. \<not> sublist (eo_old e) p) ps"
proof -
  have "apply_edit e s = replace_matches (eo_old e) (eo_new e) s"
    using assms replace_first_single [OF assms(1)] by (auto simp: apply_edit_def)
  then show ?thesis using replace_matches_pieces [OF assms(1)] by simp
qed

text \<open>An edit replaces the matches and nothing else.  When \<open>Edit\<close> reports success, the file it resolved to,
  inside the workspace, was a sequence of pieces without the old text, joined by the old text; it is now the same
  pieces joined by the new text, there was one match or all were asked for, the report tells how many,
  and no other file changed.\<close>

theorem edit_replaces_matches_only:
  assumes "edit_execute io id id base input e dk tr = (Inr out, dk', tr')"
  shows "\<exists>p f ps n. resolve_within (components base) (components input) = Inr p \<and> dk_files dk p = Some f
    \<and> fl_bytes f = glue (eo_old e) ps \<and> list_all (\<lambda>q. \<not> sublist (eo_old e) q) ps \<and> length ps = Suc n
    \<and> 0 < n \<and> (n = 1 \<or> eo_all e)
    \<and> dk_files dk' = (dk_files dk)(p \<mapsto> \<lparr>fl_bytes = glue (eo_new e) ps, fl_mtime = dk_clock dk + 1\<rparr>)
    \<and> out = OutText (''replaced '' @ show_nat n @ '' occurrence'' @ plural n @ '' in '' @ input)"
proof -
  obtain p f where o: "open_file io dk base input refuse_edit = Inr (p, f)" and ne: "eo_old e \<noteq> []"
    and n: "0 < count_matches (eo_old e) (fl_bytes f)" "count_matches (eo_old e) (fl_bytes f) = 1 \<or> eo_all e"
    and s: "store_edit io id dk tr p (apply_edit e (fl_bytes f))
       (''replaced '' @ show_nat (count_matches (eo_old e) (fl_bytes f)) @ '' occurrence''
         @ plural (count_matches (eo_old e) (fl_bytes f)) @ '' in '' @ input) = (Inr out, dk', tr')"
    using edit_ok [OF assms] by metis
  from apply_edit_pieces [OF ne n(2)] obtain ps where
    "length ps = Suc (count_matches (eo_old e) (fl_bytes f))" "fl_bytes f = glue (eo_old e) ps"
    "apply_edit e (fl_bytes f) = glue (eo_new e) ps" "list_all (\<lambda>p. \<not> sublist (eo_old e) p) ps" by blast
  then show ?thesis
    using open_fileD(1,2) [OF o] n store_edit_ok(1,2) [OF s]
    by (intro exI [of _ p] exI [of _ f] exI [of _ ps] exI [of _ "count_matches (eo_old e) (fl_bytes f)"]) simp
qed

subsection \<open>MultiEdit and Edit\<close>

lemma apply_edits_total:
  "apply_edits input i es s m = Inr (t, n) \<Longrightarrow> t = foldl (\<lambda>s e. apply_edit e s) s es"
  by (induction input i es s m rule: apply_edits.induct) (auto simp: Let_def split: if_splits)

fun edit_seq ::
  "io \<Rightarrow> string \<Rightarrow> string \<Rightarrow> edit_op list \<Rightarrow> disk \<Rightarrow> read_tracker option \<Rightarrow> (disk \<times> read_tracker option) option" where
  "edit_seq io base input [] dk tr = Some (dk, tr)"
| "edit_seq io base input (e # es) dk tr =
     (case edit_execute io id id base input e dk tr of
        (Inl _, _, _) \<Rightarrow> None
      | (Inr _, dk', tr') \<Rightarrow> edit_seq io base input es dk' tr')"

lemma edit_seq_apply:
  assumes "edit_seq io base input es dk tr = Some (dk1, tr1)" "open_file io dk base input refuse_edit = Inr (p, f)"
  shows "(\<exists>t n. apply_edits input i es (fl_bytes f) m = Inr (t, n)
      \<and> map_option fl_bytes (dk_files dk1 p) = Some t) \<and> (\<forall>q. q \<noteq> p \<longrightarrow> dk_files dk1 q = dk_files dk q)"
  using assms
proof (induction es arbitrary: dk tr f i m)
  case Nil
  then show ?case using open_fileD(2) by fastforce
next
  case (Cons e es)
  from Cons.prems(1) obtain out dk' tr' where
    ex: "edit_execute io id id base input e dk tr = (Inr out, dk', tr')" and
    rest: "edit_seq io base input es dk' tr' = Some (dk1, tr1)"
    by (auto split: prod.splits sum.splits)
  obtain p' f' where o: "open_file io dk base input refuse_edit = Inr (p', f')" and ne: "eo_old e \<noteq> []" "eo_old e \<noteq> eo_new e"
    and n: "0 < count_matches (eo_old e) (fl_bytes f')" "count_matches (eo_old e) (fl_bytes f') = 1 \<or> eo_all e"
    and s: "store_edit io id dk tr p' (apply_edit e (fl_bytes f'))
       (''replaced '' @ show_nat (count_matches (eo_old e) (fl_bytes f')) @ '' occurrence''
         @ plural (count_matches (eo_old e) (fl_bytes f')) @ '' in '' @ input) = (Inr out, dk', tr')"
    using edit_ok [OF ex] by metis
  have eq [simp]: "p' = p" "f' = f" using o Cons.prems(2) by simp_all
  have dk': "dk' = put_file dk p (apply_edit e (fl_bytes f))" using store_edit_ok(1) [OF s] by simp
  have step: "apply_edits input i (e # es) (fl_bytes f) m
      = apply_edits input (i + 1) es (apply_edit e (fl_bytes f)) (m + (if eo_all e then count_matches (eo_old e) (fl_bytes f) else 1))"
    using ne n by (auto simp: Let_def)
  show ?case
  proof (cases es)
    case Nil
    have "dk1 = put_file dk p (apply_edit e (fl_bytes f))" using rest Nil dk' by simp
    with step Nil show ?thesis by (simp del: apply_edits.simps(2))
  next
    case (Cons e2 es2)
    with rest obtain out2 r2 where "edit_execute io id id base input e2 dk' tr' = (Inr out2, r2)"
      by (auto split: prod.splits sum.splits)
    then obtain p2 f2 where o2: "open_file io dk' base input refuse_edit = Inr (p2, f2)"
      by (cases r2) (metis edit_ok)
    have "p2 = p" using open_fileD(1) [OF o2] open_fileD(1) [OF o] by simp
    moreover have "f2 = \<lparr>fl_bytes = apply_edit e (fl_bytes f), fl_mtime = dk_clock dk + 1\<rparr>"
      using open_fileD(2) [OF o2] dk' \<open>p2 = p\<close> by simp
    ultimately show ?thesis
      using Cons.IH [OF rest, of "\<lparr>fl_bytes = apply_edit e (fl_bytes f), fl_mtime = dk_clock dk + 1\<rparr>" "i + 1"
          "m + (if eo_all e then count_matches (eo_old e) (fl_bytes f) else 1)"] o2 step dk' by (simp del: apply_edits.simps(2))
  qed
qed

lemma edit_seq_head:
  assumes "edit_seq io base input (e # es) dk tr = Some r"
  obtains p f where "open_file io dk base input refuse_edit = Inr (p, f)" "valid_utf8 (fl_bytes f)"
    "read_bytes io dk p os_gone = Inr (fl_bytes f)" "io_write io p = None"
    "\<And>a b c. read_gate io tr p f a b c = None"
proof -
  obtain out dk' tr' where ex: "edit_execute io id id base input e dk tr = (Inr out, dk', tr')"
    using assms by (auto split: prod.splits sum.splits)
  then obtain p f msg where *: "open_file io dk base input refuse_edit = Inr (p, f)" "valid_utf8 (fl_bytes f)"
    "read_bytes io dk p os_gone = Inr (fl_bytes f)"
    "read_gate io tr p f (edit_unread input) (edit_partly input) (edit_changed input) = None"
    "store_edit io id dk tr p (apply_edit e (fl_bytes f)) msg = (Inr out, dk', tr')"
    using edit_ok [OF ex] by metis
  have "read_gate io tr p f a b c = None" for a b c
    using *(4) by (auto simp: read_gate_def split: option.splits if_splits)
  with * store_edit_ok(3) [OF *(5)] show ?thesis by (intro that) auto
qed

text \<open>A \<open>MultiEdit\<close> is its edits in a row.  If \<open>Edit\<close>, called for one edit after the other, succeeds every time,
  then \<open>MultiEdit\<close> succeeds with all of them and leaves the same texts in all files.\<close>

theorem multi_edit_is_edits:
  assumes "es \<noteq> []" "edit_seq io base input es dk tr = Some (dk1, tr1)"
  shows "\<exists>out dk2 tr2. multi_edit_execute io id id base input es dk tr = (Inr out, dk2, tr2)
    \<and> (\<forall>q. map_option fl_bytes (dk_files dk2 q) = map_option fl_bytes (dk_files dk1 q))"
proof -
  obtain e es' where es: "es = e # es'" using assms(1) by (cases es) auto
  obtain p f where pf: "open_file io dk base input refuse_edit = Inr (p, f)" "valid_utf8 (fl_bytes f)"
    "read_bytes io dk p os_gone = Inr (fl_bytes f)" "io_write io p = None"
    "\<And>a b c. read_gate io tr p f a b c = None"
    using edit_seq_head assms(2) unfolding es by metis
  from edit_seq_apply [OF assms(2) pf(1), of 0 0] obtain t n where
    t: "apply_edits input 0 es (fl_bytes f) 0 = Inr (t, n)" "map_option fl_bytes (dk_files dk1 p) = Some t"
    and rest: "q \<noteq> p \<Longrightarrow> dk_files dk1 q = dk_files dk q" for q by blast
  obtain out tr2 where "multi_edit_execute io id id base input es dk tr = (Inr out, put_file dk p t, tr2)"
    using pf t(1) assms(1) open_fileD(2) [OF pf(1)] by (simp add: multi_edit_execute_def store_edit_def write_bytes_def Let_def)
  then show ?thesis using t(2) rest by (intro exI conjI) auto
qed

text \<open>A \<open>MultiEdit\<close> changes all or nothing.  When it reports an error, whichever check or edit failed, the disk
  and the tracker are as before, unless the operating system failed the one write at its end.\<close>

theorem multi_edit_all_or_nothing:
  assumes "multi_edit_execute io id mid base input es dk tr = (Inl err, dk', tr')" "io_write io = (\<lambda>_. None)"
  shows "dk' = dk \<and> tr' = tr"
proof (cases "open_file io dk base input refuse_edit")
  case (Inl e)
  with assms(1) show ?thesis by (auto simp: multi_edit_execute_def split: if_splits)
next
  case (Inr r)
  obtain p f where r: "r = (p, f)" by fastforce
  have "dk_files dk p = Some f"
    using open_fileD(2) [of io dk base input refuse_edit p f] Inr r by simp
  then show ?thesis
    using assms Inr r
    by (auto simp: multi_edit_execute_def store_edit_def write_bytes_def Let_def
        split: if_splits option.splits sum.splits prod.splits)
qed

subsection \<open>No change is lost\<close>

text \<open>What other processes do, in whole files.\<close>

datatype change = Overwrite path string | Remove path

fun change_disk :: "change \<Rightarrow> disk \<Rightarrow> disk" where
  "change_disk (Overwrite p b) dk = put_file dk p b"
| "change_disk (Remove p) dk = dk\<lparr>dk_files := (dk_files dk)(p := None)\<rparr>"

definition others :: "change list \<Rightarrow> disk \<Rightarrow> disk" where
  "others cs dk = fold change_disk cs dk"

text \<open>A thread: the disk, its tracker, and for the statement the bytes it was last given of a path.\<close>

record thread_files =
  tf_disk :: disk
  tf_tracker :: read_tracker
  tf_seen :: "path \<rightharpoonup> string"

datatype file_event =
    Others "change list"
  | ReadCall io "change list" read_input
  | EditCall io string edit_op
  | MultiCall io string "edit_op list"
  | WriteCall io string string

definition sees :: "thread_files \<Rightarrow> disk \<Rightarrow> read_tracker option \<Rightarrow> path option \<Rightarrow> thread_files" where
  "sees s dk tr at =
     \<lparr>tf_disk = dk, tf_tracker = (case tr of Some m \<Rightarrow> m | None \<Rightarrow> tf_tracker s),
      tf_seen = (case at of Some p \<Rightarrow> (tf_seen s)(p := map_option fl_bytes (dk_files dk p)) | None \<Rightarrow> tf_seen s)\<rparr>"

definition resolved :: "string \<Rightarrow> string \<Rightarrow> path option" where
  "resolved base input = (case resolve_within (components base) (components input) of Inr p \<Rightarrow> Some p | Inl _ \<Rightarrow> None)"

text \<open>The file whose bytes a \<open>Read\<close> loads, whatever it makes of them.\<close>

definition loaded :: "io \<Rightarrow> change list \<Rightarrow> string \<Rightarrow> string \<Rightarrow> disk \<Rightarrow> path option" where
  "loaded io cs base input dk =
     (case open_file io dk base input refuse_read of
        Inl _ \<Rightarrow> None
      | Inr (p, _) \<Rightarrow> (case read_bytes io (others cs dk) p os_gone of Inl _ \<Rightarrow> None | Inr _ \<Rightarrow> Some p))"

definition shown_path :: "tool_error + tool_output \<Rightarrow> path option \<Rightarrow> path option" where
  "shown_path r at = (case r of Inr _ \<Rightarrow> at | Inl _ \<Rightarrow> None)"

fun file_step :: "decoders \<Rightarrow> (string \<Rightarrow> string) \<Rightarrow> string \<Rightarrow> thread_files \<Rightarrow> file_event \<Rightarrow> thread_files" where
  "file_step dc quoted base s (Others cs) = s\<lparr>tf_disk := others cs (tf_disk s)\<rparr>"
| "file_step dc quoted base s (ReadCall io cs input) =
     (case read_execute dc quoted io (others cs) base input (tf_disk s) (Some (tf_tracker s)) of
        (r, dk, tr) \<Rightarrow> sees s dk tr (loaded io cs base (ri_path input) (tf_disk s)))"
| "file_step dc quoted base s (EditCall io input e) =
     (case edit_execute io id id base input e (tf_disk s) (Some (tf_tracker s)) of
        (r, dk, tr) \<Rightarrow> sees s dk tr (shown_path r (resolved base input)))"
| "file_step dc quoted base s (MultiCall io input es) =
     (case multi_edit_execute io id id base input es (tf_disk s) (Some (tf_tracker s)) of
        (r, dk, tr) \<Rightarrow> sees s dk tr (shown_path r (resolved base input)))"
| "file_step dc quoted base s (WriteCall io input content) =
     (case write_execute io base input content (tf_disk s) of
        (r, dk) \<Rightarrow> sees s dk (Some (tf_tracker s)) None)"

definition file_run :: "decoders \<Rightarrow> (string \<Rightarrow> string) \<Rightarrow> string \<Rightarrow> file_event list \<Rightarrow> thread_files \<Rightarrow> thread_files" where
  "file_run dc quoted base es s = foldl (file_step dc quoted base) s es"

text \<open>Times lie in the past, and a full record whose time is the file's knows the file's bytes.\<close>

definition dated :: "disk \<Rightarrow> bool" where
  "dated dk \<longleftrightarrow> (\<forall>p f. dk_files dk p = Some f \<longrightarrow> fl_mtime f \<le> dk_clock dk)"

definition up_to_date :: "thread_files \<Rightarrow> bool" where
  "up_to_date s \<longleftrightarrow> dated (tf_disk s)
     \<and> (\<forall>p r. tf_tracker s p = Some r \<longrightarrow> rr_mtime r \<le> dk_clock (tf_disk s))
     \<and> (\<forall>p r f. tf_tracker s p = Some r \<longrightarrow> dk_files (tf_disk s) p = Some f \<longrightarrow> fl_mtime f = rr_mtime r
          \<longrightarrow> tf_seen s p = Some (fl_bytes f))"

text \<open>A disk later than another: a file changed in between is younger than the older clock.\<close>

definition later :: "disk \<Rightarrow> disk \<Rightarrow> bool" where
  "later dk dk' \<longleftrightarrow> dk_clock dk \<le> dk_clock dk'
     \<and> (\<forall>p f. dk_files dk' p = Some f \<longrightarrow> dk_files dk p = Some f \<or> dk_clock dk < fl_mtime f \<and> fl_mtime f \<le> dk_clock dk')"

lemma later_refl [simp]: "later dk dk"
  by (simp add: later_def)

lemma later_trans: "later a b \<Longrightarrow> later b c \<Longrightarrow> later a c"
  unfolding later_def by (meson le_less_trans le_trans less_le_trans order.strict_trans1)

lemma later_put [simp]: "later dk (put_file dk p b)"
  by (auto simp: later_def)

lemma later_others: "later dk (others cs dk)"
proof (induction cs arbitrary: dk)
  case (Cons c cs)
  have "later dk (change_disk c dk)" by (cases c) (auto simp: later_def)
  with Cons [of "change_disk c dk"] show ?case by (auto simp: others_def intro: later_trans)
qed (simp add: others_def)

lemma later_dated: "dated dk \<Longrightarrow> later dk dk' \<Longrightarrow> dated dk'"
  unfolding dated_def later_def by (meson le_trans)

lemma later_write: "write_bytes io dk p b = (r, dk') \<Longrightarrow> later dk dk'"
  by (auto simp: write_bytes_def split: option.splits prod.splits if_splits)

lemma later_mkdirs: "make_dirs io dk p = (r, dk') \<Longrightarrow> later dk dk'"
  by (auto simp: make_dirs_def later_def split: option.splits if_splits)

text \<open>A step that leaves the tracker alone, and one that records the file it looked at.\<close>

lemma up_to_date_later:
  assumes "up_to_date s" "later (tf_disk s) dk"
  shows "up_to_date (sees s dk (Some (tf_tracker s)) None)"
proof -
  have c: "dk_clock (tf_disk s) \<le> dk_clock dk" using assms(2) by (simp add: later_def)
  have "tf_seen s p = Some (fl_bytes f)"
    if "tf_tracker s p = Some r" "dk_files dk p = Some f" "fl_mtime f = rr_mtime r" for p r f
  proof -
    have "rr_mtime r \<le> dk_clock (tf_disk s)" using assms(1) that(1) by (auto simp: up_to_date_def)
    with that have "dk_files (tf_disk s) p = Some f" using assms(2) unfolding later_def by (metis not_less)
    with that assms(1) show ?thesis by (auto simp: up_to_date_def)
  qed
  then show ?thesis
    using assms later_dated c by (fastforce simp: up_to_date_def sees_def)
qed

lemma up_to_date_record:
  assumes "up_to_date s" "later (tf_disk s) dk" "rr_mtime r \<le> dk_clock dk"
  shows "up_to_date (sees s dk (Some ((tf_tracker s)(p \<mapsto> r))) (Some p))"
  using up_to_date_later [OF assms(1,2)] assms(3) by (auto simp: up_to_date_def sees_def)

lemma up_to_date_look:
  assumes "up_to_date s" "later (tf_disk s) dk"
  shows "up_to_date (sees s dk (Some (tf_tracker s)) (Some p))"
  using up_to_date_later [OF assms] by (auto simp: up_to_date_def sees_def)

lemma sees_same: "sees s dk (Some (tf_tracker s)) None = s\<lparr>tf_disk := dk\<rparr>"
  by (simp add: sees_def)

lemma shown_path_simps [simp]: "shown_path (Inl e) at = None" "shown_path (Inr x) at = at"
  by (simp_all add: shown_path_def)

lemma up_to_date_store:
  assumes "up_to_date s" "store_edit io id dk (Some (tf_tracker s)) p b msg = (r, dk', tr')" "later (tf_disk s) dk"
  shows "up_to_date (sees s dk' tr' (shown_path r (Some p)))"
proof -
  obtain e dk1 where w: "write_bytes io dk p b = (e, dk1)" by fastforce
  then have l: "later (tf_disk s) dk1" using assms(3) later_trans later_write by blast
  show ?thesis
  proof (cases e)
    case (Some x)
    with w assms(2) have "dk' = dk1" "tr' = Some (tf_tracker s)" "shown_path r (Some p) = None"
      by (auto simp: store_edit_def shown_path_def)
    with up_to_date_later [OF assms(1) l] show ?thesis by simp
  next
    case None
    with w have dk1: "dk1 = put_file dk p b" using write_bytes_ok by simp
    from None w assms(2) have r: "dk' = dk1" "shown_path r (Some p) = Some p"
      by (auto simp: store_edit_def shown_path_def Let_def)
    from None w assms(2) have "tr' = (if io_stat io p = None
        then note_read io (Some (tf_tracker s)) p \<lparr>fl_bytes = b, fl_mtime = dk_clock dk + 1\<rparr> False else Some (tf_tracker s))"
      by (auto simp: store_edit_def metadata_or_not_found_def dk1 Let_def)
    then consider "tr' = Some (tf_tracker s)"
      | "tr' = Some ((tf_tracker s)(p \<mapsto> \<lparr>rr_mtime = dk_clock dk + 1, rr_size = length b, rr_partial = False\<rparr>))"
      by (auto simp: note_read_def record_partial_read_def split: if_splits)
    then show ?thesis
    proof cases
      case 1
      with r up_to_date_look [OF assms(1) l] show ?thesis by simp
    next
      case 2
      with r dk1 show ?thesis using up_to_date_record [OF assms(1) l] by simp
    qed
  qed
qed

lemma edit_opens:
  assumes "edit_execute io id id base input e dk tr = (r, dk', tr')"
  shows "(dk' = dk \<and> tr' = tr \<and> (\<exists>err. r = Inl err))
    \<or> (\<exists>p b msg. resolved base input = Some p \<and> store_edit io id dk tr p b msg = (r, dk', tr'))"
proof (cases "open_file io dk base input refuse_edit")
  case (Inr q)
  obtain p f where q: "q = (p, f)" by fastforce
  then have "resolved base input = Some p" using open_fileD(1) Inr by (auto simp: resolved_def)
  then show ?thesis
    using assms Inr q by (auto simp: edit_execute_def Let_def split: if_splits option.splits sum.splits)
qed (use assms in \<open>auto simp: edit_execute_def split: if_splits\<close>)

lemma multi_opens:
  assumes "multi_edit_execute io id id base input es dk tr = (r, dk', tr')"
  shows "(dk' = dk \<and> tr' = tr \<and> (\<exists>err. r = Inl err))
    \<or> (\<exists>p b msg. resolved base input = Some p \<and> store_edit io id dk tr p b msg = (r, dk', tr'))"
proof (cases "open_file io dk base input refuse_edit")
  case (Inr q)
  obtain p f where q: "q = (p, f)" by fastforce
  then have "resolved base input = Some p" using open_fileD(1) Inr by (auto simp: resolved_def)
  then show ?thesis
    using assms Inr q by (auto simp: multi_edit_execute_def Let_def split: if_splits option.splits sum.splits prod.splits)
qed (use assms in \<open>auto simp: multi_edit_execute_def split: if_splits\<close>)

lemma read_opens:
  assumes "read_execute dc quoted io (others cs) base input dk (Some m) = (r, dk', tr')"
  shows "later dk dk' \<and>
    ((tr' = Some m \<and> (loaded io cs base (ri_path input) dk = None \<or> (\<exists>p. loaded io cs base (ri_path input) dk = Some p)))
     \<or> (\<exists>p f part. loaded io cs base (ri_path input) dk = Some p \<and> dk_files dk p = Some f
          \<and> tr' = Some (m(p \<mapsto> \<lparr>rr_mtime = fl_mtime f, rr_size = length (fl_bytes f), rr_partial = part\<rparr>))))"
proof (cases "open_file io dk base (ri_path input) refuse_read")
  case (Inl e)
  with assms show ?thesis by (auto simp: read_execute_def loaded_def)
next
  case (Inr q)
  obtain p f where q: "q = (p, f)" by fastforce
  have f: "dk_files dk p = Some f" using open_fileD(2) Inr q by blast
  show ?thesis
  proof (cases "read_bytes io (others cs dk) p os_gone")
    case (Inl e)
    with assms Inr q show ?thesis by (auto simp: read_execute_def loaded_def Let_def later_others)
  next
    case b: (Inr bytes)
    then have l: "loaded io cs base (ri_path input) dk = Some p" using Inr q by (simp add: loaded_def)
    have n: "note_read io (note_read io (Some m) p f False) p f part = note_read io (Some m) p f part"
      "note_read io (Some m) p f part = (if io_mtimes io then
         Some (m(p \<mapsto> \<lparr>rr_mtime = fl_mtime f, rr_size = length (fl_bytes f), rr_partial = part\<rparr>)) else Some m)" for part
      by (auto simp: note_read_def record_partial_read_def)
    have "\<exists>part. dk' = others cs dk \<and> tr' = note_read io (Some m) p f part"
      using assms Inr q b by (auto simp: read_execute_def Let_def n(1) split: if_splits)
    then show ?thesis using l f n(2) later_others by (auto split: if_splits)
  qed
qed

lemma up_to_date_step:
  assumes "up_to_date s"
  shows "up_to_date (file_step dc quoted base s ev)"
proof (cases ev)
  case (Others cs)
  then show ?thesis using up_to_date_later [OF assms later_others [of _ cs]] by (simp add: sees_same)
next
  case (ReadCall io cs input)
  obtain r dk tr where e: "read_execute dc quoted io (others cs) base input (tf_disk s) (Some (tf_tracker s)) = (r, dk, tr)"
    by (metis prod_cases3)
  from read_opens [OF e] have l: "later (tf_disk s) dk" by blast
  let ?at = "loaded io cs base (ri_path input) (tf_disk s)"
  have "up_to_date (sees s dk tr ?at)"
  proof (cases "tr = Some (tf_tracker s)")
    case True
    then show ?thesis using up_to_date_later [OF assms l] up_to_date_look [OF assms l] by (cases ?at) auto
  next
    case False
    with read_opens [OF e] obtain p f part where *: "?at = Some p" "dk_files (tf_disk s) p = Some f"
      "tr = Some ((tf_tracker s)(p \<mapsto> \<lparr>rr_mtime = fl_mtime f, rr_size = length (fl_bytes f), rr_partial = part\<rparr>))" by blast
    then have "fl_mtime f \<le> dk_clock dk" using assms l by (fastforce simp: up_to_date_def dated_def later_def)
    then show ?thesis using * up_to_date_record [OF assms l] by simp
  qed
  with ReadCall e show ?thesis by simp
next
  case (EditCall io input e)
  obtain r dk tr where ex: "edit_execute io id id base input e (tf_disk s) (Some (tf_tracker s)) = (r, dk, tr)"
    by (metis prod_cases3)
  from edit_opens [OF ex] have "up_to_date (sees s dk tr (shown_path r (resolved base input)))"
    using up_to_date_later [OF assms later_refl] up_to_date_store [OF assms _ later_refl] by auto
  with EditCall ex show ?thesis by simp
next
  case (MultiCall io input es)
  obtain r dk tr where ex: "multi_edit_execute io id id base input es (tf_disk s) (Some (tf_tracker s)) = (r, dk, tr)"
    by (metis prod_cases3)
  from multi_opens [OF ex] have "up_to_date (sees s dk tr (shown_path r (resolved base input)))"
    using up_to_date_later [OF assms later_refl] up_to_date_store [OF assms _ later_refl] by auto
  with MultiCall ex show ?thesis by simp
next
  case (WriteCall io input content)
  obtain r dk where w: "write_execute io base input content (tf_disk s) = (r, dk)" by fastforce
  then have "later (tf_disk s) dk"
    by (auto simp: write_execute_def split: if_splits sum.splits prod.splits option.splits
        dest!: later_write later_mkdirs intro: later_trans)
  with WriteCall w up_to_date_later [OF assms] show ?thesis by simp
qed

lemma up_to_date_run: "up_to_date s \<Longrightarrow> up_to_date (file_run dc quoted base es s)"
  by (induction es arbitrary: s) (simp_all add: file_run_def up_to_date_step)

text \<open>A thread that has read nothing yet.\<close>

definition new_thread_files :: "disk \<Rightarrow> thread_files" where
  "new_thread_files dk = \<lparr>tf_disk = dk, tf_tracker = Map.empty, tf_seen = Map.empty\<rparr>"

lemma up_to_date_new: "dated dk \<Longrightarrow> up_to_date (new_thread_files dk)"
  by (simp add: up_to_date_def new_thread_files_def)

lemma gate_knows:
  assumes "up_to_date s" "open_file io (tf_disk s) base input too_big = Inr (p, f)"
    "read_gate io (Some (tf_tracker s)) p f a b c = None"
  shows "tf_seen s p = Some (fl_bytes f)"
  using assms open_fileD(2) [OF assms(2)]
  by (auto simp: read_gate_def last_read_def up_to_date_def split: option.splits if_splits)


text \<open>A file shown as binary counts as read.  For a file with a zero byte, \<open>Read\<close> shows the model the size and
  nothing else, but records the file as read in full; an \<open>Edit\<close> of text the model has never been shown then
  passes the gate.\<close>

theorem binary_read_unlocks_edit:
  assumes "open_file io dk base input refuse_read = Inr (p, f)" "CHR 0x00 \<in> set (fl_bytes f)" "valid_utf8 (fl_bytes f)"
    and "resolved_extension p \<notin> set [''pdf'', ''png'', ''jpg'', ''jpeg'', ''gif'', ''webp'', ''bmp'', ''ipynb'', ''docx'', ''xlsx'', ''pptx'']"
    and "io_read io p = None" "io_write io p = None" "io_mtimes io" "ri_path req = input"
    and "eo_old e \<noteq> []" "eo_old e \<noteq> eo_new e" "count_matches (eo_old e) (fl_bytes f) = 1"
  shows "let (shown, dk1, tr1) = read_execute dc quoted io id base req dk (Some m);
             (r, dk2, tr2) = edit_execute io id id base input e dk1 tr1
    in shown = Inr (OutText (''<binary file: '' @ show_nat (length (fl_bytes f)) @ '' bytes>''))
       \<and> map_option fl_bytes (dk_files dk2 p) = Some (apply_edit e (fl_bytes f)) \<and> (\<exists>out. r = Inr out)"
proof -
  let ?tr = "note_read io (Some m) p f False"
  have o: "open_file io dk base input refuse_edit = Inr (p, f)" "dk_files dk p = Some f"
    using open_fileD [OF assms(1)] by (simp_all add: open_file_def metadata_or_not_found_def)
  have b: "read_bytes io dk p os_gone = Inr (fl_bytes f)" using o(2) assms(5) by (simp add: read_bytes_def)
  have "read_execute dc quoted io id base req dk (Some m)
      = (Inr (OutText (''<binary file: '' @ show_nat (length (fl_bytes f)) @ '' bytes>'')), dk, ?tr)"
    using assms(1,2,4,8) b by (simp add: read_execute_def Let_def)
  moreover have "read_gate io ?tr p f a b' c = None" for a b' c
    using assms(7) by (simp add: read_gate_def note_read_def record_partial_read_def last_read_def)
  moreover have "write_bytes io dk p x = (None, put_file dk p x)" for x
    using assms(6) o(2) by (simp add: write_bytes_def)
  ultimately show ?thesis
    using assms(3,9-11) o b by (simp add: edit_execute_def store_edit_def Let_def)
qed

text \<open>A written file has to be read.  \<open>Write\<close> checks nothing and records nothing: after it, an \<open>Edit\<close> of the same
  path is refused, also when the file had been read in full before.\<close>

theorem write_then_edit_refused:
  assumes "write_execute io base input content dk = (Inr out, dk1)"
    and "list_all (\<lambda>r. rr_mtime r \<le> dk_clock dk) (case resolved base input of Some p \<Rightarrow> (case m p of Some r \<Rightarrow> [r] | None \<Rightarrow> []) | None \<Rightarrow> [])"
  shows "\<exists>err. edit_execute io' id id base input e dk1 (Some m) = (Inl err, dk1, Some m)"
proof -
  obtain p dk0 where p: "resolve_within (components base) (components input) = Inr p"
    and w: "write_bytes io dk0 p content = (None, dk1)" and c: "dk_clock dk0 = dk_clock dk"
    using assms(1)
    by (auto simp: write_execute_def make_dirs_def split: if_splits sum.splits prod.splits option.splits)
  from w have dk1: "dk1 = put_file dk0 p content" by (simp add: write_bytes_ok)
  have "m p = Some r \<Longrightarrow> rr_mtime r \<le> dk_clock dk" for r
    using assms(2) p by (simp add: resolved_def)
  then have g: "read_gate io' (Some m) p' f a b d \<noteq> None"
    if "open_file io' dk1 base input refuse_edit = Inr (p', f)" for p' f a b d
    using open_fileD(1,2) [OF that] p dk1 c
    by (fastforce simp: read_gate_def last_read_def split: option.splits)
  show ?thesis
  proof (cases "open_file io' dk1 base input refuse_edit")
    case (Inr q)
    obtain p' f where q: "q = (p', f)" by fastforce
    obtain err where "read_gate io' (Some m) p' f (edit_unread input) (edit_partly input) (edit_changed input) = Some err"
      using g Inr q by blast
    with Inr q show ?thesis by (simp add: edit_execute_def)
  qed (simp add: edit_execute_def)
qed

subsection \<open>Witnesses\<close>

definition sound_io :: io where
  "sound_io = \<lparr>io_stat = (\<lambda>_. None), io_read = (\<lambda>_. None), io_write = (\<lambda>_. None), io_mkdir = (\<lambda>_. None), io_mtimes = True\<rparr>"

definition one_file :: "string \<Rightarrow> disk" where
  "one_file b = \<lparr>dk_files = [[RootDir, Normal ''w'', Normal ''a''] \<mapsto> \<lparr>fl_bytes = b, fl_mtime = 1\<rparr>],
     dk_dirs = {[RootDir], [RootDir, Normal ''w'']}, dk_clock = 1\<rparr>"

definition edit_1 :: edit_op where
  "edit_1 = \<lparr>eo_old = ''1'', eo_new = ''2'', eo_all = False\<rparr>"

lemma resolve_a: "resolve_within (components ''/w'') (components ''a'') = Inr [RootDir, Normal ''w'', Normal ''a'']"
  by (simp add: resolve_within_def components_def component_of_def lexically_normalize_def join_def starts_with_def
      path_pop_def Let_def)

lemma open_a: "length b \<le> MAX_FILE_BYTES \<Longrightarrow> open_file sound_io (one_file b) ''/w'' ''a'' t
    = Inr ([RootDir, Normal ''w'', Normal ''a''], \<lparr>fl_bytes = b, fl_mtime = 1\<rparr>)"
  by (simp add: open_file_def resolve_a metadata_or_not_found_def sound_io_def one_file_def)

lemma read_one: "read_bytes sound_io (one_file b) [RootDir, Normal ''w'', Normal ''a''] os_gone = Inr b"
  by (simp add: read_bytes_def sound_io_def one_file_def)

lemma store_one: "\<exists>dk' tr'. store_edit sound_io id (one_file b) tr [RootDir, Normal ''w'', Normal ''a''] x msg = (Inr (OutText msg), dk', tr')"
  by (simp add: store_edit_def write_bytes_def sound_io_def one_file_def Let_def)

lemma gate_off: "read_gate io None p f a b c = None"
  by (simp add: read_gate_def)

lemma ascii_head: "utf8_head CHR ''1'' cs = (True, 1)" "utf8_head CHR ''2'' cs = (True, 1)" "utf8_head CHR 0x00 cs = (True, 1)"
  by (simp_all add: utf8_head_def follow_ranges_def in_range_def)

lemma show_1: "show_nat 1 = ''1''" "show_nat (Suc 0) = ''1''"
  by code_simp+

lemma count_1: "count_matches ''1'' ''1'' = 1" "count_matches ''1'' [CHR 0x00, CHR ''1''] = 1" "count_matches ''2'' ''2'' = 1"
  by (simp_all add: count_matches.simps prefix_def)

lemma edit_a:
  "edit_execute sound_io id id ''/w'' ''a'' edit_1 (one_file ''1'') None =
     (Inr (OutText ''replaced 1 occurrence in a''), put_file (one_file ''1'') [RootDir, Normal ''w'', Normal ''a''] ''2'', None)"
proof -
  have "valid_utf8 ''1''" by (simp add: valid_utf8.simps ascii_head)
  moreover have "apply_edit edit_1 ''1'' = ''2''"
    by (simp add: apply_edit_def edit_1_def replace_first_def)
  ultimately show ?thesis
    by (simp add: edit_execute_def open_a MAX_FILE_BYTES_def read_gate_def edit_1_def count_1)
      (simp add: read_bytes_def store_edit_def write_bytes_def sound_io_def one_file_def count_1 Let_def plural_def
        metadata_or_not_found_def note_read_def record_partial_read_def show_1)
qed

theorem edit_replaces_matches_only_witness:
  "\<exists>ps n. ''1'' = glue ''1'' ps \<and> length ps = Suc n \<and> 0 < n
    \<and> OutText ''replaced 1 occurrence in a'' = OutText (''replaced '' @ show_nat n @ '' occurrence'' @ plural n @ '' in '' @ ''a'')"
  using edit_replaces_matches_only [OF edit_a] by (auto simp: resolve_a one_file_def edit_1_def)

theorem multi_edit_is_edits_witness:
  "\<exists>out dk2 tr2. multi_edit_execute sound_io id id ''/w'' ''a'' [edit_1] (one_file ''1'') None = (Inr out, dk2, tr2)
    \<and> map_option fl_bytes (dk_files dk2 [RootDir, Normal ''w'', Normal ''a'']) = Some ''2''"
proof -
  have "edit_seq sound_io ''/w'' ''a'' [edit_1] (one_file ''1'') None
      = Some (put_file (one_file ''1'') [RootDir, Normal ''w'', Normal ''a''] ''2'', None)"
    by (simp add: edit_a)
  from multi_edit_is_edits [OF list.distinct(2) this] obtain out dk2 tr2 where
    "multi_edit_execute sound_io id id ''/w'' ''a'' [edit_1] (one_file ''1'') None = (Inr out, dk2, tr2)"
    and q: "map_option fl_bytes (dk_files dk2 q)
      = map_option fl_bytes (dk_files (put_file (one_file ''1'') [RootDir, Normal ''w'', Normal ''a''] ''2'') q)" for q
    by blast
  moreover have "map_option fl_bytes (dk_files dk2 [RootDir, Normal ''w'', Normal ''a'']) = Some ''2''"
    unfolding q by (simp add: put_file_def)
  ultimately show ?thesis by blast
qed

theorem multi_edit_all_or_nothing_witness:
  "snd (multi_edit_execute sound_io id id ''/w'' ''a'' [edit_1, edit_1] (one_file ''1'') None) = (one_file ''1'', None)"
proof -
  have "count_matches ''1'' ''2'' = 0" by (simp add: count_matches.simps prefix_def)
  then have "apply_edits ''a'' 0 [edit_1, edit_1] ''1'' 0
      = Inl (NotFound (''edit #'' @ show_nat 2 @ '': pattern not found in current state of '' @ ''a''))"
    by (simp add: edit_1_def count_1 apply_edit_def replace_first_def Let_def numeral_2_eq_2)
  moreover have "valid_utf8 ''1''" by (simp add: valid_utf8.simps ascii_head)
  ultimately obtain err dk' tr' where
    "multi_edit_execute sound_io id id ''/w'' ''a'' [edit_1, edit_1] (one_file ''1'') None = (Inl err, dk', tr')"
    by (simp add: multi_edit_execute_def open_a MAX_FILE_BYTES_def gate_off read_one del: apply_edits.simps)
  with multi_edit_all_or_nothing [OF this] show ?thesis by (simp add: sound_io_def)
qed

definition read_a :: read_input where
  "read_a = \<lparr>ri_path = ''a'', ri_offset = None, ri_limit = None, ri_pages = None\<rparr>"

definition no_decoders :: decoders where
  "no_decoders = \<lparr>dc_pdf = (\<lambda>_. Inl []), dc_json = (\<lambda>_. Inl []), dc_base64 = (\<lambda>_. []), dc_number_error = (\<lambda>_. [])\<rparr>"


theorem binary_read_unlocks_edit_witness:
  "let (shown, dk1, tr1) = read_execute no_decoders id sound_io id ''/w'' read_a (one_file [CHR 0x00, CHR ''1'']) (Some Map.empty);
       (r, dk2, tr2) = edit_execute sound_io id id ''/w'' ''a'' edit_1 dk1 tr1
   in map_option fl_bytes (dk_files dk2 [RootDir, Normal ''w'', Normal ''a'']) = Some [CHR 0x00, CHR ''2'']"
proof -
  let ?b = "[CHR 0x00, CHR ''1'']" and ?p = "[RootDir, Normal ''w'', Normal ''a'']"
  let ?f = "\<lparr>fl_bytes = ?b, fl_mtime = 1\<rparr>"
  have o: "open_file sound_io (one_file ?b) ''/w'' ''a'' refuse_read = Inr (?p, ?f)"
    by (simp add: open_a MAX_FILE_BYTES_def)
  have v: "valid_utf8 (fl_bytes ?f)" "CHR 0x00 \<in> set (fl_bytes ?f)"
    by (simp_all add: valid_utf8.simps ascii_head)
  have e: "resolved_extension ?p \<notin> set [''pdf'', ''png'', ''jpg'', ''jpeg'', ''gif'', ''webp'', ''bmp'', ''ipynb'', ''docx'', ''xlsx'', ''pptx'']"
    by (simp add: resolved_extension_def extension_def)
  have i: "io_read sound_io ?p = None" "io_write sound_io ?p = None" "io_mtimes sound_io" "ri_path read_a = ''a''"
    by (simp_all add: sound_io_def read_a_def)
  have c: "eo_old edit_1 \<noteq> []" "eo_old edit_1 \<noteq> eo_new edit_1" "count_matches (eo_old edit_1) (fl_bytes ?f) = 1"
    by (simp_all add: edit_1_def count_1)
  have a: "apply_edit edit_1 ?b = [CHR 0x00, CHR ''2'']"
    by (simp add: apply_edit_def edit_1_def replace_first_def)
  from binary_read_unlocks_edit [OF o v(2,1) e i c, of no_decoders id Map.empty]
  show ?thesis by (auto simp: Let_def a split: prod.splits)
qed

theorem write_then_edit_refused_witness:
  "\<exists>err. edit_execute sound_io id id ''/w'' ''a'' edit_1 (snd (write_execute sound_io ''/w'' ''a'' ''1'' (one_file ''2'')))
     (Some [[RootDir, Normal ''w'', Normal ''a''] \<mapsto> \<lparr>rr_mtime = 1, rr_size = 1, rr_partial = False\<rparr>])
     = (Inl err, snd (write_execute sound_io ''/w'' ''a'' ''1'' (one_file ''2'')),
        Some [[RootDir, Normal ''w'', Normal ''a''] \<mapsto> \<lparr>rr_mtime = 1, rr_size = 1, rr_partial = False\<rparr>])"
proof -
  obtain out dk1 where w: "write_execute sound_io ''/w'' ''a'' ''1'' (one_file ''2'') = (Inr out, dk1)"
    by (simp add: write_execute_def MAX_FILE_BYTES_def resolve_a path_pop_def make_dirs_def write_bytes_def sound_io_def
        one_file_def upt_rec)
  show ?thesis unfolding w snd_conv
    by (rule write_then_edit_refused [OF w]) (simp add: resolved_def resolve_a one_file_def)
qed

end
