(* ===== verification/Outbox.thy ===== *)
theory Outbox
  imports Store
begin

text \<open>
  Outbound delivery of \<open>crates/snaca-server/src/outbox.rs\<close>: enqueueing a message, update or file with an
  immediate first attempt, the worker that retries the pending rows of a plugin, and the per-chat actors
  it hands them to.  The parameters of the plugin methods are those of
  \<open>crates/snaca-channel-protocol/src/methods.rs\<close>, the errors those of
  \<open>crates/snaca-channel-host/src/error.rs\<close>.

  The plugin is another process: what a call returns is an argument.  So are the clock (in
  milliseconds), fresh ids and the error texts of libraries.
\<close>

subsection \<open>Errors and parameters\<close>

datatype channel_error =
    ChannelIo string
  | ChannelProtocol string
  | PluginError int string
  | HandshakeFailed string
  | Disconnected
  | ChannelTimeout
  | SendClosed
  | AuthFailed
  | InvalidParams string string
  | ChannelSerde string
  | ChannelOther string

definition show_code :: "int \<Rightarrow> string" where
  "show_code n = (if n < 0 then CHR ''-'' # show_nat (nat (- n)) else show_nat (nat n))"

fun channel_error_text :: "channel_error \<Rightarrow> string" where
  "channel_error_text (ChannelIo e) = ''plugin io error: '' @ e"
| "channel_error_text (ChannelProtocol e) = ''protocol error: '' @ e"
| "channel_error_text (PluginError code msg) = ''plugin returned error '' @ show_code code @ '': '' @ msg"
| "channel_error_text (HandshakeFailed e) = ''plugin handshake failed: '' @ e"
| "channel_error_text Disconnected = ''plugin process disconnected''"
| "channel_error_text ChannelTimeout = ''operation timed out''"
| "channel_error_text SendClosed = ''plugin send queue closed''"
| "channel_error_text AuthFailed = ''plugin auth token mismatch''"
| "channel_error_text (InvalidParams m r) = ''invalid params for method '' @ m @ '': '' @ r"
| "channel_error_text (ChannelSerde e) = ''serialization error: '' @ e"
| "channel_error_text (ChannelOther e) = e"

definition retryable :: "channel_error \<Rightarrow> bool" where
  "retryable e \<longleftrightarrow> (case e of Disconnected \<Rightarrow> True | ChannelTimeout \<Rightarrow> True | SendClosed \<Rightarrow> True | ChannelIo _ \<Rightarrow> True | _ \<Rightarrow> False)"

record send_params =
  sp_tenant :: string
  sp_chat :: string
  sp_content :: string
  sp_format :: "string option"
  sp_reply_to :: "string option"
  sp_key :: "string option"

record update_params =
  up_tenant :: string
  up_message :: string
  up_content :: string

record upload_params =
  fp_tenant :: string
  fp_chat :: string
  fp_filename :: string
  fp_mime :: string
  fp_bytes :: string
  fp_key :: "string option"

text \<open>\<open>serde_json::to_value\<close>: keys in order, absent options skipped.\<close>

definition opt_field :: "string \<Rightarrow> string option \<Rightarrow> (string \<times> json) list" where
  "opt_field k v = (case v of None \<Rightarrow> [] | Some s \<Rightarrow> [(k, JString s)])"

definition send_value :: "send_params \<Rightarrow> json" where
  "send_value p = JObject ([(''chat_id'', JString (sp_chat p)), (''content'', JString (sp_content p))]
     @ opt_field ''format'' (sp_format p) @ opt_field ''idempotency_key'' (sp_key p)
     @ opt_field ''reply_to'' (sp_reply_to p) @ [(''tenant_id'', JString (sp_tenant p))])"

definition update_value :: "update_params \<Rightarrow> json" where
  "update_value p = JObject [(''content'', JString (up_content p)), (''message_id'', JString (up_message p)),
     (''tenant_id'', JString (up_tenant p))]"

definition upload_value :: "upload_params \<Rightarrow> json" where
  "upload_value p = JObject ([(''bytes_base64'', JString (fp_bytes p)), (''chat_id'', JString (fp_chat p)),
      (''filename'', JString (fp_filename p))] @ opt_field ''idempotency_key'' (fp_key p)
     @ [(''mime_type'', JString (fp_mime p)), (''tenant_id'', JString (fp_tenant p))])"

text \<open>\<open>serde_json::from_value\<close>: a required field is a string, an optional one a string, null or absent;
  a payload in the form of an array is not considered, since none is ever written.\<close>

fun str_field :: "json \<Rightarrow> string \<Rightarrow> string option" where
  "str_field (JObject kvs) k = (case map_of kvs k of Some (JString s) \<Rightarrow> Some s | _ \<Rightarrow> None)"
| "str_field _ k = None"

fun maybe_field :: "json \<Rightarrow> string \<Rightarrow> string option option" where
  "maybe_field (JObject kvs) k =
     (case map_of kvs k of None \<Rightarrow> Some None | Some JNull \<Rightarrow> Some None | Some (JString s) \<Rightarrow> Some (Some s) | _ \<Rightarrow> None)"
| "maybe_field _ k = None"

definition read_send :: "json \<Rightarrow> send_params option" where
  "read_send v =
     (case (str_field v ''tenant_id'', str_field v ''chat_id'', str_field v ''content'',
            maybe_field v ''format'', maybe_field v ''reply_to'', maybe_field v ''idempotency_key'') of
        (Some t, Some c, Some x, Some f, Some r, Some k) \<Rightarrow>
          Some \<lparr>sp_tenant = t, sp_chat = c, sp_content = x, sp_format = f, sp_reply_to = r, sp_key = k\<rparr>
      | _ \<Rightarrow> None)"

definition read_update :: "json \<Rightarrow> update_params option" where
  "read_update v =
     (case (str_field v ''tenant_id'', str_field v ''message_id'', str_field v ''content'') of
        (Some t, Some m, Some x) \<Rightarrow> Some \<lparr>up_tenant = t, up_message = m, up_content = x\<rparr>
      | _ \<Rightarrow> None)"

definition read_upload :: "json \<Rightarrow> upload_params option" where
  "read_upload v =
     (case (str_field v ''tenant_id'', str_field v ''chat_id'', str_field v ''filename'', str_field v ''mime_type'',
            str_field v ''bytes_base64'', maybe_field v ''idempotency_key'') of
        (Some t, Some c, Some f, Some m, Some b, Some k) \<Rightarrow>
          Some \<lparr>fp_tenant = t, fp_chat = c, fp_filename = f, fp_mime = m, fp_bytes = b, fp_key = k\<rparr>
      | _ \<Rightarrow> None)"

lemma payload_parts:
  "read_send (send_value p) = Some p" "read_update (update_value u) = Some u" "read_upload (upload_value f) = Some f"
proof -
  show "read_send (send_value p) = Some p"
    by (cases "sp_format p"; cases "sp_key p"; cases "sp_reply_to p")
      (simp_all add: read_send_def send_value_def opt_field_def)
  show "read_update (update_value u) = Some u" by (simp add: read_update_def update_value_def)
  show "read_upload (upload_value f) = Some f"
    by (cases "fp_key f") (simp_all add: read_upload_def upload_value_def opt_field_def)
qed

text \<open>Payloads survive the outbox.  The parameters of a message, an update or a file, written to a row
  and read back by the worker, are the same parameters, whichever optional fields are set, so no row
  the server wrote itself is ever failed as malformed.\<close>

theorem payload_roundtrip:
  "read_send (send_value p) = Some p \<and> read_update (update_value u) = Some u \<and> read_upload (upload_value f) = Some f"
  by (simp add: payload_parts)

subsection \<open>Attempts\<close>

definition MAX_ATTEMPTS :: nat where "MAX_ATTEMPTS = 6"

definition BATCH :: nat where "BATCH = 16"

definition PURGE_EVERY_TICKS :: nat where "PURGE_EVERY_TICKS = 150"

definition RETENTION_DAYS :: int where "RETENTION_DAYS = 7"

definition INBOUND_DEDUP_RETENTION_DAYS :: int where "INBOUND_DEDUP_RETENTION_DAYS = 1"

definition days :: "int \<Rightarrow> timestamp" where "days n = n * 86400000"

definition FIRST_TRY_CUSHION :: timestamp where "FIRST_TRY_CUSHION = 30000"

definition BACKOFF_SCHEDULE :: "timestamp list" where
  "BACKOFF_SCHEDULE = [5000, 30000, 120000, 600000, 1800000, 5400000]"

definition next_attempt_after :: "timestamp \<Rightarrow> nat \<Rightarrow> timestamp" where
  "next_attempt_after now attempts_so_far =
     (let idx = attempts_so_far - 1
      in now + (if idx < length BACKOFF_SCHEDULE then BACKOFF_SCHEDULE ! idx else last BACKOFF_SCHEDULE))"

record update_fallback =
  fb_chat :: string
  fb_tenant :: string
  fb_content :: string

text \<open>A failed insert is only logged.\<close>

definition enqueue_update_fallback :: "database \<Rightarrow> timestamp \<Rightarrow> string \<Rightarrow> string \<Rightarrow> update_fallback \<Rightarrow> database" where
  "enqueue_update_fallback db now fresh plugin fb =
     (case outbox_enqueue db now fresh plugin (fb_tenant fb) (fb_chat fb) SendMessage
             (send_value \<lparr>sp_tenant = fb_tenant fb, sp_chat = fb_chat fb, sp_content = fb_content fb,
                          sp_format = None, sp_reply_to = None, sp_key = Some fresh\<rparr>) now of
        Inl e \<Rightarrow> db
      | Inr db' \<Rightarrow> db')"

definition handle_first_attempt ::
  "database \<Rightarrow> timestamp \<Rightarrow> string \<Rightarrow> string \<Rightarrow> string \<Rightarrow> update_fallback option
     \<Rightarrow> channel_error + string option \<Rightarrow> database" where
  "handle_first_attempt db now fresh plugin i fallback result =
     (case result of
        Inr platform_id \<Rightarrow> outbox_mark_delivered db now i platform_id
      | Inl e \<Rightarrow>
          if retryable e then outbox_reschedule db i (channel_error_text e) (next_attempt_after now 1)
          else
            (let db' = outbox_mark_failed db i (channel_error_text e)
             in case fallback of
                  Some fb \<Rightarrow> enqueue_update_fallback db' now fresh plugin fb
                | None \<Rightarrow> db'))"

text \<open>The three entry points: the result of the immediate call is an argument, \<open>None\<close> when the insert fails.\<close>

definition send_message ::
  "database \<Rightarrow> timestamp \<Rightarrow> string \<Rightarrow> string \<Rightarrow> send_params \<Rightarrow> timestamp \<Rightarrow> channel_error + string option
     \<Rightarrow> db_error + database" where
  "send_message db now i plugin params done_at result =
     (let params = params\<lparr>sp_key := Some i\<rparr>
      in case outbox_enqueue db now i plugin (sp_tenant params) (sp_chat params) SendMessage (send_value params)
              (now + FIRST_TRY_CUSHION) of
           Inl e \<Rightarrow> Inl e
         | Inr db' \<Rightarrow> Inr (handle_first_attempt db' done_at [] plugin i None result))"

definition update_message ::
  "database \<Rightarrow> timestamp \<Rightarrow> string \<Rightarrow> string \<Rightarrow> string \<Rightarrow> string \<Rightarrow> update_params \<Rightarrow> timestamp
     \<Rightarrow> channel_error + string option \<Rightarrow> db_error + database" where
  "update_message db now i fresh plugin fallback_chat params done_at result =
     (case outbox_enqueue db now i plugin (up_tenant params) fallback_chat UpdateMessage (update_value params)
             (now + FIRST_TRY_CUSHION) of
        Inl e \<Rightarrow> Inl e
      | Inr db' \<Rightarrow>
          Inr (handle_first_attempt db' done_at fresh plugin i
                 (Some \<lparr>fb_chat = fallback_chat, fb_tenant = up_tenant params, fb_content = up_content params\<rparr>)
                 (map_sum id (\<lambda>_. None) result)))"

definition file_upload ::
  "database \<Rightarrow> timestamp \<Rightarrow> string \<Rightarrow> string \<Rightarrow> upload_params \<Rightarrow> timestamp \<Rightarrow> channel_error + string option
     \<Rightarrow> db_error + database" where
  "file_upload db now i plugin params done_at result =
     (let params = params\<lparr>fp_key := Some i\<rparr>
      in case outbox_enqueue db now i plugin (fp_tenant params) (fp_chat params) FileUpload (upload_value params)
              (now + FIRST_TRY_CUSHION) of
           Inl e \<Rightarrow> Inl e
         | Inr db' \<Rightarrow> Inr (handle_first_attempt db' done_at [] plugin i None result))"

text \<open>Whether the payload of a row can be sent, by its kind.\<close>

definition sendable :: "outbox_row \<Rightarrow> bool" where
  "sendable row \<longleftrightarrow> (case o_kind row of
       SendMessage \<Rightarrow> read_send (o_payload row) \<noteq> None
     | UpdateMessage \<Rightarrow> read_update (o_payload row) \<noteq> None
     | FileUpload \<Rightarrow> read_upload (o_payload row) \<noteq> None)"

definition dispatch_row ::
  "(json \<Rightarrow> string) \<Rightarrow> database \<Rightarrow> timestamp \<Rightarrow> string \<Rightarrow> string \<Rightarrow> outbox_row \<Rightarrow> channel_error + string option
     \<Rightarrow> database" where
  "dispatch_row serde_message db now fresh plugin row result =
     (if \<not> sendable row then
        outbox_mark_failed db (o_id row) (''payload deserialise: '' @ serde_message (o_payload row))
      else
        (let attempts_after = o_attempts row + 1
         in case map_sum id (\<lambda>p. if o_kind row = UpdateMessage then None else p) result of
              Inr platform_id \<Rightarrow> outbox_mark_delivered db now (o_id row) platform_id
            | Inl e \<Rightarrow>
                if retryable e \<and> attempts_after < MAX_ATTEMPTS then
                  outbox_reschedule db (o_id row) (channel_error_text e) (next_attempt_after now attempts_after)
                else
                  (let db' = outbox_mark_failed db (o_id row) (channel_error_text e)
                   in if o_kind row = UpdateMessage then
                        (case read_update (o_payload row) of
                           Some upd \<Rightarrow>
                             enqueue_update_fallback db' now fresh plugin
                               \<lparr>fb_chat = o_chat_id row, fb_tenant = up_tenant upd, fb_content = up_content upd\<rparr>
                         | None \<Rightarrow> db')
                      else db')))"

subsection \<open>The life of a row\<close>

lemma find_row_map_other: "(\<And>r. key (f r) = key r) \<Longrightarrow> k' \<noteq> k \<Longrightarrow>
    find_row key k' (update_where (\<lambda>r. key r = k) f rows) = find_row key k' rows"
  by (induction rows) (auto simp: update_where_def)

lemma find_row_map_same: "(\<And>r. key (f r) = key r) \<Longrightarrow>
    find_row key k (update_where (\<lambda>r. key r = k) f rows) = map_option f (find_row key k rows)"
  by (induction rows) (auto simp: update_where_def)

lemma find_marked:
  "outbox_find (outbox_mark_delivered db now i p) i = map_option (\<lambda>r. r\<lparr>o_status := Delivered,
     o_platform_message_id := p, o_delivered_at := Some now, o_last_error := None\<rparr>) (outbox_find db i)"
  "outbox_find (outbox_mark_failed db i e) i = map_option (\<lambda>r. r\<lparr>o_status := Failed, o_last_error := Some e\<rparr>) (outbox_find db i)"
  "outbox_find (outbox_reschedule db i e n) i = map_option (\<lambda>r. r\<lparr>o_attempts := o_attempts r + 1,
     o_last_error := Some e, o_next_attempt_at := n\<rparr>) (outbox_find db i)"
  by (simp_all add: outbox_find_def outbox_mark_delivered_def outbox_mark_failed_def outbox_reschedule_def find_row_map_same)

lemma find_enqueued:
  "outbox_enqueue db now i plugin tn ch kind payload next = Inr db' \<Longrightarrow> outbox_find db j \<noteq> None \<Longrightarrow>
    outbox_find db' j = outbox_find db j"
  by (auto simp: outbox_enqueue_def outbox_find_def find_row_append split: if_splits)

lemma find_fallback: "outbox_find db j \<noteq> None \<Longrightarrow> outbox_find (enqueue_update_fallback db now fresh plugin fb) j = outbox_find db j"
  by (auto simp: enqueue_update_fallback_def find_enqueued split: sum.splits)

text \<open>What a row promises: attempts are made until one succeeds, one fails for good, or the limit is
  reached.  The state is the status with the number of rescheduled attempts and the next one.\<close>

fun delivery :: "outbox_status \<times> nat \<times> timestamp \<Rightarrow> (timestamp \<times> (channel_error + string option)) list
     \<Rightarrow> outbox_status \<times> nat \<times> timestamp" where
  "delivery s [] = s"
| "delivery (Pending, n, next) ((now, r) # rs) =
     (case r of
        Inr _ \<Rightarrow> (Delivered, n, next)
      | Inl e \<Rightarrow>
          if retryable e \<and> Suc n < MAX_ATTEMPTS
          then delivery (Pending, Suc n, now + BACKOFF_SCHEDULE ! n) rs
          else (Failed, n, next))"
| "delivery (st, n, next) (x # rs) = (st, n, next)"

definition row_state :: "outbox_row \<Rightarrow> outbox_status \<times> nat \<times> timestamp" where
  "row_state r = (o_status r, o_attempts r, o_next_attempt_at r)"

text \<open>The worker's attempts at one row, each made while the row is pending.\<close>

fun attempts ::
  "(json \<Rightarrow> string) \<Rightarrow> string \<Rightarrow> string \<Rightarrow> (timestamp \<times> string \<times> (channel_error + string option)) list \<Rightarrow> database \<Rightarrow> database"
where
  "attempts msg plugin i [] db = db"
| "attempts msg plugin i ((now, fresh, res) # rs) db =
     (case outbox_find db i of
        Some row \<Rightarrow>
          if o_status row = Pending then attempts msg plugin i rs (dispatch_row msg db now fresh plugin row res) else db
      | None \<Rightarrow> db)"

lemma dispatch_row_find:
  assumes "outbox_find db i = Some row" "sendable row"
  shows "\<exists>row'. outbox_find (dispatch_row msg db now fresh plugin row res) i = Some row'
    \<and> o_payload row' = o_payload row \<and> o_kind row' = o_kind row
    \<and> row_state row' =
        (case res of
           Inr _ \<Rightarrow> (Delivered, o_attempts row, o_next_attempt_at row)
         | Inl e \<Rightarrow>
             if retryable e \<and> Suc (o_attempts row) < MAX_ATTEMPTS
             then (o_status row, Suc (o_attempts row), next_attempt_after now (Suc (o_attempts row)))
             else (Failed, o_attempts row, o_next_attempt_at row))"
proof -
  have i: "o_id row = i" using assms(1) find_row_Some [of o_id i] by (auto simp: outbox_find_def)
  show ?thesis
    using assms
    by (cases res)
      (auto simp: dispatch_row_def i find_marked find_fallback row_state_def Let_def split: option.splits)
qed

lemma schedule_nth: "Suc n < MAX_ATTEMPTS \<Longrightarrow> next_attempt_after now (Suc n) = now + BACKOFF_SCHEDULE ! n"
  by (simp add: next_attempt_after_def BACKOFF_SCHEDULE_def MAX_ATTEMPTS_def)

lemma sendable_cong: "o_payload r' = o_payload r \<Longrightarrow> o_kind r' = o_kind r \<Longrightarrow> sendable r' = sendable r"
  by (simp add: sendable_def split: outbox_kind.split)

lemma attempts_delivery:
  "outbox_find db i = Some row \<Longrightarrow> sendable row \<Longrightarrow>
    map_option row_state (outbox_find (attempts msg plugin i rs db) i)
      = Some (delivery (row_state row) (map (\<lambda>(now, _, res). (now, res)) rs))"
proof (induction rs arbitrary: db row)
  case (Cons x rs)
  obtain now fresh res where x: "x = (now, fresh, res)" by (metis surj_pair)
  show ?case
  proof (cases "o_status row = Pending")
    case True
    obtain row' where r: "outbox_find (dispatch_row msg db now fresh plugin row res) i = Some row'"
      "o_payload row' = o_payload row" "o_kind row' = o_kind row"
      "row_state row' = (case res of
           Inr _ \<Rightarrow> (Delivered, o_attempts row, o_next_attempt_at row)
         | Inl e \<Rightarrow>
             if retryable e \<and> Suc (o_attempts row) < MAX_ATTEMPTS
             then (o_status row, Suc (o_attempts row), next_attempt_after now (Suc (o_attempts row)))
             else (Failed, o_attempts row, o_next_attempt_at row))"
      using dispatch_row_find [OF Cons.prems] by blast
    have "sendable row'" using Cons.prems(2) sendable_cong [OF r(2,3)] by simp
    note ih = Cons.IH [OF r(1) this]
    show ?thesis
      using True Cons.prems(1) ih r(4) schedule_nth
      by (cases res; cases rs) (auto simp: x row_state_def split: if_splits)
  next
    case False
    then show ?thesis using Cons.prems(1) by (cases "o_status row") (auto simp: x row_state_def)
  qed
qed simp



definition fallback_row :: "timestamp \<Rightarrow> string \<Rightarrow> string \<Rightarrow> string \<Rightarrow> update_params \<Rightarrow> outbox_row" where
  "fallback_row now fresh plugin chat u =
     \<lparr>o_id = fresh, o_plugin = plugin, o_tenant = up_tenant u, o_chat_id = chat, o_kind = SendMessage,
      o_payload = send_value \<lparr>sp_tenant = up_tenant u, sp_chat = chat, sp_content = up_content u, sp_format = None,
        sp_reply_to = None, sp_key = Some fresh\<rparr>,
      o_attempts = 0, o_next_attempt_at = now, o_status = Pending, o_last_error = None,
      o_platform_message_id = None, o_created_at = now, o_delivered_at = None\<rparr>"

lemma fallback_appends:
  assumes "outbox_find db fresh = None" "fresh \<noteq> i"
  shows "outbox (enqueue_update_fallback (outbox_mark_failed db i e) now fresh plugin
      \<lparr>fb_chat = chat, fb_tenant = up_tenant u, fb_content = up_content u\<rparr>)
    = outbox (outbox_mark_failed db i e) @ [fallback_row now fresh plugin chat u]"
proof -
  have "find_row o_id fresh (outbox (outbox_mark_failed db i e)) = None"
    using assms by (simp add: outbox_mark_failed_def outbox_find_def find_row_map_other)
  then show ?thesis by (simp add: enqueue_update_fallback_def outbox_enqueue_def fallback_row_def)
qed

text \<open>A reply is not lost with its card.  When an update fails for good, on the first try or in the
  worker, its row is failed and one new message row stands behind the others, pending and due at once,
  with the same chat, tenant and content and its own id as the idempotency key.\<close>

theorem failed_update_falls_back:
  assumes "outbox_find db i = Some row" "o_kind row = UpdateMessage" "o_payload row = update_value u"
    and "outbox_find db fresh = None" "\<not> retryable e \<or> MAX_ATTEMPTS \<le> o_attempts row + 1"
  shows "outbox (dispatch_row msg db now fresh plugin row (Inl e))
    = outbox (outbox_mark_failed db i (channel_error_text e)) @ [fallback_row now fresh plugin (o_chat_id row) u]"
proof -
  have i: "o_id row = i" using assms(1) find_row_Some [of o_id i] by (auto simp: outbox_find_def)
  have "fresh \<noteq> i" using assms(1,4) by auto
  moreover have "sendable row" "read_update (o_payload row) = Some u"
    using assms(2,3) payload_parts by (simp_all add: sendable_def)
  ultimately show ?thesis
    using assms(2,5) fallback_appends [OF assms(4)] by (auto simp: dispatch_row_def i Let_def)
qed

theorem failed_update_falls_back_witness:
  "\<exists>row. outbox (dispatch_row (\<lambda>_. []) (empty_db\<lparr>outbox := [row]\<rparr>) 50 ''f'' ''lark'' row (Inl (PluginError 404 ''gone'')))
    = [row\<lparr>o_status := Failed, o_last_error := Some (channel_error_text (PluginError 404 ''gone''))\<rparr>,
       fallback_row 50 ''f'' ''lark'' ''c'' \<lparr>up_tenant = ''a'', up_message = ''m'', up_content = ''hi''\<rparr>]"
proof -
  let ?u = "\<lparr>up_tenant = ''a'', up_message = ''m'', up_content = ''hi''\<rparr>"
  let ?row = "(sample_row ''x'' 3)\<lparr>o_kind := UpdateMessage, o_payload := update_value ?u\<rparr>"
  let ?db = "empty_db\<lparr>outbox := [?row]\<rparr>"
  have f: "outbox_find ?db ''x'' = Some ?row" "outbox_find ?db ''f'' = None" "o_kind ?row = UpdateMessage"
    "o_payload ?row = update_value ?u" "o_chat_id ?row = ''c''"
    by (simp_all add: outbox_find_def sample_row_def)
  have "\<not> retryable (PluginError 404 ''gone'') \<or> MAX_ATTEMPTS \<le> o_attempts ?row + 1" by (simp add: retryable_def)
  from failed_update_falls_back [OF f(1,3,4,2) this, of "\<lambda>_. []" 50 "''lark''"]
  have "outbox (dispatch_row (\<lambda>_. []) ?db 50 ''f'' ''lark'' ?row (Inl (PluginError 404 ''gone''))) =
      [?row\<lparr>o_status := Failed, o_last_error := Some (channel_error_text (PluginError 404 ''gone''))\<rparr>,
       fallback_row 50 ''f'' ''lark'' ''c'' ?u]"
    by (simp add: f(5) outbox_mark_failed_def update_where_def sample_row_def)
  then show ?thesis by blast
qed

subsection \<open>The worker and its actors\<close>

text \<open>
  \<open>wk_mail\<close> is the mailbox of the actor of each chat that has one; \<open>wk_routed\<close> and \<open>wk_calls\<close> record the
  rows handed to actors and the rows sent to the plugin.  An actor that stops drops what is left in its
  mailbox.
\<close>

record worker =
  wk_db :: database
  wk_tick :: nat
  wk_mail :: "string \<rightharpoonup> outbox_row list"
  wk_routed :: "outbox_row list"
  wk_calls :: "outbox_row list"

datatype worker_event =
    WorkerTick timestamp bool
  | Deliver string timestamp string "channel_error + string option"
  | ActorStops string

definition route_outbox_row :: "(string \<rightharpoonup> outbox_row list) \<Rightarrow> outbox_row \<Rightarrow> string \<rightharpoonup> outbox_row list" where
  "route_outbox_row mail row =
     mail(o_chat_id row \<mapsto> (case mail (o_chat_id row) of None \<Rightarrow> [row] | Some q \<Rightarrow> q @ [row]))"

definition purge :: "database \<Rightarrow> timestamp \<Rightarrow> database" where
  "purge db now =
     snd (inbound_dedup_purge_older_than
       (snd (outbox_purge_delivered_older_than db (now - days RETENTION_DAYS)))
       (now - days INBOUND_DEDUP_RETENTION_DAYS))"

fun worker_step :: "(json \<Rightarrow> string) \<Rightarrow> string \<Rightarrow> worker_event \<Rightarrow> worker \<Rightarrow> worker" where
  "worker_step msg plugin (WorkerTick now available) wk =
     (let tick = (wk_tick wk + 1) mod 2 ^ 32;
          db = (if tick mod PURGE_EVERY_TICKS = 0 then purge (wk_db wk) now else wk_db wk);
          rows = outbox_claim_pending db now plugin BATCH;
          wk' = wk\<lparr>wk_db := db, wk_tick := tick\<rparr>
      in if rows = [] \<or> \<not> available then wk'
         else wk'\<lparr>wk_mail := foldl route_outbox_row (wk_mail wk) rows, wk_routed := wk_routed wk @ rows\<rparr>)"
| "worker_step msg plugin (Deliver chat now fresh result) wk =
     (case wk_mail wk chat of
        Some (row # q) \<Rightarrow>
          wk\<lparr>wk_db := dispatch_row msg (wk_db wk) now fresh plugin row result,
             wk_mail := (wk_mail wk)(chat \<mapsto> q),
             wk_calls := wk_calls wk @ (if sendable row then [row] else [])\<rparr>
      | _ \<Rightarrow> wk)"
| "worker_step msg plugin (ActorStops chat) wk = wk\<lparr>wk_mail := (wk_mail wk)(chat := None)\<rparr>"

definition worker_run :: "(json \<Rightarrow> string) \<Rightarrow> string \<Rightarrow> worker_event list \<Rightarrow> worker \<Rightarrow> worker" where
  "worker_run msg plugin evs wk = foldl (\<lambda>wk e. worker_step msg plugin e wk) wk evs"

definition new_worker :: "database \<Rightarrow> worker" where
  "new_worker db = \<lparr>wk_db = db, wk_tick = 0, wk_mail = Map.empty, wk_routed = [], wk_calls = []\<rparr>"

definition of_chat :: "string \<Rightarrow> outbox_row list \<Rightarrow> outbox_row list" where
  "of_chat chat rows = filter (\<lambda>r. o_chat_id r = chat) rows"

definition queued :: "worker \<Rightarrow> string \<Rightarrow> outbox_row list" where
  "queued wk chat = (case wk_mail wk chat of None \<Rightarrow> [] | Some q \<Rightarrow> q)"

definition fifo :: "worker \<Rightarrow> bool" where
  "fifo wk \<longleftrightarrow> (\<forall>chat. subseq (of_chat chat (wk_calls wk) @ queued wk chat) (of_chat chat (wk_routed wk))
     \<and> (\<forall>r \<in> set (queued wk chat). o_chat_id r = chat))"

lemma subseq_left: "subseq (xs @ ys) zs \<Longrightarrow> subseq xs zs"
  by (meson prefix_imp_subseq prefixI subseq_order.order_trans)

lemma queued_routed:
  "queued (wk\<lparr>wk_mail := foldl route_outbox_row m rows, wk_routed := x\<rparr>) chat
    = (case m chat of None \<Rightarrow> [] | Some q \<Rightarrow> q) @ of_chat chat rows"
  by (induction rows arbitrary: m) (auto simp: queued_def route_outbox_row_def of_chat_def split: option.splits)

lemma fifo_tick:
  assumes "fifo wk"
  shows "fifo (wk\<lparr>wk_db := db, wk_tick := n, wk_mail := foldl route_outbox_row (wk_mail wk) rows, wk_routed := wk_routed wk @ rows\<rparr>)"
proof -
  have "subseq ((of_chat chat (wk_calls wk) @ queued wk chat) @ of_chat chat rows)
      (of_chat chat (wk_routed wk) @ of_chat chat rows)" for chat
    using assms by (simp add: fifo_def del: append_assoc)
  with assms show ?thesis
    unfolding fifo_def queued_routed
    by (auto simp: queued_def of_chat_def)
qed

lemma fifo_deliver:
  assumes "fifo wk" "wk_mail wk chat = Some (row # q)"
  shows "fifo (wk\<lparr>wk_db := db, wk_mail := (wk_mail wk)(chat \<mapsto> q), wk_calls := wk_calls wk @ (if sendable row then [row] else [])\<rparr>)"
proof -
  have own: "o_chat_id row = chat" "\<forall>r \<in> set q. o_chat_id r = chat"
    "subseq (of_chat chat (wk_calls wk) @ row # q) (of_chat chat (wk_routed wk))"
    using assms by (auto simp: fifo_def queued_def dest: spec [of _ chat])
  have "subseq (of_chat chat (wk_calls wk) @ q) (of_chat chat (wk_calls wk) @ row # q)"
    by (subst subseq_append') auto
  with own(3) have "subseq (of_chat chat (wk_calls wk) @ q) (of_chat chat (wk_routed wk))"
    using subseq_order.order_trans by blast
  with own assms(1) show ?thesis by (auto simp: fifo_def queued_def of_chat_def)
qed

lemma fifo_step: "fifo wk \<Longrightarrow> fifo (worker_step msg plugin e wk)"
proof (cases e)
  case (WorkerTick now available)
  assume f: "fifo wk"
  show ?thesis
    using f fifo_tick [OF f] by (simp add: WorkerTick Let_def) (simp add: fifo_def queued_def)
next
  case (Deliver chat now fresh result)
  assume "fifo wk"
  then show ?thesis using fifo_deliver [of wk chat] by (auto simp: Deliver split: option.splits list.splits)
next
  case (ActorStops chat)
  assume "fifo wk"
  then have "subseq (of_chat c (wk_calls wk)) (of_chat c (wk_routed wk))" for c
    by (auto simp: fifo_def intro: subseq_left)
  with \<open>fifo wk\<close> show ?thesis by (auto simp: ActorStops fifo_def queued_def)
qed

text \<open>C17: Within a chat, messages go out in the order of their claims.  Whatever ticks, deliveries and stops of
  actors happen, what is sent to the plugin for a chat is a subsequence of what the worker claimed for
  it, claim by claim, however other chats interleave.\<close>

theorem chat_order_kept:
  "subseq (of_chat chat (wk_calls (worker_run msg plugin evs (new_worker db))))
     (of_chat chat (wk_routed (worker_run msg plugin evs (new_worker db))))"
proof -
  have "fifo (foldl (\<lambda>wk e. worker_step msg plugin e wk) wk evs)" if "fifo wk" for wk
    using that by (induction evs arbitrary: wk) (auto simp: fifo_step)
  moreover have "fifo (new_worker db)" by (simp add: fifo_def new_worker_def queued_def of_chat_def)
  ultimately have "fifo (worker_run msg plugin evs (new_worker db))" unfolding worker_run_def by blast
  then show ?thesis unfolding fifo_def by (blast intro: subseq_left)
qed

definition hello_row :: outbox_row where
  "hello_row = (sample_row ''x'' 3)\<lparr>o_payload := send_value \<lparr>sp_tenant = ''a'', sp_chat = ''c'', sp_content = ''hi'',
     sp_format = None, sp_reply_to = None, sp_key = Some ''x''\<rparr>\<rparr>"

lemma hello_row_simps:
  "o_chat_id hello_row = ''c''" "sendable hello_row" "o_kind hello_row = SendMessage" "o_id hello_row = ''x''"
  "o_attempts hello_row = 0" "o_plugin hello_row = ''lark''" "o_status hello_row = Pending" "o_next_attempt_at hello_row = 3"
  "o_platform_message_id hello_row = None"
  by (simp_all add: hello_row_def sample_row_def sendable_def payload_parts)

lemma hello_claim: "3 \<le> now \<Longrightarrow> outbox_claim_pending (empty_db\<lparr>outbox := [hello_row]\<rparr>) now ''lark'' BATCH = [hello_row]"
  by (simp add: outbox_claim_pending_def hello_row_simps BATCH_def)

text \<open>A slow delivery is repeated.  A claim does not mark its rows: while the plugin call of a message
  takes longer than one tick, the next tick hands the same row out again, and the second job is sent to
  the plugin although the row is delivered by then; when that call is refused, the row ends as failed.\<close>

theorem slow_delivery_repeated:
  "(let wk = worker_run msg ''lark'' [WorkerTick 2000 True, WorkerTick 4000 True,
        Deliver ''c'' 5000 ''f'' (Inr (Some ''m'')), Deliver ''c'' 6000 ''g'' (Inl (PluginError 400 ''again''))]
        (new_worker (empty_db\<lparr>outbox := [hello_row]\<rparr>))
    in wk_calls wk = [hello_row, hello_row]
       \<and> map_option (\<lambda>r. (o_status r, o_platform_message_id r)) (outbox_find (wk_db wk) ''x'') = Some (Failed, Some ''m''))"
proof -
  let ?db = "empty_db\<lparr>outbox := [hello_row]\<rparr>"
  let ?w1 = "\<lparr>wk_db = ?db, wk_tick = 1, wk_mail = [''c'' \<mapsto> [hello_row]], wk_routed = [hello_row], wk_calls = []\<rparr>"
  let ?w2 = "\<lparr>wk_db = ?db, wk_tick = 2, wk_mail = [''c'' \<mapsto> [hello_row, hello_row]], wk_routed = [hello_row, hello_row], wk_calls = []\<rparr>"
  have 1: "worker_step msg ''lark'' (WorkerTick 2000 True) (new_worker ?db) = ?w1"
    by (simp add: new_worker_def hello_claim route_outbox_row_def hello_row_simps PURGE_EVERY_TICKS_def Let_def)
  have 2: "worker_step msg ''lark'' (WorkerTick 4000 True) ?w1 = ?w2"
    by (simp add: hello_claim route_outbox_row_def hello_row_simps PURGE_EVERY_TICKS_def Let_def)
  let ?db3 = "outbox_mark_delivered ?db 5000 ''x'' (Some ''m'')"
  let ?w3 = "?w2\<lparr>wk_db := ?db3, wk_mail := [''c'' \<mapsto> [hello_row]], wk_calls := [hello_row]\<rparr>"
  let ?db4 = "outbox_mark_failed ?db3 ''x'' (channel_error_text (PluginError 400 ''again''))"
  have 3: "worker_step msg ''lark'' (Deliver ''c'' 5000 ''f'' (Inr (Some ''m''))) ?w2 = ?w3"
    by (simp add: dispatch_row_def hello_row_simps Let_def)
  have 4: "worker_step msg ''lark'' (Deliver ''c'' 6000 ''g'' (Inl (PluginError 400 ''again''))) ?w3
      = ?w3\<lparr>wk_db := ?db4, wk_mail := [''c'' \<mapsto> []], wk_calls := [hello_row, hello_row]\<rparr>"
    by (simp add: dispatch_row_def hello_row_simps retryable_def Let_def)
  have 5: "outbox_find ?db ''x'' = Some hello_row" by (simp add: outbox_find_def hello_row_simps)
  show ?thesis
    unfolding worker_run_def foldl.simps 1 2 3 4 Let_def by (simp add: find_marked 5)
qed

end
