(* ===== verification/Dispatch.thy ===== *)
theory Dispatch
  imports Questions Outbox
begin

text \<open>
  The dispatcher of \<open>crates/snaca-server/src/dispatch.rs\<close> up to the engine: cleaning the text of an inbound
  message, the answer of a pending text question, deduplication, the input assembler that merges a burst
  of fragments into one turn, the bounded mailboxes of the per-chat workers, routing to a project and a
  thread, and the composition of the user text with the staged attachments.

  A timer that was scheduled is an entry of \<open>ax_timers\<close> until it fires; the clock (milliseconds) is an
  argument.  \<open>HashMap\<close>s are association lists, newest entry first.  What the workers do with a message is
  the engine's turn and not modelled here; the parsing of the plugin's time stamps is an argument.
\<close>

subsection \<open>Inbound messages\<close>

record attachment =
  at_id :: string
  at_filename :: string
  at_mime :: string
  at_size :: nat

record inbound =
  in_tenant :: string
  in_chat :: string
  in_user :: string
  in_message :: string
  in_content :: string
  in_attachments :: "attachment list"
  in_reply_to :: "string option"
  in_received_at :: string

record recalled =
  rc_chat :: string
  rc_user :: string
  rc_message :: string

text \<open>\<open>find(char::is_whitespace)\<close> on valid UTF-8.\<close>

fun find_ws :: "string \<Rightarrow> nat option" where
  "find_ws [] = None"
| "find_ws (c # cs) = (if ws_at (c # cs) \<noteq> None then Some 0 else map_option Suc (find_ws cs))"

definition clean_user_input :: "string \<Rightarrow> string" where
  "clean_user_input raw =
     (let trimmed = trim raw
      in if prefix ''@'' trimmed then
           (case find_ws (drop 1 trimmed) of
              Some i \<Rightarrow> trim (drop i (drop 1 trimmed))
            | None \<Rightarrow> [])
         else trimmed)"

definition is_name_char :: "char \<Rightarrow> bool" where
  "is_name_char c \<longleftrightarrow> (let n = (of_char c :: nat) in
     (48 \<le> n \<and> n \<le> 57) \<or> (65 \<le> n \<and> n \<le> 90) \<or> (97 \<le> n \<and> n \<le> 122)) \<or> c \<in> set ''-_.''"

definition parse_slash_command :: "string \<Rightarrow> (string \<times> string) option" where
  "parse_slash_command cleaned =
     (if \<not> prefix ''/'' cleaned then None
      else
        (let stripped = trim_start (drop 1 cleaned)
         in if stripped = [] then None
            else
              (case (case find_ws stripped of
                       Some i \<Rightarrow> (take i stripped, trim (drop i stripped))
                     | None \<Rightarrow> (stripped, [])) of
                 (name, rest) \<Rightarrow>
                   if name = [] \<or> \<not> list_all is_name_char name then None else Some (name, rest))))"

definition is_command_like :: "inbound \<Rightarrow> bool" where
  "is_command_like p \<longleftrightarrow> parse_slash_command (clean_user_input (in_content p)) \<noteq> None"

definition is_attachment_placeholder :: "string \<Rightarrow> bool" where
  "is_attachment_placeholder s \<longleftrightarrow>
     (let lower = map ascii_lower (trim s)
      in lower = ''[uploaded image]'' \<or> prefix ''[uploaded file:'' lower \<or> prefix ''[uploaded image:'' lower)"

definition meaningful_user_text :: "inbound \<Rightarrow> string option" where
  "meaningful_user_text p =
     (let trimmed = trim (clean_user_input (in_content p))
      in if trimmed = [] \<or> is_attachment_placeholder trimmed then None else Some trimmed)"

definition cancel_words :: "string list" where
  "cancel_words = [utf8 [0xE5, 0x8F, 0x96, 0xE6, 0xB6, 0x88],
     utf8 [0xE4, 0xB8, 0x8D, 0xE7, 0x94, 0xA8, 0xE4, 0xBA, 0x86],
     utf8 [0xE4, 0xB8, 0x8D, 0xE8, 0xA6, 0x81, 0xE4, 0xBA, 0x86],
     utf8 [0xE7, 0xAE, 0x97, 0xE4, 0xBA, 0x86],
     ''cancel'', ''stop'', ''never mind'', ''nevermind'']"

definition is_cancel_intent :: "string \<Rightarrow> bool" where
  "is_cancel_intent s \<longleftrightarrow> map ascii_lower (trim s) \<in> set cancel_words"

definition user_key_for :: "string \<Rightarrow> string \<Rightarrow> string" where
  "user_key_for chat user = (if user = [] then chat else user)"

type_synonym assembly_key = "string \<times> string \<times> string option"

definition assembly_key_of :: "inbound \<Rightarrow> assembly_key" where
  "assembly_key_of p = (in_chat p, user_key_for (in_chat p) (in_user p), in_reply_to p)"

definition attachment_line :: "attachment \<Rightarrow> string" where
  "attachment_line a =
     (if 0 < at_size a then ''- '' @ at_filename a @ '' ('' @ show_nat (at_size a) @ '' bytes)''
      else ''- '' @ at_filename a)"

definition SUMMARY_HEAD :: string where
  "SUMMARY_HEAD = utf8 [0xE7, 0x94, 0xA8, 0xE6, 0x88, 0xB7, 0xE4, 0xB8, 0x8A, 0xE4, 0xBC, 0xA0, 0xE4, 0xBA, 0x86, 0xE4, 0xBB, 0xA5, 0xE4, 0xB8, 0x8B, 0xE6, 0x96, 0x87, 0xE4, 0xBB, 0xB6, 0xEF, 0xBC, 0x88, 0xE5, 0xB7, 0xB2, 0xE6, 0x8E, 0xA5, 0xE6, 0x94, 0xB6, 0xE5, 0xB9, 0xB6, 0xE4, 0xBF, 0x9D, 0xE5, 0xAD, 0x98, 0xE5, 0x88, 0xB0, 0xE6, 0x9C, 0xAC, 0xE5, 0x9C, 0xB0, 0xE5, 0xB7, 0xA5, 0xE4, 0xBD, 0x9C, 0xE5, 0x8C, 0xBA, 0xEF, 0xBC, 0x8C, 0xE8, 0xA7, 0x81, 0xE4, 0xB8, 0x8B, 0xE6, 0x96, 0xB9, 0xE9, 0x99, 0x84, 0xE4, 0xBB, 0xB6, 0xE6, 0xB8, 0x85, 0xE5, 0x8D, 0x95, 0xE9, 0x87, 0x8C, 0xE7, 0x9A, 0x84, 0xE6, 0x9C, 0xAC, 0xE5, 0x9C, 0xB0, 0xE8, 0xB7, 0xAF, 0xE5, 0xBE, 0x84, 0xEF, 0xBC, 0x8C, 0xE5, 0x8F, 0xAF, 0xE7, 0x9B, 0xB4, 0xE6, 0x8E, 0xA5, 0xE7, 0x94, 0xA8, 0xE5, 0xB7, 0xA5, 0xE5, 0x85, 0xB7, 0xE8, 0xAF, 0xBB, 0xE5, 0x8F, 0x96, 0xEF, 0xBC, 0x8C, 0xE4, 0xB8, 0x8D, 0xE6, 0x98, 0xAF, 0xE5, 0xA4, 0x96, 0xE9, 0x93, 0xBE, 0xE3, 0x80, 0x81, 0xE6, 0x97, 0xA0, 0xE9, 0x9C, 0x80, 0xE7, 0x99, 0xBB, 0xE5, 0xBD, 0x95, 0xEF, 0xBC, 0x89, 0xEF, 0xBC, 0x8C, 0xE8, 0xAF, 0xB7, 0xE5, 0x85, 0x88, 0xE5, 0x88, 0xA4, 0xE6, 0x96, 0xAD, 0xE5, 0x8F, 0xAF, 0xE5, 0x81, 0x9A, 0xE7, 0x9A, 0x84, 0xE9, 0xBB, 0x98, 0xE8, 0xAE, 0xA4, 0xE5, 0xA4, 0x84, 0xE7, 0x90, 0x86, 0xEF, 0xBC, 0x9A]"

definition attachment_summary :: "attachment list \<Rightarrow> string" where
  "attachment_summary as =
     (if as = [] then [] else SUMMARY_HEAD @ [newline] @ join_with [newline] (map attachment_line as))"

subsection \<open>A pending burst\<close>

record assembly_config =
  ac_enabled :: bool
  ac_text_debounce :: int
  ac_attachment_wait :: int
  ac_hard_cap :: int

definition default_assembly :: assembly_config where
  "default_assembly = \<lparr>ac_enabled = True, ac_text_debounce = 1500, ac_attachment_wait = 8000, ac_hard_cap = 30000\<rparr>"

record pending_input =
  pi_base :: inbound
  pi_message_ids :: "string list"
  pi_text_parts :: "string list"
  pi_attachments :: "attachment list"
  pi_generation :: nat
  pi_first_seen :: int

definition add_new :: "('a \<Rightarrow> 'k) \<Rightarrow> 'a list \<Rightarrow> 'a \<Rightarrow> 'a list" where
  "add_new key xs x = (if list_ex (\<lambda>y. key y = key x) xs then xs else xs @ [x])"

definition merge_base :: "inbound \<Rightarrow> inbound \<Rightarrow> inbound" where
  "merge_base base p =
     (let base = (if in_tenant p \<noteq> [] then base\<lparr>in_tenant := in_tenant p\<rparr> else base);
          base = (if in_received_at base = [] \<and> in_received_at p \<noteq> [] then base\<lparr>in_received_at := in_received_at p\<rparr> else base);
          base = (if in_reply_to p \<noteq> None then base\<lparr>in_reply_to := in_reply_to p\<rparr> else base)
      in if meaningful_user_text p \<noteq> None \<and> in_message p \<noteq> [] then base\<lparr>in_message := in_message p\<rparr> else base)"

definition merge :: "pending_input \<Rightarrow> inbound \<Rightarrow> pending_input" where
  "merge pi p =
     pi\<lparr>pi_message_ids := (if in_message p \<noteq> [] then add_new id (pi_message_ids pi) (in_message p) else pi_message_ids pi),
        pi_base := merge_base (pi_base pi) p,
        pi_text_parts := (case meaningful_user_text p of Some t \<Rightarrow> add_new id (pi_text_parts pi) t | None \<Rightarrow> pi_text_parts pi),
        pi_attachments := foldl (add_new at_id) (pi_attachments pi) (in_attachments p)\<rparr>"

definition new_pending :: "int \<Rightarrow> inbound \<Rightarrow> pending_input" where
  "new_pending now p =
     merge \<lparr>pi_base = p, pi_message_ids = [], pi_text_parts = [], pi_attachments = [], pi_generation = 0,
            pi_first_seen = now\<rparr> p"

definition bump_generation :: "pending_input \<Rightarrow> pending_input" where
  "bump_generation pi = pi\<lparr>pi_generation := min (pi_generation pi + 1) (2 ^ 64 - 1)\<rparr>"

text \<open>\<open>hard_cap.saturating_sub(elapsed)\<close> bounds the delay.\<close>

definition deadline :: "assembly_config \<Rightarrow> int \<Rightarrow> pending_input \<Rightarrow> int" where
  "deadline cfg now pi =
     min (if pi_text_parts pi = [] \<and> pi_attachments pi \<noteq> [] then ac_attachment_wait cfg else ac_text_debounce cfg)
         (max 0 (ac_hard_cap cfg - (now - pi_first_seen pi)))"

definition into_params :: "pending_input \<Rightarrow> inbound" where
  "into_params pi =
     (pi_base pi)\<lparr>in_content := (if pi_text_parts pi = [] then attachment_summary (pi_attachments pi)
                                 else join_with [newline] (pi_text_parts pi)),
                  in_attachments := pi_attachments pi\<rparr>"

subsection \<open>The assembler\<close>

record timer =
  tm_key :: assembly_key
  tm_generation :: nat
  tm_at :: int

record assembler =
  ax_pending :: "(assembly_key \<times> pending_input) list"
  ax_timers :: "timer list"

definition empty_assembler :: assembler where
  "empty_assembler = \<lparr>ax_pending = [], ax_timers = []\<rparr>"

datatype assembly_ingest = StillPending | Ready inbound | Notice string string string

definition CANCELLED_NOTICE :: string where
  "CANCELLED_NOTICE = utf8 [0xE5, 0xB7, 0xB2, 0xE5, 0x8F, 0x96, 0xE6, 0xB6, 0x88, 0xE8, 0xBF, 0x99, 0xE6, 0xAC, 0xA1, 0xE5, 0xBE, 0x85, 0xE5, 0xA4, 0x84, 0xE7, 0x90, 0x86, 0xE7, 0x9A, 0x84, 0xE6, 0x96, 0x87, 0xE4, 0xBB, 0xB6]
       @ ''/''
       @ utf8 [0xE8, 0xAF, 0xB4, 0xE6, 0x98, 0x8E, 0xE3, 0x80, 0x82]"

definition put_pending :: "assembler \<Rightarrow> assembly_key \<Rightarrow> pending_input \<Rightarrow> assembler" where
  "put_pending ax key pi = ax\<lparr>ax_pending := (key, pi) # filter (\<lambda>(k, _). k \<noteq> key) (ax_pending ax)\<rparr>"

definition remove_pending :: "assembler \<Rightarrow> assembly_key \<Rightarrow> assembler" where
  "remove_pending ax key = ax\<lparr>ax_pending := filter (\<lambda>(k, _). k \<noteq> key) (ax_pending ax)\<rparr>"

definition schedule :: "assembler \<Rightarrow> assembly_key \<Rightarrow> nat \<Rightarrow> int \<Rightarrow> assembler" where
  "schedule ax key g at = ax\<lparr>ax_timers := ax_timers ax @ [\<lparr>tm_key = key, tm_generation = g, tm_at = at\<rparr>]\<rparr>"

definition assembler_ingest :: "assembly_config \<Rightarrow> int \<Rightarrow> assembler \<Rightarrow> inbound \<Rightarrow> assembly_ingest \<times> assembler" where
  "assembler_ingest cfg now ax p =
     (if \<not> ac_enabled cfg \<or> is_command_like p then (Ready p, ax)
      else
        (let key = assembly_key_of p
         in if is_cancel_intent (clean_user_input (in_content p)) then
              (if map_of (ax_pending ax) key \<noteq> None
               then (Notice (in_tenant p) (in_chat p) CANCELLED_NOTICE, remove_pending ax key)
               else (Ready p, ax))
            else
              (let pi = bump_generation
                          (case map_of (ax_pending ax) key of Some pi \<Rightarrow> merge pi p | None \<Rightarrow> new_pending now p)
               in (StillPending, schedule (put_pending ax key pi) key (pi_generation pi) (now + deadline cfg now pi)))))"

text \<open>A timer that fires is gone; it flushes the entry of its key if the generations agree.\<close>

definition on_timeout :: "assembler \<Rightarrow> timer \<Rightarrow> assembly_ingest \<times> assembler" where
  "on_timeout ax tm =
     (let ax = ax\<lparr>ax_timers := remove1 tm (ax_timers ax)\<rparr>
      in case map_of (ax_pending ax) (tm_key tm) of
           Some pi \<Rightarrow>
             if pi_generation pi = tm_generation tm then (Ready (into_params pi), remove_pending ax (tm_key tm))
             else (StillPending, ax)
         | None \<Rightarrow> (StillPending, ax))"

definition contains_message_id :: "pending_input \<Rightarrow> string \<Rightarrow> bool" where
  "contains_message_id pi i \<longleftrightarrow> i \<noteq> [] \<and> i \<in> set (pi_message_ids pi)"

definition recall_pending :: "assembler \<Rightarrow> recalled \<Rightarrow> bool \<times> assembler" where
  "recall_pending ax r =
     (case find (\<lambda>(k, pi). fst k = rc_chat r \<and> fst (snd k) = user_key_for (rc_chat r) (rc_user r)
                           \<and> contains_message_id pi (rc_message r)) (ax_pending ax) of
        Some (k, _) \<Rightarrow> (True, remove_pending ax k)
      | None \<Rightarrow> (False, ax))"

subsection \<open>A burst becomes one turn\<close>

text \<open>The elements with a key not seen before, in order.\<close>

fun first_by :: "('a \<Rightarrow> 'k) \<Rightarrow> 'a list \<Rightarrow> 'a list" where
  "first_by f [] = []"
| "first_by f (x # xs) = x # filter (\<lambda>y. f y \<noteq> f x) (first_by f xs)"

lemma first_by_snoc: "first_by f (xs @ [x]) = (if f x \<in> f ` set xs then first_by f xs else first_by f xs @ [x])"
  by (induction xs) auto

lemma set_first_by: "f ` set (first_by f xs) = f ` set xs"
proof (induction xs)
  case (Cons x xs)
  have "f ` set (filter (\<lambda>y. f y \<noteq> f x) (first_by f xs)) = f ` set (first_by f xs) - {f x}" by auto
  with Cons show ?case by auto
qed simp

lemma foldl_add_new: "foldl (add_new f) [] xs = first_by f xs"
proof (induction xs rule: rev_induct)
  case (snoc x xs)
  have "list_ex (\<lambda>y. f y = f x) (first_by f xs) \<longleftrightarrow> f x \<in> f ` set xs"
    using set_first_by [of f xs] by (auto simp: list_ex_iff image_iff) (metis image_iff)+
  with snoc show ?case by (simp add: add_new_def first_by_snoc)
qed simp

text \<open>Messages of one burst: fragments with the same key, neither commands nor cancellations.\<close>

definition fragment :: "assembly_key \<Rightarrow> inbound \<Rightarrow> bool" where
  "fragment key p \<longleftrightarrow> assembly_key_of p = key \<and> \<not> is_command_like p \<and> \<not> is_cancel_intent (clean_user_input (in_content p))"

definition ingest_all :: "assembly_config \<Rightarrow> assembler \<Rightarrow> (int \<times> inbound) list \<Rightarrow> assembler" where
  "ingest_all cfg ax ps = foldl (\<lambda>ax (now, p). snd (assembler_ingest cfg now ax p)) ax ps"

definition texts_of :: "inbound list \<Rightarrow> string list" where
  "texts_of ps = List.map_filter meaningful_user_text ps"

lemma ingest_fragment:
  "ac_enabled cfg \<Longrightarrow> fragment key p \<Longrightarrow>
    assembler_ingest cfg now ax p =
      (let pi = bump_generation (case map_of (ax_pending ax) key of Some pi \<Rightarrow> merge pi p | None \<Rightarrow> new_pending now p)
       in (StillPending, schedule (put_pending ax key pi) key (pi_generation pi) (now + deadline cfg now pi)))"
  by (auto simp: assembler_ingest_def fragment_def Let_def)

lemma map_of_without: "map_of (filter (\<lambda>(k, _). k \<noteq> key) xs) k' = (if k' = key then None else map_of xs k')"
  by (induction xs) auto

lemma map_of_put [simp]: "map_of (ax_pending (put_pending ax key pi)) k = (if k = key then Some pi else map_of (ax_pending ax) k)"
  by (simp add: put_pending_def map_of_without)

lemma map_of_remove [simp]: "map_of (ax_pending (remove_pending ax key)) k = (if k = key then None else map_of (ax_pending ax) k)"
  by (simp add: remove_pending_def map_of_without)

lemma schedule_pending [simp]: "ax_pending (schedule ax key g at) = ax_pending ax"
  by (simp add: schedule_def)

fun first_nonempty :: "string list \<Rightarrow> string" where
  "first_nonempty [] = []"
| "first_nonempty (s # ss) = (if s \<noteq> [] then s else first_nonempty ss)"

lemma first_nonempty_snoc: "first_nonempty (ss @ [s]) = (if first_nonempty ss = [] then s else first_nonempty ss)"
  by (induction ss) auto

lemma received_merge [simp]:
  "in_received_at (pi_base (merge pi p)) = (if in_received_at (pi_base pi) = [] then in_received_at p else in_received_at (pi_base pi))"
  by (simp add: merge_def merge_base_def Let_def)

lemma merge_lists [simp]:
  "pi_text_parts (merge pi p) = foldl (add_new id) (pi_text_parts pi) (texts_of [p])"
  "pi_attachments (merge pi p) = foldl (add_new at_id) (pi_attachments pi) (in_attachments p)"
  by (auto simp: merge_def texts_of_def List.map_filter_def split: option.splits)

text \<open>What a burst has accumulated after the messages \<open>ps\<close>.\<close>

definition accumulated :: "inbound list \<Rightarrow> pending_input \<Rightarrow> bool" where
  "accumulated ps pi \<longleftrightarrow>
     pi_text_parts pi = first_by id (texts_of ps)
     \<and> pi_attachments pi = first_by at_id (concat (map in_attachments ps))
     \<and> in_received_at (pi_base pi) = first_nonempty (map in_received_at ps)"

lemma texts_of_append: "texts_of (ps @ qs) = texts_of ps @ texts_of qs"
  by (simp add: texts_of_def List.map_filter_def)

lemma accumulated_merge: "accumulated ps pi \<Longrightarrow> accumulated (ps @ [p]) (merge pi p)"
  by (simp add: accumulated_def texts_of_append foldl_add_new [symmetric] first_nonempty_snoc)

lemma accumulated_new: "accumulated [p] (new_pending now p)"
  by (simp add: accumulated_def new_pending_def foldl_add_new)

lemma accumulated_bump [simp]: "accumulated ps (bump_generation pi) = accumulated ps pi"
  by (simp add: accumulated_def bump_generation_def)

lemma merge_generation [simp]: "pi_generation (merge pi p) = pi_generation pi" "pi_generation (new_pending now p) = 0"
  by (simp_all add: merge_def new_pending_def)

lemma burst_state:
  assumes "ac_enabled cfg" "map_of (ax_pending ax) key = None"
  shows "ps \<noteq> [] \<Longrightarrow> list_all (\<lambda>(_, p). fragment key p) ps \<Longrightarrow> length ps < 2 ^ 64 \<Longrightarrow>
    (\<exists>pi. map_of (ax_pending (ingest_all cfg ax ps)) key = Some pi \<and> accumulated (map snd ps) pi \<and> pi_generation pi = length ps)
    \<and> (\<forall>k. k \<noteq> key \<longrightarrow> map_of (ax_pending (ingest_all cfg ax ps)) k = map_of (ax_pending ax) k)"
proof (induction ps rule: rev_induct)
  case (snoc x ps)
  obtain now p where x: "x = (now, p)" by (metis surj_pair)
  have f: "fragment key p" using snoc.prems by (simp add: x)
  let ?ax = "ingest_all cfg ax ps"
  have step: "ingest_all cfg ax (ps @ [x]) = snd (assembler_ingest cfg now ?ax p)" by (simp add: ingest_all_def x)
  show ?case
  proof (cases "ps = []")
    case True
    then show ?thesis
      using assms step ingest_fragment [OF assms(1) f, of now ?ax] accumulated_new [of p now]
      by (simp add: ingest_all_def x Let_def) (simp add: bump_generation_def)
  next
    case False
    then obtain pi where pi: "map_of (ax_pending ?ax) key = Some pi" "accumulated (map snd ps) pi" "pi_generation pi = length ps"
      and other: "\<forall>k. k \<noteq> key \<longrightarrow> map_of (ax_pending ?ax) k = map_of (ax_pending ax) k"
      using snoc by auto
    have "pi_generation (bump_generation (merge pi p)) = Suc (length ps)"
      using snoc.prems(3) pi(3) by (simp add: bump_generation_def)
    then show ?thesis
      using step ingest_fragment [OF assms(1) f, of now ?ax] pi accumulated_merge [OF pi(2), of p] other
      by (simp add: x Let_def)
  qed
qed simp

text \<open>C13: A burst becomes one turn.  Fragments of one user, chat and reply thread that arrive before the
  burst is flushed are merged: the flush of the last timer is a single message with the distinct texts in
  order, one per line, or the summary of the files when there is no text, each file once, and the arrival
  time of the first fragment; earlier timers change nothing, and no other burst is touched.\<close>

theorem burst_becomes_one_turn:
  assumes "ac_enabled cfg" "map_of (ax_pending ax) key = None" "ps \<noteq> []" "list_all (\<lambda>(_, p). fragment key p) ps"
    and "length ps < 2 ^ 64" "ax' = ingest_all cfg ax ps" "g < length ps"
  shows "fst (on_timeout ax' \<lparr>tm_key = key, tm_generation = g, tm_at = at\<rparr>) = StillPending
    \<and> ax_pending (snd (on_timeout ax' \<lparr>tm_key = key, tm_generation = g, tm_at = at\<rparr>)) = ax_pending ax'
    \<and> (\<exists>r. fst (on_timeout ax' \<lparr>tm_key = key, tm_generation = length ps, tm_at = at\<rparr>) = Ready r
        \<and> in_attachments r = first_by at_id (concat (map (in_attachments \<circ> snd) ps))
        \<and> in_content r = (if texts_of (map snd ps) = [] then attachment_summary (in_attachments r)
                          else join_with [newline] (first_by id (texts_of (map snd ps))))
        \<and> in_received_at r = first_nonempty (map (in_received_at \<circ> snd) ps))
    \<and> map_of (ax_pending (snd (on_timeout ax' \<lparr>tm_key = key, tm_generation = length ps, tm_at = at\<rparr>)))
        = (map_of (ax_pending ax))(key := None)"
proof -
  obtain pi where pi: "map_of (ax_pending ax') key = Some pi" "accumulated (map snd ps) pi" "pi_generation pi = length ps"
    and other: "\<forall>k. k \<noteq> key \<longrightarrow> map_of (ax_pending ax') k = map_of (ax_pending ax) k"
    using burst_state [OF assms(1-5)] assms(6) by auto
  have none: "first_by id (texts_of (map snd ps)) = [] \<longleftrightarrow> texts_of (map snd ps) = []"
    by (cases "texts_of (map snd ps)") auto
  have drop: "map_of (ax_pending (remove_pending (ax'\<lparr>ax_timers := ts\<rparr>) key)) = (map_of (ax_pending ax))(key := None)" for ts
    using other by (auto simp: fun_eq_iff)
  show ?thesis
    using pi assms(7) drop none
    by (simp add: on_timeout_def Let_def into_params_def accumulated_def comp_def)
qed

subsection \<open>Every burst is flushed\<close>

datatype asm_event = Ingest int inbound | Fire timer | Recall recalled

fun asm_step :: "assembly_config \<Rightarrow> asm_event \<Rightarrow> assembler \<Rightarrow> assembler" where
  "asm_step cfg (Ingest now p) ax = snd (assembler_ingest cfg now ax p)"
| "asm_step cfg (Fire tm) ax = (if tm \<in> set (ax_timers ax) then snd (on_timeout ax tm) else ax)"
| "asm_step cfg (Recall r) ax = snd (recall_pending ax r)"

definition asm_run :: "assembly_config \<Rightarrow> asm_event list \<Rightarrow> assembler" where
  "asm_run cfg evs = foldl (\<lambda>ax e. asm_step cfg e ax) empty_assembler evs"

fun event_times :: "asm_event list \<Rightarrow> int list" where
  "event_times [] = []"
| "event_times (Ingest now p # es) = now # event_times es"
| "event_times (_ # es) = event_times es"

text \<open>Each pending burst has a timer of its own generation, due at the hard cap at the latest, or at once
  when that is past.\<close>

definition armed :: "assembly_config \<Rightarrow> int \<Rightarrow> assembler \<Rightarrow> bool" where
  "armed cfg T ax \<longleftrightarrow>
     (\<forall>key pi. map_of (ax_pending ax) key = Some pi \<longrightarrow>
        (\<exists>tm \<in> set (ax_timers ax). tm_key tm = key \<and> tm_generation tm = pi_generation pi
           \<and> tm_at tm \<le> max T (pi_first_seen pi + ac_hard_cap cfg)))"

lemma armed_later: "armed cfg T ax \<Longrightarrow> T \<le> T' \<Longrightarrow> armed cfg T' ax"
  unfolding armed_def by (meson le_max_iff_disj order_trans)

lemma armed_remove: "armed cfg T ax \<Longrightarrow> armed cfg T (remove_pending ax key)"
  by (auto simp: armed_def) (auto simp: remove_pending_def)

lemma armed_put:
  assumes "armed cfg T ax" "T \<le> now"
  shows "armed cfg now (schedule (put_pending ax key pi) key (pi_generation pi) (now + deadline cfg now pi))"
  unfolding armed_def
proof (intro allI impI)
  let ?ax = "schedule (put_pending ax key pi) key (pi_generation pi) (now + deadline cfg now pi)"
  have timers: "set (ax_timers ?ax) = insert \<lparr>tm_key = key, tm_generation = pi_generation pi, tm_at = now + deadline cfg now pi\<rparr> (set (ax_timers ax))"
    by (simp add: schedule_def put_pending_def)
  have due: "now + deadline cfg now pi \<le> max now (pi_first_seen pi + ac_hard_cap cfg)"
    by (simp add: deadline_def min_def max_def)
  fix k qi
  assume q: "map_of (ax_pending ?ax) k = Some qi"
  show "\<exists>tm \<in> set (ax_timers ?ax). tm_key tm = k \<and> tm_generation tm = pi_generation qi
      \<and> tm_at tm \<le> max now (pi_first_seen qi + ac_hard_cap cfg)"
  proof (cases "k = key")
    case True
    with q due show ?thesis unfolding timers by simp
  next
    case False
    with q have "map_of (ax_pending ax) k = Some qi" by simp
    with armed_later [OF assms] show ?thesis unfolding timers armed_def by blast
  qed
qed

lemma ingest_cases:
  "snd (assembler_ingest cfg now ax p) = ax
   \<or> snd (assembler_ingest cfg now ax p) = remove_pending ax (assembly_key_of p)
   \<or> (\<exists>pi. snd (assembler_ingest cfg now ax p) = schedule (put_pending ax (assembly_key_of p) pi) (assembly_key_of p)
        (pi_generation pi) (now + deadline cfg now pi))"
  unfolding assembler_ingest_def Let_def by (simp split: if_split) blast

lemma armed_ingest: "armed cfg T ax \<Longrightarrow> T \<le> now \<Longrightarrow> armed cfg now (snd (assembler_ingest cfg now ax p))"
  using ingest_cases [of cfg now ax p] armed_put armed_remove armed_later by metis

lemma armed_timeout: "armed cfg T ax \<Longrightarrow> armed cfg T (snd (on_timeout ax tm))"
proof -
  assume a: "armed cfg T ax"
  have keep: "x \<in> set (remove1 tm ts)" if "x \<in> set ts" "x \<noteq> tm" for x ts
    using that by (simp add: in_set_remove1)
  show ?thesis
  proof (cases "\<exists>pi. map_of (ax_pending ax) (tm_key tm) = Some pi \<and> pi_generation pi = tm_generation tm")
    case True
    then obtain pi where pi: "map_of (ax_pending ax) (tm_key tm) = Some pi" "pi_generation pi = tm_generation tm" by blast
    have "armed cfg T (remove_pending (ax\<lparr>ax_timers := remove1 tm (ax_timers ax)\<rparr>) (tm_key tm))"
      unfolding armed_def
    proof (intro allI impI)
      fix key qi
      assume "map_of (ax_pending (remove_pending (ax\<lparr>ax_timers := remove1 tm (ax_timers ax)\<rparr>) (tm_key tm))) key = Some qi"
      then have k: "key \<noteq> tm_key tm" "map_of (ax_pending ax) key = Some qi" by (auto split: if_splits)
      with a obtain x where x: "x \<in> set (ax_timers ax)" "tm_key x = key" "tm_generation x = pi_generation qi"
        "tm_at x \<le> max T (pi_first_seen qi + ac_hard_cap cfg)" unfolding armed_def by blast
      with k(1) keep have "x \<in> set (remove1 tm (ax_timers ax))" by blast
      with x show "\<exists>x \<in> set (ax_timers (remove_pending (ax\<lparr>ax_timers := remove1 tm (ax_timers ax)\<rparr>) (tm_key tm))).
          tm_key x = key \<and> tm_generation x = pi_generation qi \<and> tm_at x \<le> max T (pi_first_seen qi + ac_hard_cap cfg)"
        by (auto simp: remove_pending_def)
    qed
    with pi show ?thesis by (simp add: on_timeout_def Let_def)
  next
    case False
    then have s: "snd (on_timeout ax tm) = ax\<lparr>ax_timers := remove1 tm (ax_timers ax)\<rparr>"
      by (auto simp: on_timeout_def Let_def split: option.splits)
    show ?thesis
      unfolding s armed_def
    proof (intro allI impI)
      fix key qi
      assume "map_of (ax_pending (ax\<lparr>ax_timers := remove1 tm (ax_timers ax)\<rparr>)) key = Some qi"
      then have k: "map_of (ax_pending ax) key = Some qi" by simp
      with a obtain x where x: "x \<in> set (ax_timers ax)" "tm_key x = key" "tm_generation x = pi_generation qi"
        "tm_at x \<le> max T (pi_first_seen qi + ac_hard_cap cfg)" unfolding armed_def by blast
      have "x \<noteq> tm" using False k x by auto
      with x keep show "\<exists>x \<in> set (ax_timers (ax\<lparr>ax_timers := remove1 tm (ax_timers ax)\<rparr>)).
          tm_key x = key \<and> tm_generation x = pi_generation qi \<and> tm_at x \<le> max T (pi_first_seen qi + ac_hard_cap cfg)"
        by fastforce
    qed
  qed
qed

lemma armed_recall: "armed cfg T ax \<Longrightarrow> armed cfg T (snd (recall_pending ax r))"
  by (auto simp: recall_pending_def armed_remove split: option.splits)

lemma armed_run:
  "armed cfg T ax \<Longrightarrow> sorted (T # event_times evs) \<Longrightarrow>
    armed cfg (last (T # event_times evs)) (foldl (\<lambda>ax e. asm_step cfg e ax) ax evs)"
proof (induction evs arbitrary: ax T)
  case (Cons e evs)
  show ?case
  proof (cases e)
    case (Ingest now p)
    with Cons.prems armed_ingest have "armed cfg now (asm_step cfg e ax)" "sorted (now # event_times evs)" by auto
    from Cons.IH [OF this] show ?thesis by (simp add: Ingest)
  next
    case (Fire tm)
    with Cons.prems armed_timeout have "armed cfg T (asm_step cfg e ax)" "sorted (T # event_times evs)" by auto
    from Cons.IH [OF this] show ?thesis by (simp add: Fire)
  next
    case (Recall r)
    with Cons.prems armed_recall have "armed cfg T (asm_step cfg e ax)" "sorted (T # event_times evs)" by auto
    from Cons.IH [OF this] show ?thesis by (simp add: Recall)
  qed
qed simp

text \<open>C14: No burst waits forever.  After any messages, cancellations, recalls and fired timers, as the clock
  goes forward, every burst that is still pending has a timer that will flush it, and that timer is due at
  the hard cap after its first fragment at the latest, or at once when the cap is past.\<close>

theorem no_burst_waits_forever:
  assumes "sorted (T # event_times evs)" "map_of (ax_pending (asm_run cfg evs)) key = Some pi"
  shows "\<exists>tm \<in> set (ax_timers (asm_run cfg evs)).
      fst (on_timeout (asm_run cfg evs) tm) = Ready (into_params pi)
      \<and> tm_at tm \<le> max (last (T # event_times evs)) (pi_first_seen pi + ac_hard_cap cfg)"
proof -
  have "armed cfg T empty_assembler" by (simp add: armed_def empty_assembler_def)
  from armed_run [OF this assms(1)] assms(2) obtain tm where
    "tm \<in> set (ax_timers (asm_run cfg evs))" "tm_key tm = key" "tm_generation tm = pi_generation pi"
    "tm_at tm \<le> max (last (T # event_times evs)) (pi_first_seen pi + ac_hard_cap cfg)"
    unfolding armed_def asm_run_def by blast
  with assms(2) show ?thesis
    by (intro bexI [of _ tm]) (simp_all add: on_timeout_def Let_def)
qed

text \<open>A timer of a flushed burst flushes the next one.  Generations start over with every burst, so the
  timer of the first fragment, still running when its burst was flushed, matches the first fragment of the
  next burst and delivers it before its own wait is over.\<close>

theorem stale_timer_flushes_next_burst:
  assumes "ac_enabled cfg" "map_of (ax_pending ax) key = None" "fragment key p1" "fragment key p2" "fragment key p3"
  shows "let tm = (\<lambda>g at. \<lparr>tm_key = key, tm_generation = g, tm_at = at\<rparr>);
             ax2 = ingest_all cfg ax [(t1, p1), (t2, p2)];
             ax3 = snd (on_timeout ax2 (tm 2 at2));
             ax4 = snd (assembler_ingest cfg t3 ax3 p3);
             early = tm 1 (t1 + deadline cfg t1 (bump_generation (new_pending t1 p1)));
             own = tm 1 (t3 + deadline cfg t3 (bump_generation (new_pending t3 p3)))
    in early \<in> set (ax_timers ax2) \<and> own \<in> set (ax_timers ax4)
       \<and> (early \<noteq> tm 2 at2 \<and> early \<in> set (ax_timers ax4))
       \<and> fst (on_timeout ax4 early) = Ready (into_params (bump_generation (new_pending t3 p3)))"
proof -
  let ?tm = "\<lambda>g at. \<lparr>tm_key = key, tm_generation = g, tm_at = at\<rparr>"
  let ?pi1 = "bump_generation (new_pending t1 p1)" and ?pi3 = "bump_generation (new_pending t3 p3)"
  let ?ax1 = "snd (assembler_ingest cfg t1 ax p1)"
  let ?ax2 = "snd (assembler_ingest cfg t2 ?ax1 p2)"
  have g: "pi_generation ?pi1 = 1" "pi_generation ?pi3 = 1" by (simp_all add: bump_generation_def)
  have 1: "map_of (ax_pending ?ax1) key = Some ?pi1" "?tm 1 (t1 + deadline cfg t1 ?pi1) \<in> set (ax_timers ?ax1)"
    using assms g by (simp_all add: ingest_fragment Let_def) (simp_all add: schedule_def)
  let ?pi2 = "bump_generation (merge ?pi1 p2)"
  have 2: "map_of (ax_pending ?ax2) key = Some ?pi2" "pi_generation ?pi2 = 2"
    "?tm 1 (t1 + deadline cfg t1 ?pi1) \<in> set (ax_timers ?ax2)"
    using assms 1 by (simp_all add: ingest_fragment Let_def bump_generation_def)
      (simp_all add: schedule_def put_pending_def)
  let ?ax3 = "snd (on_timeout ?ax2 (?tm 2 at2))"
  have 3: "map_of (ax_pending ?ax3) key = None" "?tm 1 (t1 + deadline cfg t1 ?pi1) \<in> set (ax_timers ?ax3)"
    using 2 by (simp_all add: on_timeout_def Let_def) (simp_all add: remove_pending_def in_set_remove1)
  let ?ax4 = "snd (assembler_ingest cfg t3 ?ax3 p3)"
  have 4: "map_of (ax_pending ?ax4) key = Some ?pi3" "?tm 1 (t1 + deadline cfg t1 ?pi1) \<in> set (ax_timers ?ax4)"
    "?tm 1 (t3 + deadline cfg t3 ?pi3) \<in> set (ax_timers ?ax4)"
    using assms 3 g by (simp_all add: ingest_fragment Let_def) (simp_all add: schedule_def put_pending_def)
  have "fst (on_timeout ?ax4 (?tm 1 (t1 + deadline cfg t1 ?pi1))) = Ready (into_params ?pi3)"
    using 4(1) g by (simp add: on_timeout_def Let_def)
  with 2 4 show ?thesis by (simp add: ingest_all_def Let_def)
qed

subsection \<open>The workers of the chats\<close>

text \<open>
  A worker serves its mailbox one message at a time.  When it has been idle for its TTL it announces its
  exit (\<open>Exiting\<close>) and a moment later its mailbox is closed (\<open>Closed\<close>); the dispatcher removes the entry
  when it reads the announcement.  \<open>dp_accepted\<close> and \<open>dp_started\<close> record the messages put into a mailbox
  and the messages a worker began to process.
\<close>

datatype worker_phase = Serving | Exiting | Closed

record chat_worker =
  cw_mail :: "inbound list"
  cw_busy :: "inbound option"
  cw_notified :: bool
  cw_phase :: worker_phase

record dispatcher =
  dp_db :: database
  dp_questions :: text_questions
  dp_assembler :: assembler
  dp_workers :: "string \<rightharpoonup> chat_worker"
  dp_exits :: "string list"
  dp_notices :: "(string \<times> string \<times> string) list"
  dp_accepted :: "inbound list"
  dp_started :: "inbound list"

definition DEFAULT_CHAT_MAILBOX :: nat where "DEFAULT_CHAT_MAILBOX = 8"

text \<open>\<open>SNACA_CHAT_MAILBOX\<close>, if it is set to a positive number.\<close>

definition chat_mailbox_capacity :: "string option \<Rightarrow> nat" where
  "chat_mailbox_capacity var =
     (case var of
        Some s \<Rightarrow> (case parse_usize s of Some n \<Rightarrow> if 0 < n then n else DEFAULT_CHAT_MAILBOX | None \<Rightarrow> DEFAULT_CHAT_MAILBOX)
      | None \<Rightarrow> DEFAULT_CHAT_MAILBOX)"

definition fresh_worker :: chat_worker where
  "fresh_worker = \<lparr>cw_mail = [], cw_busy = None, cw_notified = False, cw_phase = Serving\<rparr>"

definition THROTTLE_NOTICE :: string where
  "THROTTLE_NOTICE = utf8 [0xE2, 0x9A, 0xA0] @ '' '' @ utf8 [0xE5, 0xBD, 0x93, 0xE5, 0x89, 0x8D, 0xE4, 0xBC, 0x9A, 0xE8, 0xAF, 0x9D, 0xE6, 0x8E, 0x92, 0xE9, 0x98, 0x9F, 0xE6, 0xB6, 0x88, 0xE6, 0x81, 0xAF, 0xE8, 0xBF, 0x87, 0xE5, 0xA4, 0x9A, 0xEF, 0xBC, 0x8C, 0xE5, 0xB7, 0xB2, 0xE6, 0x9A, 0x82, 0xE6, 0x97, 0xB6, 0xE4, 0xB8, 0xA2, 0xE5, 0xBC, 0x83, 0xEF, 0xBC, 0x9B, 0xE8, 0xAF, 0xB7, 0xE7, 0xAD, 0x89, 0xE5, 0xBE, 0x85, 0xE4, 0xB9, 0x8B, 0xE5, 0x89, 0x8D, 0xE7, 0x9A, 0x84, 0xE5, 0x9B, 0x9E, 0xE5, 0xA4, 0x8D, 0xE5, 0xAE, 0x8C, 0xE6, 0x88, 0x90, 0xE5, 0x90, 0x8E, 0xE5, 0x86, 0x8D, 0xE5, 0x8F, 0x91, 0xE3, 0x80, 0x82]"

definition put_worker :: "dispatcher \<Rightarrow> string \<Rightarrow> chat_worker \<Rightarrow> dispatcher" where
  "put_worker dp chat w = dp\<lparr>dp_workers := (dp_workers dp)(chat \<mapsto> w)\<rparr>"

definition accept :: "dispatcher \<Rightarrow> chat_worker \<Rightarrow> inbound \<Rightarrow> dispatcher" where
  "accept dp w p =
     (put_worker dp (in_chat p) (w\<lparr>cw_mail := cw_mail w @ [p]\<rparr>))\<lparr>dp_accepted := dp_accepted dp @ [p]\<rparr>"

definition route_to_chat_worker :: "nat \<Rightarrow> dispatcher \<Rightarrow> inbound \<Rightarrow> dispatcher" where
  "route_to_chat_worker cap dp p =
     (let w = (case dp_workers dp (in_chat p) of Some w \<Rightarrow> w | None \<Rightarrow> fresh_worker)
      in if cw_phase w = Closed then accept dp fresh_worker p
         else if length (cw_mail w) < cap then accept dp w p
         else
           (put_worker dp (in_chat p) (w\<lparr>cw_notified := True\<rparr>))
             \<lparr>dp_notices := dp_notices dp
                @ (if cw_notified w then [] else [(in_tenant p, in_chat p, THROTTLE_NOTICE)])\<rparr>)"

definition handle_assembly_ingest :: "nat \<Rightarrow> dispatcher \<Rightarrow> assembly_ingest \<Rightarrow> dispatcher" where
  "handle_assembly_ingest cap dp i =
     (case i of
        StillPending \<Rightarrow> dp
      | Ready p \<Rightarrow> route_to_chat_worker cap dp p
      | Notice tenant chat content \<Rightarrow> dp\<lparr>dp_notices := dp_notices dp @ [(tenant, chat, content)]\<rparr>)"

text \<open>Deduplication; a message without an id passes.  The acknowledgement to the plugin is left out.\<close>

definition prelude :: "string \<Rightarrow> timestamp \<Rightarrow> dispatcher \<Rightarrow> inbound \<Rightarrow> inbound option \<times> dispatcher" where
  "prelude plugin now dp p =
     (if in_message p = [] then (Some p, dp)
      else
        (case inbound_dedup_check_and_record (dp_db dp) now plugin (in_message p) of
           (seen, db') \<Rightarrow> (if seen then None else Some p, dp\<lparr>dp_db := db'\<rparr>)))"

definition handle_message ::
  "string \<Rightarrow> assembly_config \<Rightarrow> nat \<Rightarrow> timestamp \<Rightarrow> string \<Rightarrow> dispatcher \<Rightarrow> inbound \<Rightarrow> dispatcher" where
  "handle_message plugin cfg cap now stamp dp p =
     (case tq_intercept (dp_questions dp) (plugin, in_chat p) (clean_user_input (in_content p))
             (user_key_for (in_chat p) (in_user p)) stamp of
        (True, tq) \<Rightarrow> dp\<lparr>dp_questions := tq\<rparr>
      | (False, tq) \<Rightarrow>
          (case prelude plugin now (dp\<lparr>dp_questions := tq\<rparr>) p of
             (None, dp') \<Rightarrow> dp'
           | (Some q, dp') \<Rightarrow>
               if ac_enabled cfg then
                 (case assembler_ingest cfg now (dp_assembler dp') q of
                    (i, ax) \<Rightarrow> handle_assembly_ingest cap (dp'\<lparr>dp_assembler := ax\<rparr>) i)
               else route_to_chat_worker cap dp' q))"

definition handle_timeout :: "nat \<Rightarrow> dispatcher \<Rightarrow> timer \<Rightarrow> dispatcher" where
  "handle_timeout cap dp tm =
     (case on_timeout (dp_assembler dp) tm of
        (i, ax) \<Rightarrow> handle_assembly_ingest cap (dp\<lparr>dp_assembler := ax\<rparr>) i)"

text \<open>The announcement of an exit removes and aborts whatever worker the chat has by then.\<close>

definition reap :: "dispatcher \<Rightarrow> dispatcher" where
  "reap dp = (case dp_exits dp of [] \<Rightarrow> dp | c # cs \<Rightarrow> dp\<lparr>dp_exits := cs, dp_workers := (dp_workers dp)(c := None)\<rparr>)"

datatype dispatch_event =
    Message timestamp string inbound
  | TimerFires timer
  | ReadsExit
  | WorkerTakes string
  | WorkerFinishes string
  | IdleFires string
  | WorkerCloses string

fun dispatch_step :: "string \<Rightarrow> assembly_config \<Rightarrow> nat \<Rightarrow> dispatch_event \<Rightarrow> dispatcher \<Rightarrow> dispatcher" where
  "dispatch_step plugin cfg cap (Message now stamp p) dp = handle_message plugin cfg cap now stamp dp p"
| "dispatch_step plugin cfg cap (TimerFires tm) dp = handle_timeout cap dp tm"
| "dispatch_step plugin cfg cap ReadsExit dp = reap dp"
| "dispatch_step plugin cfg cap (WorkerTakes chat) dp =
     (case dp_workers dp chat of
        Some w \<Rightarrow>
          (case cw_mail w of
             p # q \<Rightarrow>
               if cw_phase w = Serving \<and> cw_busy w = None
               then (put_worker dp chat (w\<lparr>cw_mail := q, cw_busy := Some p\<rparr>))\<lparr>dp_started := dp_started dp @ [p]\<rparr>
               else dp
           | [] \<Rightarrow> dp)
      | None \<Rightarrow> dp)"
| "dispatch_step plugin cfg cap (WorkerFinishes chat) dp =
     (case dp_workers dp chat of
        Some w \<Rightarrow> if cw_busy w \<noteq> None then put_worker dp chat (w\<lparr>cw_busy := None, cw_notified := False\<rparr>) else dp
      | None \<Rightarrow> dp)"
| "dispatch_step plugin cfg cap (IdleFires chat) dp =
     (case dp_workers dp chat of
        Some w \<Rightarrow>
          if cw_phase w = Serving \<and> cw_busy w = None \<and> cw_mail w = []
          then (put_worker dp chat (w\<lparr>cw_phase := Exiting\<rparr>))\<lparr>dp_exits := dp_exits dp @ [chat]\<rparr> else dp
      | None \<Rightarrow> dp)"
| "dispatch_step plugin cfg cap (WorkerCloses chat) dp =
     (case dp_workers dp chat of
        Some w \<Rightarrow> if cw_phase w = Exiting then put_worker dp chat (w\<lparr>cw_phase := Closed, cw_mail := []\<rparr>) else dp
      | None \<Rightarrow> dp)"

definition dispatch_run :: "string \<Rightarrow> assembly_config \<Rightarrow> nat \<Rightarrow> dispatch_event list \<Rightarrow> dispatcher \<Rightarrow> dispatcher" where
  "dispatch_run plugin cfg cap evs dp = foldl (\<lambda>dp e. dispatch_step plugin cfg cap e dp) dp evs"

definition new_dispatcher :: "database \<Rightarrow> text_questions \<Rightarrow> dispatcher" where
  "new_dispatcher db tq = \<lparr>dp_db = db, dp_questions = tq, dp_assembler = empty_assembler, dp_workers = Map.empty,
     dp_exits = [], dp_notices = [], dp_accepted = [], dp_started = []\<rparr>"

subsection \<open>Mailboxes\<close>

definition chat_only :: "string \<Rightarrow> inbound list \<Rightarrow> inbound list" where
  "chat_only chat ps = filter (\<lambda>p. in_chat p = chat) ps"

definition mail_of :: "dispatcher \<Rightarrow> string \<Rightarrow> inbound list" where
  "mail_of dp chat = (case dp_workers dp chat of Some w \<Rightarrow> cw_mail w | None \<Rightarrow> [])"

definition mail_ok :: "nat \<Rightarrow> dispatcher \<Rightarrow> bool" where
  "mail_ok cap dp \<longleftrightarrow>
     (\<forall>chat. length (mail_of dp chat) \<le> cap \<and> (\<forall>p \<in> set (mail_of dp chat). in_chat p = chat)
        \<and> subseq (chat_only chat (dp_started dp) @ mail_of dp chat) (chat_only chat (dp_accepted dp)))"

text \<open>Changes of a worker that keep the first part of its mailbox.\<close>

lemma mail_ok_shrink:
  assumes "mail_ok cap dp" "\<And>chat. prefix (mail_of dp' chat) (mail_of dp chat)"
    and "dp_started dp' = dp_started dp" "dp_accepted dp' = dp_accepted dp"
  shows "mail_ok cap dp'"
  unfolding mail_ok_def
proof (intro allI conjI ballI)
  fix chat
  from assms(2) [of chat] obtain r where r: "mail_of dp chat = mail_of dp' chat @ r" by (auto simp: prefix_def)
  then show "length (mail_of dp' chat) \<le> cap" using assms(1) by (auto simp: mail_ok_def dest: spec [of _ chat])
  show "in_chat p = chat" if "p \<in> set (mail_of dp' chat)" for p
    using r that assms(1) by (auto simp: mail_ok_def dest: spec [of _ chat])
  have "subseq ((chat_only chat (dp_started dp) @ mail_of dp' chat) @ r) (chat_only chat (dp_accepted dp))"
    using r assms(1) by (auto simp: mail_ok_def dest: spec [of _ chat])
  then show "subseq (chat_only chat (dp_started dp') @ mail_of dp' chat) (chat_only chat (dp_accepted dp'))"
    unfolding assms(3,4) by (rule subseq_left)
qed

lemma mail_ok_accept:
  assumes "mail_ok cap dp" "length (cw_mail w) < cap" "prefix (cw_mail w) (mail_of dp (in_chat p))"
  shows "mail_ok cap (accept dp w p)"
  unfolding mail_ok_def
proof (intro allI conjI ballI)
  fix chat
  have mail: "mail_of (accept dp w p) chat = (if chat = in_chat p then cw_mail w @ [p] else mail_of dp chat)"
    by (simp add: mail_of_def accept_def put_worker_def)
  from assms(3) obtain r where r: "mail_of dp (in_chat p) = cw_mail w @ r" by (auto simp: prefix_def)
  have ok: "\<And>c. length (mail_of dp c) \<le> cap" "\<And>c q. q \<in> set (mail_of dp c) \<Longrightarrow> in_chat q = c"
    "\<And>c. subseq (chat_only c (dp_started dp) @ mail_of dp c) (chat_only c (dp_accepted dp))"
    using assms(1) by (auto simp: mail_ok_def)
  show "length (mail_of (accept dp w p) chat) \<le> cap" using ok(1) [of chat] assms(2) by (simp add: mail)
  show "in_chat q = chat" if "q \<in> set (mail_of (accept dp w p) chat)" for q
    using that ok(2) [of q chat] ok(2) [of q "in_chat p"] r by (auto simp: mail split: if_splits)
  have "subseq (chat_only (in_chat p) (dp_started dp) @ cw_mail w) (chat_only (in_chat p) (dp_accepted dp))"
    using ok(3) [of "in_chat p"] subseq_left [of "chat_only (in_chat p) (dp_started dp) @ cw_mail w" r] r by simp
  then have "subseq ((chat_only (in_chat p) (dp_started dp) @ cw_mail w) @ [p]) (chat_only (in_chat p) (dp_accepted dp) @ [p])"
    by (subst subseq_append) simp
  then show "subseq (chat_only chat (dp_started (accept dp w p)) @ mail_of (accept dp w p) chat)
      (chat_only chat (dp_accepted (accept dp w p)))"
    using ok(3) [of chat] unfolding mail by (auto simp: accept_def put_worker_def chat_only_def)
qed

lemma mail_ok_route: "mail_ok cap dp \<Longrightarrow> 0 < cap \<Longrightarrow> mail_ok cap (route_to_chat_worker cap dp p)"
proof -
  assume a: "mail_ok cap dp" "0 < cap"
  let ?w = "case dp_workers dp (in_chat p) of Some w \<Rightarrow> w | None \<Rightarrow> fresh_worker"
  have m: "cw_mail ?w = mail_of dp (in_chat p)" by (simp add: mail_of_def fresh_worker_def split: option.splits)
  have full: "mail_ok cap ((put_worker dp (in_chat p) (?w\<lparr>cw_notified := True\<rparr>))\<lparr>dp_notices := n\<rparr>)" for n
    by (rule mail_ok_shrink [OF a(1)]) (auto simp: mail_of_def put_worker_def fresh_worker_def split: option.splits)
  have fresh: "mail_ok cap (accept dp fresh_worker p)"
    by (rule mail_ok_accept [OF a(1)]) (use a(2) in \<open>simp_all add: fresh_worker_def\<close>)
  show ?thesis
    using full fresh mail_ok_accept [OF a(1), of ?w p] m
    by (simp add: route_to_chat_worker_def Let_def)
qed

lemma mail_ok_cong:
  "dp_workers dp' = dp_workers dp \<Longrightarrow> dp_started dp' = dp_started dp \<Longrightarrow> dp_accepted dp' = dp_accepted dp \<Longrightarrow>
    mail_ok cap dp' = mail_ok cap dp"
  by (simp add: mail_ok_def mail_of_def)

lemma mail_ok_ingest: "mail_ok cap dp \<Longrightarrow> 0 < cap \<Longrightarrow> mail_ok cap (handle_assembly_ingest cap dp i)"
  by (cases i) (simp_all add: handle_assembly_ingest_def mail_ok_route mail_ok_cong [of "dp\<lparr>dp_notices := n\<rparr>" dp for n])

lemma mail_ok_message: "mail_ok cap dp \<Longrightarrow> 0 < cap \<Longrightarrow> mail_ok cap (handle_message plugin cfg cap now stamp dp p)"
proof -
  assume a: "mail_ok cap dp" "0 < cap"
  obtain hit tq where i: "tq_intercept (dp_questions dp) (plugin, in_chat p) (clean_user_input (in_content p))
      (user_key_for (in_chat p) (in_user p)) stamp = (hit, tq)" by (metis surj_pair)
  obtain q dp' where pre: "prelude plugin now (dp\<lparr>dp_questions := tq\<rparr>) p = (q, dp')" by (metis surj_pair)
  have ok': "mail_ok cap dp'"
    using pre a(1) mail_ok_cong [of dp' dp] by (auto simp: prelude_def split: if_splits prod.splits)
  have asm: "mail_ok cap (dp'\<lparr>dp_assembler := ax\<rparr>)" for ax
    using ok' mail_ok_cong [of "dp'\<lparr>dp_assembler := ax\<rparr>" dp'] by simp
  have quest: "mail_ok cap (dp\<lparr>dp_questions := tq\<rparr>)" using a(1) mail_ok_cong [of "dp\<lparr>dp_questions := tq\<rparr>" dp] by simp
  show ?thesis
    using i pre ok' asm quest a(2)
    by (auto simp: handle_message_def mail_ok_ingest mail_ok_route split: option.splits prod.splits bool.splits)
qed

lemma mail_ok_worker:
  assumes "mail_ok cap dp" "dp_workers dp chat = Some w" "prefix (cw_mail w') (cw_mail w)"
  shows "mail_ok cap (put_worker dp chat w')"
  by (rule mail_ok_shrink [OF assms(1)]) (use assms(2,3) in \<open>auto simp: mail_of_def put_worker_def\<close>)

lemma mail_ok_takes:
  assumes "mail_ok cap dp" "dp_workers dp chat = Some w" "cw_mail w = p # q"
  shows "mail_ok cap ((put_worker dp chat (w\<lparr>cw_mail := q, cw_busy := Some p\<rparr>))\<lparr>dp_started := dp_started dp @ [p]\<rparr>)"
  unfolding mail_ok_def
proof (intro allI conjI ballI)
  let ?dp = "(put_worker dp chat (w\<lparr>cw_mail := q, cw_busy := Some p\<rparr>))\<lparr>dp_started := dp_started dp @ [p]\<rparr>"
  fix c
  have mail: "mail_of ?dp c = (if c = chat then q else mail_of dp c)" by (simp add: mail_of_def put_worker_def)
  have old: "mail_of dp chat = p # q" using assms(2,3) by (simp add: mail_of_def)
  have ok: "\<And>c. length (mail_of dp c) \<le> cap" "\<And>c q. q \<in> set (mail_of dp c) \<Longrightarrow> in_chat q = c"
    "\<And>c. subseq (chat_only c (dp_started dp) @ mail_of dp c) (chat_only c (dp_accepted dp))"
    using assms(1) by (auto simp: mail_ok_def)
  show "length (mail_of ?dp c) \<le> cap" using ok(1) [of c] old by (auto simp: mail)
  show "in_chat r = c" if "r \<in> set (mail_of ?dp c)" for r
    using that ok(2) [of r c] old by (auto simp: mail split: if_splits)
  show "subseq (chat_only c (dp_started ?dp) @ mail_of ?dp c) (chat_only c (dp_accepted ?dp))"
    using ok(3) [of c] ok(2) [of p chat] old unfolding mail by (auto simp: chat_only_def put_worker_def)
qed

lemma mail_ok_step: "mail_ok cap dp \<Longrightarrow> 0 < cap \<Longrightarrow> mail_ok cap (dispatch_step plugin cfg cap e dp)"
proof (cases e)
  case (TimerFires tm)
  assume a: "mail_ok cap dp" "0 < cap"
  have "mail_ok cap (dp\<lparr>dp_assembler := ax\<rparr>)" for ax using a(1) mail_ok_cong [of "dp\<lparr>dp_assembler := ax\<rparr>" dp] by simp
  with a(2) show ?thesis by (simp add: TimerFires handle_timeout_def mail_ok_ingest split: prod.split)
next
  case ReadsExit
  assume a: "mail_ok cap dp" "0 < cap"
  show ?thesis
    by (rule mail_ok_shrink [OF a(1)]) (auto simp: ReadsExit reap_def mail_of_def split: list.splits)
next
  case (WorkerTakes chat)
  assume a: "mail_ok cap dp"
  show ?thesis
  proof (cases "dp_workers dp chat")
    case (Some w)
    with a mail_ok_takes [OF a Some] show ?thesis by (cases "cw_mail w") (simp_all add: WorkerTakes)
  qed (use a in \<open>simp add: WorkerTakes\<close>)
next
  case (WorkerFinishes chat)
  assume a: "mail_ok cap dp"
  show ?thesis
  proof (cases "dp_workers dp chat")
    case (Some w)
    have "mail_ok cap (put_worker dp chat (w\<lparr>cw_busy := None, cw_notified := False\<rparr>))"
      by (rule mail_ok_worker [OF a Some]) simp
    with a Some show ?thesis by (simp add: WorkerFinishes)
  qed (use a in \<open>simp add: WorkerFinishes\<close>)
next
  case (IdleFires chat)
  assume a: "mail_ok cap dp"
  show ?thesis
  proof (cases "dp_workers dp chat")
    case (Some w)
    have "mail_ok cap (put_worker dp chat (w\<lparr>cw_phase := Exiting\<rparr>))"
      by (rule mail_ok_worker [OF a Some]) simp
    then have "mail_ok cap ((put_worker dp chat (w\<lparr>cw_phase := Exiting\<rparr>))\<lparr>dp_exits := x\<rparr>)" for x
      using mail_ok_cong [of "(put_worker dp chat (w\<lparr>cw_phase := Exiting\<rparr>))\<lparr>dp_exits := x\<rparr>"] by simp
    with a Some show ?thesis by (simp add: IdleFires)
  qed (use a in \<open>simp add: IdleFires\<close>)
next
  case (WorkerCloses chat)
  assume a: "mail_ok cap dp"
  show ?thesis
  proof (cases "dp_workers dp chat")
    case (Some w)
    have "mail_ok cap (put_worker dp chat (w\<lparr>cw_phase := Closed, cw_mail := []\<rparr>))"
      by (rule mail_ok_worker [OF a Some]) simp
    with a Some show ?thesis by (simp add: WorkerCloses)
  qed (use a in \<open>simp add: WorkerCloses\<close>)
qed (simp add: mail_ok_message)

text \<open>C15: Mailboxes are bounded and first in, first out.  Whatever arrives, times out, exits and is reaped, no
  chat ever has more messages waiting than its capacity, and the messages of a chat are started in the
  order in which they were accepted, one chat not touching another.\<close>

theorem mailboxes_bounded_fifo:
  assumes "0 < cap" and "dp = dispatch_run plugin cfg cap evs (new_dispatcher db tq)"
  shows "length (mail_of dp chat) \<le> cap
    \<and> subseq (chat_only chat (dp_started dp)) (chat_only chat (dp_accepted dp))"
proof -
  have "mail_ok cap (foldl (\<lambda>dp e. dispatch_step plugin cfg cap e dp) d evs)" if "mail_ok cap d" for d
    using that by (induction evs arbitrary: d) (simp_all add: mail_ok_step [OF _ assms(1)])
  moreover have "mail_ok cap (new_dispatcher db tq)" by (simp add: mail_ok_def new_dispatcher_def mail_of_def chat_only_def)
  ultimately have ok: "mail_ok cap dp" unfolding assms(2) dispatch_run_def by blast
  then have "subseq (chat_only chat (dp_started dp) @ mail_of dp chat) (chat_only chat (dp_accepted dp))"
    and len: "length (mail_of dp chat) \<le> cap" by (auto simp: mail_ok_def)
  from subseq_left [OF this(1)] len show ?thesis by blast
qed

text \<open>A worker that was respawned is reaped at once.  When a message finds the mailbox of an idle worker
  closed, a fresh worker gets it; the announcement of the old exit, which is in the queue by then, removes
  the fresh worker: the message is in no mailbox and was never started.\<close>

theorem respawned_worker_reaped:
  assumes "dp_workers dp (in_chat p) = Some w" "cw_phase w = Closed" "dp_exits dp = in_chat p # cs" "p \<notin> set (dp_started dp)"
  shows "let dp1 = route_to_chat_worker cap dp p; dp2 = reap dp1
    in dp_accepted dp1 = dp_accepted dp @ [p] \<and> mail_of dp1 (in_chat p) = [p]
       \<and> dp_workers dp2 (in_chat p) = None \<and> p \<notin> set (dp_started dp2)"
  using assms
  by (simp add: route_to_chat_worker_def accept_def put_worker_def fresh_worker_def mail_of_def reap_def Let_def)

text \<open>An answer is not recorded as seen.  The message that answers a text question never reaches the
  deduplication: when the platform delivers it again, it passes as new and starts a turn.\<close>

theorem answer_not_deduplicated:
  assumes "tq_pending (dp_questions dp) (plugin, in_chat p) = Some (qs, v)" "in_message p \<noteq> []"
    and "\<not> list_ex (\<lambda>r. i_plugin r = plugin \<and> i_message_id r = in_message p) (inbound_dedup (dp_db dp))"
    and "\<not> ac_enabled cfg" "dp_workers dp (in_chat p) = None" "0 < cap"
  shows "let dp1 = handle_message plugin cfg cap now stamp dp p;
             dp2 = handle_message plugin cfg cap now2 stamp2 dp1 p
    in dp_accepted dp1 = dp_accepted dp \<and> dp_db dp1 = dp_db dp \<and> dp_accepted dp2 = dp_accepted dp @ [p]"
proof -
  let ?key = "(plugin, in_chat p)"
  obtain tq where i: "tq_intercept (dp_questions dp) ?key (clean_user_input (in_content p))
      (user_key_for (in_chat p) (in_user p)) stamp = (True, tq)" "tq_pending tq ?key = None"
    using assms(1) by (auto simp: tq_intercept_def tq_take_def split: if_splits)
  then have 1: "handle_message plugin cfg cap now stamp dp p = dp\<lparr>dp_questions := tq\<rparr>" by (simp add: handle_message_def)
  have 2: "tq_intercept tq ?key raw user s = (False, tq\<lparr>tq_pending := (tq_pending tq)(?key := None)\<rparr>)" for raw user s
    using i(2) by (simp add: tq_intercept_def tq_take_def)
  show ?thesis
    unfolding Let_def 1 using assms(2-6)
    by (simp add: handle_message_def 2 prelude_def inbound_dedup_check_and_record_def route_to_chat_worker_def
        fresh_worker_def accept_def put_worker_def)
qed

definition plain_message :: "string \<Rightarrow> inbound" where
  "plain_message i = \<lparr>in_tenant = ''a'', in_chat = ''c'', in_user = ''u'', in_message = i, in_content = [],
     in_attachments = [], in_reply_to = None, in_received_at = []\<rparr>"

definition direct :: assembly_config where
  "direct = default_assembly\<lparr>ac_enabled := False\<rparr>"

theorem mailboxes_bounded_fifo_witness:
  "length (mail_of (dispatch_run ''lark'' direct 8 [Message 0 [] (plain_message ''m'')]
     (new_dispatcher (empty_db :: database) no_text_questions)) ''c'') \<le> 8"
  using mailboxes_bounded_fifo [of 8 _ "''lark''" direct "[Message 0 [] (plain_message ''m'')]"] by simp

text \<open>The state in which a worker has announced its exit and closed.\<close>

definition idle_events :: "dispatch_event list" where
  "idle_events = [Message 0 [] (plain_message ''m1''), WorkerTakes ''c'', WorkerFinishes ''c'', IdleFires ''c'', WorkerCloses ''c'']"

lemma idle_run:
  "\<exists>dp w. dispatch_run ''lark'' direct 8 idle_events (new_dispatcher empty_db no_text_questions) = dp
    \<and> dp_workers dp ''c'' = Some w \<and> cw_phase w = Closed \<and> dp_exits dp = [''c''] \<and> dp_started dp = [plain_message ''m1'']"
  by (simp add: dispatch_run_def idle_events_def handle_message_def tq_intercept_def tq_take_def no_text_questions_def
      new_dispatcher_def prelude_def inbound_dedup_check_and_record_def plain_message_def direct_def empty_db_def
      route_to_chat_worker_def fresh_worker_def accept_def put_worker_def)

theorem respawned_worker_reaped_witness:
  "let dp = dispatch_run ''lark'' direct 8 idle_events (new_dispatcher empty_db no_text_questions);
       dp2 = reap (route_to_chat_worker 8 dp (plain_message ''m2''))
   in dp_workers dp2 ''c'' = None \<and> plain_message ''m2'' \<notin> set (dp_started dp2)"
proof -
  obtain dp w where dp: "dispatch_run ''lark'' direct 8 idle_events (new_dispatcher empty_db no_text_questions) = dp"
    and w: "dp_workers dp (in_chat (plain_message ''m2'')) = Some w" "cw_phase w = Closed"
      "dp_exits dp = in_chat (plain_message ''m2'') # []" and s: "dp_started dp = [plain_message ''m1'']"
    using idle_run by (auto simp: plain_message_def)
  have "plain_message ''m2'' \<notin> set (dp_started dp)" by (simp add: s plain_message_def)
  from respawned_worker_reaped [OF w this, of 8] show ?thesis
    unfolding dp by (simp add: Let_def plain_message_def)
qed

theorem answer_not_deduplicated_witness:
  "let dp = new_dispatcher empty_db (tq_register no_text_questions (''lark'', ''c'') [] 1);
       dp2 = handle_message ''lark'' direct 8 1 [] (handle_message ''lark'' direct 8 0 [] dp (plain_message ''m'')) (plain_message ''m'')
   in dp_accepted dp2 = [plain_message ''m'']"
proof -
  let ?dp = "new_dispatcher empty_db (tq_register no_text_questions (''lark'', ''c'') [] 1)"
  have "tq_pending (dp_questions ?dp) (''lark'', in_chat (plain_message ''m'')) = Some ([], 1)"
    by (simp add: new_dispatcher_def tq_register_def plain_message_def)
  from answer_not_deduplicated [OF this, of direct 8 0 "[]" 1 "[]"] show ?thesis
    by (simp add: Let_def new_dispatcher_def empty_db_def direct_def) (simp add: plain_message_def)
qed

definition file_message :: "string \<Rightarrow> string \<Rightarrow> inbound" where
  "file_message i a = (plain_message i)\<lparr>in_attachments := [\<lparr>at_id = a, at_filename = a, at_mime = [], at_size = 0\<rparr>], in_received_at := i\<rparr>"

lemma clean_empty: "clean_user_input [] = []"
  by (simp add: clean_user_input_def trim_def trim_start_def trim_end_def strip_front_Nil)

lemma file_fragment: "fragment (''c'', ''u'', None) (file_message i a)"
proof -
  have "clean_user_input (in_content (file_message i a)) = []"
    by (simp add: file_message_def plain_message_def clean_empty)
  moreover have "\<not> is_cancel_intent []"
    by (simp add: is_cancel_intent_def trim_def trim_start_def trim_end_def strip_front_Nil cancel_words_def utf8_def)
  ultimately show ?thesis
    by (simp add: fragment_def is_command_like_def parse_slash_command_def)
      (simp add: file_message_def plain_message_def assembly_key_of_def user_key_for_def)
qed

theorem burst_becomes_one_turn_witness:
  "\<exists>r. fst (on_timeout (ingest_all default_assembly empty_assembler [(0, file_message ''m'' ''x''), (500, file_message ''n'' ''y'')])
      \<lparr>tm_key = (''c'', ''u'', None), tm_generation = 2, tm_at = 8500\<rparr>) = Ready r
    \<and> map at_id (in_attachments r) = [''x'', ''y''] \<and> in_received_at r = ''m''"
proof -
  let ?ps = "[(0, file_message ''m'' ''x''), (500, file_message ''n'' ''y'')]"
  have a: "ac_enabled default_assembly" "map_of (ax_pending empty_assembler) (''c'', ''u'', None) = None" "?ps \<noteq> []"
    "list_all (\<lambda>(_, p). fragment (''c'', ''u'', None) p) ?ps" "length ?ps < 2 ^ 64" "0 < length ?ps"
    by (simp_all add: default_assembly_def empty_assembler_def file_fragment)
  from burst_becomes_one_turn [OF a(1-5) refl a(6), of 8500] obtain r where
    "fst (on_timeout (ingest_all default_assembly empty_assembler ?ps)
      \<lparr>tm_key = (''c'', ''u'', None), tm_generation = 2, tm_at = 8500\<rparr>) = Ready r"
    "in_attachments r = first_by at_id (concat (map (in_attachments \<circ> snd) ?ps))"
    "in_received_at r = first_nonempty (map (in_received_at \<circ> snd) ?ps)"
    by (auto simp: numeral_2_eq_2)
  then show ?thesis by (simp add: file_message_def)
qed

theorem no_burst_waits_forever_witness:
  "\<exists>pi. map_of (ax_pending (asm_run default_assembly [Ingest 7 (file_message ''m'' ''x'')])) (''c'', ''u'', None) = Some pi
    \<and> (\<exists>tm \<in> set (ax_timers (asm_run default_assembly [Ingest 7 (file_message ''m'' ''x'')])).
        fst (on_timeout (asm_run default_assembly [Ingest 7 (file_message ''m'' ''x'')]) tm) = Ready (into_params pi))"
proof -
  let ?evs = "[Ingest 7 (file_message ''m'' ''x'')]"
  have e: "ac_enabled default_assembly" by (simp add: default_assembly_def)
  obtain pi where pi: "map_of (ax_pending (asm_run default_assembly ?evs)) (''c'', ''u'', None) = Some pi"
    by (simp add: asm_run_def ingest_fragment [OF e file_fragment] Let_def)
  have "sorted (7 # event_times ?evs)" by simp
  from no_burst_waits_forever [OF this pi] pi show ?thesis by blast
qed

theorem stale_timer_flushes_next_burst_witness:
  "\<exists>ax tm r. tm \<in> set (ax_timers ax) \<and> tm_at tm = 8000 \<and> fst (on_timeout ax tm) = Ready r \<and> in_received_at r = ''o''
    \<and> \<lparr>tm_key = (''c'', ''u'', None), tm_generation = 1, tm_at = 11000\<rparr> \<in> set (ax_timers ax)"
proof -
  have e: "ac_enabled default_assembly" "map_of (ax_pending empty_assembler) (''c'', ''u'', None) = None"
    by (simp_all add: default_assembly_def empty_assembler_def)
  have d: "t + deadline default_assembly t (bump_generation (new_pending t (file_message i a))) = t + 8000" for t i a
  proof -
    have "texts_of [file_message i a] = []"
      by (simp add: texts_of_def List.map_filter_def meaningful_user_text_def file_message_def plain_message_def
          clean_empty trim_def trim_start_def trim_end_def strip_front_Nil Let_def)
    then have "pi_text_parts (bump_generation (new_pending t (file_message i a))) = []"
      "pi_attachments (bump_generation (new_pending t (file_message i a))) \<noteq> []"
      by (simp_all add: bump_generation_def new_pending_def file_message_def add_new_def)
    moreover have "pi_first_seen (bump_generation (new_pending t (file_message i a))) = t"
      by (simp add: bump_generation_def new_pending_def merge_def)
    ultimately show ?thesis by (simp add: deadline_def default_assembly_def)
  qed
  have r: "in_received_at (into_params (bump_generation (new_pending 3000 (file_message ''o'' ''z'')))) = ''o''"
    by (simp add: into_params_def bump_generation_def new_pending_def file_message_def)
  show ?thesis
    using stale_timer_flushes_next_burst [OF e file_fragment file_fragment file_fragment,
        of 0 "''m''" "''x''" 500 "''n''" "''y''" 8500 3000 "''o''" "''z''"] r
    unfolding Let_def d by fastforce
qed

subsection \<open>The text of the turn\<close>

record staged_attachment =
  sa_filename :: string
  sa_workspace_rel :: string
  sa_bytes :: nat
  sa_mime :: string
  sa_preview :: "string option"

definition ATTACHMENT_PREVIEW_BYTES :: nat where "ATTACHMENT_PREVIEW_BYTES = 12 * 1024"
definition ATTACHMENTS_BLOCK_CHARS :: nat where "ATTACHMENTS_BLOCK_CHARS = 32 * 1024"

fun escape_char :: "char \<Rightarrow> string" where
  "escape_char c =
     (if c = CHR ''&'' then ''&amp;''
      else if c = CHR ''<'' then ''&lt;''
      else if c = CHR ''>'' then ''&gt;''
      else if c = CHR 0x22 then ''&quot;''
      else if c = CHR 0x27 then ''&#39;''
      else [c])"

definition escape_fence_text :: "string \<Rightarrow> string" where
  "escape_fence_text s = concat (map escape_char s)"

definition preview_unavailable_note :: "string \<Rightarrow> string" where
  "preview_unavailable_note filename =
     (let ext = extension (map ascii_lower filename)
      in if ext \<in> {''docx'', ''docm'', ''xlsx'', ''xlsm'', ''pptx'', ''pptm''} then
           ''Office format; run the office-extract skill on the staged path to get text.''
         else if ext = ''pdf'' then
           ''PDF preview unavailable on this build; use the Read tool on the staged path.''
         else if ext \<in> {''png'', ''jpg'', ''jpeg'', ''gif'', ''webp'', ''bmp'', ''svg''} then
           ''Image; use the Read tool on the staged path to view it.''
         else ''Binary content; use the Read tool on the staged path if you need its bytes.'')"

definition bq :: char where "bq = CHR 0x60"
definition double_quote :: char where "double_quote = CHR 0x22"

definition attachment_entry :: "staged_attachment \<Rightarrow> string" where
  "attachment_entry a =
     ''- '' @ [bq] @ escape_fence_text (sa_filename a) @ [bq] @ '' (''
     @ (if sa_mime a = [] then ''application/octet-stream'' else escape_fence_text (sa_mime a)) @ '', ''
     @ show_nat (sa_bytes a) @ '' bytes) at '' @ [bq] @ escape_fence_text (sa_workspace_rel a) @ [bq] @ [newline]
     @ (case sa_preview a of
          Some t \<Rightarrow>
            if t \<noteq> [] then
              ''  <preview>'' @ [newline]
              @ concat (map (\<lambda>line. ''  '' @ escape_fence_text line @ [newline]) (text_lines t))
              @ ''  </preview>'' @ [newline]
            else ''  <note>'' @ preview_unavailable_note (sa_filename a) @ ''</note>'' @ [newline]
        | None \<Rightarrow> ''  <note>'' @ preview_unavailable_note (sa_filename a) @ ''</note>'' @ [newline])"

definition ATTACHMENTS_HEAD :: string where
  "ATTACHMENTS_HEAD =
     ''<attachments do-not-echo='' @ [double_quote] @ ''true'' @ [double_quote] @ ''>'' @ [newline]
     @ ''  <note>These files are already downloaded to your local workspace at the paths ''
     @ ''below. Read them directly with your tools (Read / Bash / office-extract). They are ''
     @ ''local files, not links '' @ em_dash @ '' no login or external access is needed.</note>'' @ [newline]"

text \<open>The entries that fit the budget, in order, up to the first that does not.\<close>

fun fitting_entries :: "nat \<Rightarrow> staged_attachment list \<Rightarrow> string list" where
  "fitting_entries budget [] = []"
| "fitting_entries budget (a # as) =
     (if budget < char_count (attachment_entry a) then []
      else attachment_entry a # fitting_entries (budget - char_count (attachment_entry a)) as)"

definition attachments_block :: "staged_attachment list \<Rightarrow> string" where
  "attachments_block staged =
     (let included = fitting_entries ATTACHMENTS_BLOCK_CHARS staged;
          more = length staged - length included
      in ATTACHMENTS_HEAD @ concat included
         @ (if length included < length staged
            then ''['' @ show_nat more @ '' more attachment'' @ (if more = 1 then [] else ''s'') @ '' not previewed]'' @ [newline]
            else [])
         @ ''</attachments>'')"

definition prepend_turn_timestamp :: "(string \<Rightarrow> string option) \<Rightarrow> string \<Rightarrow> string \<Rightarrow> string" where
  "prepend_turn_timestamp format_stamp received_at body =
     (case format_stamp received_at of
        Some ts \<Rightarrow> if body = [] then ts else ts @ '' '' @ body
      | None \<Rightarrow> body)"

definition compose_user_text :: "(string \<Rightarrow> string option) \<Rightarrow> inbound \<Rightarrow> staged_attachment list \<Rightarrow> string" where
  "compose_user_text format_stamp p staged =
     (let body = clean_user_input (in_content p)
      in if staged = [] then prepend_turn_timestamp format_stamp (in_received_at p) body
         else prepend_turn_timestamp format_stamp (in_received_at p)
                (if body = [] then attachments_block staged
                 else body @ [newline, newline] @ attachments_block staged))"

definition cap_preview :: "string \<Rightarrow> string" where
  "cap_preview s =
     (if length s \<le> ATTACHMENT_PREVIEW_BYTES then s
      else take (floor_char_boundary s ATTACHMENT_PREVIEW_BYTES) s @ [newline] @ ellipsis
           @ ''[truncated at '' @ show_nat ATTACHMENT_PREVIEW_BYTES @ '' bytes]'')"

lemma escape_no_tag: "count_list (escape_fence_text s) CHR ''<'' = 0"
  by (induction s) (simp_all add: escape_fence_text_def)

lemma show_nat_no_tag: "count_list (show_nat n) CHR ''<'' = 0"
proof -
  have "CHR ''<'' \<notin> set (show_nat n)" using show_nat_digits [of n] by (auto simp: list_all_iff is_digit_def)
  then show ?thesis by (simp add: count_list_0_iff)
qed

lemma concat_no_tag: "(\<And>x. x \<in> set xs \<Longrightarrow> count_list (f x) c = 0) \<Longrightarrow> count_list (concat (map f xs)) c = 0"
  by (induction xs) simp_all

lemma note_no_tag: "count_list (preview_unavailable_note f) CHR ''<'' = 0"
  by (simp add: preview_unavailable_note_def Let_def)

lemma fixed_no_tag: "count_list em_dash CHR ''<'' = 0" "newline \<noteq> CHR ''<''" "bq \<noteq> CHR ''<''" "double_quote \<noteq> CHR ''<''"
  by code_simp+

lemma entry_tags: "count_list (attachment_entry a) CHR ''<'' = 2"
  using concat_no_tag [of _ "\<lambda>line. ''  '' @ escape_fence_text line @ [newline]" "CHR ''<''"]
  by (auto simp: attachment_entry_def escape_no_tag show_nat_no_tag note_no_tag fixed_no_tag split: option.splits)

lemma head_tags: "count_list ATTACHMENTS_HEAD CHR ''<'' = 3"
  by (simp add: ATTACHMENTS_HEAD_def fixed_no_tag)

lemma entries_tags: "count_list (concat (fitting_entries b as)) CHR ''<'' = 2 * length (fitting_entries b as)"
  by (induction as arbitrary: b) (simp_all add: entry_tags)

text \<open>C39: No file breaks out of the attachment fence.  Whatever the names, paths, types and contents of the
  files, the block holds the tags the server writes and no others: the three of its head, two per entry
  and the closing one at its end.\<close>

theorem attachment_fence_unbreakable:
  "count_list (attachments_block staged) CHR ''<'' = 4 + 2 * length (fitting_entries ATTACHMENTS_BLOCK_CHARS staged)
   \<and> suffix ''</attachments>'' (attachments_block staged)"
proof -
  have "suffix ''</attachments>'' (attachments_block staged)"
    by (simp add: attachments_block_def Let_def suffix_def)
  moreover have "count_list (attachments_block staged) CHR ''<'' = 4 + 2 * length (fitting_entries ATTACHMENTS_BLOCK_CHARS staged)"
    by (simp add: attachments_block_def Let_def head_tags entries_tags show_nat_no_tag fixed_no_tag)
  ultimately show ?thesis by blast
qed

subsection \<open>Routing\<close>

definition resolve_project_id :: "(string \<Rightarrow> string) \<Rightarrow> database \<Rightarrow> string \<Rightarrow> string \<Rightarrow> project_id" where
  "resolve_project_id auto_from_chat db chat user_key =
     (case find_binding db chat user_key of Some b \<Rightarrow> b_project b | None \<Rightarrow> auto_from_chat chat)"

definition thread_id_for :: "string \<Rightarrow> project_id \<Rightarrow> thread_id" where
  "thread_id_for chat project = chat @ ''::'' @ project"

text \<open>What a recall aborts when no pending burst holds the message: the turn of this thread and message.\<close>

definition recall_target :: "(string \<Rightarrow> string) \<Rightarrow> database \<Rightarrow> recalled \<Rightarrow> thread_id \<times> string" where
  "recall_target auto_from_chat db r =
     (thread_id_for (rc_chat r) (resolve_project_id auto_from_chat db (rc_chat r) (user_key_for (rc_chat r) (rc_user r))),
      rc_message r)"

text \<open>The tenant, project and thread of the turn a message starts.\<close>

definition turn_route :: "(string \<Rightarrow> string) \<Rightarrow> tenant_id \<Rightarrow> database \<Rightarrow> inbound \<Rightarrow> tenant_id \<times> project_id \<times> thread_id" where
  "turn_route auto_from_chat default_tenant db p =
     (let project = resolve_project_id auto_from_chat db (in_chat p) (user_key_for (in_chat p) (in_user p))
      in (if in_tenant p = [] then default_tenant else in_tenant p, project, thread_id_for (in_chat p) project))"

text \<open>Recalling one fragment of a burst misses its turn.  The merged message carries the id of the last
  fragment with text; a recall of any other fragment after the flush names a different turn, although the
  assembler knew that fragment's id while the burst was pending.\<close>

theorem recalled_fragment_misses_turn:
  assumes "meaningful_user_text p2 \<noteq> None" "in_message p2 \<noteq> []" "in_message p1 \<noteq> in_message p2"
    and "rc_message r = in_message p1"
  shows "contains_message_id (merge (new_pending t p1) p2) (in_message p1) = (in_message p1 \<noteq> [])
    \<and> in_message (into_params (merge (new_pending t p1) p2)) = in_message p2
    \<and> snd (recall_target auto db r) \<noteq> in_message (into_params (merge (new_pending t p1) p2))"
proof -
  have "in_message (pi_base (merge (new_pending t p1) p2)) = in_message p2"
    using assms(1,2) by (simp add: merge_def merge_base_def Let_def)
  moreover have "in_message p1 \<noteq> [] \<Longrightarrow> in_message p1 \<in> set (pi_message_ids (merge (new_pending t p1) p2))"
    by (simp add: merge_def new_pending_def add_new_def)
  ultimately show ?thesis
    using assms(3,4) by (auto simp: contains_message_id_def into_params_def recall_target_def)
qed

definition spoken_message :: "string \<Rightarrow> inbound" where
  "spoken_message i = (plain_message i)\<lparr>in_content := ''1''\<rparr>"

theorem recalled_fragment_misses_turn_witness:
  "in_message (into_params (merge (new_pending 0 (file_message ''m'' ''x'')) (spoken_message ''n''))) = ''n''
   \<and> snd (recall_target (\<lambda>c. c) empty_db \<lparr>rc_chat = ''c'', rc_user = ''u'', rc_message = ''m''\<rparr>) \<noteq> ''n''"
proof -
  have t: "trim ''1'' = ''1''" by (rule trim_digits) (simp_all add: is_digit_def)
  have "meaningful_user_text (spoken_message ''n'') \<noteq> None"
    by (simp add: meaningful_user_text_def spoken_message_def clean_user_input_def t is_attachment_placeholder_def ascii_lower_def)
  moreover have "in_message (spoken_message ''n'') = ''n''" "in_message (file_message ''m'' ''x'') = ''m''"
    by (simp_all add: spoken_message_def file_message_def plain_message_def)
  moreover have "rc_message \<lparr>rc_chat = ''c'', rc_user = ''u'', rc_message = ''m''\<rparr> = ''m''" "''n'' \<noteq> ([]::string)" "''m'' \<noteq> (''n''::string)"
    by simp_all
  ultimately show ?thesis
    using recalled_fragment_misses_turn [of "spoken_message ''n''" "file_message ''m'' ''x''"
      "\<lparr>rc_chat = ''c'', rc_user = ''u'', rc_message = ''m''\<rparr>" 0 "\<lambda>c. c" empty_db]
    by metis
qed

end
