(* ===== verification/Protocol.thy ===== *)
theory Protocol
  imports Texts Content "HOL-Library.Monad_Syntax"
begin

text \<open>
  The wire protocol of \<open>crates/snaca-channel-protocol\<close>: the JSON-RPC envelope (\<open>jsonrpc.rs\<close>), the error codes
  (\<open>errors.rs\<close>), the newline-delimited frames (\<open>codec.rs\<close>), the manifest (\<open>manifest.rs\<close>) and the parameters
  the host reads (\<open>methods.rs\<close>).

  Documents are JSON values; the parser and the printer of JSON texts are parameters.  The derived readers follow
  serde: an object by field names, other keys ignored, or an array by the order of the fields; a field with a
  default may be missing, and an absent or null option is \<open>None\<close>.
\<close>

subsection \<open>Derived readers\<close>

definition as_fields :: "string list \<Rightarrow> json \<Rightarrow> (string \<rightharpoonup> json) option" where
  "as_fields names v =
     (case v of
        JObject kvs \<Rightarrow> Some (map_of kvs)
      | JArray vs \<Rightarrow> if length vs \<le> length names then Some (map_of (zip names vs)) else None
      | _ \<Rightarrow> None)"

definition string_at :: "(string \<rightharpoonup> json) \<Rightarrow> string \<Rightarrow> string option" where
  "string_at m k = (case m k of Some (JString s) \<Rightarrow> Some s | _ \<Rightarrow> None)"

definition opt_at :: "(json \<Rightarrow> 'a option) \<Rightarrow> (string \<rightharpoonup> json) \<Rightarrow> string \<Rightarrow> 'a option option" where
  "opt_at read m k =
     (case m k of None \<Rightarrow> Some None | Some JNull \<Rightarrow> Some None | Some v \<Rightarrow> map_option Some (read v))"

fun read_string :: "json \<Rightarrow> string option" where
  "read_string (JString s) = Some s"
| "read_string _ = None"

fun read_all :: "('a \<Rightarrow> 'b option) \<Rightarrow> 'a list \<Rightarrow> 'b list option" where
  "read_all read [] = Some []"
| "read_all read (v # vs) = do { x \<leftarrow> read v; xs \<leftarrow> read_all read vs; Some (x # xs) }"

definition list_at :: "(json \<Rightarrow> 'a option) \<Rightarrow> (string \<rightharpoonup> json) \<Rightarrow> string \<Rightarrow> 'a list option" where
  "list_at read m k = (case m k of Some (JArray vs) \<Rightarrow> read_all read vs | _ \<Rightarrow> None)"

definition defaulted :: "'a \<Rightarrow> ((string \<rightharpoonup> json) \<Rightarrow> string \<Rightarrow> 'a option) \<Rightarrow> (string \<rightharpoonup> json) \<Rightarrow> string \<Rightarrow> 'a option" where
  "defaulted d read m k = (if m k = None then Some d else read m k)"

definition bool_at :: "(string \<rightharpoonup> json) \<Rightarrow> string \<Rightarrow> bool option" where
  "bool_at m k = (case m k of Some (JBool b) \<Rightarrow> Some b | _ \<Rightarrow> None)"

text \<open>An integer literal within bounds; \<open>-0\<close> is a floating-point number to \<open>serde_json\<close>.\<close>

definition json_int :: "int \<Rightarrow> int \<Rightarrow> string \<Rightarrow> int option" where
  "json_int lo hi s =
     (let neg = (s \<noteq> [] \<and> hd s = CHR ''-'');
          d = (if neg then tl s else s);
          n = (if neg then - int (digits_value d) else int (digits_value d))
      in if d \<noteq> [] \<and> list_all is_digit d \<and> (neg \<longrightarrow> n \<noteq> 0) \<and> lo \<le> n \<and> n \<le> hi then Some n else None)"

definition int_at :: "int \<Rightarrow> int \<Rightarrow> (string \<rightharpoonup> json) \<Rightarrow> string \<Rightarrow> int option" where
  "int_at lo hi m k = (case m k of Some (JNumber s) \<Rightarrow> json_int lo hi s | _ \<Rightarrow> None)"

abbreviation i32_at :: "(string \<rightharpoonup> json) \<Rightarrow> string \<Rightarrow> int option" where
  "i32_at \<equiv> int_at (- (2 ^ 31)) (2 ^ 31 - 1)"

abbreviation u64_at :: "(string \<rightharpoonup> json) \<Rightarrow> string \<Rightarrow> int option" where
  "u64_at \<equiv> int_at 0 (2 ^ 64 - 1)"

subsection \<open>The envelope\<close>

datatype request_id = IdNumber int | IdString string | IdNull

record rpc_request =
  rq_jsonrpc :: string
  rq_id :: request_id
  rq_method :: string
  rq_params :: "json option"

record rpc_error =
  re_code :: int
  re_message :: string
  re_data :: "json option"

record rpc_response =
  rs_jsonrpc :: string
  rs_id :: request_id
  rs_result :: "json option"
  rs_error :: "rpc_error option"

record rpc_notification =
  nt_jsonrpc :: string
  nt_method :: string
  nt_params :: "json option"

datatype rpc_message =
    RequestMsg rpc_request
  | ResponseMsg rpc_response
  | NotificationMsg rpc_notification

definition new_rpc_request :: "request_id \<Rightarrow> string \<Rightarrow> json option \<Rightarrow> rpc_request" where
  "new_rpc_request i m ps = \<lparr>rq_jsonrpc = ''2.0'', rq_id = i, rq_method = m, rq_params = ps\<rparr>"

definition ok_response :: "request_id \<Rightarrow> json \<Rightarrow> rpc_response" where
  "ok_response i v = \<lparr>rs_jsonrpc = ''2.0'', rs_id = i, rs_result = Some v, rs_error = None\<rparr>"

definition new_error :: "int \<Rightarrow> string \<Rightarrow> rpc_error" where
  "new_error code msg = \<lparr>re_code = code, re_message = msg, re_data = None\<rparr>"

definition err_response :: "request_id \<Rightarrow> rpc_error \<Rightarrow> rpc_response" where
  "err_response i e = \<lparr>rs_jsonrpc = ''2.0'', rs_id = i, rs_result = None, rs_error = Some e\<rparr>"

definition new_notification :: "string \<Rightarrow> json option \<Rightarrow> rpc_notification" where
  "new_notification m ps = \<lparr>nt_jsonrpc = ''2.0'', nt_method = m, nt_params = ps\<rparr>"

fun read_id :: "json \<Rightarrow> request_id option" where
  "read_id (JNumber s) = map_option IdNumber (json_int (- (2 ^ 63)) (2 ^ 63 - 1) s)"
| "read_id (JString s) = Some (IdString s)"
| "read_id JNull = Some IdNull"
| "read_id _ = None"

definition read_request :: "json \<Rightarrow> rpc_request option" where
  "read_request v = do {
     m \<leftarrow> as_fields [''jsonrpc'', ''id'', ''method'', ''params''] v;
     j \<leftarrow> string_at m ''jsonrpc'';
     i \<leftarrow> Option.bind (m ''id'') read_id;
     meth \<leftarrow> string_at m ''method'';
     ps \<leftarrow> opt_at Some m ''params'';
     Some \<lparr>rq_jsonrpc = j, rq_id = i, rq_method = meth, rq_params = ps\<rparr> }"

definition read_error :: "json \<Rightarrow> rpc_error option" where
  "read_error v = do {
     m \<leftarrow> as_fields [''code'', ''message'', ''data''] v;
     code \<leftarrow> i32_at m ''code'';
     msg \<leftarrow> string_at m ''message'';
     dat \<leftarrow> opt_at Some m ''data'';
     Some \<lparr>re_code = code, re_message = msg, re_data = dat\<rparr> }"

definition read_response :: "json \<Rightarrow> rpc_response option" where
  "read_response v = do {
     m \<leftarrow> as_fields [''jsonrpc'', ''id'', ''result'', ''error''] v;
     j \<leftarrow> string_at m ''jsonrpc'';
     i \<leftarrow> Option.bind (m ''id'') read_id;
     r \<leftarrow> opt_at Some m ''result'';
     e \<leftarrow> opt_at read_error m ''error'';
     Some \<lparr>rs_jsonrpc = j, rs_id = i, rs_result = r, rs_error = e\<rparr> }"

definition read_notification :: "json \<Rightarrow> rpc_notification option" where
  "read_notification v = do {
     m \<leftarrow> as_fields [''jsonrpc'', ''method'', ''params''] v;
     j \<leftarrow> string_at m ''jsonrpc'';
     meth \<leftarrow> string_at m ''method'';
     ps \<leftarrow> opt_at Some m ''params'';
     Some \<lparr>nt_jsonrpc = j, nt_method = meth, nt_params = ps\<rparr> }"

text \<open>The untagged union: the first reader that accepts.\<close>

definition read_message :: "json \<Rightarrow> rpc_message option" where
  "read_message v =
     (case read_request v of
        Some r \<Rightarrow> Some (RequestMsg r)
      | None \<Rightarrow>
          (case read_response v of
             Some r \<Rightarrow> Some (ResponseMsg r)
           | None \<Rightarrow> map_option NotificationMsg (read_notification v)))"

definition opt_member :: "string \<Rightarrow> json option \<Rightarrow> (string \<times> json) list" where
  "opt_member k v = (case v of None \<Rightarrow> [] | Some x \<Rightarrow> [(k, x)])"

fun write_id :: "request_id \<Rightarrow> json" where
  "write_id (IdNumber n) = JNumber (show_int n)"
| "write_id (IdString s) = JString s"
| "write_id IdNull = JNull"

definition write_error :: "rpc_error \<Rightarrow> json" where
  "write_error e = JObject
     ([(''code'', JNumber (show_int (re_code e))), (''message'', JString (re_message e))] @ opt_member ''data'' (re_data e))"

fun write_message :: "rpc_message \<Rightarrow> json" where
  "write_message (RequestMsg r) = JObject
     ([(''jsonrpc'', JString (rq_jsonrpc r)), (''id'', write_id (rq_id r)), (''method'', JString (rq_method r))]
      @ opt_member ''params'' (rq_params r))"
| "write_message (ResponseMsg r) = JObject
     ([(''jsonrpc'', JString (rs_jsonrpc r)), (''id'', write_id (rs_id r))]
      @ opt_member ''result'' (rs_result r) @ opt_member ''error'' (map_option write_error (rs_error r)))"
| "write_message (NotificationMsg n) = JObject
     ([(''jsonrpc'', JString (nt_jsonrpc n)), (''method'', JString (nt_method n))] @ opt_member ''params'' (nt_params n))"

subsection \<open>Error codes\<close>

datatype error_code =
    ParseErrorCode | InvalidRequestCode | MethodNotFoundCode | InvalidParamsCode | InternalErrorCode
  | AuthFailedCode | RateLimitedCode | PlatformErrorCode | NotInitializedCode | OtherCode int

fun code_as_i32 :: "error_code \<Rightarrow> int" where
  "code_as_i32 ParseErrorCode = -32700"
| "code_as_i32 InvalidRequestCode = -32600"
| "code_as_i32 MethodNotFoundCode = -32601"
| "code_as_i32 InvalidParamsCode = -32602"
| "code_as_i32 InternalErrorCode = -32603"
| "code_as_i32 AuthFailedCode = -32000"
| "code_as_i32 RateLimitedCode = -32001"
| "code_as_i32 PlatformErrorCode = -32002"
| "code_as_i32 NotInitializedCode = -32003"
| "code_as_i32 (OtherCode c) = c"

fun code_symbol :: "error_code \<Rightarrow> string" where
  "code_symbol ParseErrorCode = ''parse_error''"
| "code_symbol InvalidRequestCode = ''invalid_request''"
| "code_symbol MethodNotFoundCode = ''method_not_found''"
| "code_symbol InvalidParamsCode = ''invalid_params''"
| "code_symbol InternalErrorCode = ''internal_error''"
| "code_symbol AuthFailedCode = ''auth_failed''"
| "code_symbol RateLimitedCode = ''rate_limited''"
| "code_symbol PlatformErrorCode = ''platform_error''"
| "code_symbol NotInitializedCode = ''not_initialized''"
| "code_symbol (OtherCode c) = ''other''"

definition code_of_i32 :: "int \<Rightarrow> error_code" where
  "code_of_i32 c =
     (if c = -32700 then ParseErrorCode
      else if c = -32600 then InvalidRequestCode
      else if c = -32601 then MethodNotFoundCode
      else if c = -32602 then InvalidParamsCode
      else if c = -32603 then InternalErrorCode
      else if c = -32000 then AuthFailedCode
      else if c = -32001 then RateLimitedCode
      else if c = -32002 then PlatformErrorCode
      else if c = -32003 then NotInitializedCode
      else OtherCode c)"

lemma code_of_as [simp]: "code_as_i32 (code_of_i32 c) = c"
  by (simp add: code_of_i32_def)

subsection \<open>Frames\<close>

datatype codec_error = BadJson string | EmptyFrame | PayloadTooLarge nat nat

definition DEFAULT_MAX_FRAME_BYTES :: nat where "DEFAULT_MAX_FRAME_BYTES = 8 * 1024 * 1024"

definition ascii_ws :: "char \<Rightarrow> bool" where
  "ascii_ws c \<longleftrightarrow> c \<in> set [CHR '' '', CHR 0x09, CHR 0x0A, CHR 0x0C, CHR 0x0D]"

definition trim_ascii :: "string \<Rightarrow> string" where
  "trim_ascii s = rev (dropWhile ascii_ws (rev (dropWhile ascii_ws s)))"

text \<open>\<open>parse\<close> is the JSON parser, \<open>why\<close> the text of its error or of the reader's.\<close>

definition decode_with_limit ::
  "(string \<Rightarrow> json option) \<Rightarrow> (string \<Rightarrow> string) \<Rightarrow> nat \<Rightarrow> string \<Rightarrow> codec_error + rpc_message" where
  "decode_with_limit parse why limit line =
     (let t = trim_ascii line
      in if t = [] then Inl EmptyFrame
         else if limit < length t then Inl (PayloadTooLarge (length t) limit)
         else (case Option.bind (parse t) read_message of
                 None \<Rightarrow> Inl (BadJson (why t))
               | Some m \<Rightarrow> Inr m))"

definition decode :: "(string \<Rightarrow> json option) \<Rightarrow> (string \<Rightarrow> string) \<Rightarrow> string \<Rightarrow> codec_error + rpc_message" where
  "decode parse why line = decode_with_limit parse why DEFAULT_MAX_FRAME_BYTES line"

definition encode :: "(json \<Rightarrow> string) \<Rightarrow> rpc_message \<Rightarrow> string" where
  "encode print m = print (write_message m) @ [newline]"

subsection \<open>Reading what was written\<close>

definition in_i64 :: "int \<Rightarrow> bool" where
  "in_i64 n \<longleftrightarrow> - (2 ^ 63) \<le> n \<and> n \<le> 2 ^ 63 - 1"

definition in_i32 :: "int \<Rightarrow> bool" where
  "in_i32 n \<longleftrightarrow> - (2 ^ 31) \<le> n \<and> n \<le> 2 ^ 31 - 1"

fun id_ok :: "request_id \<Rightarrow> bool" where
  "id_ok (IdNumber n) = in_i64 n"
| "id_ok _ = True"

definition error_ok :: "rpc_error \<Rightarrow> bool" where
  "error_ok e \<longleftrightarrow> in_i32 (re_code e) \<and> re_data e \<noteq> Some JNull"

text \<open>The messages the envelope can carry: a null payload is the same as none.\<close>

fun message_ok :: "rpc_message \<Rightarrow> bool" where
  "message_ok (RequestMsg r) \<longleftrightarrow> id_ok (rq_id r) \<and> rq_params r \<noteq> Some JNull"
| "message_ok (ResponseMsg r) \<longleftrightarrow> id_ok (rs_id r) \<and> rs_result r \<noteq> Some JNull \<and> (\<forall>e \<in> set_option (rs_error r). error_ok e)"
| "message_ok (NotificationMsg n) \<longleftrightarrow> nt_params n \<noteq> Some JNull"

lemma json_int_show: "lo \<le> n \<Longrightarrow> n \<le> hi \<Longrightarrow> json_int lo hi (show_int n) = Some n"
proof -
  assume b: "lo \<le> n" "n \<le> hi"
  obtain c cs where s: "show_nat (nat n) = c # cs" "is_digit c" using show_nat_head by blast
  have "c \<noteq> CHR ''-''" using s(2) by (auto simp: is_digit_def)
  moreover have "list_all is_digit (c # cs)" using show_nat_digits [of "nat n"] s(1) by simp
  moreover have "digits_value (c # cs) = nat n" using digits_value_show [of "nat n"] s(1) by simp
  moreover have "show_nat k \<noteq> []" for k using show_nat_head [of k] by auto
  ultimately show ?thesis using b s by (auto simp: json_int_def show_int_def Let_def show_nat_digits)
qed

lemma json_int_bounds: "json_int lo hi s = Some n \<Longrightarrow> lo \<le> n \<and> n \<le> hi"
  by (auto simp: json_int_def Let_def split: if_splits)

lemma read_write_id [simp]: "id_ok i \<Longrightarrow> read_id (write_id i) = Some i"
  by (cases i) (simp_all add: json_int_show in_i64_def)

lemma opt_at_member [simp]:
  "v \<noteq> Some JNull \<Longrightarrow> opt_at Some (map_of (opt_member k v)) k = Some v"
  by (cases v; cases "the v") (auto simp: opt_at_def opt_member_def)

lemma opt_at_Some: "opt_at Some m k = Some v \<Longrightarrow> v \<noteq> Some JNull"
  by (auto simp: opt_at_def split: option.splits json.splits)

lemma read_write_error [simp]: "error_ok e \<Longrightarrow> read_error (write_error e) = Some e"
  by (cases "re_data e"; cases "the (re_data e)")
    (auto simp: read_error_def write_error_def as_fields_def int_at_def string_at_def opt_at_def opt_member_def
      error_ok_def in_i32_def json_int_show)

lemma write_error_object: "\<exists>kvs. write_error e = JObject kvs"
  by (simp add: write_error_def)

lemma read_request_write:
  "message_ok (RequestMsg r) \<Longrightarrow> read_request (write_message (RequestMsg r)) = Some r"
  by (cases "rq_params r"; cases "the (rq_params r)")
    (auto simp: read_request_def as_fields_def string_at_def opt_at_def opt_member_def)

lemma read_response_write:
  assumes "message_ok (ResponseMsg r)"
  shows "read_response (write_message (ResponseMsg r)) = Some r"
proof -
  have "opt_at Some (map_of (opt_member ''result'' (rs_result r) @ opt_member ''error'' (map_option write_error (rs_error r)))) ''result''
      = Some (rs_result r)"
    using assms by (cases "rs_result r"; cases "the (rs_result r)") (auto simp: opt_at_def opt_member_def split: option.splits)
  moreover have "opt_at read_error (map_of (opt_member ''result'' (rs_result r) @ opt_member ''error'' (map_option write_error (rs_error r)))) ''error''
      = Some (rs_error r)"
  proof (cases "rs_error r")
    case (Some e)
    obtain kvs where "write_error e = JObject kvs" using write_error_object by blast
    moreover from this have "read_error (JObject kvs) = Some e" using assms Some read_write_error [of e] by simp
    ultimately show ?thesis using Some by (cases "rs_result r") (auto simp: opt_at_def opt_member_def)
  qed (cases "rs_result r", auto simp: opt_at_def opt_member_def)
  ultimately show ?thesis
    using assms by (simp add: read_response_def as_fields_def string_at_def opt_at_def)
qed

lemma read_notification_write:
  "message_ok (NotificationMsg n) \<Longrightarrow> read_notification (write_message (NotificationMsg n)) = Some n"
  by (cases "nt_params n"; cases "the (nt_params n)")
    (auto simp: read_notification_def as_fields_def string_at_def opt_at_def opt_member_def)

lemma read_request_other:
  "read_request (write_message (ResponseMsg r)) = None" "read_request (write_message (NotificationMsg n)) = None"
  "read_response (write_message (NotificationMsg n)) = None"
  by (cases "rs_result r"; cases "rs_error r")
    (auto simp: read_request_def read_response_def as_fields_def string_at_def opt_at_def opt_member_def split: option.splits)

lemma read_write_message: "message_ok m \<Longrightarrow> read_message (write_message m) = Some m"
  by (cases m) (simp_all del: write_message.simps message_ok.simps
      add: read_message_def read_request_write read_response_write read_notification_write read_request_other)

lemma read_id_ok: "read_id v = Some i \<Longrightarrow> id_ok i"
  by (cases v) (auto simp: in_i64_def dest: json_int_bounds)

lemma read_error_ok: "read_error v = Some e \<Longrightarrow> error_ok e"
  by (auto simp: read_error_def error_ok_def in_i32_def int_at_def split: bind_splits option.splits json.splits
      dest: json_int_bounds opt_at_Some)

lemma opt_at_Some': "opt_at r m k = Some (Some x) \<Longrightarrow> \<exists>v. r v = Some x"
  by (auto simp: opt_at_def split: option.splits json.splits)

lemma read_message_ok:
  assumes "read_message v = Some m"
  shows "message_ok m"
proof -
  have "read_request v = Some r \<Longrightarrow> message_ok (RequestMsg r)" for r
    by (auto simp: read_request_def split: bind_splits dest: read_id_ok opt_at_Some)
  moreover have "read_response v = Some r \<Longrightarrow> message_ok (ResponseMsg r)" for r
    by (auto simp: read_response_def split: bind_splits dest!: read_id_ok opt_at_Some opt_at_Some' read_error_ok)
  moreover have "read_notification v = Some r \<Longrightarrow> message_ok (NotificationMsg r)" for r
    by (auto simp: read_notification_def split: bind_splits dest: opt_at_Some)
  ultimately show ?thesis
    using assms by (auto simp: read_message_def split: option.splits)
qed

text \<open>C38: The envelope round-trips.  What the reader accepts it accepts again, unchanged, after it is written; these are exactly
  the messages with an identifier of 64 bits, an error code of 32 bits and no null payload, and the three kinds
  are never confused.\<close>

theorem envelope_roundtrip:
  "((\<exists>v. read_message v = Some m) \<longleftrightarrow> message_ok m) \<and> (message_ok m \<longleftrightarrow> read_message (write_message m) = Some m)"
  using read_write_message read_message_ok by blast

subsection \<open>Frames on the pipe\<close>

lemma trim_ascii_id: "s \<noteq> [] \<Longrightarrow> \<not> ascii_ws (hd s) \<Longrightarrow> \<not> ascii_ws (last s) \<Longrightarrow> trim_ascii s = s"
proof -
  assume "s \<noteq> []" "\<not> ascii_ws (hd s)" "\<not> ascii_ws (last s)"
  then have "dropWhile ascii_ws s = s" "dropWhile ascii_ws (rev s) = rev s"
    by (cases s; simp) (use \<open>s \<noteq> []\<close> \<open>\<not> ascii_ws (last s)\<close> in \<open>cases s rule: rev_cases; simp\<close>)
  then show ?thesis by (simp add: trim_ascii_def)
qed

lemma write_message_object: "\<exists>kvs. write_message m = JObject kvs"
  by (cases m) auto

text \<open>Frames are delimited.  If the printer of JSON writes a message between braces on one line and the parser
  undoes it, then whatever messages are encoded one after the other, the lines of the pipe decode to exactly
  these messages, in order, as long as none is above the frame limit.\<close>

theorem frames_roundtrip:
  assumes "\<And>m. m \<in> set ms \<Longrightarrow> parse (print (write_message m)) = Some (write_message m)"
    and "\<And>m. m \<in> set ms \<Longrightarrow> newline \<notin> set (print (write_message m))"
    and "\<And>m. m \<in> set ms \<Longrightarrow> \<exists>s. print (write_message m) = ''{'' @ s @ ''}''"
    and "list_all (\<lambda>m. message_ok m \<and> length (encode print m) \<le> DEFAULT_MAX_FRAME_BYTES) ms"
  shows "map (decode parse why) (text_lines (concat (map (encode print) ms))) = map Inr ms"
proof -
  have "newline \<notin> set (print (write_message m)) \<and> print (write_message m) \<noteq> []
      \<and> last (print (write_message m)) \<noteq> CHR 0x0D" if "m \<in> set ms" for m
    using assms(2) [OF that] assms(3) [OF that] by (elim exE) simp
  then have "list_all (\<lambda>s. newline \<notin> set s \<and> s \<noteq> [] \<and> last s \<noteq> CHR 0x0D) (map (\<lambda>m. print (write_message m)) ms)"
    by (simp add: list_all_iff)
  from text_lines_pieces [OF this]
  have lines: "text_lines (concat (map (encode print) ms)) = map (\<lambda>m. print (write_message m)) ms"
    by (simp add: encode_def [abs_def] comp_def)
  have "decode parse why (print (write_message m)) = Inr m" if m: "m \<in> set ms" for m
  proof -
    obtain s where s: "print (write_message m) = ''{'' @ s @ ''}''" using assms(3) [OF m] by blast
    then have "trim_ascii (print (write_message m)) = print (write_message m)"
      by (intro trim_ascii_id) (simp_all add: ascii_ws_def)
    moreover have "message_ok m" "length (print (write_message m)) \<le> DEFAULT_MAX_FRAME_BYTES"
      using assms(4) m by (auto simp: list_all_iff encode_def)
    ultimately show ?thesis
      using assms(1) [OF m] s by (simp add: decode_def decode_with_limit_def Let_def read_write_message)
  qed
  then show ?thesis unfolding lines by simp
qed

definition ping_msg :: rpc_message where
  "ping_msg = NotificationMsg (new_notification ''ping'' None)"

definition done_msg :: rpc_message where
  "done_msg = ResponseMsg (ok_response (IdNumber 1) (JBool True))"

definition print_two :: "json \<Rightarrow> string" where
  "print_two v = (if v = write_message ping_msg then ''{1}'' else ''{2}'')"

definition parse_two :: "string \<Rightarrow> json option" where
  "parse_two s = Some (write_message (if s = ''{1}'' then ping_msg else done_msg))"

theorem frames_roundtrip_witness:
  "map (decode parse_two id) (text_lines (concat (map (encode print_two) [ping_msg, done_msg]))) = [Inr ping_msg, Inr done_msg]"
proof -
  have ne: "write_message done_msg \<noteq> write_message ping_msg"
    by (simp add: ping_msg_def done_msg_def new_notification_def ok_response_def)
  have "map (decode parse_two id) (text_lines (concat (map (encode print_two) [ping_msg, done_msg]))) = map Inr [ping_msg, done_msg]"
  proof (rule frames_roundtrip)
    show "list_all (\<lambda>m. message_ok m \<and> length (encode print_two m) \<le> DEFAULT_MAX_FRAME_BYTES) [ping_msg, done_msg]"
      using ne by (simp add: encode_def print_two_def DEFAULT_MAX_FRAME_BYTES_def)
        (simp add: ping_msg_def done_msg_def new_notification_def ok_response_def in_i64_def)
  next
    fix m assume "m \<in> set [ping_msg, done_msg]"
    then have m: "m = ping_msg \<or> m = done_msg" by simp
    show "parse_two (print_two (write_message m)) = Some (write_message m)"
      using m ne by (auto simp: print_two_def parse_two_def)
    show "newline \<notin> set (print_two (write_message m))"
      by (simp add: print_two_def newline_char)
    have "print_two (write_message m) = ''{'' @ (if write_message m = write_message ping_msg then ''1'' else ''2'') @ ''}''"
      by (simp add: print_two_def)
    then show "\<exists>s. print_two (write_message m) = ''{'' @ s @ ''}''" by blast
  qed
  then show ?thesis by simp
qed

subsection \<open>Parameters\<close>

record wire_attachment =
  wa_id :: string
  wa_filename :: string
  wa_mime :: string
  wa_size :: int

record message_received =
  mr_auth :: string
  mr_tenant :: string
  mr_chat :: string
  mr_user :: string
  mr_message :: string
  mr_content :: string
  mr_mentions :: "string list"
  mr_attachments :: "wire_attachment list"
  mr_reply_to :: "string option"
  mr_received_at :: string

record message_recalled =
  ml_auth :: string
  ml_tenant :: string
  ml_chat :: string
  ml_user :: string
  ml_message :: string
  ml_recalled_at :: string

datatype wire_decision = WireAllow | WireDeny | WireAllowOnce | WireAllowAlways

record approval_callback =
  ac_auth :: string
  ac_token :: string
  ac_decision :: wire_decision
  ac_user :: string
  ac_decided_at :: string

record wire_answer =
  wn_question :: string
  wn_selected :: "string list"
  wn_other :: "string option"
  wn_notes :: "string option"

record question_callback =
  qc_auth :: string
  qc_token :: string
  qc_answers :: "wire_answer list"
  qc_user :: string
  qc_decided_at :: string

datatype log_level = LevelTrace | LevelDebug | LevelInfo | LevelWarn | LevelError

record log_write =
  lw_auth :: string
  lw_level :: log_level
  lw_message :: string
  lw_fields :: "json option"

record tool_advertise =
  ta_auth :: string
  ta_name :: string
  ta_description :: string
  ta_schema :: json
  ta_read_only :: bool

record command_advertise =
  ca_auth :: string
  ca_name :: string
  ca_description :: string
  ca_hint :: "string option"

definition read_attachment :: "json \<Rightarrow> wire_attachment option" where
  "read_attachment v = do {
     m \<leftarrow> as_fields [''id'', ''filename'', ''mime_type'', ''size''] v;
     i \<leftarrow> string_at m ''id'';
     f \<leftarrow> string_at m ''filename'';
     t \<leftarrow> string_at m ''mime_type'';
     n \<leftarrow> u64_at m ''size'';
     Some \<lparr>wa_id = i, wa_filename = f, wa_mime = t, wa_size = n\<rparr> }"

definition read_received :: "json \<Rightarrow> message_received option" where
  "read_received v = do {
     m \<leftarrow> as_fields [''auth'', ''tenant_id'', ''chat_id'', ''user_id'', ''message_id'', ''content'', ''mentions'',
            ''attachments'', ''reply_to'', ''received_at''] v;
     a \<leftarrow> string_at m ''auth'';
     t \<leftarrow> string_at m ''tenant_id'';
     c \<leftarrow> string_at m ''chat_id'';
     u \<leftarrow> string_at m ''user_id'';
     i \<leftarrow> string_at m ''message_id'';
     b \<leftarrow> string_at m ''content'';
     ms \<leftarrow> defaulted [] (list_at read_string) m ''mentions'';
     as \<leftarrow> defaulted [] (list_at read_attachment) m ''attachments'';
     r \<leftarrow> opt_at read_string m ''reply_to'';
     d \<leftarrow> string_at m ''received_at'';
     Some \<lparr>mr_auth = a, mr_tenant = t, mr_chat = c, mr_user = u, mr_message = i, mr_content = b, mr_mentions = ms,
       mr_attachments = as, mr_reply_to = r, mr_received_at = d\<rparr> }"

definition read_recalled :: "json \<Rightarrow> message_recalled option" where
  "read_recalled v = do {
     m \<leftarrow> as_fields [''auth'', ''tenant_id'', ''chat_id'', ''user_id'', ''message_id'', ''recalled_at''] v;
     a \<leftarrow> string_at m ''auth'';
     t \<leftarrow> string_at m ''tenant_id'';
     c \<leftarrow> string_at m ''chat_id'';
     u \<leftarrow> string_at m ''user_id'';
     i \<leftarrow> string_at m ''message_id'';
     d \<leftarrow> string_at m ''recalled_at'';
     Some \<lparr>ml_auth = a, ml_tenant = t, ml_chat = c, ml_user = u, ml_message = i, ml_recalled_at = d\<rparr> }"

text \<open>A unit variant is its name in snake case, or an object with that name and null.\<close>

definition read_variant :: "(string \<times> 'a) list \<Rightarrow> json \<Rightarrow> 'a option" where
  "read_variant names v =
     (case v of
        JString s \<Rightarrow> map_of names s
      | JObject [(s, JNull)] \<Rightarrow> map_of names s
      | _ \<Rightarrow> None)"

definition decision_names :: "(string \<times> wire_decision) list" where
  "decision_names = [(''allow'', WireAllow), (''deny'', WireDeny), (''allow_once'', WireAllowOnce), (''allow_always'', WireAllowAlways)]"

definition level_names :: "(string \<times> log_level) list" where
  "level_names = [(''trace'', LevelTrace), (''debug'', LevelDebug), (''info'', LevelInfo), (''warn'', LevelWarn), (''error'', LevelError)]"

definition read_approval_callback :: "json \<Rightarrow> approval_callback option" where
  "read_approval_callback v = do {
     m \<leftarrow> as_fields [''auth'', ''callback_token'', ''decision'', ''user_id'', ''decided_at''] v;
     a \<leftarrow> string_at m ''auth'';
     t \<leftarrow> string_at m ''callback_token'';
     d \<leftarrow> Option.bind (m ''decision'') (read_variant decision_names);
     u \<leftarrow> string_at m ''user_id'';
     w \<leftarrow> string_at m ''decided_at'';
     Some \<lparr>ac_auth = a, ac_token = t, ac_decision = d, ac_user = u, ac_decided_at = w\<rparr> }"

definition read_answer :: "json \<Rightarrow> wire_answer option" where
  "read_answer v = do {
     m \<leftarrow> as_fields [''question_id'', ''selected_option_ids'', ''other_text'', ''notes''] v;
     q \<leftarrow> string_at m ''question_id'';
     s \<leftarrow> defaulted [] (list_at read_string) m ''selected_option_ids'';
     t \<leftarrow> opt_at read_string m ''other_text'';
     n \<leftarrow> opt_at read_string m ''notes'';
     Some \<lparr>wn_question = q, wn_selected = s, wn_other = t, wn_notes = n\<rparr> }"

definition read_question_callback :: "json \<Rightarrow> question_callback option" where
  "read_question_callback v = do {
     m \<leftarrow> as_fields [''auth'', ''callback_token'', ''answers'', ''user_id'', ''decided_at''] v;
     a \<leftarrow> string_at m ''auth'';
     t \<leftarrow> string_at m ''callback_token'';
     ns \<leftarrow> list_at read_answer m ''answers'';
     u \<leftarrow> string_at m ''user_id'';
     w \<leftarrow> string_at m ''decided_at'';
     Some \<lparr>qc_auth = a, qc_token = t, qc_answers = ns, qc_user = u, qc_decided_at = w\<rparr> }"

definition read_log_write :: "json \<Rightarrow> log_write option" where
  "read_log_write v = do {
     m \<leftarrow> as_fields [''auth'', ''level'', ''message'', ''fields''] v;
     a \<leftarrow> string_at m ''auth'';
     l \<leftarrow> Option.bind (m ''level'') (read_variant level_names);
     t \<leftarrow> string_at m ''message'';
     f \<leftarrow> opt_at Some m ''fields'';
     Some \<lparr>lw_auth = a, lw_level = l, lw_message = t, lw_fields = f\<rparr> }"

definition read_tool_advertise :: "json \<Rightarrow> tool_advertise option" where
  "read_tool_advertise v = do {
     m \<leftarrow> as_fields [''auth'', ''name'', ''description'', ''input_schema'', ''is_read_only''] v;
     a \<leftarrow> string_at m ''auth'';
     n \<leftarrow> string_at m ''name'';
     d \<leftarrow> string_at m ''description'';
     s \<leftarrow> m ''input_schema'';
     r \<leftarrow> defaulted False bool_at m ''is_read_only'';
     Some \<lparr>ta_auth = a, ta_name = n, ta_description = d, ta_schema = s, ta_read_only = r\<rparr> }"

definition read_command_advertise :: "json \<Rightarrow> command_advertise option" where
  "read_command_advertise v = do {
     m \<leftarrow> as_fields [''auth'', ''name'', ''description'', ''argument_hint''] v;
     a \<leftarrow> string_at m ''auth'';
     n \<leftarrow> string_at m ''name'';
     d \<leftarrow> string_at m ''description'';
     h \<leftarrow> opt_at read_string m ''argument_hint'';
     Some \<lparr>ca_auth = a, ca_name = n, ca_description = d, ca_hint = h\<rparr> }"

subsection \<open>The manifest\<close>

record capabilities =
  cp_send :: bool
  cp_update :: bool
  cp_card :: bool
  cp_interactive :: bool
  cp_upload :: bool
  cp_download :: bool
  cp_max_bytes :: int
  cp_thread :: bool
  cp_streaming :: bool

record manifest =
  mf_version :: string
  mf_plugin :: "string \<times> string"
  mf_tenant_format :: "string option"
  mf_capabilities :: capabilities

definition minimal_capabilities :: capabilities where
  "minimal_capabilities = \<lparr>cp_send = True, cp_update = False, cp_card = False, cp_interactive = False, cp_upload = False,
     cp_download = False, cp_max_bytes = 30720, cp_thread = False, cp_streaming = False\<rparr>"

definition read_capabilities :: "json \<Rightarrow> capabilities option" where
  "read_capabilities v = do {
     m \<leftarrow> as_fields [''send_message'', ''update_message'', ''send_card'', ''interactive_card'', ''file_upload'',
            ''file_download'', ''max_message_bytes'', ''supports_thread'', ''supports_streaming''] v;
     s \<leftarrow> defaulted False bool_at m ''send_message'';
     u \<leftarrow> defaulted False bool_at m ''update_message'';
     c \<leftarrow> defaulted False bool_at m ''send_card'';
     i \<leftarrow> defaulted False bool_at m ''interactive_card'';
     f \<leftarrow> defaulted False bool_at m ''file_upload'';
     d \<leftarrow> defaulted False bool_at m ''file_download'';
     n \<leftarrow> defaulted 0 u64_at m ''max_message_bytes'';
     t \<leftarrow> defaulted False bool_at m ''supports_thread'';
     r \<leftarrow> defaulted False bool_at m ''supports_streaming'';
     Some \<lparr>cp_send = s, cp_update = u, cp_card = c, cp_interactive = i, cp_upload = f, cp_download = d, cp_max_bytes = n,
       cp_thread = t, cp_streaming = r\<rparr> }"

definition read_plugin_info :: "json \<Rightarrow> (string \<times> string) option" where
  "read_plugin_info v = do {
     m \<leftarrow> as_fields [''name'', ''version''] v;
     n \<leftarrow> string_at m ''name'';
     w \<leftarrow> string_at m ''version'';
     Some (n, w) }"

definition read_manifest :: "json \<Rightarrow> manifest option" where
  "read_manifest v = do {
     m \<leftarrow> as_fields [''protocolVersion'', ''plugin'', ''tenantIdFormat'', ''capabilities''] v;
     w \<leftarrow> string_at m ''protocolVersion'';
     p \<leftarrow> Option.bind (m ''plugin'') read_plugin_info;
     t \<leftarrow> opt_at read_string m ''tenantIdFormat'';
     c \<leftarrow> Option.bind (m ''capabilities'') read_capabilities;
     Some \<lparr>mf_version = w, mf_plugin = p, mf_tenant_format = t, mf_capabilities = c\<rparr> }"

end
