(* ===== verification/Channel.thy ===== *)
theory Channel
  imports Protocol Outbox
begin

text \<open>
  The plugin supervisor of \<open>crates/snaca-channel-host\<close> (\<open>supervisor.rs\<close>, \<open>approval.rs\<close>, \<open>question.rs\<close>,
  \<open>inbound.rs\<close>): the handshake, calls to the plugin with their pending table and timeouts, the reader task that
  routes the plugin's lines, approval and question requests with their callback tokens, advertised tools and
  commands, and shutdown.

  The tasks are one state machine: \<open>host_step\<close> has a rule for every point where a task or a caller can proceed.
  A blocked send is a rule that is not enabled; a timeout may strike whenever its future is still waiting.  Calls
  and requests are numbered; \<open>ho_pending\<close> and the two registries hold numbers in place of one-shot senders.
  \<open>ho_read\<close> and \<open>ho_taken\<close> record what the reader decoded and what the dispatcher took.
\<close>

subsection \<open>Spawning and the handshake\<close>

definition TOKEN_VAR :: string where "TOKEN_VAR = ''SNACA_PLUGIN_TOKEN''"

definition child_env :: "(string \<rightharpoonup> string) \<Rightarrow> string \<Rightarrow> (string \<rightharpoonup> string) \<Rightarrow> (string \<rightharpoonup> string)" where
  "child_env inherited token configured = inherited(TOKEN_VAR \<mapsto> token) ++ configured"

definition or_null :: "json option \<Rightarrow> json" where
  "or_null v = (case v of Some x \<Rightarrow> x | None \<Rightarrow> JNull)"

datatype wait_end = Replied rpc_response | SenderGone | Elapsed

definition handshake_end :: "(json \<Rightarrow> string) \<Rightarrow> wait_end \<Rightarrow> channel_error + manifest" where
  "handshake_end why w =
     (case w of
        SenderGone \<Rightarrow> Inl Disconnected
      | Elapsed \<Rightarrow> Inl ChannelTimeout
      | Replied r \<Rightarrow>
          (case rs_error r of
             Some e \<Rightarrow> Inl (HandshakeFailed (''plugin returned error '' @ show_int (re_code e) @ '': '' @ re_message e))
           | None \<Rightarrow>
               (case read_manifest (or_null (rs_result r)) of
                  None \<Rightarrow> Inl (HandshakeFailed (''malformed manifest: '' @ why (or_null (rs_result r))))
                | Some m \<Rightarrow>
                    if prefix ''1.'' (mf_version m) then Inr m
                    else Inl (HandshakeFailed (''unsupported plugin protocol version: '' @ mf_version m)))))"

subsection \<open>Notifications\<close>

text \<open>The plugin's name, which every event carries, is that of the host.\<close>

datatype inbound_event =
    MessageReceived message_received
  | MessageRecalled message_recalled
  | ApprovalClicked approval_callback
  | QuestionClicked question_callback
  | PluginReported string string "json option"
  | PluginLog log_write
  | UnknownMethod string "json option"

definition EVENT_MESSAGE_RECEIVED :: string where "EVENT_MESSAGE_RECEIVED = ''event.message_received''"
definition EVENT_MESSAGE_RECALLED :: string where "EVENT_MESSAGE_RECALLED = ''event.message_recalled''"
definition EVENT_APPROVAL_CALLBACK :: string where "EVENT_APPROVAL_CALLBACK = ''event.approval_callback''"
definition EVENT_QUESTION_CALLBACK :: string where "EVENT_QUESTION_CALLBACK = ''event.question_callback''"
definition EVENT_ERROR :: string where "EVENT_ERROR = ''event.error''"
definition LOG_WRITE :: string where "LOG_WRITE = ''log.write''"
definition TOOL_ADVERTISE :: string where "TOOL_ADVERTISE = ''tool.advertise''"
definition COMMAND_ADVERTISE :: string where "COMMAND_ADVERTISE = ''command.advertise''"

lemmas method_defs = EVENT_MESSAGE_RECEIVED_def EVENT_MESSAGE_RECALLED_def EVENT_APPROVAL_CALLBACK_def
  EVENT_QUESTION_CALLBACK_def EVENT_ERROR_def LOG_WRITE_def TOOL_ADVERTISE_def COMMAND_ADVERTISE_def

definition deserialize_params ::
  "(string \<Rightarrow> json \<Rightarrow> string) \<Rightarrow> (json \<Rightarrow> 'a option) \<Rightarrow> json option \<Rightarrow> string \<Rightarrow> string + 'a" where
  "deserialize_params why read ps method =
     (case ps of
        None \<Rightarrow> Inl (method @ '': missing params'')
      | Some v \<Rightarrow> (case read v of None \<Rightarrow> Inl (method @ '': '' @ why method v) | Some x \<Rightarrow> Inr x))"

definition check_auth :: "string \<Rightarrow> string \<Rightarrow> string option" where
  "check_auth provided expected = (if provided = expected then None else Some ''auth_failed'')"

definition checked ::
  "(string \<Rightarrow> json \<Rightarrow> string) \<Rightarrow> string \<Rightarrow> (json \<Rightarrow> 'a option) \<Rightarrow> ('a \<Rightarrow> string) \<Rightarrow> ('a \<Rightarrow> inbound_event)
     \<Rightarrow> rpc_notification \<Rightarrow> string + inbound_event" where
  "checked why tok read auth event n =
     (case deserialize_params why read (nt_params n) (nt_method n) of
        Inl e \<Rightarrow> Inl e
      | Inr p \<Rightarrow> (case check_auth (auth p) tok of Some e \<Rightarrow> Inl e | None \<Rightarrow> Inr (event p)))"

definition parse_inbound ::
  "(string \<Rightarrow> json \<Rightarrow> string) \<Rightarrow> string \<Rightarrow> rpc_notification \<Rightarrow> string + inbound_event" where
  "parse_inbound why tok n =
     (if nt_method n = EVENT_MESSAGE_RECEIVED then checked why tok read_received mr_auth MessageReceived n
      else if nt_method n = EVENT_MESSAGE_RECALLED then checked why tok read_recalled ml_auth MessageRecalled n
      else if nt_method n = EVENT_APPROVAL_CALLBACK then checked why tok read_approval_callback ac_auth ApprovalClicked n
      else if nt_method n = EVENT_QUESTION_CALLBACK then checked why tok read_question_callback qc_auth QuestionClicked n
      else if nt_method n = EVENT_ERROR then
        (let raw = or_null (nt_params n)
         in case check_auth (or_else (json_str (json_get raw ''auth'')) []) tok of
              Some e \<Rightarrow> Inl e
            | None \<Rightarrow> Inr (PluginReported (or_else (json_str (json_get raw ''severity'')) ''error'')
                             (or_else (json_str (json_get raw ''message'')) []) (json_get raw ''data'')))
      else if nt_method n = LOG_WRITE then checked why tok read_log_write lw_auth PluginLog n
      else Inr (UnknownMethod (nt_method n) (nt_params n)))"

subsection \<open>Advertising\<close>

definition advertised ::
  "(string \<Rightarrow> json \<Rightarrow> string) \<Rightarrow> string \<Rightarrow> string \<Rightarrow> (json \<Rightarrow> 'a option) \<Rightarrow> ('a \<Rightarrow> string) \<Rightarrow> ('a \<Rightarrow> string)
     \<Rightarrow> rpc_request \<Rightarrow> (string \<rightharpoonup> 'a) \<Rightarrow> rpc_response \<times> (string \<rightharpoonup> 'a)" where
  "advertised why tok method read auth name req store =
     (case deserialize_params why read (rq_params req) method of
        Inl e \<Rightarrow> (err_response (rq_id req) (new_error (code_as_i32 InvalidParamsCode) e), store)
      | Inr p \<Rightarrow>
          (case check_auth (auth p) tok of
             Some _ \<Rightarrow> (err_response (rq_id req) (new_error (code_as_i32 AuthFailedCode) ''auth_failed''), store)
           | None \<Rightarrow> (ok_response (rq_id req) (JObject []), store(name p \<mapsto> p))))"

definition handle_tool_advertise where
  "handle_tool_advertise why tok = advertised why tok TOOL_ADVERTISE read_tool_advertise ta_auth ta_name"

definition handle_command_advertise where
  "handle_command_advertise why tok = advertised why tok COMMAND_ADVERTISE read_command_advertise ca_auth ca_name"

subsection \<open>Registries of waiting requests\<close>

definition register_slot :: "'k \<Rightarrow> nat \<Rightarrow> ('k \<rightharpoonup> nat) \<Rightarrow> ('k \<rightharpoonup> nat)" where
  "register_slot k n reg = reg(k \<mapsto> n)"

definition take_slot :: "'k \<Rightarrow> ('k \<rightharpoonup> nat) \<Rightarrow> nat option \<times> ('k \<rightharpoonup> nat)" where
  "take_slot k reg = (reg k, reg(k := None))"

subsection \<open>The host's side of a plugin\<close>

definition WRITER_BUFFER :: nat where "WRITER_BUFFER = 256"
definition INBOUND_BUFFER :: nat where "INBOUND_BUFFER = 256"

datatype call_phase = Sending | Waiting | Done "channel_error + json" | Dropped

record call =
  cl_request :: rpc_request
  cl_since :: nat
  cl_phase :: call_phase

datatype ask_kind = AskApproval string nat | AskQuestion json nat

datatype ask_phase =
    Presenting nat
  | Deciding
  | Cancelling nat channel_error
  | Decided wire_decision
  | AnsweredWith question_callback
  | AskFailed channel_error
  | AskDropped

record ask =
  ak_kind :: ask_kind
  ak_tenant :: string
  ak_chat :: string
  ak_token :: string
  ak_since :: nat
  ak_phase :: ask_phase

datatype reader_phase = Reading | Delivering inbound_event bool | Replying rpc_response | ReaderEnded

record host =
  ho_next :: nat
  ho_calls :: "nat \<rightharpoonup> call"
  ho_pending :: "request_id \<rightharpoonup> nat"
  ho_replies :: "nat \<rightharpoonup> rpc_response"
  ho_out :: "rpc_message list"
  ho_writer :: bool
  ho_stdin :: "rpc_message list"
  ho_reader :: reader_phase
  ho_read :: "rpc_message list"
  ho_inbox :: "inbound_event list"
  ho_inbox_open :: bool
  ho_taken :: "inbound_event list"
  ho_asked :: nat
  ho_asks :: "nat \<rightharpoonup> ask"
  ho_approvals :: "string \<rightharpoonup> nat"
  ho_questions :: "string \<rightharpoonup> nat"
  ho_decisions :: "nat \<rightharpoonup> wire_decision"
  ho_answers :: "nat \<rightharpoonup> question_callback"
  ho_tools :: "string \<rightharpoonup> tool_advertise"
  ho_commands :: "string \<rightharpoonup> command_advertise"

record host_env =
  he_token :: string
  he_why :: "string \<Rightarrow> json \<Rightarrow> string"
  he_parse :: "string \<Rightarrow> json option"
  he_bad_json :: "string \<Rightarrow> string"

definition new_host :: host where
  "new_host = \<lparr>ho_next = 1, ho_calls = Map.empty, ho_pending = Map.empty, ho_replies = Map.empty, ho_out = [], ho_writer = True,
     ho_stdin = [], ho_reader = Reading, ho_read = [], ho_inbox = [], ho_inbox_open = True, ho_taken = [], ho_asked = 0,
     ho_asks = Map.empty, ho_approvals = Map.empty, ho_questions = Map.empty, ho_decisions = Map.empty, ho_answers = Map.empty,
     ho_tools = Map.empty, ho_commands = Map.empty\<rparr>"

subsection \<open>The reader\<close>

definition handle_approval_callback :: "host_env \<Rightarrow> rpc_notification \<Rightarrow> host \<Rightarrow> host" where
  "handle_approval_callback env n h =
     (case deserialize_params (he_why env) read_approval_callback (nt_params n) (nt_method n) of
        Inl _ \<Rightarrow> h
      | Inr p \<Rightarrow>
          if check_auth (ac_auth p) (he_token env) \<noteq> None then h
          else (case take_slot (ac_token p) (ho_approvals h) of
                  (Some a, reg) \<Rightarrow> h\<lparr>ho_approvals := reg, ho_decisions := (ho_decisions h)(a \<mapsto> ac_decision p)\<rparr>
                | (None, _) \<Rightarrow> h\<lparr>ho_reader := Delivering (ApprovalClicked p) False\<rparr>))"

definition handle_question_callback :: "host_env \<Rightarrow> rpc_notification \<Rightarrow> host \<Rightarrow> host" where
  "handle_question_callback env n h =
     (case deserialize_params (he_why env) read_question_callback (nt_params n) (nt_method n) of
        Inl _ \<Rightarrow> h
      | Inr p \<Rightarrow>
          if check_auth (qc_auth p) (he_token env) \<noteq> None then h
          else (case take_slot (qc_token p) (ho_questions h) of
                  (Some a, reg) \<Rightarrow> h\<lparr>ho_questions := reg, ho_answers := (ho_answers h)(a \<mapsto> p)\<rparr>
                | (None, _) \<Rightarrow> h\<lparr>ho_reader := Delivering (QuestionClicked p) False\<rparr>))"

definition on_response :: "rpc_response \<Rightarrow> host \<Rightarrow> host" where
  "on_response r h =
     (case take_slot (rs_id r) (ho_pending h) of
        (Some n, pend) \<Rightarrow> h\<lparr>ho_pending := pend, ho_replies := (ho_replies h)(n \<mapsto> r)\<rparr>
      | (None, _) \<Rightarrow> h)"

definition on_notification :: "host_env \<Rightarrow> rpc_notification \<Rightarrow> host \<Rightarrow> host" where
  "on_notification env n h =
     (if nt_method n = EVENT_APPROVAL_CALLBACK then handle_approval_callback env n h
      else if nt_method n = EVENT_QUESTION_CALLBACK then handle_question_callback env n h
      else (case parse_inbound (he_why env) (he_token env) n of
              Inr ev \<Rightarrow> h\<lparr>ho_reader := Delivering ev True\<rparr>
            | Inl _ \<Rightarrow> h))"

definition on_request :: "host_env \<Rightarrow> rpc_request \<Rightarrow> host \<Rightarrow> host" where
  "on_request env r h =
     (if rq_method r = TOOL_ADVERTISE then
        (let (resp, tools) = handle_tool_advertise (he_why env) (he_token env) r (ho_tools h)
         in h\<lparr>ho_tools := tools, ho_reader := Replying resp\<rparr>)
      else if rq_method r = COMMAND_ADVERTISE then
        (let (resp, commands) = handle_command_advertise (he_why env) (he_token env) r (ho_commands h)
         in h\<lparr>ho_commands := commands, ho_reader := Replying resp\<rparr>)
      else h\<lparr>ho_reader := Replying (err_response (rq_id r) (new_error (code_as_i32 MethodNotFoundCode) ''method_not_found''))\<rparr>)"

definition on_message :: "host_env \<Rightarrow> rpc_message \<Rightarrow> host \<Rightarrow> host" where
  "on_message env m h =
     (case m of
        ResponseMsg r \<Rightarrow> on_response r h
      | NotificationMsg n \<Rightarrow> on_notification env n h
      | RequestMsg r \<Rightarrow> on_request env r h)"

text \<open>One line: text that is not UTF-8 is a read error and ends the reader; a frame that does not decode is
  skipped.\<close>

definition on_line :: "host_env \<Rightarrow> string \<Rightarrow> host \<Rightarrow> host" where
  "on_line env line h =
     (if \<not> valid_utf8 line then h\<lparr>ho_reader := ReaderEnded\<rparr>
      else (case decode (he_parse env) (he_bad_json env) line of
              Inl _ \<Rightarrow> h
            | Inr m \<Rightarrow> on_message env m (h\<lparr>ho_read := ho_read h @ [m]\<rparr>)))"

subsection \<open>Calls\<close>

definition call_result :: "rpc_response \<Rightarrow> channel_error + json" where
  "call_result r =
     (case rs_error r of
        Some e \<Rightarrow> Inl (PluginError (re_code e) (re_message e))
      | None \<Rightarrow> Inr (or_null (rs_result r)))"

definition start_call :: "string \<Rightarrow> json option \<Rightarrow> host \<Rightarrow> host" where
  "start_call method ps h =
     (let n = ho_next h
      in h\<lparr>ho_next := n + 1, ho_pending := register_slot (IdNumber (int n)) n (ho_pending h),
           ho_calls := (ho_calls h)(n \<mapsto> \<lparr>cl_request = new_rpc_request (IdNumber (int n)) method ps,
                                          cl_since = length (ho_read h), cl_phase = Sending\<rparr>)\<rparr>)"

definition set_phase :: "nat \<Rightarrow> call_phase \<Rightarrow> host \<Rightarrow> host" where
  "set_phase n p h = h\<lparr>ho_calls := (ho_calls h)(n := map_option (\<lambda>c. c\<lparr>cl_phase := p\<rparr>) (ho_calls h n))\<rparr>"

definition forget_call :: "nat \<Rightarrow> host \<Rightarrow> host" where
  "forget_call n h = h\<lparr>ho_pending := snd (take_slot (IdNumber (int n)) (ho_pending h))\<rparr>"

definition phase_of :: "host \<Rightarrow> nat \<Rightarrow> call_phase option" where
  "phase_of h n = map_option cl_phase (ho_calls h n)"

subsection \<open>Approvals and questions\<close>

definition approval_present_value :: "string \<Rightarrow> string \<Rightarrow> string \<Rightarrow> string \<Rightarrow> nat \<Rightarrow> json" where
  "approval_present_value tenant chat req token secs = JObject
     [(''callback_token'', JString token), (''chat_id'', JString chat),
      (''options'', JArray (map JString [''allow'', ''deny'', ''allow_once'', ''allow_always''])),
      (''request'', JString req), (''tenant_id'', JString tenant), (''timeout_sec'', JNumber (show_nat secs))]"

definition question_present_value :: "string \<Rightarrow> string \<Rightarrow> json \<Rightarrow> string \<Rightarrow> nat \<Rightarrow> json" where
  "question_present_value tenant chat questions token secs = JObject
     [(''callback_token'', JString token), (''chat_id'', JString chat), (''questions'', questions),
      (''tenant_id'', JString tenant), (''timeout_sec'', JNumber (show_nat secs))]"

definition question_cancel_value :: "string \<Rightarrow> string \<Rightarrow> string \<Rightarrow> string \<Rightarrow> json" where
  "question_cancel_value tenant chat token reason = JObject
     [(''callback_token'', JString token), (''chat_id'', JString chat), (''reason'', JString reason), (''tenant_id'', JString tenant)]"

definition start_ask :: "ask_kind \<Rightarrow> string \<Rightarrow> string \<Rightarrow> string \<Rightarrow> host \<Rightarrow> host" where
  "start_ask kind tenant chat token h =
     (let a = ho_asked h;
          h1 = h\<lparr>ho_asked := a + 1,
                 ho_asks := (ho_asks h)(a \<mapsto> \<lparr>ak_kind = kind, ak_tenant = tenant, ak_chat = chat, ak_token = token,
                                               ak_since = length (ho_read h), ak_phase = Presenting (ho_next h)\<rparr>)\<rparr>
      in case kind of
           AskApproval req secs \<Rightarrow>
             start_call ''approval.present'' (Some (approval_present_value tenant chat req token secs))
               (h1\<lparr>ho_approvals := register_slot token a (ho_approvals h)\<rparr>)
         | AskQuestion qs secs \<Rightarrow>
             start_call ''question.present'' (Some (question_present_value tenant chat qs token secs))
               (h1\<lparr>ho_questions := register_slot token a (ho_questions h)\<rparr>))"

definition set_ask :: "nat \<Rightarrow> ask_phase \<Rightarrow> host \<Rightarrow> host" where
  "set_ask a p h = h\<lparr>ho_asks := (ho_asks h)(a := map_option (\<lambda>k. k\<lparr>ak_phase := p\<rparr>) (ho_asks h a))\<rparr>"

definition forget_ask :: "ask \<Rightarrow> host \<Rightarrow> host" where
  "forget_ask k h =
     (case ak_kind k of
        AskApproval _ _ \<Rightarrow> h\<lparr>ho_approvals := snd (take_slot (ak_token k) (ho_approvals h))\<rparr>
      | AskQuestion _ _ \<Rightarrow> h\<lparr>ho_questions := snd (take_slot (ak_token k) (ho_questions h))\<rparr>)"

text \<open>What the callback left for the request, if anything.\<close>

definition ask_result :: "host \<Rightarrow> nat \<Rightarrow> ask \<Rightarrow> ask_phase option" where
  "ask_result h a k =
     (case ak_kind k of
        AskApproval _ _ \<Rightarrow> map_option Decided (ho_decisions h a)
      | AskQuestion _ _ \<Rightarrow> map_option AnsweredWith (ho_answers h a))"

definition ask_registered :: "host \<Rightarrow> nat \<Rightarrow> ask \<Rightarrow> bool" where
  "ask_registered h a k =
     (case ak_kind k of
        AskApproval _ _ \<Rightarrow> ho_approvals h (ak_token k) = Some a
      | AskQuestion _ _ \<Rightarrow> ho_questions h (ak_token k) = Some a)"

text \<open>Giving up: the slot is released, and the plugin is told to finish the card of a question.\<close>

definition give_up :: "nat \<Rightarrow> ask \<Rightarrow> channel_error \<Rightarrow> string \<Rightarrow> host \<Rightarrow> host" where
  "give_up a k err reason h =
     (case ak_kind k of
        AskApproval _ _ \<Rightarrow> set_ask a (AskFailed err) (forget_ask k h)
      | AskQuestion _ _ \<Rightarrow>
          set_ask a (Cancelling (ho_next h) err)
            (start_call ''question.cancel'' (Some (question_cancel_value (ak_tenant k) (ak_chat k) (ak_token k) reason))
              (forget_ask k h)))"

subsection \<open>The state machine\<close>

datatype host_event =
    StartCall string "json option"
  | SendsCall nat | SendFails nat | CallReturns nat | CallTimesOut nat | CallDisconnects nat | DropCall nat
  | WriterWrites | WriterBreaks
  | ReaderReads string | ReaderDelivers | ReaderReplies | ReaderStops
  | InboxTaken | InboxDropped
  | StartAsk ask_kind string string string
  | AskPresented nat | AskSettles nat | AskTimesOut nat | AskDisconnects nat | AskCancelled nat | DropAsk nat
  | ShutDown

inductive host_step :: "host_env \<Rightarrow> host \<Rightarrow> host_event \<Rightarrow> host \<Rightarrow> bool" for env where
  start_call: "host_step env h (StartCall method ps) (start_call method ps h)"
| sends_call: "ho_calls h n = Some c \<Longrightarrow> cl_phase c = Sending \<Longrightarrow> ho_writer h \<Longrightarrow> length (ho_out h) < WRITER_BUFFER
    \<Longrightarrow> host_step env h (SendsCall n) (set_phase n Waiting (h\<lparr>ho_out := ho_out h @ [RequestMsg (cl_request c)]\<rparr>))"
| send_fails: "phase_of h n = Some Sending \<Longrightarrow> \<not> ho_writer h
    \<Longrightarrow> host_step env h (SendFails n) (set_phase n (Done (Inl SendClosed)) (forget_call n h))"
| call_returns: "phase_of h n = Some Waiting \<Longrightarrow> ho_replies h n = Some r
    \<Longrightarrow> host_step env h (CallReturns n) (set_phase n (Done (call_result r)) h)"
| call_times_out: "phase_of h n = Some Waiting \<Longrightarrow> ho_replies h n = None
    \<Longrightarrow> host_step env h (CallTimesOut n) (set_phase n (Done (Inl ChannelTimeout)) (forget_call n h))"
| call_disconnects: "phase_of h n = Some Waiting \<Longrightarrow> ho_replies h n = None \<Longrightarrow> ho_pending h (IdNumber (int n)) \<noteq> Some n
    \<Longrightarrow> host_step env h (CallDisconnects n) (set_phase n (Done (Inl Disconnected)) (forget_call n h))"
| drop_call: "phase_of h n \<in> {Some Sending, Some Waiting} \<Longrightarrow> host_step env h (DropCall n) (set_phase n Dropped h)"
| writer_writes: "ho_out h = m # rest \<Longrightarrow> ho_writer h
    \<Longrightarrow> host_step env h WriterWrites (h\<lparr>ho_out := rest, ho_stdin := ho_stdin h @ [m]\<rparr>)"
| writer_breaks: "ho_out h \<noteq> [] \<Longrightarrow> ho_writer h \<Longrightarrow> host_step env h WriterBreaks (h\<lparr>ho_out := [], ho_writer := False\<rparr>)"
| reader_reads: "ho_reader h = Reading \<Longrightarrow> newline \<notin> set line \<Longrightarrow> host_step env h (ReaderReads line) (on_line env line h)"
| reader_delivers: "ho_reader h = Delivering ev stop \<Longrightarrow> ho_inbox_open h \<Longrightarrow> length (ho_inbox h) < INBOUND_BUFFER
    \<Longrightarrow> host_step env h ReaderDelivers (h\<lparr>ho_inbox := ho_inbox h @ [ev], ho_reader := Reading\<rparr>)"
| reader_delivery_fails: "ho_reader h = Delivering ev stop \<Longrightarrow> \<not> ho_inbox_open h
    \<Longrightarrow> host_step env h ReaderDelivers (h\<lparr>ho_reader := (if stop then ReaderEnded else Reading)\<rparr>)"
| reader_replies: "ho_reader h = Replying r \<Longrightarrow> ho_writer h \<Longrightarrow> length (ho_out h) < WRITER_BUFFER
    \<Longrightarrow> host_step env h ReaderReplies (h\<lparr>ho_out := ho_out h @ [ResponseMsg r], ho_reader := Reading\<rparr>)"
| reader_reply_fails: "ho_reader h = Replying r \<Longrightarrow> \<not> ho_writer h
    \<Longrightarrow> host_step env h ReaderReplies (h\<lparr>ho_reader := ReaderEnded\<rparr>)"
| reader_stops: "ho_reader h = Reading \<Longrightarrow> host_step env h ReaderStops (h\<lparr>ho_reader := ReaderEnded\<rparr>)"
| inbox_taken: "ho_inbox h = ev # rest \<Longrightarrow> ho_inbox_open h
    \<Longrightarrow> host_step env h InboxTaken (h\<lparr>ho_inbox := rest, ho_taken := ho_taken h @ [ev]\<rparr>)"
| inbox_dropped: "ho_inbox_open h \<Longrightarrow> host_step env h InboxDropped (h\<lparr>ho_inbox := [], ho_inbox_open := False\<rparr>)"
| start_ask: "host_step env h (StartAsk kind tenant chat token) (start_ask kind tenant chat token h)"
| ask_accepted: "ho_asks h a = Some k \<Longrightarrow> ak_phase k = Presenting n \<Longrightarrow> phase_of h n = Some (Done (Inr v))
    \<Longrightarrow> host_step env h (AskPresented a) (set_ask a Deciding h)"
| ask_refused: "ho_asks h a = Some k \<Longrightarrow> ak_phase k = Presenting n \<Longrightarrow> phase_of h n = Some (Done (Inl e))
    \<Longrightarrow> host_step env h (AskPresented a) (set_ask a (AskFailed e) (forget_ask k h))"
| ask_settles: "ho_asks h a = Some k \<Longrightarrow> ak_phase k = Deciding \<Longrightarrow> ask_result h a k = Some p
    \<Longrightarrow> host_step env h (AskSettles a) (set_ask a p h)"
| ask_times_out: "ho_asks h a = Some k \<Longrightarrow> ak_phase k = Deciding \<Longrightarrow> ask_result h a k = None
    \<Longrightarrow> host_step env h (AskTimesOut a) (give_up a k ChannelTimeout ''timeout'' h)"
| ask_disconnects: "ho_asks h a = Some k \<Longrightarrow> ak_phase k = Deciding \<Longrightarrow> ask_result h a k = None \<Longrightarrow> \<not> ask_registered h a k
    \<Longrightarrow> host_step env h (AskDisconnects a) (give_up a k Disconnected ''cancelled'' h)"
| ask_cancelled: "ho_asks h a = Some k \<Longrightarrow> ak_phase k = Cancelling n e \<Longrightarrow> phase_of h n = Some (Done r)
    \<Longrightarrow> host_step env h (AskCancelled a) (set_ask a (AskFailed e) h)"
| drop_ask: "ho_asks h a = Some k \<Longrightarrow> ak_phase k = Deciding \<Longrightarrow> host_step env h (DropAsk a) (set_ask a AskDropped h)"
| drop_calling_ask: "ho_asks h a = Some k \<Longrightarrow> ak_phase k \<in> {Presenting n, Cancelling n e} \<Longrightarrow> phase_of h n \<in> {Some Sending, Some Waiting}
    \<Longrightarrow> host_step env h (DropAsk a) (set_ask a AskDropped (set_phase n Dropped h))"
| shut_down: "host_step env h ShutDown (h\<lparr>ho_out := [], ho_writer := False, ho_reader := ReaderEnded\<rparr>)"

inductive host_run :: "host_env \<Rightarrow> host \<Rightarrow> host_event list \<Rightarrow> host \<Rightarrow> bool" for env where
  run_nil: "host_run env h [] h"
| run_snoc: "host_run env h es h1 \<Longrightarrow> host_step env h1 e h2 \<Longrightarrow> host_run env h (es @ [e]) h2"

definition reachable_host :: "host_env \<Rightarrow> host \<Rightarrow> bool" where
  "reachable_host env h \<longleftrightarrow> (\<exists>es. host_run env new_host es h)"

inductive_cases host_step_elims: "host_step env h e h'"

lemmas take_simps = take_slot_def register_slot_def

subsection \<open>Calls get their own answers\<close>

definition heard :: "host \<Rightarrow> nat \<Rightarrow> rpc_message \<Rightarrow> bool" where
  "heard h i m \<longleftrightarrow> m \<in> set (drop i (ho_read h))"

definition answered :: "host \<Rightarrow> nat \<Rightarrow> nat \<Rightarrow> rpc_response \<Rightarrow> bool" where
  "answered h i n r \<longleftrightarrow> heard h i (ResponseMsg r) \<and> rs_id r = IdNumber (int n)"

definition call_ok :: "host \<Rightarrow> nat \<Rightarrow> call \<Rightarrow> bool" where
  "call_ok h n c \<longleftrightarrow> n < ho_next h \<and> cl_since c \<le> length (ho_read h)
     \<and> (cl_phase c \<in> {Sending, Waiting} \<and> ho_replies h n = None \<longrightarrow> ho_pending h (IdNumber (int n)) = Some n)
     \<and> (\<forall>r. ho_replies h n = Some r \<longrightarrow> answered h (cl_since c) n r)
     \<and> (\<forall>res. cl_phase c = Done res \<longrightarrow> res \<in> {Inl SendClosed, Inl ChannelTimeout}
          \<or> (\<exists>r. answered h (cl_since c) n r \<and> res = call_result r))"

definition calls_ok :: "host \<Rightarrow> bool" where
  "calls_ok h \<longleftrightarrow> (\<forall>n c. ho_calls h n = Some c \<longrightarrow> call_ok h n c)
     \<and> (\<forall>i n. ho_pending h i = Some n \<longrightarrow> i = IdNumber (int n) \<and> ho_calls h n \<noteq> None)
     \<and> (\<forall>n. ho_replies h n \<noteq> None \<longrightarrow> ho_calls h n \<noteq> None)"

text \<open>The fields the calls do not depend on.\<close>

lemma calls_ok_other [simp]:
  "calls_ok (h\<lparr>ho_out := a\<rparr>) = calls_ok h" "calls_ok (h\<lparr>ho_writer := b\<rparr>) = calls_ok h"
  "calls_ok (h\<lparr>ho_stdin := a\<rparr>) = calls_ok h" "calls_ok (h\<lparr>ho_reader := r\<rparr>) = calls_ok h"
  "calls_ok (h\<lparr>ho_inbox := i\<rparr>) = calls_ok h" "calls_ok (h\<lparr>ho_inbox_open := b\<rparr>) = calls_ok h"
  "calls_ok (h\<lparr>ho_taken := i\<rparr>) = calls_ok h" "calls_ok (h\<lparr>ho_asked := n\<rparr>) = calls_ok h"
  "calls_ok (h\<lparr>ho_asks := ks\<rparr>) = calls_ok h" "calls_ok (h\<lparr>ho_approvals := reg\<rparr>) = calls_ok h"
  "calls_ok (h\<lparr>ho_questions := reg\<rparr>) = calls_ok h" "calls_ok (h\<lparr>ho_decisions := ds\<rparr>) = calls_ok h"
  "calls_ok (h\<lparr>ho_answers := qs\<rparr>) = calls_ok h" "calls_ok (h\<lparr>ho_tools := ts\<rparr>) = calls_ok h"
  "calls_ok (h\<lparr>ho_commands := cs\<rparr>) = calls_ok h"
  by (simp_all add: calls_ok_def call_ok_def answered_def heard_def)

lemma calls_ok_ask [simp]:
  "calls_ok (set_ask a p h) = calls_ok h" "calls_ok (forget_ask k h) = calls_ok h"
  by (simp_all add: set_ask_def forget_ask_def split: ask_kind.split)

lemma calls_ok_new: "calls_ok new_host"
  by (simp add: calls_ok_def new_host_def)

lemma heard_grows: "heard h i m \<Longrightarrow> heard (h\<lparr>ho_read := ho_read h @ ms\<rparr>) i m"
  by (auto simp: heard_def)

lemma calls_ok_read:
  assumes "calls_ok h"
  shows "calls_ok (h\<lparr>ho_read := ho_read h @ ms\<rparr>)"
proof -
  have "call_ok (h\<lparr>ho_read := ho_read h @ ms\<rparr>) n c" if "call_ok h n c" for n c
    using that heard_grows [of h "cl_since c" _ ms] by (fastforce simp: call_ok_def answered_def)
  with assms show ?thesis by (simp add: calls_ok_def)
qed

lemma calls_ok_start:
  assumes "calls_ok h"
  shows "calls_ok (start_call m ps h)"
proof -
  let ?h = "start_call m ps h" and ?n = "ho_next h"
  have fresh: "ho_calls h ?n = None" using assms by (fastforce simp: calls_ok_def call_ok_def)
  then have r: "ho_replies h ?n = None" using assms by (auto simp: calls_ok_def)
  have "call_ok ?h n c" if "ho_calls ?h n = Some c" for n c
  proof (cases "n = ?n")
    case True
    with that r show ?thesis by (auto simp: start_call_def call_ok_def Let_def take_simps)
  next
    case False
    with that have "call_ok h n c" using assms by (simp add: start_call_def calls_ok_def Let_def)
    with False show ?thesis by (auto simp: start_call_def call_ok_def answered_def heard_def Let_def take_simps)
  qed
  moreover have "ho_pending ?h i = Some n \<Longrightarrow> i = IdNumber (int n) \<and> ho_calls ?h n \<noteq> None" for i n
    using assms by (auto simp: start_call_def calls_ok_def Let_def take_simps split: if_splits)
  moreover have "ho_replies ?h n \<noteq> None \<Longrightarrow> ho_calls ?h n \<noteq> None" for n
    using assms by (auto simp: start_call_def calls_ok_def Let_def)
  ultimately show ?thesis unfolding calls_ok_def by blast
qed

lemma calls_ok_response:
  assumes "calls_ok h" "ResponseMsg r = last (ho_read h)" "ho_read h \<noteq> []" "\<forall>n c. ho_calls h n = Some c \<longrightarrow> cl_since c < length (ho_read h)"
  shows "calls_ok (on_response r h)"
proof (cases "ho_pending h (rs_id r)")
  case (Some m)
  have m: "rs_id r = IdNumber (int m)" "ho_calls h m \<noteq> None" using assms(1) Some by (auto simp: calls_ok_def)
  let ?h = "on_response r h"
  have h': "?h = h\<lparr>ho_pending := (ho_pending h)(rs_id r := None), ho_replies := (ho_replies h)(m \<mapsto> r)\<rparr>"
    using Some by (simp add: on_response_def take_simps)
  have "call_ok ?h n c" if c: "ho_calls h n = Some c" for n c
  proof -
    have ok: "call_ok h n c" using assms(1) c by (simp add: calls_ok_def)
    have "heard h (cl_since c) (ResponseMsg r)"
      using assms(2,3,4) c by (fastforce simp: heard_def intro: last_in_set [of "drop (cl_since c) (ho_read h)"] simp flip: last_drop)
    with ok m(1) show ?thesis by (auto simp: call_ok_def h' answered_def heard_def)
  qed
  moreover have "ho_pending ?h i = Some n \<Longrightarrow> i = IdNumber (int n) \<and> ho_calls ?h n \<noteq> None" for i n
    using assms(1) by (auto simp: calls_ok_def h' split: if_splits)
  moreover have "ho_replies ?h n \<noteq> None \<Longrightarrow> ho_calls ?h n \<noteq> None" for n
    using assms(1) m(2) by (auto simp: calls_ok_def h' split: if_splits)
  ultimately show ?thesis by (simp add: calls_ok_def h')
qed (use assms(1) in \<open>simp add: on_response_def take_simps\<close>)

lemma calls_ok_phase:
  assumes "calls_ok h" "ho_calls h n = Some c"
    and "p \<in> {Sending, Waiting} \<Longrightarrow> cl_phase c \<in> {Sending, Waiting}"
    and "\<And>res. p = Done res \<Longrightarrow> res \<in> {Inl SendClosed, Inl ChannelTimeout} \<or> (\<exists>r. answered h (cl_since c) n r \<and> res = call_result r)"
  shows "calls_ok (set_phase n p h)"
proof -
  have "call_ok (set_phase n p h) m d" if "ho_calls (set_phase n p h) m = Some d" for m d
  proof (cases "m = n")
    case True
    with that assms(2) have d: "d = c\<lparr>cl_phase := p\<rparr>" by (simp add: set_phase_def)
    have "call_ok h n c" using assms(1,2) by (simp add: calls_ok_def)
    with True d assms(3,4) show ?thesis by (auto simp: call_ok_def set_phase_def answered_def heard_def)
  next
    case False
    with that assms(1) have "call_ok h m d" by (simp add: calls_ok_def set_phase_def)
    then show ?thesis by (simp add: call_ok_def set_phase_def answered_def heard_def)
  qed
  with assms(1,2) show ?thesis by (auto simp: calls_ok_def set_phase_def)
qed

lemma calls_ok_forget:
  assumes "calls_ok h" "ho_calls h n = Some c"
    and "\<And>res. p = Done res \<Longrightarrow> res \<in> {Inl SendClosed, Inl ChannelTimeout}" "p \<notin> {Sending, Waiting}"
  shows "calls_ok (set_phase n p (forget_call n h))"
proof -
  let ?h = "set_phase n p (forget_call n h)"
  have "call_ok ?h m d" if "ho_calls ?h m = Some d" for m d
  proof (cases "m = n")
    case True
    with that assms(2) have d: "d = c\<lparr>cl_phase := p\<rparr>" by (simp add: set_phase_def forget_call_def)
    have "call_ok h n c" using assms(1,2) by (simp add: calls_ok_def)
    with True d assms(3,4) show ?thesis by (auto simp: call_ok_def set_phase_def forget_call_def answered_def heard_def)
  next
    case False
    with that assms(1) have "call_ok h m d" by (simp add: calls_ok_def set_phase_def forget_call_def)
    with False show ?thesis by (simp add: call_ok_def set_phase_def forget_call_def answered_def heard_def take_simps)
  qed
  with assms(1,2) show ?thesis by (auto simp: calls_ok_def set_phase_def forget_call_def take_simps split: if_splits)
qed

lemma calls_ok_give_up: "calls_ok h \<Longrightarrow> calls_ok (give_up a k e why h)"
  by (simp add: give_up_def calls_ok_start split: ask_kind.split)

lemma calls_ok_start_ask: "calls_ok h \<Longrightarrow> calls_ok (start_ask kind t c tok h)"
  by (simp add: start_ask_def calls_ok_start Let_def split: ask_kind.split)

lemma calls_ok_line:
  assumes "calls_ok h"
  shows "calls_ok (on_line env line h)"
proof (cases "decode (he_parse env) (he_bad_json env) line")
  case (Inr m)
  let ?h = "h\<lparr>ho_read := ho_read h @ [m]\<rparr>"
  have ok: "calls_ok ?h" by (rule calls_ok_read [OF assms])
  have "calls_ok (on_message env m ?h)"
  proof (cases m)
    case (ResponseMsg r)
    have "cl_since c < length (ho_read ?h)" if "ho_calls ?h n = Some c" for n c
    proof -
      have "call_ok h n c" using assms that by (simp add: calls_ok_def)
      then show ?thesis by (simp add: call_ok_def)
    qed
    then have "calls_ok (on_response r ?h)"
      using ResponseMsg by (intro calls_ok_response [OF ok]) auto
    with ResponseMsg show ?thesis by (simp add: on_message_def)
  next
    case (NotificationMsg n)
    with ok show ?thesis
      by (simp add: on_message_def on_notification_def handle_approval_callback_def handle_question_callback_def
          split: sum.split option.split prod.split)
  next
    case (RequestMsg r)
    with ok show ?thesis by (simp add: on_message_def on_request_def Let_def split: prod.split)
  qed
  with Inr assms show ?thesis by (simp add: on_line_def)
qed (use assms in \<open>simp add: on_line_def\<close>)

lemma phase_ofD: "phase_of h n = Some p \<Longrightarrow> \<exists>c. ho_calls h n = Some c \<and> cl_phase c = p"
  by (auto simp: phase_of_def)

lemma calls_ok_step:
  assumes "host_step env h e h'" "calls_ok h"
  shows "calls_ok h'"
  using assms(1)
proof cases
  case (sends_call n c)
  with assms(2) show ?thesis by (auto intro!: calls_ok_phase [of _ n c])
next
  case (send_fails n)
  with assms(2) show ?thesis by (auto dest!: phase_ofD intro!: calls_ok_forget)
next
  case (call_returns n r)
  then obtain c where c: "ho_calls h n = Some c" "cl_phase c = Waiting" by (auto dest: phase_ofD)
  then have "answered h (cl_since c) n r" using assms(2) call_returns by (simp add: calls_ok_def call_ok_def)
  with call_returns c assms(2) show ?thesis by (auto intro!: calls_ok_phase [of _ n c])
next
  case (call_times_out n)
  with assms(2) show ?thesis by (auto dest!: phase_ofD intro!: calls_ok_forget)
next
  case (call_disconnects n)
  then obtain c where c: "ho_calls h n = Some c" "cl_phase c = Waiting" by (auto dest: phase_ofD)
  then have "ho_pending h (IdNumber (int n)) = Some n" using assms(2) call_disconnects by (simp add: calls_ok_def call_ok_def)
  with call_disconnects show ?thesis by simp
next
  case (drop_call n)
  with assms(2) show ?thesis by (auto dest!: phase_ofD intro!: calls_ok_phase)
next
  case (drop_calling_ask a k n e)
  with assms(2) show ?thesis by (auto dest!: phase_ofD intro!: calls_ok_phase)
qed (use assms(2) in \<open>simp_all add: calls_ok_start calls_ok_line calls_ok_start_ask calls_ok_give_up\<close>)

lemma host_run_induct_inv:
  assumes "host_run env h es h'" "P h" "\<And>h1 e h2. host_step env h1 e h2 \<Longrightarrow> P h1 \<Longrightarrow> P h2"
  shows "P h'"
  using assms by (induction) auto

lemma calls_ok_reachable: "reachable_host env h \<Longrightarrow> calls_ok h"
  unfolding reachable_host_def
  by (auto intro: host_run_induct_inv [where P = calls_ok] calls_ok_new dest: calls_ok_step)

text \<open>C26: A call returns its own answer.  In every reachable state, a call that has ended was refused by a closed
  queue, ran into its timeout, or returns the outcome of a response that carries its number and that the reader
  read after the call began; however many calls are under way and in whatever order the plugin answers.\<close>

theorem call_returns_its_own_response:
  assumes "reachable_host env h" "phase_of h n = Some (Done res)"
  shows "res = Inl SendClosed \<or> res = Inl ChannelTimeout
    \<or> (\<exists>c r. ho_calls h n = Some c \<and> ResponseMsg r \<in> set (drop (cl_since c) (ho_read h))
          \<and> rs_id r = IdNumber (int n) \<and> res = call_result r)"
proof -
  obtain c where c: "ho_calls h n = Some c" "cl_phase c = Done res" using phase_ofD [OF assms(2)] by blast
  then have "call_ok h n c" using calls_ok_reachable [OF assms(1)] by (simp add: calls_ok_def)
  with c show ?thesis by (auto simp: call_ok_def answered_def heard_def)
qed

subsection \<open>Decisions come from the plugin\<close>

definition approved :: "host_env \<Rightarrow> host \<Rightarrow> nat \<Rightarrow> string \<Rightarrow> wire_decision \<Rightarrow> bool" where
  "approved env h i t d \<longleftrightarrow> (\<exists>n p. heard h i (NotificationMsg n) \<and> nt_method n = EVENT_APPROVAL_CALLBACK
     \<and> Option.bind (nt_params n) read_approval_callback = Some p
     \<and> ac_auth p = he_token env \<and> ac_token p = t \<and> ac_decision p = d)"

definition replied :: "host_env \<Rightarrow> host \<Rightarrow> nat \<Rightarrow> string \<Rightarrow> question_callback \<Rightarrow> bool" where
  "replied env h i t p \<longleftrightarrow> (\<exists>n. heard h i (NotificationMsg n) \<and> nt_method n = EVENT_QUESTION_CALLBACK
     \<and> Option.bind (nt_params n) read_question_callback = Some p \<and> qc_auth p = he_token env \<and> qc_token p = t)"

definition ask_ok :: "host_env \<Rightarrow> host \<Rightarrow> nat \<Rightarrow> ask \<Rightarrow> bool" where
  "ask_ok env h a k \<longleftrightarrow> a < ho_asked h \<and> ak_since k \<le> length (ho_read h)
     \<and> (\<forall>d. ho_decisions h a = Some d \<or> ak_phase k = Decided d \<longrightarrow> approved env h (ak_since k) (ak_token k) d)
     \<and> (\<forall>q. ho_answers h a = Some q \<or> ak_phase k = AnsweredWith q \<longrightarrow> replied env h (ak_since k) (ak_token k) q)"

definition registered_ok :: "(string \<rightharpoonup> nat) \<Rightarrow> (nat \<rightharpoonup> ask) \<Rightarrow> (nat \<rightharpoonup> 'r) \<Rightarrow> bool" where
  "registered_ok reg ks rs \<longleftrightarrow>
     (\<forall>t a. reg t = Some a \<longrightarrow> (\<exists>k. ks a = Some k \<and> ak_token k = t) \<and> rs a = None) \<and> (\<forall>a. rs a \<noteq> None \<longrightarrow> ks a \<noteq> None)"

definition asks_ok :: "host_env \<Rightarrow> host \<Rightarrow> bool" where
  "asks_ok env h \<longleftrightarrow> (\<forall>a k. ho_asks h a = Some k \<longrightarrow> ask_ok env h a k)
     \<and> registered_ok (ho_approvals h) (ho_asks h) (ho_decisions h) \<and> registered_ok (ho_questions h) (ho_asks h) (ho_answers h)"

lemmas ask_defs = ask_ok_def approved_def replied_def heard_def

lemma ask_ok_other [simp]:
  "ask_ok env (h\<lparr>ho_approvals := reg\<rparr>) = ask_ok env h" "ask_ok env (h\<lparr>ho_questions := reg\<rparr>) = ask_ok env h"
  "ask_ok env (h\<lparr>ho_asks := ks\<rparr>) = ask_ok env h"
  by (simp_all add: fun_eq_iff ask_defs)

lemma registered_okD:
  "registered_ok reg ks rs \<Longrightarrow> reg t = Some a \<Longrightarrow> \<exists>k. ks a = Some k \<and> ak_token k = t \<and> rs a = None"
  by (auto simp: registered_ok_def)

lemma asks_ok_other [simp]:
  "asks_ok env (h\<lparr>ho_out := a\<rparr>) = asks_ok env h" "asks_ok env (h\<lparr>ho_writer := b\<rparr>) = asks_ok env h"
  "asks_ok env (h\<lparr>ho_stdin := a\<rparr>) = asks_ok env h" "asks_ok env (h\<lparr>ho_reader := r\<rparr>) = asks_ok env h"
  "asks_ok env (h\<lparr>ho_inbox := i\<rparr>) = asks_ok env h" "asks_ok env (h\<lparr>ho_inbox_open := b\<rparr>) = asks_ok env h"
  "asks_ok env (h\<lparr>ho_taken := i\<rparr>) = asks_ok env h" "asks_ok env (h\<lparr>ho_next := n\<rparr>) = asks_ok env h"
  "asks_ok env (h\<lparr>ho_calls := cs\<rparr>) = asks_ok env h" "asks_ok env (h\<lparr>ho_pending := pend\<rparr>) = asks_ok env h"
  "asks_ok env (h\<lparr>ho_replies := rs\<rparr>) = asks_ok env h" "asks_ok env (h\<lparr>ho_tools := ts\<rparr>) = asks_ok env h"
  "asks_ok env (h\<lparr>ho_commands := ms\<rparr>) = asks_ok env h"
  by (simp_all add: asks_ok_def ask_defs)

lemma asks_ok_calls [simp]:
  "asks_ok env (start_call m ps h) = asks_ok env h" "asks_ok env (set_phase n p h) = asks_ok env h"
  "asks_ok env (forget_call n h) = asks_ok env h"
  by (simp_all add: start_call_def set_phase_def forget_call_def Let_def)

lemma asks_ok_new: "asks_ok env new_host"
  by (simp add: asks_ok_def new_host_def registered_ok_def)

lemma asks_ok_read:
  assumes "asks_ok env h"
  shows "asks_ok env (h\<lparr>ho_read := ho_read h @ ms\<rparr>)"
proof -
  have "ask_ok env (h\<lparr>ho_read := ho_read h @ ms\<rparr>) a k" if "ask_ok env h a k" for a k
    using that heard_grows [of h "ak_since k" _ ms] unfolding ask_ok_def approved_def replied_def
    by (simp del: not_None_eq) meson
  with assms show ?thesis by (simp add: asks_ok_def)
qed

lemma registered_ok_set: "registered_ok reg ks rs \<Longrightarrow> registered_ok reg (ks(a := map_option (\<lambda>k. k\<lparr>ak_phase := p\<rparr>) (ks a))) rs"
  by (fastforce simp: registered_ok_def)

lemma registered_ok_forget: "registered_ok reg ks rs \<Longrightarrow> registered_ok (reg(t := None)) ks rs"
  by (auto simp: registered_ok_def)

lemma registered_ok_take:
  assumes "registered_ok reg ks rs" "reg t = Some a"
  shows "registered_ok (reg(t := None)) ks (rs(a \<mapsto> r))"
proof -
  obtain k where k: "ks a = Some k" "ak_token k = t" using assms by (auto simp: registered_ok_def)
  have "(\<exists>k. ks b = Some k \<and> ak_token k = u) \<and> (rs(a \<mapsto> r)) b = None" if "(reg(t := None)) u = Some b" for u b
  proof -
    have u: "u \<noteq> t" "reg u = Some b" using that by (auto split: if_splits)
    then obtain l where l: "ks b = Some l" "ak_token l = u" "rs b = None" using assms(1) by (auto simp: registered_ok_def)
    with k u(1) have "b \<noteq> a" by auto
    with l show ?thesis by simp
  qed
  moreover have "(rs(a \<mapsto> r)) b \<noteq> None \<longrightarrow> ks b \<noteq> None" for b
    using assms(1) k by (auto simp: registered_ok_def)
  ultimately show ?thesis unfolding registered_ok_def by blast
qed

lemma asks_ok_set:
  assumes "asks_ok env h" "ho_asks h a = Some k"
    and "\<And>d. p = Decided d \<Longrightarrow> approved env h (ak_since k) (ak_token k) d"
    and "\<And>q. p = AnsweredWith q \<Longrightarrow> replied env h (ak_since k) (ak_token k) q"
  shows "asks_ok env (set_ask a p h)"
proof -
  have "ask_ok env (set_ask a p h) b l" if b: "ho_asks (set_ask a p h) b = Some l" for b l
  proof (cases "b = a")
    case True
    with b assms(2) have l: "l = k\<lparr>ak_phase := p\<rparr>" by (simp add: set_ask_def)
    have "ask_ok env h a k" using assms(1,2) by (simp add: asks_ok_def)
    with True l assms(3,4) show ?thesis by (auto simp: ask_defs set_ask_def)
  next
    case False
    with b assms(1) have "ask_ok env h b l" by (simp add: asks_ok_def set_ask_def)
    then show ?thesis by (simp add: ask_defs set_ask_def)
  qed
  with assms(1) show ?thesis by (simp add: asks_ok_def set_ask_def registered_ok_set)
qed

lemma asks_ok_forget: "asks_ok env h \<Longrightarrow> asks_ok env (forget_ask k h)"
  by (simp add: forget_ask_def asks_ok_def ask_defs take_simps registered_ok_forget split: ask_kind.split)

lemma asks_forget [simp]: "ho_asks (forget_ask k h) = ho_asks h"
  by (simp add: forget_ask_def split: ask_kind.split)

lemma asks_start [simp]: "ho_asks (start_call m ps h) = ho_asks h"
  by (simp add: start_call_def Let_def)

lemma asks_ok_give_up:
  assumes "asks_ok env h" "ho_asks h a = Some k"
  shows "asks_ok env (give_up a k e why h)"
  using assms by (auto simp: give_up_def intro!: asks_ok_set [where k = k] asks_ok_forget split: ask_kind.split)

lemma asks_ok_start:
  assumes "asks_ok env h"
  shows "asks_ok env (start_ask kind t c tok h)"
proof -
  let ?a = "ho_asked h"
  let ?k = "\<lparr>ak_kind = kind, ak_tenant = t, ak_chat = c, ak_token = tok, ak_since = length (ho_read h),
    ak_phase = Presenting (ho_next h)\<rparr>"
  have fresh: "ho_asks h ?a = None"
    using assms by (cases "ho_asks h ?a") (auto simp: asks_ok_def ask_ok_def)
  then have none: "ho_decisions h ?a = None" "ho_answers h ?a = None"
    using assms by (auto simp: asks_ok_def registered_ok_def)
  have reg: "registered_ok (reg(tok \<mapsto> ?a)) ((ho_asks h)(?a \<mapsto> ?k)) rs \<and> registered_ok reg ((ho_asks h)(?a \<mapsto> ?k)) rs"
    if "registered_ok reg (ho_asks h) rs" "rs ?a = None" for reg and rs :: "nat \<rightharpoonup> 'r"
    using that fresh by (fastforce simp: registered_ok_def)
  let ?h = "h\<lparr>ho_asked := ?a + 1, ho_asks := (ho_asks h)(?a \<mapsto> ?k)\<rparr>"
  have ok: "ask_ok env ?h b k" if b: "ho_asks ?h b = Some k" for b k
  proof (cases "b = ?a")
    case True
    with b none show ?thesis by (auto simp: ask_defs)
  next
    case False
    with b assms have "ask_ok env h b k" by (simp add: asks_ok_def)
    then show ?thesis by (auto simp: ask_defs)
  qed
  have regs: "registered_ok (ho_approvals h) (ho_asks h) (ho_decisions h)" "registered_ok (ho_questions h) (ho_asks h) (ho_answers h)"
    using assms by (simp_all add: asks_ok_def)
  have "asks_ok env (?h\<lparr>ho_approvals := register_slot tok ?a (ho_approvals h)\<rparr>)"
    unfolding asks_ok_def ask_ok_other using ok reg [OF regs(1) none(1)] reg [OF regs(2) none(2)] by (simp add: take_simps)
  moreover have "asks_ok env (?h\<lparr>ho_questions := register_slot tok ?a (ho_questions h)\<rparr>)"
    unfolding asks_ok_def ask_ok_other using ok reg [OF regs(1) none(1)] reg [OF regs(2) none(2)] by (simp add: take_simps)
  ultimately show ?thesis by (cases kind) (simp_all add: start_ask_def Let_def)
qed

lemma heard_last: "i \<le> length (ho_read h) \<Longrightarrow> heard (h\<lparr>ho_read := ho_read h @ [m]\<rparr>) i m"
  by (simp add: heard_def)

lemma deserialized: "deserialize_params why read ps method = Inr p \<Longrightarrow> Option.bind ps read = Some p"
  by (auto simp: deserialize_params_def split: option.splits)

lemma authorised: "check_auth a tok = None \<longleftrightarrow> a = tok"
  by (simp add: check_auth_def)

lemma asks_ok_approval:
  assumes "asks_ok env h" "nt_method n = EVENT_APPROVAL_CALLBACK"
    and "\<forall>a k. ho_asks h a = Some k \<longrightarrow> heard h (ak_since k) (NotificationMsg n)"
  shows "asks_ok env (handle_approval_callback env n h)"
proof (cases "deserialize_params (he_why env) read_approval_callback (nt_params n) (nt_method n)")
  case (Inr p)
  show ?thesis
  proof (cases "ac_auth p = he_token env \<and> (\<exists>a. ho_approvals h (ac_token p) = Some a)")
    case True
    then obtain a where a: "ho_approvals h (ac_token p) = Some a" by blast
    let ?h = "h\<lparr>ho_approvals := (ho_approvals h)(ac_token p := None), ho_decisions := (ho_decisions h)(a \<mapsto> ac_decision p)\<rparr>"
    obtain k0 where k0: "ho_asks h a = Some k0" "ak_token k0 = ac_token p" "ho_decisions h a = None"
      using assms(1) a registered_okD unfolding asks_ok_def by blast
    have "ask_ok env ?h b k" if b: "ho_asks h b = Some k" for b k
    proof -
      have ok: "ask_ok env h b k" using assms(1) b by (simp add: asks_ok_def)
      have "approved env h (ak_since k) (ak_token k) (ac_decision p)" if "b = a"
        using assms(2,3) b that k0 deserialized [OF Inr] True by (auto simp: approved_def)
      with ok show ?thesis by (auto simp: ask_defs split: if_splits)
    qed
    moreover have "registered_ok ((ho_approvals h)(ac_token p := None)) (ho_asks h) ((ho_decisions h)(a \<mapsto> ac_decision p))"
      using assms(1) a unfolding asks_ok_def by (blast intro: registered_ok_take)
    ultimately have "asks_ok env ?h" using assms(1) by (simp add: asks_ok_def)
    with Inr True a show ?thesis by (simp add: handle_approval_callback_def authorised take_simps)
  qed (use Inr assms(1) in \<open>auto simp: handle_approval_callback_def authorised take_simps split: option.split\<close>)
qed (use assms(1) in \<open>simp add: handle_approval_callback_def\<close>)

lemma asks_ok_question:
  assumes "asks_ok env h" "nt_method n = EVENT_QUESTION_CALLBACK"
    and "\<forall>a k. ho_asks h a = Some k \<longrightarrow> heard h (ak_since k) (NotificationMsg n)"
  shows "asks_ok env (handle_question_callback env n h)"
proof (cases "deserialize_params (he_why env) read_question_callback (nt_params n) (nt_method n)")
  case (Inr p)
  show ?thesis
  proof (cases "qc_auth p = he_token env \<and> (\<exists>a. ho_questions h (qc_token p) = Some a)")
    case True
    then obtain a where a: "ho_questions h (qc_token p) = Some a" by blast
    let ?h = "h\<lparr>ho_questions := (ho_questions h)(qc_token p := None), ho_answers := (ho_answers h)(a \<mapsto> p)\<rparr>"
    obtain k0 where k0: "ho_asks h a = Some k0" "ak_token k0 = qc_token p" "ho_answers h a = None"
      using assms(1) a registered_okD unfolding asks_ok_def by blast
    have "ask_ok env ?h b k" if b: "ho_asks h b = Some k" for b k
    proof -
      have ok: "ask_ok env h b k" using assms(1) b by (simp add: asks_ok_def)
      have "replied env h (ak_since k) (ak_token k) p" if "b = a"
        using assms(2,3) b that k0 deserialized [OF Inr] True by (auto simp: replied_def)
      with ok show ?thesis by (auto simp: ask_defs split: if_splits)
    qed
    moreover have "registered_ok ((ho_questions h)(qc_token p := None)) (ho_asks h) ((ho_answers h)(a \<mapsto> p))"
      using assms(1) a unfolding asks_ok_def by (blast intro: registered_ok_take)
    ultimately have "asks_ok env ?h" using assms(1) by (simp add: asks_ok_def)
    with Inr True a show ?thesis by (simp add: handle_question_callback_def authorised take_simps)
  qed (use Inr assms(1) in \<open>auto simp: handle_question_callback_def authorised take_simps split: option.split\<close>)
qed (use assms(1) in \<open>simp add: handle_question_callback_def\<close>)

lemma asks_ok_line:
  assumes "asks_ok env h"
  shows "asks_ok env (on_line env line h)"
proof (cases "decode (he_parse env) (he_bad_json env) line")
  case (Inr m)
  let ?h = "h\<lparr>ho_read := ho_read h @ [m]\<rparr>"
  have ok: "asks_ok env ?h" by (rule asks_ok_read [OF assms])
  have new: "\<forall>a k. ho_asks ?h a = Some k \<longrightarrow> heard ?h (ak_since k) m"
    using assms heard_last by (auto simp: asks_ok_def ask_ok_def)
  have "asks_ok env (on_message env m ?h)"
  proof (cases m)
    case (ResponseMsg r)
    with ok show ?thesis by (simp add: on_message_def on_response_def split: option.split prod.split)
  next
    case (NotificationMsg n)
    with ok new asks_ok_approval [of env ?h n] asks_ok_question [of env ?h n] show ?thesis
      by (auto simp: on_message_def on_notification_def split: sum.split)
  next
    case (RequestMsg r)
    with ok show ?thesis by (simp add: on_message_def on_request_def Let_def split: prod.split)
  qed
  with Inr assms show ?thesis by (simp add: on_line_def)
qed (use assms in \<open>simp add: on_line_def\<close>)

lemma asks_ok_step:
  assumes "host_step env h e h'" "asks_ok env h"
  shows "asks_ok env h'"
  using assms(1)
proof cases
  case (ask_settles a k p)
  have k: "ask_ok env h a k" using assms(2) ask_settles by (simp add: asks_ok_def)
  show ?thesis
    unfolding ask_settles(2)
    by (rule asks_ok_set [OF assms(2) ask_settles(3)])
      (use k ask_settles(5) in \<open>auto simp: ask_ok_def ask_result_def split: ask_kind.splits\<close>)
next
  case (ask_accepted a k n v)
  with assms(2) show ?thesis by (auto intro!: asks_ok_set)
next
  case (ask_refused a k n e)
  with assms(2) show ?thesis by (auto intro!: asks_ok_set [where k = k] asks_ok_forget)
next
  case (ask_cancelled a k n e r)
  with assms(2) show ?thesis by (auto intro!: asks_ok_set)
next
  case (drop_ask a k)
  with assms(2) show ?thesis by (auto intro!: asks_ok_set)
next
  case (drop_calling_ask a k n e)
  with assms(2) show ?thesis by (auto intro!: asks_ok_set [where k = k] simp: set_phase_def)
qed (use assms(2) in \<open>simp_all add: asks_ok_start asks_ok_line asks_ok_give_up\<close>)

lemma asks_ok_reachable: "reachable_host env h \<Longrightarrow> asks_ok env h"
  unfolding reachable_host_def
  by (auto intro: host_run_induct_inv [where P = "asks_ok env"] asks_ok_new dest: asks_ok_step)

text \<open>C25: Only the plugin decides.  In every reachable state, the decision an approval request returned was carried by
  a notification that the reader read after the request began, with the plugin's authentication token and the
  callback token generated for this request; the same holds of the answer to a question.\<close>

theorem decisions_are_authentic:
  assumes "reachable_host env h" "ho_asks h a = Some k" "ak_phase k = Decided d \<or> ak_phase k = AnsweredWith q"
  shows "\<exists>n. NotificationMsg n \<in> set (drop (ak_since k) (ho_read h))
    \<and> (ak_phase k = Decided d \<longrightarrow> nt_method n = EVENT_APPROVAL_CALLBACK
         \<and> (\<exists>p. Option.bind (nt_params n) read_approval_callback = Some p \<and> ac_auth p = he_token env
              \<and> ac_token p = ak_token k \<and> ac_decision p = d))
    \<and> (ak_phase k = AnsweredWith q \<longrightarrow> nt_method n = EVENT_QUESTION_CALLBACK
         \<and> Option.bind (nt_params n) read_question_callback = Some q \<and> qc_auth q = he_token env \<and> qc_token q = ak_token k)"
proof -
  have "ask_ok env h a k" using asks_ok_reachable [OF assms(1)] assms(2) by (simp add: asks_ok_def)
  with assms(3) show ?thesis by (fastforce simp: ask_ok_def approved_def replied_def heard_def)
qed

subsection \<open>What reaches the dispatcher\<close>

fun auth_of :: "json \<Rightarrow> string option" where
  "auth_of (JObject kvs) = json_str (map_of kvs ''auth'')"
| "auth_of (JArray (JString s # vs)) = Some s"
| "auth_of _ = None"

lemma auth_field:
  "as_fields (''auth'' # ns) v = Some m \<Longrightarrow> string_at m ''auth'' = Some a \<Longrightarrow> auth_of v = Some a"
  by (cases v rule: auth_of.cases) (auto simp: as_fields_def string_at_def split: if_splits option.splits json.splits)

lemma reader_auth:
  "read_received v = Some p1 \<Longrightarrow> auth_of v = Some (mr_auth p1)"
  "read_recalled v = Some p2 \<Longrightarrow> auth_of v = Some (ml_auth p2)"
  "read_approval_callback v = Some p3 \<Longrightarrow> auth_of v = Some (ac_auth p3)"
  "read_question_callback v = Some p4 \<Longrightarrow> auth_of v = Some (qc_auth p4)"
  "read_log_write v = Some p5 \<Longrightarrow> auth_of v = Some (lw_auth p5)"
  "read_tool_advertise v = Some p6 \<Longrightarrow> auth_of v = Some (ta_auth p6)"
  "read_command_advertise v = Some p7 \<Longrightarrow> auth_of v = Some (ca_auth p7)"
  by (auto simp: read_received_def read_recalled_def read_approval_callback_def read_question_callback_def
      read_log_write_def read_tool_advertise_def read_command_advertise_def split: bind_splits intro: auth_field)

lemma checked_ok:
  assumes "checked why tok read auth event n = Inr e" "\<And>v p. read v = Some p \<Longrightarrow> auth_of v = Some (auth p)"
  shows "\<exists>v. nt_params n = Some v \<and> auth_of v = Some tok"
  using assms by (auto simp: checked_def deserialize_params_def check_auth_def split: sum.splits option.splits if_splits)

text \<open>Every event but an unknown method carries the token.\<close>

lemma parse_inbound_auth:
  assumes "parse_inbound why tok n = Inr e" "tok \<noteq> []"
  shows "(\<exists>m ps. e = UnknownMethod m ps) \<or> (\<exists>v. nt_params n = Some v \<and> auth_of v = Some tok)"
proof (cases "nt_method n = EVENT_ERROR")
  case True
  then have "check_auth (or_else (json_str (json_get (or_null (nt_params n)) ''auth'')) []) tok = None"
    using assms(1) by (auto simp: parse_inbound_def method_defs Let_def split: option.splits)
  then have "json_str (json_get (or_null (nt_params n)) ''auth'') = Some tok"
    using assms(2) by (auto simp: authorised or_else_def split: option.splits)
  then obtain kvs where "nt_params n = Some (JObject kvs)" "json_str (map_of kvs ''auth'') = Some tok"
    by (cases "or_null (nt_params n)") (auto simp: or_null_def split: option.splits)
  then show ?thesis by simp
next
  case False
  with assms(1) show ?thesis
    by (auto simp: parse_inbound_def split: if_splits dest!: checked_ok reader_auth)
qed

definition vouched :: "host_env \<Rightarrow> host \<Rightarrow> inbound_event \<Rightarrow> bool" where
  "vouched env h e \<longleftrightarrow> (\<exists>n. NotificationMsg n \<in> set (ho_read h) \<and> parse_inbound (he_why env) (he_token env) n = Inr e)"

definition in_hand :: "reader_phase \<Rightarrow> inbound_event list" where
  "in_hand r = (case r of Delivering e _ \<Rightarrow> [e] | _ \<Rightarrow> [])"

definition doors_ok :: "host_env \<Rightarrow> host \<Rightarrow> bool" where
  "doors_ok env h \<longleftrightarrow> (\<forall>e \<in> set (ho_taken h @ ho_inbox h @ in_hand (ho_reader h)). vouched env h e)
     \<and> (\<forall>name p. ho_tools h name = Some p \<longrightarrow> ta_auth p = he_token env \<and> ta_name p = name)
     \<and> (\<forall>name p. ho_commands h name = Some p \<longrightarrow> ca_auth p = he_token env \<and> ca_name p = name)
     \<and> length (ho_out h) \<le> WRITER_BUFFER \<and> length (ho_inbox h) \<le> INBOUND_BUFFER"

lemma doors_ok_other [simp]:
  "doors_ok env (h\<lparr>ho_writer := b\<rparr>) = doors_ok env h" "doors_ok env (h\<lparr>ho_stdin := a\<rparr>) = doors_ok env h"
  "doors_ok env (h\<lparr>ho_inbox_open := b\<rparr>) = doors_ok env h" "doors_ok env (h\<lparr>ho_asked := n\<rparr>) = doors_ok env h"
  "doors_ok env (h\<lparr>ho_asks := ks\<rparr>) = doors_ok env h" "doors_ok env (h\<lparr>ho_approvals := reg\<rparr>) = doors_ok env h"
  "doors_ok env (h\<lparr>ho_questions := reg\<rparr>) = doors_ok env h" "doors_ok env (h\<lparr>ho_decisions := ds\<rparr>) = doors_ok env h"
  "doors_ok env (h\<lparr>ho_answers := qs\<rparr>) = doors_ok env h" "doors_ok env (h\<lparr>ho_next := n\<rparr>) = doors_ok env h"
  "doors_ok env (h\<lparr>ho_calls := cs\<rparr>) = doors_ok env h" "doors_ok env (h\<lparr>ho_pending := pend\<rparr>) = doors_ok env h"
  "doors_ok env (h\<lparr>ho_replies := rs\<rparr>) = doors_ok env h"
  by (simp_all add: doors_ok_def vouched_def)

lemma doors_ok_ops [simp]:
  "doors_ok env (start_call m ps h) = doors_ok env h" "doors_ok env (set_phase n p h) = doors_ok env h"
  "doors_ok env (forget_call n h) = doors_ok env h" "doors_ok env (set_ask a q h) = doors_ok env h"
  "doors_ok env (forget_ask k h) = doors_ok env h" "doors_ok env (on_response r h) = doors_ok env h"
  "doors_ok env (start_ask kind t c tok h) = doors_ok env h" "doors_ok env (give_up a k err why h) = doors_ok env h"
  by (simp_all add: start_call_def set_phase_def forget_call_def set_ask_def forget_ask_def on_response_def Let_def
      start_ask_def give_up_def split: ask_kind.split option.split prod.split)

lemma doors_ok_new: "doors_ok env new_host"
  by (simp add: doors_ok_def new_host_def in_hand_def)

lemma doors_ok_read: "doors_ok env h \<Longrightarrow> doors_ok env (h\<lparr>ho_read := ho_read h @ ms\<rparr>)"
  by (auto simp: doors_ok_def vouched_def)

lemma doors_ok_reader: "doors_ok env h \<Longrightarrow> in_hand r = [] \<Longrightarrow> doors_ok env (h\<lparr>ho_reader := r\<rparr>)"
  by (auto simp: doors_ok_def vouched_def)

lemma doors_ok_deliver:
  "doors_ok env h \<Longrightarrow> NotificationMsg n \<in> set (ho_read h) \<Longrightarrow> parse_inbound (he_why env) (he_token env) n = Inr e
    \<Longrightarrow> doors_ok env (h\<lparr>ho_reader := Delivering e b\<rparr>)"
  by (auto simp: doors_ok_def vouched_def in_hand_def)

lemma callback_parses:
  "nt_method n = EVENT_APPROVAL_CALLBACK \<Longrightarrow> deserialize_params why read_approval_callback (nt_params n) (nt_method n) = Inr p
    \<Longrightarrow> ac_auth p = tok \<Longrightarrow> parse_inbound why tok n = Inr (ApprovalClicked p)"
  "nt_method n = EVENT_QUESTION_CALLBACK \<Longrightarrow> deserialize_params why read_question_callback (nt_params n) (nt_method n) = Inr q
    \<Longrightarrow> qc_auth q = tok \<Longrightarrow> parse_inbound why tok n = Inr (QuestionClicked q)"
  by (simp_all add: parse_inbound_def checked_def check_auth_def method_defs)

lemma doors_ok_notification:
  assumes "doors_ok env h" "NotificationMsg n \<in> set (ho_read h)"
  shows "doors_ok env (on_notification env n h)"
proof -
  have "doors_ok env (handle_approval_callback env n h)" if "nt_method n = EVENT_APPROVAL_CALLBACK"
    using assms that callback_parses(1) [OF that]
    by (auto simp: handle_approval_callback_def authorised intro: doors_ok_deliver split: sum.split option.split prod.split)
  moreover have "doors_ok env (handle_question_callback env n h)" if "nt_method n = EVENT_QUESTION_CALLBACK"
    using assms that callback_parses(2) [OF that]
    by (auto simp: handle_question_callback_def authorised intro: doors_ok_deliver split: sum.split option.split prod.split)
  ultimately show ?thesis
    using assms by (auto simp: on_notification_def intro: doors_ok_deliver split: sum.split)
qed

lemma advertised_store:
  "advertised why tok m read auth name req store = (r, store')
    \<Longrightarrow> store' = store \<or> (\<exists>p. auth p = tok \<and> store' = store(name p \<mapsto> p))"
  by (auto simp: advertised_def check_auth_def split: sum.splits if_splits)

lemma doors_ok_request:
  assumes "doors_ok env h"
  shows "doors_ok env (on_request env r h)"
proof -
  obtain resp tools where t: "handle_tool_advertise (he_why env) (he_token env) r (ho_tools h) = (resp, tools)" by fastforce
  obtain resp' commands where c: "handle_command_advertise (he_why env) (he_token env) r (ho_commands h) = (resp', commands)" by fastforce
  have tools: "doors_ok env (h\<lparr>ho_tools := tools, ho_reader := Replying resp\<rparr>)"
    using assms advertised_store [OF t [unfolded handle_tool_advertise_def]]
    by (auto simp: doors_ok_def vouched_def in_hand_def split: if_splits)
  have commands: "doors_ok env (h\<lparr>ho_commands := commands, ho_reader := Replying resp'\<rparr>)"
    using assms advertised_store [OF c [unfolded handle_command_advertise_def]]
    by (auto simp: doors_ok_def vouched_def in_hand_def split: if_splits)
  have other: "doors_ok env (h\<lparr>ho_reader := Replying x\<rparr>)" for x
    using assms by (simp add: doors_ok_reader in_hand_def)
  show ?thesis
    using tools commands other by (simp add: on_request_def t c)
qed

lemma doors_ok_line:
  assumes "doors_ok env h"
  shows "doors_ok env (on_line env line h)"
proof (cases "decode (he_parse env) (he_bad_json env) line")
  case (Inl e)
  with assms show ?thesis by (simp add: on_line_def doors_ok_reader in_hand_def)
next
  case (Inr m)
  let ?h = "h\<lparr>ho_read := ho_read h @ [m]\<rparr>"
  have ok: "doors_ok env ?h" by (rule doors_ok_read [OF assms])
  have "doors_ok env (on_message env m ?h)"
  proof (cases m)
    case (NotificationMsg n)
    with ok doors_ok_notification [of env ?h n] show ?thesis by (simp add: on_message_def)
  qed (use ok in \<open>simp_all add: on_message_def doors_ok_request\<close>)
  with Inr assms show ?thesis by (simp add: on_line_def doors_ok_reader in_hand_def)
qed

lemma doors_ok_step:
  assumes "host_step env h e h'" "doors_ok env h"
  shows "doors_ok env h'"
  using assms(1)
proof cases
  case (sends_call n c)
  have "doors_ok env (h\<lparr>ho_out := ho_out h @ [RequestMsg (cl_request c)]\<rparr>)"
    using assms(2) sends_call by (auto simp: doors_ok_def vouched_def)
  with sends_call show ?thesis by simp
next
  case (writer_writes m rest)
  with assms(2) show ?thesis by (auto simp: doors_ok_def vouched_def)
next
  case (writer_breaks)
  with assms(2) show ?thesis by (auto simp: doors_ok_def vouched_def)
next
  case (reader_delivers ev stop)
  with assms(2) show ?thesis by (auto simp: doors_ok_def vouched_def in_hand_def)
next
  case (reader_replies r)
  with assms(2) show ?thesis by (auto simp: doors_ok_def vouched_def in_hand_def)
next
  case (inbox_taken ev rest)
  with assms(2) show ?thesis by (auto simp: doors_ok_def vouched_def)
next
  case (inbox_dropped)
  with assms(2) show ?thesis by (auto simp: doors_ok_def vouched_def)
next
  case (shut_down)
  with assms(2) show ?thesis by (auto simp: doors_ok_def vouched_def in_hand_def)
qed (use assms(2) in \<open>simp_all add: doors_ok_line doors_ok_reader in_hand_def\<close>)

lemma doors_ok_reachable: "reachable_host env h \<Longrightarrow> doors_ok env h"
  unfolding reachable_host_def
  by (auto intro: host_run_induct_inv [where P = "doors_ok env"] doors_ok_new dest: doors_ok_step)

text \<open>C27: Nothing gets in without the token.  Whatever the plugin writes, every event in the inbox or taken by the
  dispatcher is the reading of a notification whose parameters carry the plugin's token, a notification of
  an unknown method aside, which is only logged; the tools and commands on offer were advertised with
  the token; and neither queue is ever longer than its buffer.\<close>

theorem nothing_enters_without_token:
  assumes "reachable_host env h" "he_token env \<noteq> []"
  shows "(\<forall>e \<in> set (ho_taken h @ ho_inbox h). (\<exists>m ps. e = UnknownMethod m ps)
        \<or> (\<exists>n v. NotificationMsg n \<in> set (ho_read h) \<and> nt_params n = Some v \<and> auth_of v = Some (he_token env)
             \<and> parse_inbound (he_why env) (he_token env) n = Inr e))
    \<and> (\<forall>p \<in> ran (ho_tools h). ta_auth p = he_token env) \<and> (\<forall>p \<in> ran (ho_commands h). ca_auth p = he_token env)
    \<and> length (ho_inbox h) \<le> INBOUND_BUFFER \<and> length (ho_out h) \<le> WRITER_BUFFER"
proof -
  have ok: "doors_ok env h" by (rule doors_ok_reachable [OF assms(1)])
  have "(\<exists>m ps. e = UnknownMethod m ps)
        \<or> (\<exists>n v. NotificationMsg n \<in> set (ho_read h) \<and> nt_params n = Some v \<and> auth_of v = Some (he_token env)
             \<and> parse_inbound (he_why env) (he_token env) n = Inr e)" if "e \<in> set (ho_taken h @ ho_inbox h)" for e
  proof -
    have "vouched env h e" using ok that by (auto simp: doors_ok_def)
    then show ?thesis using parse_inbound_auth [OF _ assms(2)] unfolding vouched_def by blast
  qed
  with ok show ?thesis by (auto simp: doors_ok_def ran_def)
qed

subsection \<open>Waiting without an answer\<close>

lemma replies_ops [simp]:
  "ho_replies (start_call m ps h) = ho_replies h" "ho_replies (set_phase n p h) = ho_replies h"
  "ho_replies (forget_call n h) = ho_replies h" "ho_replies (set_ask a q h) = ho_replies h"
  "ho_replies (forget_ask k h) = ho_replies h" "ho_replies (start_ask kind t c tok h) = ho_replies h"
  "ho_replies (give_up a k err why h) = ho_replies h"
  by (simp_all add: start_call_def set_phase_def forget_call_def set_ask_def forget_ask_def Let_def
      start_ask_def give_up_def split: ask_kind.split)

lemma reader_ops [simp]:
  "ho_reader (start_call m ps h) = ho_reader h" "ho_reader (set_phase n p h) = ho_reader h"
  "ho_reader (forget_call n h) = ho_reader h" "ho_reader (set_ask a q h) = ho_reader h"
  "ho_reader (forget_ask k h) = ho_reader h" "ho_reader (start_ask kind t c tok h) = ho_reader h"
  "ho_reader (give_up a k err why h) = ho_reader h"
  by (simp_all add: start_call_def set_phase_def forget_call_def set_ask_def forget_ask_def Let_def
      start_ask_def give_up_def split: ask_kind.split)

lemma queues_ops [simp]:
  "ho_inbox (start_call m ps h) = ho_inbox h" "ho_inbox (set_phase n p h) = ho_inbox h"
  "ho_inbox (forget_call n h) = ho_inbox h" "ho_inbox (set_ask a q h) = ho_inbox h"
  "ho_inbox (forget_ask k h) = ho_inbox h" "ho_inbox (start_ask kind t c tok h) = ho_inbox h"
  "ho_inbox (give_up a k err why h) = ho_inbox h"
  "ho_inbox_open (start_call m ps h) = ho_inbox_open h" "ho_inbox_open (set_phase n p h) = ho_inbox_open h"
  "ho_inbox_open (forget_call n h) = ho_inbox_open h" "ho_inbox_open (set_ask a q h) = ho_inbox_open h"
  "ho_inbox_open (forget_ask k h) = ho_inbox_open h" "ho_inbox_open (start_ask kind t c tok h) = ho_inbox_open h"
  "ho_inbox_open (give_up a k err why h) = ho_inbox_open h"
  "ho_out (start_call m ps h) = ho_out h" "ho_out (set_phase n p h) = ho_out h"
  "ho_out (forget_call n h) = ho_out h" "ho_out (set_ask a q h) = ho_out h"
  "ho_out (forget_ask k h) = ho_out h" "ho_out (start_ask kind t c tok h) = ho_out h"
  "ho_out (give_up a k err why h) = ho_out h"
  "ho_writer (start_call m ps h) = ho_writer h" "ho_writer (set_phase n p h) = ho_writer h"
  "ho_writer (forget_call n h) = ho_writer h" "ho_writer (set_ask a q h) = ho_writer h"
  "ho_writer (forget_ask k h) = ho_writer h" "ho_writer (start_ask kind t c tok h) = ho_writer h"
  "ho_writer (give_up a k err why h) = ho_writer h"
  by (simp_all add: start_call_def set_phase_def forget_call_def set_ask_def forget_ask_def Let_def
      start_ask_def give_up_def split: ask_kind.split)

lemma phase_other [simp]:
  "phase_of (h\<lparr>ho_out := a\<rparr>) = phase_of h" "phase_of (h\<lparr>ho_writer := b\<rparr>) = phase_of h"
  "phase_of (h\<lparr>ho_stdin := a\<rparr>) = phase_of h" "phase_of (h\<lparr>ho_reader := r\<rparr>) = phase_of h"
  "phase_of (h\<lparr>ho_read := a\<rparr>) = phase_of h" "phase_of (h\<lparr>ho_inbox := i\<rparr>) = phase_of h"
  "phase_of (h\<lparr>ho_inbox_open := b\<rparr>) = phase_of h" "phase_of (h\<lparr>ho_taken := i\<rparr>) = phase_of h"
  "phase_of (h\<lparr>ho_asked := m\<rparr>) = phase_of h" "phase_of (h\<lparr>ho_asks := ks\<rparr>) = phase_of h"
  "phase_of (h\<lparr>ho_approvals := reg\<rparr>) = phase_of h" "phase_of (h\<lparr>ho_questions := reg\<rparr>) = phase_of h"
  "phase_of (set_ask x q h) = phase_of h" "phase_of (forget_ask k h) = phase_of h" "phase_of (forget_call m h) = phase_of h"
  by (auto simp: phase_of_def fun_eq_iff set_ask_def forget_ask_def forget_call_def split: ask_kind.split)

lemma phase_set: "phase_of (set_phase m p h) n = (if n = m then map_option (\<lambda>_. p) (phase_of h n) else phase_of h n)"
  by (cases "ho_calls h n") (auto simp: phase_of_def set_phase_def)

lemma phase_start: "n < ho_next h \<Longrightarrow> phase_of (start_call m ps h) n = phase_of h n"
  by (auto simp: phase_of_def start_call_def Let_def)

lemma next_forget [simp]: "ho_next (forget_ask k h) = ho_next h"
  by (simp add: forget_ask_def split: ask_kind.split)

lemma phase_start_ask: "n < ho_next h \<Longrightarrow> phase_of (start_ask kind t c tok h) n = phase_of h n"
  by (simp add: start_ask_def Let_def phase_start split: ask_kind.split)

lemma phase_give_up: "n < ho_next h \<Longrightarrow> phase_of (give_up a k e why h) n = phase_of h n"
  by (simp add: give_up_def phase_start split: ask_kind.split)

lemma known_call: "calls_ok h \<Longrightarrow> phase_of h n = Some p \<Longrightarrow> n < ho_next h"
  by (auto simp: phase_of_def calls_ok_def call_ok_def)

definition unanswered :: "host \<Rightarrow> nat \<Rightarrow> bool" where
  "unanswered h n \<longleftrightarrow> ho_replies h n = None \<and> phase_of h n \<in> {Some Waiting, Some (Done (Inl ChannelTimeout)), Some Dropped}"

lemma unanswered_step:
  assumes "host_step env h e h'" "calls_ok h" "unanswered h n" "\<forall>l. e \<noteq> ReaderReads l"
  shows "unanswered h' n"
proof -
  have n: "n < ho_next h" using assms(2,3) known_call by (auto simp: unanswered_def)
  have pend: "ho_pending h (IdNumber (int n)) = Some n" if "phase_of h n = Some Waiting"
    using assms(2,3) phase_ofD [OF that] by (auto simp: unanswered_def calls_ok_def call_ok_def)
  show ?thesis
    using assms(1)
  proof cases
    case (sends_call m c)
    then have "phase_of h m = Some Sending" by (simp add: phase_of_def)
    with sends_call assms(3) show ?thesis by (auto simp: unanswered_def phase_set)
  next
    case (call_disconnects m)
    with assms(3) pend show ?thesis by (auto simp: unanswered_def phase_set)
  qed (use assms(3,4) n in \<open>auto simp: unanswered_def phase_set phase_start phase_start_ask phase_give_up\<close>)
qed

lemma run_inv_guarded:
  assumes "host_run env h es h'" "P h" "\<And>h1 e h2. e \<in> set es \<Longrightarrow> host_step env h1 e h2 \<Longrightarrow> P h1 \<Longrightarrow> P h2"
  shows "P h'"
  using assms by (induction) auto

text \<open>A dead plugin costs the whole timeout.  Once the reader has ended, a call that waits can only run into its
  timeout: that the plugin has gone is never reported, because the pending table still holds the sender.\<close>

theorem dead_plugin_costs_timeout:
  assumes "reachable_host env h" "ho_reader h = ReaderEnded" "phase_of h n = Some Waiting" "ho_replies h n = None"
    and "host_run env h es h'"
  shows "phase_of h' n \<in> {Some Waiting, Some (Done (Inl ChannelTimeout)), Some Dropped} \<and> ho_reader h' = ReaderEnded"
proof -
  let ?P = "\<lambda>h. calls_ok h \<and> ho_reader h = ReaderEnded \<and> unanswered h n"
  have "?P h'"
  proof (rule host_run_induct_inv [OF assms(5), where P = ?P])
    show "?P h" using assms calls_ok_reachable by (simp add: unanswered_def)
  next
    fix h1 e h2 assume st: "host_step env h1 e h2" and P: "?P h1"
    have "\<forall>l. e \<noteq> ReaderReads l" using st P by (auto elim: host_step.cases)
    moreover have "ho_reader h2 = ReaderEnded" using st P by cases simp_all
    ultimately show "?P h2" using st P calls_ok_step unanswered_step by blast
  qed
  then show ?thesis by (simp add: unanswered_def)
qed

text \<open>A full inbox blocks the answers.  While the reader holds an event for a full inbox and the dispatcher takes
  nothing, as when it awaits the acknowledgement of an earlier event, no call gets its answer: each that waits,
  the acknowledgement included, runs into its timeout.\<close>

theorem full_inbox_blocks_answers:
  assumes "reachable_host env h" "ho_reader h = Delivering ev b" "ho_inbox_open h" "length (ho_inbox h) = INBOUND_BUFFER"
    and "phase_of h n = Some Waiting" "ho_replies h n = None"
    and "host_run env h es h'" "InboxTaken \<notin> set es" "InboxDropped \<notin> set es"
  shows "phase_of h' n \<in> {Some Waiting, Some (Done (Inl ChannelTimeout)), Some Dropped}"
proof -
  let ?P = "\<lambda>h. calls_ok h \<and> unanswered h n \<and> ((\<exists>ev b. ho_reader h = Delivering ev b) \<or> ho_reader h = ReaderEnded)
    \<and> ho_inbox_open h \<and> length (ho_inbox h) = INBOUND_BUFFER"
  have "?P h'"
  proof (rule run_inv_guarded [OF assms(7), where P = ?P])
    show "?P h" using assms calls_ok_reachable by (simp add: unanswered_def)
  next
    fix h1 e h2 assume e: "e \<in> set es" and st: "host_step env h1 e h2" and P: "?P h1"
    have "\<forall>l. e \<noteq> ReaderReads l" using st P by (auto elim: host_step.cases)
    then have "unanswered h2 n" "calls_ok h2" using st P calls_ok_step unanswered_step by blast+
    moreover have "((\<exists>ev b. ho_reader h2 = Delivering ev b) \<or> ho_reader h2 = ReaderEnded)
        \<and> ho_inbox_open h2 \<and> length (ho_inbox h2) = INBOUND_BUFFER"
      using st P e assms(8,9) by cases auto
    ultimately show "?P h2" by blast
  qed
  then show ?thesis by (simp add: unanswered_def)
qed

text \<open>Queueing is outside the timeout.  A call that finds the queue to the plugin full waits, without any
  timeout, until the writer moves: if the plugin does not read its input, the call never returns.\<close>

theorem blocked_send_has_no_timeout:
  assumes "reachable_host env h" "phase_of h n = Some Sending" "ho_writer h" "length (ho_out h) = WRITER_BUFFER"
    and "host_run env h es h'" "WriterWrites \<notin> set es" "WriterBreaks \<notin> set es" "ShutDown \<notin> set es"
  shows "phase_of h' n \<in> {Some Sending, Some Dropped}"
proof -
  let ?P = "\<lambda>h. calls_ok h \<and> phase_of h n \<in> {Some Sending, Some Dropped} \<and> ho_writer h \<and> length (ho_out h) = WRITER_BUFFER"
  have "?P h'"
  proof (rule run_inv_guarded [OF assms(5), where P = ?P])
    show "?P h" using assms calls_ok_reachable by simp
  next
    fix h1 e h2 assume e: "e \<in> set es" and st: "host_step env h1 e h2" and P: "?P h1"
    have n: "n < ho_next h1" using P known_call by blast
    have line: "phase_of (on_line env l h1) = phase_of h1" "ho_writer (on_line env l h1) = ho_writer h1"
      "ho_out (on_line env l h1) = ho_out h1" for l
      by (simp_all add: on_line_def on_message_def on_response_def on_notification_def on_request_def phase_of_def
          handle_approval_callback_def handle_question_callback_def fun_eq_iff Let_def
          split: sum.split rpc_message.split option.split prod.split)
    have "phase_of h2 n \<in> {Some Sending, Some Dropped} \<and> ho_writer h2 \<and> length (ho_out h2) = WRITER_BUFFER"
      using st P e assms(6-8) n
      by cases (auto simp: phase_set phase_start phase_start_ask phase_give_up line)
    then show "?P h2" using st P calls_ok_step by blast
  qed
  then show ?thesis by blast
qed

interpretation slots: one_shot_registry register_slot take_slot "\<lambda>reg. reg"
  by unfold_locales (auto simp: take_slot_def register_slot_def)

lemma click_settles:
  assumes "deserialize_params (he_why env) read_approval_callback (nt_params n) (nt_method n) = Inr p"
    and "ac_auth p = he_token env" "ho_approvals h (ac_token p) = Some a"
  shows "handle_approval_callback env n h
      = h\<lparr>ho_approvals := snd (take_slot (ac_token p) (ho_approvals h)), ho_decisions := (ho_decisions h)(a \<mapsto> ac_decision p)\<rparr>"
  using assms by (simp add: handle_approval_callback_def authorised take_slot_def)

lemma second_click:
  assumes "deserialize_params (he_why env) read_approval_callback (nt_params n) (nt_method n) = Inr p"
    and "ac_auth p = he_token env" "ho_approvals h (ac_token p) = Some a"
  shows "handle_approval_callback env n (handle_approval_callback env n h)
      = (handle_approval_callback env n h)\<lparr>ho_reader := Delivering (ApprovalClicked p) False\<rparr>"
  using assms(1,2) slots.get_twice [of "ac_token p" "ho_approvals h"] unfolding click_settles [OF assms]
  by (auto simp: handle_approval_callback_def authorised split: prod.split)

text \<open>A click counts once.  An authentic callback whose token waits settles the request; the same callback again
  settles nothing and is passed to the dispatcher as a stray click.\<close>

theorem click_counts_once:
  assumes "deserialize_params (he_why env) read_approval_callback (nt_params n) (nt_method n) = Inr p"
    and "ac_auth p = he_token env" "ho_approvals h (ac_token p) = Some a"
  shows "let h1 = handle_approval_callback env n h; h2 = handle_approval_callback env n h1
    in ho_decisions h1 = (ho_decisions h)(a \<mapsto> ac_decision p) \<and> ho_approvals h1 (ac_token p) = None
       \<and> ho_decisions h2 = ho_decisions h1 \<and> ho_approvals h2 = ho_approvals h1
       \<and> ho_reader h2 = Delivering (ApprovalClicked p) False"
  unfolding Let_def second_click [OF assms] by (simp add: click_settles [OF assms] take_slot_def)

text \<open>A configured token locks the plugin out.  The plugin's environment is set after the token, so a configured
  \<open>SNACA_PLUGIN_TOKEN\<close> replaces it: the plugin is given a token with which every event it sends is refused.\<close>

theorem configured_token_locks_out:
  assumes "configured TOKEN_VAR = Some t" "t \<noteq> tok" "tok \<noteq> []"
  shows "child_env inherited tok configured TOKEN_VAR = Some t
    \<and> (\<forall>n v e. nt_params n = Some v \<longrightarrow> auth_of v = child_env inherited tok configured TOKEN_VAR
         \<longrightarrow> parse_inbound why tok n = Inr e \<longrightarrow> (\<exists>m ps. e = UnknownMethod m ps))"
proof -
  have "child_env inherited tok configured TOKEN_VAR = Some t"
    using assms(1) by (simp add: child_env_def map_add_def)
  then show ?thesis using parse_inbound_auth [OF _ assms(3)] assms(2) by fastforce
qed

text \<open>An aborted request leaks its slot.  When the turn that asked is aborted, no path of the request runs any
  more: its token stays registered, and a later click settles a request nobody waits for.\<close>

theorem aborted_request_leaks_slot:
  assumes "host_step env h (DropAsk a) h'" "ho_asks h a = Some k"
  shows "ho_asks h' a = Some (k\<lparr>ak_phase := AskDropped\<rparr>) \<and> ask_registered h' a (k\<lparr>ak_phase := AskDropped\<rparr>) = ask_registered h a k"
  using assms(1)
proof cases
  case (drop_ask k')
  with assms(2) show ?thesis by (auto simp: set_ask_def ask_registered_def split: ask_kind.split)
next
  case (drop_calling_ask k' n e)
  with assms(2) show ?thesis by (auto simp: set_ask_def set_phase_def ask_registered_def split: ask_kind.split)
qed

subsection \<open>Witnesses\<close>

lemma reach_new: "reachable_host env new_host"
  by (auto simp: reachable_host_def intro: run_nil)

lemma reach_step: "reachable_host env h \<Longrightarrow> host_step env h e h' \<Longrightarrow> reachable_host env h'"
  by (auto simp: reachable_host_def intro: run_snoc)

definition click :: approval_callback where
  "click = \<lparr>ac_auth = ''t'', ac_token = ''k'', ac_decision = WireAllow, ac_user = [], ac_decided_at = []\<rparr>"

definition click_note :: rpc_notification where
  "click_note = new_notification EVENT_APPROVAL_CALLBACK (Some (JObject
     [(''auth'', JString ''t''), (''callback_token'', JString ''k''), (''decision'', JString ''allow''),
      (''user_id'', JString []), (''decided_at'', JString [])]))"

definition ack :: rpc_response where
  "ack = ok_response (IdNumber 1) (JBool True)"

definition stray :: rpc_notification where
  "stray = new_notification ''x'' None"

text \<open>A plugin whose lines are an answer to the first call, a click and an unknown notification.\<close>

definition demo_env :: host_env where
  "demo_env = \<lparr>he_token = ''t'', he_why = (\<lambda>_ _. []),
     he_parse = (\<lambda>l. Some (write_message (if l = ''r'' then ResponseMsg ack
                                        else if l = ''c'' then NotificationMsg click_note else NotificationMsg stray))),
     he_bad_json = (\<lambda>_. [])\<rparr>"

lemma click_read: "read_approval_callback (the (nt_params click_note)) = Some click"
  by (simp add: click_note_def click_def new_notification_def read_approval_callback_def as_fields_def string_at_def
      read_variant_def decision_names_def)

lemma demo_lines:
  "on_line demo_env ''r'' h = on_response ack (h\<lparr>ho_read := ho_read h @ [ResponseMsg ack]\<rparr>)"
  "on_line demo_env ''c'' h = handle_approval_callback demo_env click_note (h\<lparr>ho_read := ho_read h @ [NotificationMsg click_note]\<rparr>)"
  "on_line demo_env ''e'' h = h\<lparr>ho_read := ho_read h @ [NotificationMsg stray], ho_reader := Delivering (UnknownMethod ''x'' None) True\<rparr>"
proof -
  have u: "valid_utf8 ''r''" "valid_utf8 ''c''" "valid_utf8 ''e''" by code_simp+
  have t: "trim_ascii ''r'' = ''r''" "trim_ascii ''c'' = ''c''" "trim_ascii ''e'' = ''e''" by code_simp+
  have m: "message_ok (ResponseMsg ack)" "message_ok (NotificationMsg click_note)" "message_ok (NotificationMsg stray)"
    by (simp_all add: ack_def ok_response_def in_i64_def click_note_def stray_def new_notification_def)
  have d: "decode (he_parse demo_env) (he_bad_json demo_env) ''r'' = Inr (ResponseMsg ack)"
    "decode (he_parse demo_env) (he_bad_json demo_env) ''c'' = Inr (NotificationMsg click_note)"
    "decode (he_parse demo_env) (he_bad_json demo_env) ''e'' = Inr (NotificationMsg stray)"
    using m by (simp_all del: message_ok.simps write_message.simps
        add: decode_def decode_with_limit_def t demo_env_def DEFAULT_MAX_FRAME_BYTES_def read_write_message)
  have i: "parse_inbound (he_why demo_env) (he_token demo_env) stray = Inr (UnknownMethod ''x'' None)"
    by (simp add: parse_inbound_def stray_def new_notification_def method_defs)
  show "on_line demo_env ''r'' h = on_response ack (h\<lparr>ho_read := ho_read h @ [ResponseMsg ack]\<rparr>)"
    by (simp add: on_line_def u d on_message_def)
  show "on_line demo_env ''c'' h = handle_approval_callback demo_env click_note (h\<lparr>ho_read := ho_read h @ [NotificationMsg click_note]\<rparr>)"
    by (simp add: on_line_def u d on_message_def on_notification_def)
      (simp add: click_note_def new_notification_def)
  have "nt_method stray \<noteq> EVENT_APPROVAL_CALLBACK" "nt_method stray \<noteq> EVENT_QUESTION_CALLBACK"
    by (simp_all add: stray_def new_notification_def method_defs)
  then show "on_line demo_env ''e'' h = h\<lparr>ho_read := ho_read h @ [NotificationMsg stray], ho_reader := Delivering (UnknownMethod ''x'' None) True\<rparr>"
    by (simp add: on_line_def u d on_message_def on_notification_def i)
qed

text \<open>An approval request and its answers, up to the decision.\<close>

definition ask_0 :: host where
  "ask_0 = start_ask (AskApproval [] 60) [] [] ''k'' new_host"

definition ask_1 :: host where
  "ask_1 = set_phase 1 Waiting (ask_0\<lparr>ho_out := [RequestMsg (cl_request (the (ho_calls ask_0 1)))]\<rparr>)"

definition ask_2 :: host where "ask_2 = on_line demo_env ''r'' ask_1"
definition ask_3 :: host where "ask_3 = set_phase 1 (Done (call_result ack)) ask_2"
definition ask_4 :: host where "ask_4 = set_ask 0 Deciding ask_3"
definition ask_5 :: host where "ask_5 = on_line demo_env ''c'' ask_4"
definition ask_6 :: host where "ask_6 = set_ask 0 (Decided WireAllow) ask_5"

lemma ask_0: "reachable_host demo_env ask_0" "phase_of ask_0 1 = Some Sending" "ho_writer ask_0" "ho_out ask_0 = []"
  "ho_calls ask_0 1 \<noteq> None" "ho_reader ask_0 = Reading" "ho_read ask_0 = []" "ho_replies ask_0 = Map.empty"
  "ho_pending ask_0 (IdNumber 1) = Some 1" "map_option ak_phase (ho_asks ask_0 0) = Some (Presenting 1)"
  "map_option ak_kind (ho_asks ask_0 0) = Some (AskApproval [] 60)" "ho_approvals ask_0 = [''k'' \<mapsto> 0]"
  "map_option ak_token (ho_asks ask_0 0) = Some ''k''" "map_option ak_since (ho_asks ask_0 0) = Some 0"
  unfolding ask_0_def
  by (rule reach_step [OF reach_new host_step.start_ask])
    (simp_all add: start_ask_def start_call_def new_host_def phase_of_def take_simps)

lemma ask_1: "reachable_host demo_env ask_1" "phase_of ask_1 1 = Some Waiting" "ho_replies ask_1 1 = None"
  "ho_reader ask_1 = Reading" "ho_pending ask_1 (IdNumber 1) = Some 1" "ho_asks ask_1 = ho_asks ask_0"
  "ho_approvals ask_1 = [''k'' \<mapsto> 0]" "ho_inbox ask_1 = []" "ho_inbox_open ask_1" "ho_read ask_1 = []" "ho_decisions ask_1 = Map.empty"
proof -
  obtain c where c: "ho_calls ask_0 1 = Some c" "cl_phase c = Sending" using phase_ofD [OF ask_0(2)] by blast
  show "reachable_host demo_env ask_1"
    using host_step.sends_call [OF c, of demo_env] ask_0(1,3,4) c reach_step by (fastforce simp: ask_1_def WRITER_BUFFER_def)
qed (use ask_0 in \<open>simp_all add: ask_1_def phase_set\<close>,
     simp_all add: set_phase_def ask_0_def start_ask_def start_call_def new_host_def)

lemma ask_2: "reachable_host demo_env ask_2" "phase_of ask_2 1 = Some Waiting" "ho_replies ask_2 1 = Some ack"
  "ho_reader ask_2 = Reading" "ho_asks ask_2 = ho_asks ask_0" "ho_approvals ask_2 = [''k'' \<mapsto> 0]" "ho_read ask_2 = [ResponseMsg ack]"
proof -
  show "reachable_host demo_env ask_2"
    unfolding ask_2_def by (rule reach_step [OF ask_1(1) host_step.reader_reads]) (use ask_1(4) in \<open>simp_all add: newline_char\<close>)
qed (use ask_1 in \<open>simp_all add: ask_2_def demo_lines on_response_def take_slot_def ack_def ok_response_def phase_of_def\<close>)

lemma ask_3: "reachable_host demo_env ask_3" "phase_of ask_3 1 = Some (Done (Inr (JBool True)))"
  "ho_reader ask_3 = Reading" "ho_asks ask_3 = ho_asks ask_0" "ho_approvals ask_3 = [''k'' \<mapsto> 0]" "ho_read ask_3 = [ResponseMsg ack]"
proof -
  show "reachable_host demo_env ask_3"
    unfolding ask_3_def by (rule reach_step [OF ask_2(1) host_step.call_returns]) (use ask_2 in simp_all)
  have "call_result ack = Inr (JBool True)" by (simp add: call_result_def ack_def ok_response_def or_null_def)
  then show "phase_of ask_3 1 = Some (Done (Inr (JBool True)))" using ask_2 by (simp add: ask_3_def phase_set)
qed (use ask_2 in \<open>simp_all add: ask_3_def\<close>, simp_all add: set_phase_def)

theorem call_returns_its_own_response_witness:
  "\<exists>c r. ho_calls ask_3 1 = Some c \<and> ResponseMsg r \<in> set (drop (cl_since c) (ho_read ask_3))
      \<and> rs_id r = IdNumber (int 1) \<and> Inr (JBool True) = call_result r"
  using call_returns_its_own_response [OF ask_3(1,2)] by blast

lemma ask_4: "reachable_host demo_env ask_4" "map_option ak_phase (ho_asks ask_4 0) = Some Deciding"
  "ho_reader ask_4 = Reading" "ho_approvals ask_4 = [''k'' \<mapsto> 0]" "ho_read ask_4 = [ResponseMsg ack]"
  "map_option ak_kind (ho_asks ask_4 0) = Some (AskApproval [] 60)"
  "map_option ak_token (ho_asks ask_4 0) = Some ''k''" "map_option ak_since (ho_asks ask_4 0) = Some 0"
proof -
  obtain k where k: "ho_asks ask_0 0 = Some k" "ak_phase k = Presenting 1" using ask_0(10) by auto
  show "reachable_host demo_env ask_4"
    unfolding ask_4_def
    by (rule reach_step [OF ask_3(1) host_step.ask_accepted]) (use k ask_3(2,4) in simp_all)
qed (use ask_0(11,13,14) ask_3 in \<open>auto simp: ask_4_def set_ask_def\<close>)

lemma ask_5: "reachable_host demo_env ask_5" "map_option ak_phase (ho_asks ask_5 0) = Some Deciding"
  "map_option ak_kind (ho_asks ask_5 0) = Some (AskApproval [] 60)" "ho_decisions ask_5 0 = Some WireAllow"
  "ho_asks ask_5 = ho_asks ask_4"
proof -
  show "reachable_host demo_env ask_5"
    unfolding ask_5_def by (rule reach_step [OF ask_4(1) host_step.reader_reads]) (use ask_4(3) in \<open>simp_all add: newline_char\<close>)
  let ?h = "ask_4\<lparr>ho_read := ho_read ask_4 @ [NotificationMsg click_note]\<rparr>"
  have p: "deserialize_params (he_why demo_env) read_approval_callback (nt_params click_note) (nt_method click_note) = Inr click"
    using click_read by (auto simp: deserialize_params_def click_note_def new_notification_def)
  have c: "ac_auth click = he_token demo_env" "ac_token click = ''k''" "ac_decision click = WireAllow"
    by (simp_all add: click_def demo_env_def)
  then have "ho_approvals ?h (ac_token click) = Some 0" using ask_4(4) by simp
  from click_settles [OF p c(1) this]
  have e: "ask_5 = ?h\<lparr>ho_approvals := snd (take_slot ''k'' (ho_approvals ?h)), ho_decisions := (ho_decisions ?h)(0 \<mapsto> WireAllow)\<rparr>"
    by (simp only: ask_5_def demo_lines c)
  show "map_option ak_phase (ho_asks ask_5 0) = Some Deciding"
    "map_option ak_kind (ho_asks ask_5 0) = Some (AskApproval [] 60)" "ho_decisions ask_5 0 = Some WireAllow" "ho_asks ask_5 = ho_asks ask_4"
    unfolding e using ask_4(2,6) by simp_all
qed

lemma ask_6: "reachable_host demo_env ask_6" "\<exists>k. ho_asks ask_6 0 = Some k \<and> ak_phase k = Decided WireAllow"
proof -
  obtain k where k: "ho_asks ask_5 0 = Some k" "ak_phase k = Deciding" "ak_kind k = AskApproval [] 60" using ask_5(2,3) by auto
  have "ask_result ask_5 0 k = Some (Decided WireAllow)" by (simp add: ask_result_def k ask_5(4))
  then show "reachable_host demo_env ask_6"
    unfolding ask_6_def by (rule reach_step [OF ask_5(1) host_step.ask_settles [OF k(1,2)]])
  show "\<exists>k. ho_asks ask_6 0 = Some k \<and> ak_phase k = Decided WireAllow" using k by (simp add: ask_6_def set_ask_def)
qed

theorem decisions_are_authentic_witness:
  "\<exists>n. NotificationMsg n \<in> set (drop (ak_since (the (ho_asks ask_6 0))) (ho_read ask_6)) \<and> nt_method n = EVENT_APPROVAL_CALLBACK"
proof -
  obtain k where k: "ho_asks ask_6 0 = Some k" "ak_phase k = Decided WireAllow" using ask_6(2) by blast
  from decisions_are_authentic [OF ask_6(1) k(1), of WireAllow] show ?thesis using k by auto
qed

theorem nothing_enters_without_token_witness:
  "ta_auth ` ran (ho_tools ask_3) \<subseteq> {he_token demo_env} \<and> length (ho_inbox ask_3) \<le> INBOUND_BUFFER"
  using nothing_enters_without_token [OF ask_3(1)] by (auto simp: demo_env_def)

theorem dead_plugin_costs_timeout_witness:
  "phase_of (ask_1\<lparr>ho_reader := ReaderEnded\<rparr>) 1 \<in> {Some Waiting, Some (Done (Inl ChannelTimeout)), Some Dropped}"
proof -
  have "reachable_host demo_env (ask_1\<lparr>ho_reader := ReaderEnded\<rparr>)"
    by (rule reach_step [OF ask_1(1) host_step.reader_stops [OF ask_1(4)]])
  from dead_plugin_costs_timeout [OF this _ _ _ run_nil] ask_1(2,3) show ?thesis by simp
qed

text \<open>An inbox filled by notifications.\<close>

lemma fill_inbox:
  "k \<le> INBOUND_BUFFER \<Longrightarrow> \<exists>h. reachable_host demo_env h \<and> ho_reader h = Reading \<and> ho_inbox_open h \<and> length (ho_inbox h) = k
    \<and> phase_of h 1 = Some Waiting \<and> ho_replies h 1 = None"
proof (induction k)
  case 0
  then show ?case using ask_1 by (intro exI [of _ ask_1]) simp
next
  case (Suc k)
  then obtain h where h: "reachable_host demo_env h" "ho_reader h = Reading" "ho_inbox_open h" "length (ho_inbox h) = k"
    "phase_of h 1 = Some Waiting" "ho_replies h 1 = None" by auto
  let ?ev = "UnknownMethod ''x'' None"
  let ?h1 = "h\<lparr>ho_read := ho_read h @ [NotificationMsg stray], ho_reader := Delivering ?ev True\<rparr>"
  let ?h2 = "?h1\<lparr>ho_inbox := ho_inbox ?h1 @ [?ev], ho_reader := Reading\<rparr>"
  have "host_step demo_env h (ReaderReads ''e'') ?h1"
    unfolding demo_lines(3) [symmetric] by (rule host_step.reader_reads [OF h(2)]) (simp add: newline_char)
  then have "reachable_host demo_env ?h1" using h(1) reach_step by blast
  then have "reachable_host demo_env ?h2"
    by (rule reach_step) (rule host_step.reader_delivers [where ev = ?ev and stop = True], use h Suc.prems in simp_all)
  with h show ?case by (intro exI [of _ ?h2]) simp
qed

theorem full_inbox_blocks_answers_witness:
  "\<exists>h. ho_reader h = Delivering (UnknownMethod ''x'' None) True \<and> length (ho_inbox h) = INBOUND_BUFFER
    \<and> phase_of h 1 \<in> {Some Waiting, Some (Done (Inl ChannelTimeout)), Some Dropped}"
proof -
  obtain h where h: "reachable_host demo_env h" "ho_reader h = Reading" "ho_inbox_open h" "length (ho_inbox h) = INBOUND_BUFFER"
    "phase_of h 1 = Some Waiting" "ho_replies h 1 = None" using fill_inbox by blast
  let ?h1 = "h\<lparr>ho_read := ho_read h @ [NotificationMsg stray], ho_reader := Delivering (UnknownMethod ''x'' None) True\<rparr>"
  have "host_step demo_env h (ReaderReads ''e'') ?h1"
    unfolding demo_lines(3) [symmetric] by (rule host_step.reader_reads [OF h(2)]) (simp add: newline_char)
  then have r: "reachable_host demo_env ?h1" using h(1) reach_step by blast
  from full_inbox_blocks_answers [OF r _ _ _ _ _ run_nil] h show ?thesis by (intro exI [of _ ?h1]) simp
qed

text \<open>A queue filled by calls.\<close>

lemma fill_queue:
  "k \<le> WRITER_BUFFER \<Longrightarrow> \<exists>h. reachable_host demo_env h \<and> ho_writer h \<and> length (ho_out h) = k"
proof (induction k)
  case 0
  then show ?case using reach_new by (intro exI [of _ new_host]) (simp add: new_host_def)
next
  case (Suc k)
  then obtain h where h: "reachable_host demo_env h" "ho_writer h" "length (ho_out h) = k" by auto
  let ?h1 = "start_call [] None h"
  let ?c = "the (ho_calls ?h1 (ho_next h))"
  have c: "ho_calls ?h1 (ho_next h) = Some ?c" "cl_phase ?c = Sending" by (simp_all add: start_call_def Let_def)
  let ?h2 = "set_phase (ho_next h) Waiting (?h1\<lparr>ho_out := ho_out ?h1 @ [RequestMsg (cl_request ?c)]\<rparr>)"
  have "reachable_host demo_env ?h1" using h(1) reach_step host_step.start_call by blast
  then have "reachable_host demo_env ?h2"
    by (rule reach_step) (rule host_step.sends_call [OF c], use h Suc.prems in simp_all)
  with h show ?case by (intro exI [of _ ?h2]) simp
qed

theorem blocked_send_has_no_timeout_witness:
  "\<exists>h n. ho_writer h \<and> length (ho_out h) = WRITER_BUFFER \<and> phase_of h n \<in> {Some Sending, Some Dropped}"
proof -
  obtain h where h: "reachable_host demo_env h" "ho_writer h" "length (ho_out h) = WRITER_BUFFER" using fill_queue by blast
  have r: "reachable_host demo_env (start_call [] None h)" using h(1) reach_step host_step.start_call by blast
  moreover have "phase_of (start_call [] None h) (ho_next h) = Some Sending" by (simp add: phase_of_def start_call_def Let_def)
  ultimately show ?thesis
    using blocked_send_has_no_timeout [OF r _ _ _ run_nil, of "ho_next h"] h by (intro exI [of _ "start_call [] None h"] exI [of _ "ho_next h"]) simp
qed

theorem click_counts_once_witness:
  "ho_reader (handle_approval_callback demo_env click_note (handle_approval_callback demo_env click_note ask_4))
    = Delivering (ApprovalClicked click) False"
proof -
  have "deserialize_params (he_why demo_env) read_approval_callback (nt_params click_note) (nt_method click_note) = Inr click"
    using click_read by (auto simp: deserialize_params_def click_note_def new_notification_def)
  moreover have "ac_auth click = he_token demo_env" "ac_token click = ''k''" by (simp_all add: click_def demo_env_def)
  moreover from this(2) have "ho_approvals ask_4 (ac_token click) = Some 0" using ask_4(4) by simp
  ultimately show ?thesis using click_counts_once [of demo_env click_note click ask_4 0] by (simp add: Let_def)
qed

theorem configured_token_locks_out_witness:
  "child_env Map.empty ''t'' [TOKEN_VAR \<mapsto> ''u''] TOKEN_VAR = Some ''u''"
  using configured_token_locks_out [of "[TOKEN_VAR \<mapsto> ''u'']" "''u''" "''t''" Map.empty] by simp

theorem aborted_request_leaks_slot_witness:
  "ho_approvals (set_ask 0 AskDropped ask_4) ''k'' = Some 0"
proof -
  obtain k where k: "ho_asks ask_4 0 = Some k" "ak_phase k = Deciding" "ak_kind k = AskApproval [] 60" "ak_token k = ''k''"
    using ask_4(2,6,7) by auto
  from aborted_request_leaks_slot [OF host_step.drop_ask [OF k(1,2), of demo_env] k(1)]
  show ?thesis using k ask_4(4) by (simp add: ask_registered_def)
qed

end
