(* ===== verification/Gates.thy ===== *)
theory Gates
  imports Channel Tool_Calls Questions
begin

text \<open>
  The gates the server hands to the engine: \<open>gate.rs\<close> and \<open>question_gate.rs\<close> of \<open>crates/snaca-server\<close>, which
  choose by environment variables between a fixed answer and a request to the plugin, and translate between
  the protocol's and the engine's values (\<open>crates/snaca-agent-api/src/approval.rs\<close>).

  The value of a variable is an argument, and so is the outcome of the plugin's part, which the supervisor
  gives.
\<close>

subsection \<open>Approvals\<close>

datatype approval_mode = ModeAllow | ModeDeny | ModeInteractive | ModeUnknown string

definition folded :: "string option \<Rightarrow> string" where
  "folded var = map ascii_lower (trim (or_else var []))"

definition resolve_approval_mode :: "string option \<Rightarrow> approval_mode" where
  "resolve_approval_mode var =
     (let s = folded var
      in if s = [] \<or> s = ''allow'' then ModeAllow
         else if s = ''deny'' then ModeDeny
         else if s = ''interactive'' then ModeInteractive
         else ModeUnknown s)"

definition DEFAULT_APPROVAL_TIMEOUT :: nat where "DEFAULT_APPROVAL_TIMEOUT = 300"

datatype approval_gate = NoopApprovalGate | DenyAllApprovalGate | ChannelApprovalGate string string nat

definition build_approval_gate :: "string option \<Rightarrow> string \<Rightarrow> string \<Rightarrow> approval_gate" where
  "build_approval_gate var tenant chat =
     (case resolve_approval_mode var of
        ModeAllow \<Rightarrow> NoopApprovalGate
      | ModeDeny \<Rightarrow> DenyAllApprovalGate
      | ModeInteractive \<Rightarrow> ChannelApprovalGate tenant chat DEFAULT_APPROVAL_TIMEOUT
      | ModeUnknown _ \<Rightarrow> NoopApprovalGate)"

definition render_card :: "(json \<Rightarrow> string) \<Rightarrow> approval_request \<Rightarrow> string" where
  "render_card pretty r =
     ''Allow `'' @ q_tool r @ ''`'' @ (if q_reason r = [] then [] else '' ('' @ q_reason r @ '')'')
     @ '' with input:'' @ [newline] @ ''```json'' @ [newline] @ pretty (q_input r) @ [newline] @ ''```''"

fun translate :: "wire_decision \<Rightarrow> approval_decision" where
  "translate WireAllow = AllowOnce"
| "translate WireAllowOnce = AllowOnce"
| "translate WireAllowAlways = AllowAlways"
| "translate WireDeny = DenyCall"

definition map_channel_error :: "channel_error \<Rightarrow> approval_error" where
  "map_channel_error e =
     (case e of
        ChannelTimeout \<Rightarrow> ApprovalTimeout
      | Disconnected \<Rightarrow> ApprovalCancelled
      | SendClosed \<Rightarrow> ApprovalCancelled
      | other \<Rightarrow> ApprovalOther (channel_error_text other))"

text \<open>\<open>ask\<close> is \<open>request_approval\<close> with the tenant, the chat, the card and the timeout in seconds.\<close>

definition request_decision ::
  "(json \<Rightarrow> string) \<Rightarrow> bool \<Rightarrow> string option \<Rightarrow> (string \<Rightarrow> string \<Rightarrow> string \<Rightarrow> nat \<Rightarrow> channel_error + wire_decision)
     \<Rightarrow> approval_gate \<Rightarrow> approval_request \<Rightarrow> approval_error + approval_decision" where
  "request_decision pretty interactive_card fallback_var ask gate r =
     (case gate of
        NoopApprovalGate \<Rightarrow> Inr AllowOnce
      | DenyAllApprovalGate \<Rightarrow> Inr DenyCall
      | ChannelApprovalGate tenant chat secs \<Rightarrow>
          if \<not> interactive_card then
            (if map ascii_lower (or_else fallback_var ''allow'') = ''deny'' then Inr DenyCall else Inr AllowOnce)
          else (case ask tenant chat (render_card pretty r) secs of
                  Inl e \<Rightarrow> Inl (map_channel_error e)
                | Inr d \<Rightarrow> Inr (translate d)))"

text \<open>What the caller of \<open>request_approval\<close> gets from a settled request of the supervisor.\<close>

fun ask_outcome :: "ask_phase \<Rightarrow> (channel_error + wire_decision) option" where
  "ask_outcome (Decided d) = Some (Inr d)"
| "ask_outcome (AskFailed e) = Some (Inl e)"
| "ask_outcome _ = None"


text \<open>The switches.  The mode, trimmed and folded, decides: deny refuses everything, interactive asks the plugin, and every
  other value, a misspelt one included, allows everything; where the plugin has no cards, the fallback is
  compared untrimmed, so that a value with a blank at its end is not the denial it spells.\<close>

theorem approval_switches:
  "request_decision pretty cards fb ask (build_approval_gate var tenant chat) r =
     (if folded var = ''deny'' then Inr DenyCall
      else if folded var \<noteq> ''interactive'' then Inr AllowOnce
      else if cards then map_sum map_channel_error translate (ask tenant chat (render_card pretty r) 300)
      else if map ascii_lower (or_else fb ''allow'') = ''deny'' then Inr DenyCall
      else Inr AllowOnce)
   \<and> folded (Some ''deny '') = ''deny'' \<and> map ascii_lower (or_else (Some ''deny '') ''allow'') \<noteq> ''deny''"
proof (intro conjI)
  show "folded (Some ''deny '') = ''deny''" by code_simp
  show "map ascii_lower (or_else (Some ''deny '') ''allow'') \<noteq> ''deny''" by code_simp
qed (auto simp: build_approval_gate_def resolve_approval_mode_def request_decision_def Let_def DEFAULT_APPROVAL_TIMEOUT_def
    split: sum.split)

subsection \<open>Questions\<close>

datatype question_mode = QuestionInteractive | QuestionOff | QuestionModeUnknown string

definition resolve_question_mode :: "string option \<Rightarrow> question_mode" where
  "resolve_question_mode var =
     (let s = folded var
      in if s = [] \<or> s = ''interactive'' then QuestionInteractive
         else if s = ''unsupported'' \<or> s = ''error'' then QuestionOff
         else QuestionModeUnknown s)"

datatype question_gate = ChannelQuestionGate string string nat | UnsupportedQuestionGate

definition DEFAULT_QUESTION_TIMEOUT :: nat where "DEFAULT_QUESTION_TIMEOUT = 300"

definition build_question_gate :: "string option \<Rightarrow> string \<Rightarrow> string \<Rightarrow> question_gate" where
  "build_question_gate var tenant chat =
     (case resolve_question_mode var of
        QuestionOff \<Rightarrow> UnsupportedQuestionGate
      | _ \<Rightarrow> ChannelQuestionGate tenant chat DEFAULT_QUESTION_TIMEOUT)"

definition question_channel_error :: "channel_error \<Rightarrow> question_error" where
  "question_channel_error e =
     (case e of
        ChannelTimeout \<Rightarrow> QuestionTimeout
      | Disconnected \<Rightarrow> QuestionCancelled
      | SendClosed \<Rightarrow> QuestionCancelled
      | other \<Rightarrow> QuestionOther (channel_error_text other))"

definition wire_option_value :: "question_option \<Rightarrow> json" where
  "wire_option_value o1 = JObject
     (opt_field ''description'' (qo_description o1) @ [(''id'', JString (qo_id o1)), (''label'', JString (qo_label o1))]
      @ opt_field ''preview'' (qo_preview o1))"

definition wire_question_value :: "question_spec \<Rightarrow> json" where
  "wire_question_value q = JObject
     ([(''allow_other'', JBool (qs_allow_other q))] @ opt_field ''header'' (qs_header q)
      @ [(''id'', JString (qs_id q)), (''multi_select'', JBool (qs_multi q)),
         (''options'', JArray (map wire_option_value (qs_options q))), (''question'', JString (qs_question q))])"

definition answer_of_wire :: "wire_answer \<Rightarrow> question_answer" where
  "answer_of_wire a = \<lparr>qa_question = wn_question a, qa_selected = wn_selected a, qa_other = wn_other a, qa_notes = wn_notes a\<rparr>"

definition answers_of_callback :: "question_callback \<Rightarrow> question_answers" where
  "answers_of_callback cb = \<lparr>an_answers = map answer_of_wire (qc_answers cb), an_user = qc_user cb, an_decided_at = qc_decided_at cb\<rparr>"

text \<open>The text fallback up to its wait: the waiter is registered before the prompt is sent, and released when it cannot
  be; \<open>gate_resumes\<close>, \<open>gate_times_out\<close> and \<open>gate_aborted\<close> end the wait.\<close>

definition text_prompt_params :: "string \<Rightarrow> string \<Rightarrow> string \<Rightarrow> question_spec list \<Rightarrow> send_params" where
  "text_prompt_params tenant chat uuid qs =
     \<lparr>sp_tenant = tenant, sp_chat = chat, sp_content = render_text_prompt qs, sp_format = Some ''markdown'', sp_reply_to = None,
      sp_key = Some (''question-text-'' @ uuid)\<rparr>"

definition ask_via_text_fallback ::
  "text_questions \<Rightarrow> text_key \<Rightarrow> question_spec list \<Rightarrow> waiter \<Rightarrow> (text_questions \<Rightarrow> channel_error option \<times> text_questions)
     \<Rightarrow> question_error option \<times> text_questions" where
  "ask_via_text_fallback t key qs w send =
     (case send (tq_register t key qs w) of
        (Some e, t') \<Rightarrow> (Some (question_channel_error e), tq_release (gate_aborted t' w) key)
      | (None, t') \<Rightarrow> (None, t'))"

datatype asking = AskCard "question_spec list" | AskText "question_spec list" | RefuseQuestion

definition question_route :: "bool \<Rightarrow> string option \<Rightarrow> question_gate \<Rightarrow> question_spec list \<Rightarrow> asking" where
  "question_route cards fallback_var gate qs =
     (case gate of
        UnsupportedQuestionGate \<Rightarrow> RefuseQuestion
      | ChannelQuestionGate _ _ _ \<Rightarrow>
          if \<not> cards then
            (if map ascii_lower (or_else fallback_var ''text'') = ''text'' then AskText qs else RefuseQuestion)
          else AskCard qs)"

definition card_answer :: "channel_error + question_callback \<Rightarrow> question_error + question_answers" where
  "card_answer = map_sum question_channel_error answers_of_callback"

text \<open>A question that cannot be sent leaves nothing behind.  If the prompt of the text fallback cannot be sent, and the
  chat stays as it was meanwhile, the chat has no waiting question: its next message is an ordinary message.\<close>

theorem unsent_question_leaves_nothing:
  assumes "send (tq_register t key qs w) = (Some e, tq_register t key qs w)"
  shows "\<exists>t'. ask_via_text_fallback t key qs w send = (Some (question_channel_error e), t')
    \<and> fst (tq_intercept t' key raw user now) = False"
  using assms
  by (auto simp: ask_via_text_fallback_def tq_release_def tq_intercept_def tq_take_def split: prod.split option.split)

text \<open>The answers of a card reach the tool as the plugin gave them, each under its question.\<close>

lemma card_answers_kept:
  "card_answer (Inr cb) = Inr a \<Longrightarrow> map qa_question (an_answers a) = map wn_question (qc_answers cb)
    \<and> map qa_selected (an_answers a) = map wn_selected (qc_answers cb) \<and> an_user a = qc_user cb"
  by (auto simp: card_answer_def answers_of_callback_def answer_of_wire_def)

subsection \<open>Witnesses\<close>


theorem unsent_question_leaves_nothing_witness:
  "\<exists>t'. ask_via_text_fallback no_text_questions (''l'', ''c'') [] 0 (\<lambda>t. (Some ChannelTimeout, t)) = (Some QuestionTimeout, t')
    \<and> fst (tq_intercept t' (''l'', ''c'') ''1'' ''u'' []) = False"
  using unsent_question_leaves_nothing [of "\<lambda>t. (Some ChannelTimeout, t)" no_text_questions "(''l'', ''c'')" "[]" 0 ChannelTimeout "''1''" "''u''" "[]"]
  by (simp add: question_channel_error_def)

end
