(* ===== verification/Scheduler.thy ===== *)
theory Scheduler
  imports Store Protocol
begin

text \<open>
  Scheduled tasks: \<open>scheduler.rs\<close> of \<open>crates/snaca-server\<close> and \<open>inject_inbound\<close> of \<open>plugin_registry.rs\<close>.  A tick
  takes the due rows of the store, fires each into the inbox of its plugin and advances or disables it.

  Times are in milliseconds, within the range of \<open>chrono\<close>: arithmetic beyond it panics, which ends the scheduler
  task.  The identifiers of fired messages and the clock are arguments.
\<close>

subsection \<open>The next slot\<close>

definition MAX_DATE :: timestamp where "MAX_DATE = 8210266876799999"

definition MAX_SECONDS :: int where "MAX_SECONDS = (2 ^ 63 - 1) div 1000"

text \<open>\<open>None\<close> is a panic.\<close>

definition plus_date :: "timestamp \<Rightarrow> int \<Rightarrow> timestamp option" where
  "plus_date t d = (if t + d \<le> MAX_DATE then Some (t + d) else None)"

definition MAX_HOPS :: nat where "MAX_HOPS = 100000"

fun walk_slots :: "nat \<Rightarrow> timestamp \<Rightarrow> timestamp \<Rightarrow> int \<Rightarrow> timestamp option" where
  "walk_slots 0 next now step = Some next"
| "walk_slots (Suc hops) next now step =
     (if next \<le> now then (case plus_date next step of None \<Rightarrow> None | Some t \<Rightarrow> walk_slots hops t now step) else Some next)"

text \<open>\<open>Some None\<close> for a one-shot task.\<close>

definition advance_next_fire :: "scheduled_task \<Rightarrow> timestamp \<Rightarrow> timestamp option option" where
  "advance_next_fire task now =
     (case s_interval_secs task of
        None \<Rightarrow> Some None
      | Some secs \<Rightarrow>
          if secs \<le> 0 then Some None
          else if MAX_SECONDS < secs then None
          else (case walk_slots MAX_HOPS (s_next_fire_at task) now (secs * 1000) of
                  None \<Rightarrow> None
                | Some t \<Rightarrow> if t \<le> now then map_option Some (plus_date now (secs * 1000)) else Some (Some t)))"

subsection \<open>Firing\<close>

definition SCHEDULER_USER :: string where "SCHEDULER_USER = ''snaca-scheduler''"

text \<open>The channels into the dispatchers: closed, or what was injected.\<close>

type_synonym inboxes = "string \<rightharpoonup> message_received list option"

definition fired_message :: "(timestamp \<Rightarrow> string) \<Rightarrow> timestamp \<Rightarrow> string \<Rightarrow> scheduled_task \<Rightarrow> message_received" where
  "fired_message rfc3339 now uuid task =
     \<lparr>mr_auth = [], mr_tenant = s_tenant task, mr_chat = s_chat_id task, mr_user = SCHEDULER_USER,
      mr_message = ''schedule-'' @ s_id task @ ''-'' @ show_int now @ ''-'' @ uuid,
      mr_content = s_prompt task, mr_mentions = [], mr_attachments = [], mr_reply_to = None, mr_received_at = rfc3339 now\<rparr>"

definition inject_inbound :: "inboxes \<Rightarrow> string \<Rightarrow> message_received \<Rightarrow> string option \<times> inboxes" where
  "inject_inbound boxes name m =
     (case boxes name of
        None \<Rightarrow> (Some (''plugin '' @ name @ '' not registered''), boxes)
      | Some None \<Rightarrow> (Some (''dispatcher for plugin '' @ name @ '' is not accepting synthetic events''), boxes)
      | Some (Some ms) \<Rightarrow> (None, boxes(name \<mapsto> Some (ms @ [m]))))"

definition fire ::
  "(timestamp \<Rightarrow> string) \<Rightarrow> timestamp \<Rightarrow> string \<Rightarrow> scheduled_task \<Rightarrow> database \<times> inboxes
     \<Rightarrow> string option \<times> database \<times> inboxes" where
  "fire rfc3339 now uuid task st =
     (case inject_inbound (snd st) (s_plugin task) (fired_message rfc3339 now uuid task) of
        (r, boxes) \<Rightarrow> (r, upsert_binding (fst st) now (s_chat_id task) SCHEDULER_USER (s_project task), boxes))"

record scheduler_config =
  sc_tick_period_secs :: nat
  sc_batch_size :: nat

definition default_scheduler_config :: scheduler_config where
  "default_scheduler_config = \<lparr>sc_tick_period_secs = 30, sc_batch_size = 50\<rparr>"

text \<open>The loop over the due rows; the flag tells whether it came to its end, \<open>uuid\<close> names the message of a row.\<close>

fun fire_due ::
  "(timestamp \<Rightarrow> string) \<Rightarrow> (string \<Rightarrow> string) \<Rightarrow> timestamp \<Rightarrow> scheduled_task list \<Rightarrow> database \<times> inboxes
     \<Rightarrow> bool \<times> database \<times> inboxes" where
  "fire_due rfc3339 uuid now [] st = (True, st)"
| "fire_due rfc3339 uuid now (task # tasks) st =
     (case fire rfc3339 now (uuid (s_id task)) task st of
        (_, db, boxes) \<Rightarrow>
          (case advance_next_fire task now of
             None \<Rightarrow> (False, db, boxes)
           | Some next \<Rightarrow> fire_due rfc3339 uuid now tasks (reschedule_task db (s_id task) now next, boxes)))"

definition run_tick ::
  "(timestamp \<Rightarrow> string) \<Rightarrow> (string \<Rightarrow> string) \<Rightarrow> timestamp \<Rightarrow> nat \<Rightarrow> database \<times> inboxes \<Rightarrow> bool \<times> database \<times> inboxes" where
  "run_tick rfc3339 uuid now batch st = fire_due rfc3339 uuid now (list_due_scheduled_tasks (fst st) now batch) st"

subsection \<open>Slots\<close>

text \<open>\<open>t\<close> is the first slot of the task's grid after \<open>now\<close>.\<close>

definition next_slot :: "timestamp \<Rightarrow> int \<Rightarrow> timestamp \<Rightarrow> timestamp \<Rightarrow> bool" where
  "next_slot start step now t \<longleftrightarrow> now < t \<and> (\<exists>k. t = start + int k * step) \<and> (t = start \<or> t - step \<le> now)"

lemma walk_slots_grid:
  assumes "walk_slots n nx now step = Some t" "0 < step"
  shows "\<exists>k \<le> n. t = nx + int k * step \<and> (k = 0 \<or> t - step \<le> now) \<and> (t \<le> now \<longrightarrow> k = n)"
  using assms
proof (induction n nx now step arbitrary: t rule: walk_slots.induct)
  case (2 n nx now step)
  show ?case
  proof (cases "nx \<le> now")
    case True
    with 2(2) obtain u where u: "plus_date nx step = Some u" "walk_slots n u now step = Some t"
      by (auto split: option.splits)
    from 2(1) [OF True u(1) u(2) 2(3)] obtain k where
      k: "k \<le> n" "t = u + int k * step" "k = 0 \<or> t - step \<le> now" "t \<le> now \<longrightarrow> k = n" by blast
    have "u = nx + step" using u(1) by (auto simp: plus_date_def split: if_splits)
    with k True show ?thesis by (intro exI [of _ "Suc k"]) (auto simp: algebra_simps)
  qed (use 2 in \<open>auto intro: exI [of _ 0]\<close>)
qed simp

lemma walk_slots_enough:
  assumes "walk_slots n nx now step = Some t" "0 < step" "now - nx < int n * step"
  shows "now < t"
proof (rule ccontr)
  assume "\<not> now < t"
  then have "t = nx + int n * step" using walk_slots_grid [OF assms(1,2)] by auto
  with assms(3) \<open>\<not> now < t\<close> show False by simp
qed

text \<open>The next fire is the next slot.  A recurring task that fell behind by fewer than a hundred thousand intervals is
  advanced to the first slot of its own grid after now, so missed slots are skipped and the rhythm is kept; in
  every case the next fire lies strictly after now and, when the task was due, at most one interval away.\<close>

theorem advance_to_next_slot:
  assumes "s_interval_secs task = Some secs" "advance_next_fire task now = Some next" "0 < secs"
  shows "\<exists>t. next = Some t \<and> now < t \<and> (s_next_fire_at task \<le> now \<longrightarrow> t \<le> now + secs * 1000)
    \<and> (now - s_next_fire_at task < int MAX_HOPS * (secs * 1000) \<longrightarrow> next_slot (s_next_fire_at task) (secs * 1000) now t)"
proof -
  obtain u where u: "walk_slots MAX_HOPS (s_next_fire_at task) now (secs * 1000) = Some u"
    and n: "(if u \<le> now then map_option Some (plus_date now (secs * 1000)) else Some (Some u)) = Some next"
    using assms by (auto simp: advance_next_fire_def split: if_splits option.splits)
  have step: "0 < secs * 1000" using assms(3) by simp
  obtain k where k: "u = s_next_fire_at task + int k * (secs * 1000)" "k = 0 \<or> u - secs * 1000 \<le> now"
    using walk_slots_grid [OF u step] by blast
  show ?thesis
  proof (cases "u \<le> now")
    case True
    then have "next = Some (now + secs * 1000)" using n by (auto simp: plus_date_def split: if_splits)
    moreover have "\<not> now - s_next_fire_at task < int MAX_HOPS * (secs * 1000)"
      using walk_slots_enough [OF u step] True by auto
    ultimately show ?thesis using assms(3) by simp
  next
    case False
    then have "next = Some u" using n by simp
    with False k show ?thesis by (auto simp: next_slot_def)
  qed
qed

subsection \<open>A tick\<close>

definition settle :: "timestamp option \<Rightarrow> timestamp \<Rightarrow> scheduled_task \<Rightarrow> scheduled_task" where
  "settle nx now s =
     (case nx of
        Some t \<Rightarrow> s\<lparr>s_last_fired_at := Some now, s_next_fire_at := t\<rparr>
      | None \<Rightarrow> s\<lparr>s_last_fired_at := Some now, s_enabled := False\<rparr>)"

abbreviation due :: "timestamp \<Rightarrow> scheduled_task \<Rightarrow> bool" where
  "due now s \<equiv> s_enabled s \<and> s_next_fire_at s \<le> now"

lemma scheduled_upsert [simp]: "scheduled (upsert_binding db now c u p) = scheduled db"
  by (simp add: upsert_binding_def)

lemma scheduled_reschedule:
  "scheduled (reschedule_task db i now nx) = map (\<lambda>s. if s_id s = i then settle nx now s else s) (scheduled db)"
  by (simp add: reschedule_task_def update_where_def settle_def split: option.split)

lemma settle_id [simp]: "s_id (settle nx now s) = s_id s"
  by (simp add: settle_def split: option.split)

lemma settled_not_due:
  assumes "advance_next_fire s now = Some nx"
  shows "\<not> due now (settle nx now s)"
proof (cases nx)
  case (Some t)
  then obtain secs where "s_interval_secs s = Some secs" "0 < secs"
    using assms by (auto simp: advance_next_fire_def split: option.splits if_splits)
  then have "now < t"
    using assms Some by (auto simp: advance_next_fire_def plus_date_def split: option.splits if_splits)
  with Some show ?thesis by (simp add: settle_def)
qed (simp add: settle_def)

lemma fire_due_rows:
  assumes "fire_due rfc uuid now tasks (db, boxes) = (True, db', boxes')"
    and "distinct (map s_id (scheduled db))" "distinct tasks" "set tasks \<subseteq> set (scheduled db)"
  shows "scheduled db' = map (\<lambda>s. if s \<in> set tasks then settle (the (advance_next_fire s now)) now s else s) (scheduled db)
    \<and> (\<forall>s \<in> set tasks. advance_next_fire s now \<noteq> None)"
  using assms
proof (induction tasks arbitrary: db boxes)
  case (Cons t ts)
  obtain e db1 boxes1 where f: "fire rfc now (uuid (s_id t)) t (db, boxes) = (e, db1, boxes1)" by (metis prod_cases3)
  have s1: "scheduled db1 = scheduled db" using f by (auto simp: fire_def split: prod.splits)
  obtain nx where nx: "advance_next_fire t now = Some nx" using Cons.prems(1) f by (auto split: option.splits)
  let ?db = "reschedule_task db1 (s_id t) now nx"
  let ?u = "\<lambda>s. if s_id s = s_id t then settle nx now s else s"
  have rest: "fire_due rfc uuid now ts (?db, boxes1) = (True, db', boxes')" using Cons.prems(1) f nx by simp
  have sch: "scheduled ?db = map ?u (scheduled db)" by (simp add: scheduled_reschedule s1)
  have t: "t \<in> set (scheduled db)" "t \<notin> set ts" using Cons.prems(3,4) by auto
  have id: "s_id s = s_id t \<longleftrightarrow> s = t" if "s \<in> set (scheduled db)" for s
    using Cons.prems(2) t(1) that by (auto simp: distinct_map inj_on_def)
  have keep: "?u s = s" if "s \<in> set ts" for s
    using that t(2) id Cons.prems(4) by (metis insert_subset list.simps(15) subsetD)
  have "map s_id (scheduled ?db) = map s_id (scheduled db)" by (simp add: sch)
  then have "distinct (map s_id (scheduled ?db))" using Cons.prems(2) by simp
  moreover have "set ts \<subseteq> set (scheduled ?db)"
  proof
    fix s assume s: "s \<in> set ts"
    then have "s \<in> set (scheduled db)" using Cons.prems(4) by auto
    then have "?u s \<in> set (scheduled ?db)" unfolding sch by simp
    with keep [OF s] show "s \<in> set (scheduled ?db)" by simp
  qed
  ultimately have IH: "scheduled db' = map (\<lambda>s. if s \<in> set ts then settle (the (advance_next_fire s now)) now s else s) (scheduled ?db)"
    "\<forall>s \<in> set ts. advance_next_fire s now \<noteq> None"
    using Cons.IH [OF rest] Cons.prems(3) by auto
  have "(if ?u s \<in> set ts then settle (the (advance_next_fire (?u s) now)) now (?u s) else ?u s)
      = (if s \<in> set (t # ts) then settle (the (advance_next_fire s now)) now s else s)" if s: "s \<in> set (scheduled db)" for s
  proof (cases "s = t")
    case True
    have "settle nx now t \<notin> set ts"
    proof
      assume a: "settle nx now t \<in> set ts"
      then have "settle nx now t \<in> set (scheduled db)" using Cons.prems(4) by auto
      then have "settle nx now t = t" using id by fastforce
      with a t(2) show False by simp
    qed
    with True nx show ?thesis by simp
  next
    case False
    with id [OF s] show ?thesis by auto
  qed
  then show ?case unfolding IH(1) sch using IH(2) nx by (simp add: comp_def)
qed simp

lemma drop_of_distinct: "distinct zs \<Longrightarrow> filter (\<lambda>s. s \<notin> set (take b zs)) zs = drop b zs"
proof (induction zs arbitrary: b)
  case (Cons z zs)
  show ?case
  proof (cases b)
    case (Suc c)
    have "filter (\<lambda>s. s \<noteq> z \<and> s \<notin> set (take c zs)) zs = filter (\<lambda>s. s \<notin> set (take c zs)) zs"
      using Cons.prems by (auto intro: filter_cong)
    with Suc Cons show ?thesis by simp
  qed simp
qed simp

lemma filter_map_keep:
  "(\<And>s. Q (g s) \<longleftrightarrow> Q s \<and> R s) \<Longrightarrow> (\<And>s. R s \<Longrightarrow> g s = s) \<Longrightarrow> filter Q (map g xs) = filter R (filter Q xs)"
  by (induction xs) auto

lemma due_after_tick:
  assumes "run_tick rfc uuid now batch (db, boxes) = (True, db', boxes')" "distinct (map s_id (scheduled db))"
  shows "list_due_scheduled_tasks db' now m = take m (drop batch (sort_key s_next_fire_at (filter (due now) (scheduled db))))"
    and "distinct (map s_id (scheduled db'))"
proof -
  let ?xs = "scheduled db"
  let ?zs = "sort_key s_next_fire_at (filter (due now) ?xs)"
  let ?g = "\<lambda>s. if s \<in> set (take batch ?zs) then settle (the (advance_next_fire s now)) now s else s"
  have d: "distinct ?xs" using assms(2) by (simp add: distinct_map)
  have tasks: "distinct (take batch ?zs)" "set (take batch ?zs) \<subseteq> set ?xs"
    using d by (auto dest: in_set_takeD)
  from assms(1) have "fire_due rfc uuid now (take batch ?zs) (db, boxes) = (True, db', boxes')"
    by (simp add: run_tick_def list_due_scheduled_tasks_def)
  from fire_due_rows [OF this assms(2) tasks]
  have s': "scheduled db' = map ?g ?xs" "\<forall>s \<in> set (take batch ?zs). advance_next_fire s now \<noteq> None" by auto
  have "due now (?g s) \<longleftrightarrow> due now s \<and> s \<notin> set (take batch ?zs)" for s
    using s'(2) settled_not_due [of s now] by (cases "s \<in> set (take batch ?zs)") auto
  then have "filter (due now) (map ?g ?xs) = filter (\<lambda>s. s \<notin> set (take batch ?zs)) (filter (due now) ?xs)"
    by (rule filter_map_keep) simp
  then have "filter (due now) (scheduled db') = filter (\<lambda>s. s \<notin> set (take batch ?zs)) (filter (due now) ?xs)"
    by (simp only: s'(1))
  then have "sort_key s_next_fire_at (filter (due now) (scheduled db')) = filter (\<lambda>s. s \<notin> set (take batch ?zs)) ?zs"
    by (simp only: filter_sort)
  then show "list_due_scheduled_tasks db' now m = take m (drop batch ?zs)"
    using drop_of_distinct [of ?zs batch] d by (simp add: list_due_scheduled_tasks_def)
  have "map s_id (scheduled db') = map s_id ?xs" unfolding s'(1) by (simp add: comp_def if_distrib cong: if_cong)
  then show "distinct (map s_id (scheduled db'))" using assms(2) by simp
qed

lemma map_option_same [simp]: "map_option (\<lambda>x. x) = (\<lambda>x. x)"
  by (simp add: fun_eq_iff option.map_ident)

lemma fire_boxes:
  "fire rfc now uuid t (db, boxes) = (e, db1, boxes1) \<Longrightarrow>
     boxes1 p = map_option (map_option (\<lambda>ms. ms @ (if s_plugin t = p then [fired_message rfc now uuid t] else []))) (boxes p)"
  by (auto simp: fire_def inject_inbound_def split: option.splits)

lemma fire_due_boxes:
  "fire_due rfc uuid now tasks (db, boxes) = (True, db', boxes') \<Longrightarrow>
     boxes' p = map_option (map_option (\<lambda>ms. ms @ map (\<lambda>s. fired_message rfc now (uuid (s_id s)) s) (filter (\<lambda>s. s_plugin s = p) tasks))) (boxes p)"
proof (induction tasks arbitrary: db boxes)
  case Nil
  then show ?case by simp
next
  case (Cons t ts)
  obtain e db1 boxes1 where f: "fire rfc now (uuid (s_id t)) t (db, boxes) = (e, db1, boxes1)" by (metis prod_cases3)
  obtain nx where nx: "advance_next_fire t now = Some nx" using Cons.prems f by (auto split: option.splits)
  from Cons.prems f nx have "fire_due rfc uuid now ts (reschedule_task db1 (s_id t) now nx, boxes1) = (True, db', boxes')" by simp
  from Cons.IH [OF this] show ?case
    unfolding fire_boxes [OF f] by (simp add: option.map_comp comp_def)
qed


fun ticks ::
  "(timestamp \<Rightarrow> string) \<Rightarrow> (string \<Rightarrow> string) \<Rightarrow> timestamp \<Rightarrow> nat \<Rightarrow> nat \<Rightarrow> database \<times> inboxes \<Rightarrow> bool \<times> database \<times> inboxes" where
  "ticks rfc uuid now batch 0 st = (True, st)"
| "ticks rfc uuid now batch (Suc k) st =
     (case run_tick rfc uuid now batch st of (True, st') \<Rightarrow> ticks rfc uuid now batch k st' | (False, st') \<Rightarrow> (False, st'))"

text \<open>A backlog drains.  After an outage, however many rows are overdue, every tick takes the next batch of them: after
  \<open>k\<close> ticks exactly the rows beyond the first \<open>k\<close> batches are still due, so none once the batches cover them.\<close>

theorem backlog_drains:
  assumes "ticks rfc uuid now batch k (db, boxes) = (True, db', boxes')" "distinct (map s_id (scheduled db))"
  shows "list_due_scheduled_tasks db' now m = drop (k * batch) (list_due_scheduled_tasks db now (k * batch + m))"
  using assms
proof (induction k arbitrary: db boxes m)
  case (Suc k)
  obtain db1 boxes1 where r: "run_tick rfc uuid now batch (db, boxes) = (True, db1, boxes1)"
    and ok: "ticks rfc uuid now batch k (db1, boxes1) = (True, db', boxes')"
    using Suc.prems(1) by (auto split: prod.splits bool.splits)
  note one = due_after_tick [OF r Suc.prems(2)]
  have "list_due_scheduled_tasks db' now m = drop (k * batch) (list_due_scheduled_tasks db1 now (k * batch + m))"
    by (rule Suc.IH [OF ok one(2)])
  also have "\<dots> = drop (k * batch) (take (k * batch + m) (drop batch (sort_key s_next_fire_at (filter (due now) (scheduled db)))))"
    by (simp only: one(1))
  also have "\<dots> = drop (Suc k * batch) (list_due_scheduled_tasks db now (Suc k * batch + m))"
    by (simp add: list_due_scheduled_tasks_def drop_take ac_simps)
  finally show ?case .
qed simp

lemma two_hops: "\<exists>n. MAX_HOPS = Suc (Suc n)"
  by (rule exI [of _ 99998]) (simp add: MAX_HOPS_def)

text \<open>One row can end the scheduler.  An interval so large that the next fire leaves the range of dates, which the
  endpoint accepts as any positive number, panics after the message was sent and before the row is advanced: the
  task of the scheduler ends with it, every later row of the batch is passed over, and the row is due again
  after a restart.\<close>

theorem huge_interval_ends_scheduler:
  assumes "list_due_scheduled_tasks db now batch = task # rest" "s_interval_secs task = Some secs"
    and "MAX_DATE < s_next_fire_at task + secs * 1000" "0 < secs" "boxes (s_plugin task) = Some (Some ms)"
  shows "\<exists>db'. run_tick rfc uuid now batch (db, boxes)
      = (False, db', boxes(s_plugin task \<mapsto> Some (ms @ [fired_message rfc now (uuid (s_id task)) task])))
    \<and> list_due_scheduled_tasks db' now batch = task # rest"
proof -
  obtain n where hops: "MAX_HOPS = Suc (Suc n)" using two_hops by blast
  have "task \<in> set (list_due_scheduled_tasks db now batch)" using assms(1) by simp
  then have "s_next_fire_at task \<le> now" by (auto simp: list_due_scheduled_tasks_def dest!: in_set_takeD)
  then have "walk_slots MAX_HOPS (s_next_fire_at task) now (secs * 1000) = None"
    using assms(3) by (simp add: hops plus_date_def)
  then have "advance_next_fire task now = None"
    using assms(2,4) by (simp add: advance_next_fire_def)
  then show ?thesis
    using assms(1,5) by (simp add: run_tick_def fire_def inject_inbound_def list_due_scheduled_tasks_def)
qed

subsection \<open>Witnesses\<close>

definition hourly :: scheduled_task where
  "hourly = \<lparr>s_id = ''a'', s_tenant = ''t'', s_project = ''p'', s_chat_id = ''c'', s_plugin = ''l'', s_prompt = ''hi'',
     s_interval_secs = Some 3600, s_next_fire_at = 0, s_last_fired_at = None, s_enabled = True, s_created_at = 0\<rparr>"

definition hourly_db :: database where "hourly_db = empty_db\<lparr>scheduled := [hourly]\<rparr>"

lemma hourly_next: "advance_next_fire hourly 5000 = Some (Some 3600000)"
proof -
  obtain n where n: "MAX_HOPS = Suc (Suc n)" using two_hops by blast
  show ?thesis unfolding advance_next_fire_def n by (simp add: hourly_def MAX_SECONDS_def plus_date_def MAX_DATE_def)
qed

lemma hourly_due: "list_due_scheduled_tasks hourly_db 5000 (Suc n) = [hourly]"
  by (simp add: list_due_scheduled_tasks_def hourly_db_def hourly_def)

lemma hourly_tick: "\<exists>db' boxes'. run_tick rfc uuid 5000 1 (hourly_db, boxes) = (True, db', boxes')"
  using hourly_due [of 0] hourly_next by (simp add: run_tick_def split: prod.split)

lemma hourly_ids: "distinct (map s_id (scheduled hourly_db))"
  by (simp add: hourly_db_def)

theorem advance_to_next_slot_witness: "next_slot 0 3600000 5000 3600000"
  using advance_to_next_slot [OF _ hourly_next, of 3600] by (simp add: hourly_def MAX_HOPS_def)


theorem backlog_drains_witness:
  "\<exists>db' boxes'. ticks (\<lambda>_. []) id 5000 1 1 (hourly_db, Map.empty) = (True, db', boxes') \<and> list_due_scheduled_tasks db' 5000 1 = []"
proof -
  obtain db' boxes' where r: "run_tick (\<lambda>_. []) id 5000 1 (hourly_db, Map.empty) = (True, db', boxes')"
    using hourly_tick by blast
  then have t: "ticks (\<lambda>_. []) id 5000 1 1 (hourly_db, Map.empty) = (True, db', boxes')" by simp
  from backlog_drains [OF t hourly_ids, of 1] show ?thesis
    using t hourly_due [of 1] by (intro exI [of _ db'] exI [of _ boxes']) (simp add: numeral_2_eq_2)
qed

theorem huge_interval_ends_scheduler_witness:
  "\<exists>db'. run_tick (\<lambda>_. []) id 5000 1 (hourly_db\<lparr>scheduled := [hourly\<lparr>s_interval_secs := Some (10 ^ 13)\<rparr>]\<rparr>, [''l'' \<mapsto> Some []])
      = (False, db', [''l'' \<mapsto> Some [fired_message (\<lambda>_. []) 5000 ''a'' (hourly\<lparr>s_interval_secs := Some (10 ^ 13)\<rparr>)]])"
proof -
  let ?t = "hourly\<lparr>s_interval_secs := Some (10 ^ 13)\<rparr>"
  have d: "list_due_scheduled_tasks (hourly_db\<lparr>scheduled := [?t]\<rparr>) 5000 1 = ?t # []"
    by (simp add: list_due_scheduled_tasks_def hourly_def)
  have s: "s_interval_secs ?t = Some (10 ^ 13)" "MAX_DATE < s_next_fire_at ?t + 10 ^ 13 * 1000" "s_plugin ?t = ''l''" "s_id ?t = ''a''"
    by (simp_all add: MAX_DATE_def hourly_def)
  have b: "[''l'' \<mapsto> Some []] (s_plugin ?t) = Some (Some [])" unfolding s(3) by simp
  from huge_interval_ends_scheduler [where boxes = "[''l'' \<mapsto> Some []]", OF d s(1,2) _ b, of "\<lambda>_. []" id] show ?thesis unfolding s(3,4) id_def by auto
qed

end
