(* ===== verification/Sse.thy ===== *)
theory Sse
  imports Protocol Stream_Events System_Prompt Pairing
begin

text \<open>
  What the two providers of \<open>crates/snaca-llm\<close> share on the wire: the loop that cuts a byte stream into lines
  (\<open>parse_byte_stream\<close> of \<open>anthropic/sse.rs\<close> and \<open>deepseek/sse.rs\<close>) and the reading of an error response
  (\<open>transport.rs\<close>).

  A stream of bytes is a list of chunks, each an error or its bytes.  Every chunk is decoded on its own, with
  U+FFFD for what is not UTF-8, and appended to a buffer; complete lines leave the buffer and are handled in
  order.  A handler that wants the stream to end says so in its state and ignores what follows.
\<close>

subsection \<open>Lines\<close>

definition chop_cr :: "string \<Rightarrow> string" where
  "chop_cr l = (if l \<noteq> [] \<and> last l = CHR 0x0D then butlast l else l)"

definition next_line :: "string \<Rightarrow> (string \<times> string) option" where
  "next_line buf =
     (case find_sub [newline] buf of
        None \<Rightarrow> None
      | Some i \<Rightarrow> Some (chop_cr (take i buf), drop (Suc i) buf))"

definition strip_tag :: "string \<Rightarrow> string \<Rightarrow> string option" where
  "strip_tag tag l = (if prefix tag l then Some (drop (length tag) l) else None)"

lemma next_line_shorter: "next_line buf = Some (l, rest) \<Longrightarrow> length rest < length buf"
  using find_sub_le [of "[newline]" buf] by (auto simp: next_line_def split: option.splits)

function drain_lines :: "('s \<Rightarrow> string \<Rightarrow> 'o list \<times> 's) \<Rightarrow> 's \<Rightarrow> string \<Rightarrow> 'o list \<times> 's \<times> string" where
  "drain_lines step s buf =
     (case next_line buf of
        None \<Rightarrow> ([], s, buf)
      | Some (l, rest) \<Rightarrow>
          (case step s l of
             (out, s') \<Rightarrow> (case drain_lines step s' rest of (out', s'', buf') \<Rightarrow> (out @ out', s'', buf'))))"
  by pat_completeness auto
termination
  by (relation "measure (\<lambda>(_, _, buf). length buf)") (auto simp: next_line_shorter)

declare drain_lines.simps [simp del]

definition feed_lines :: "('s \<Rightarrow> string \<Rightarrow> 'o list \<times> 's) \<Rightarrow> 's \<times> string \<Rightarrow> string \<Rightarrow> 'o list \<times> 's \<times> string" where
  "feed_lines step sb chunk = drain_lines step (fst sb) (snd sb @ chunk)"

lemma find_newline_append: "find_sub [newline] a = Some i \<Longrightarrow> find_sub [newline] (a @ b) = Some i"
  by (induction "[newline]" a arbitrary: i rule: find_sub.induct) (auto split: if_splits)

lemma next_line_append: "next_line a = Some (l, rest) \<Longrightarrow> next_line (a @ b) = Some (l, rest @ b)"
  using find_sub_le [of "[newline]" a]
  by (auto simp: next_line_def find_newline_append split: option.splits)

lemma drain_lines_append:
  "drain_lines step s (a @ b) =
     (case drain_lines step s a of (out, s', buf) \<Rightarrow>
        case drain_lines step s' (buf @ b) of (out', s'', buf') \<Rightarrow> (out @ out', s'', buf'))"
proof (induction step s a rule: drain_lines.induct)
  case (1 step s a)
  show ?case
  proof (cases "next_line a")
    case None
    then show ?thesis by (simp add: drain_lines.simps [of step s a] split: prod.split)
  next
    case (Some p)
    obtain l rest where p: "p = (l, rest)" by fastforce
    obtain out s' where st: "step s l = (out, s')" by fastforce
    have ih: "drain_lines step s' (rest @ b) =
        (case drain_lines step s' rest of (out, s'', buf) \<Rightarrow>
           case drain_lines step s'' (buf @ b) of (out', s3, buf') \<Rightarrow> (out @ out', s3, buf'))"
      by (rule "1.IH" [OF Some p [symmetric] st [symmetric]])
    show ?thesis
      using Some p st ih next_line_append [of a l rest b]
      by (simp add: drain_lines.simps [of step s a] drain_lines.simps [of step s "a @ b"] split: prod.split)
  qed
qed

lemma feed_lines_append:
  "feed_lines step s (a @ b) =
     (case feed_lines step s a of (out, s') \<Rightarrow> case feed_lines step s' b of (out', s'') \<Rightarrow> (out @ out', s''))"
  using drain_lines_append [of step "fst s" "snd s @ a" b] by (simp add: feed_lines_def split: prod.split)

interpretation line_feed: chunked "feed_lines step" for step
  by unfold_locales (rule feed_lines_append)

text \<open>The loop over the chunks; it ends with the first error of the transport.\<close>

fun feed_chunks ::
  "('s \<Rightarrow> string \<Rightarrow> (llm_error + 'e) list \<times> 's) \<Rightarrow> ('s \<Rightarrow> bool) \<Rightarrow> 's \<times> string \<Rightarrow> (llm_error + string) list
     \<Rightarrow> (llm_error + 'e) list \<times> ('s \<times> string) option" where
  "feed_chunks step ended sb [] = ([], Some sb)"
| "feed_chunks step ended sb (c # cs) =
     (if ended (fst sb) then ([], None)
      else case c of
             Inl e \<Rightarrow> ([Inl e], None)
           | Inr bytes \<Rightarrow>
               (case feed_lines step sb (from_utf8_lossy bytes) of
                  (out, sb') \<Rightarrow> (case feed_chunks step ended sb' cs of (out', r) \<Rightarrow> (out @ out', r))))"

text \<open>A handler that has ended adds nothing more.\<close>

definition settles :: "('s \<Rightarrow> string \<Rightarrow> 'o list \<times> 's) \<Rightarrow> ('s \<Rightarrow> bool) \<Rightarrow> bool" where
  "settles step ended \<longleftrightarrow> (\<forall>s l. ended s \<longrightarrow> step s l = ([], s))"

lemma drain_settled: "settles step ended \<Longrightarrow> ended s \<Longrightarrow> \<exists>buf'. drain_lines step s buf = ([], s, buf')"
proof (induction step s buf rule: drain_lines.induct)
  case (1 step s buf)
  show ?case
  proof (cases "next_line buf")
    case None
    then show ?thesis by (simp add: drain_lines.simps [of step s buf])
  next
    case (Some p)
    obtain l rest where p: "p = (l, rest)" by fastforce
    have st: "step s l = ([], s)" using 1 by (simp add: settles_def)
    from "1.IH" [OF Some p [symmetric] st [symmetric]] "1.prems"
    obtain buf' where "drain_lines step s rest = ([], s, buf')" by blast
    then show ?thesis using Some p st by (simp add: drain_lines.simps [of step s buf])
  qed
qed

lemma feed_settled:
  assumes "settles step ended" "ended (fst sb)"
  shows "\<exists>buf'. line_feed.feed_all step sb cs = ([], fst sb, buf')"
  using assms(2)
proof (induction cs arbitrary: sb)
  case Nil
  then show ?case by (cases sb) simp
next
  case (Cons c cs)
  obtain buf' where "feed_lines step sb c = ([], fst sb, buf')"
    using drain_settled [OF assms(1) Cons.prems] by (auto simp: feed_lines_def)
  with Cons.IH [of "(fst sb, buf')"] Cons.prems show ?case by auto
qed

text \<open>A stream whose chunks are cut between characters: the outputs are those of the lines, and what the loop leaves
  is the state they end in.\<close>

definition stream_end :: "('s \<Rightarrow> 'o list) \<Rightarrow> 'o list \<times> ('s \<times> string) option \<Rightarrow> 'o list" where
  "stream_end at_end r = fst r @ (case snd r of None \<Rightarrow> [] | Some sb \<Rightarrow> at_end (fst sb))"

lemma feed_chunks_utf8:
  assumes "settles step ended" "\<And>s. ended s \<Longrightarrow> at_end s = []" "list_all valid_utf8 cs"
  shows "stream_end at_end (feed_chunks step ended sb (map Inr cs))
    = (case line_feed.feed_all step sb cs of (out, s, buf) \<Rightarrow> out @ at_end s)"
  using assms(3)
proof (induction cs arbitrary: sb)
  case Nil
  then show ?case by (cases sb) (simp add: stream_end_def)
next
  case (Cons c cs)
  show ?case
  proof (cases "ended (fst sb)")
    case True
    with feed_settled [OF assms(1) True, of "c # cs"] assms(2) show ?thesis
      by (auto simp: stream_end_def)
  next
    case False
    obtain out sb' where f: "feed_lines step sb c = (out, sb')" by (cases "feed_lines step sb c")
    have "valid_utf8 c" "list_all valid_utf8 cs" using Cons.prems by simp_all
    with Cons.IH [of sb'] f False show ?thesis
      by (auto simp: stream_end_def lossy_valid_id split: prod.splits)
  qed
qed

subsection \<open>Errors of the transport\<close>

record error_view =
  ev_type :: "string option"
  ev_code :: "string option"
  ev_message :: string

definition classify_error ::
  "(string \<Rightarrow> int option) \<Rightarrow> (string \<Rightarrow> error_view option) \<Rightarrow> nat \<Rightarrow> string option \<Rightarrow> string \<Rightarrow> llm_error" where
  "classify_error http_date read_env status hdr bytes =
     (let env = read_env bytes
      in classify_http_error http_date status hdr (Option.bind env ev_type) (Option.bind env ev_code)
           (map_option ev_message env) (from_utf8_lossy bytes))"

end
