(* ===== verification/Deepseek.thy ===== *)
theory Deepseek
  imports Sse
begin

text \<open>
  The DeepSeek client of \<open>crates/snaca-llm/src/deepseek\<close>: \<open>convert.rs\<close> (between the engine's messages and the
  wire) and \<open>wire.rs\<close> (the documents).

  The printer \<open>ser\<close> and the parser \<open>parse\<close> of JSON texts are parameters, with the parser's message \<open>perr\<close>; the
  derived readers are those of \<open>Protocol\<close>.
\<close>

subsection \<open>Requests\<close>

record wire_function =
  wf_name :: string
  wf_arguments :: string

record wire_tool_call =
  wc_id :: string
  wc_type :: string
  wc_function :: wire_function

record wire_message =
  wm_role :: string
  wm_content :: "string option"
  wm_reasoning :: "string option"
  wm_calls :: "wire_tool_call list option"
  wm_call_id :: "string option"
  wm_name :: "string option"

record wire_tool =
  wl_type :: string
  wl_name :: string
  wl_description :: string
  wl_parameters :: json

record chat_request =
  cq_model :: string
  cq_messages :: "wire_message list"
  cq_tools :: "wire_tool list"
  cq_max_tokens :: "nat option"
  cq_temperature :: "rat option"
  cq_stop :: "string list option"
  cq_stream :: bool

definition bare_message :: "string \<Rightarrow> string \<Rightarrow> wire_message" where
  "bare_message role content =
     \<lparr>wm_role = role, wm_content = Some content, wm_reasoning = None, wm_calls = None, wm_call_id = None, wm_name = None\<rparr>"

definition tool_message :: "string \<Rightarrow> string \<Rightarrow> wire_message" where
  "tool_message i content = (bare_message ''tool'' content)\<lparr>wm_call_id := Some i\<rparr>"

definition nonempty :: "'a list \<Rightarrow> 'a list option" where
  "nonempty xs = (if xs = [] then None else Some xs)"

definition push_line :: "string \<Rightarrow> string \<Rightarrow> string" where
  "push_line buf t = (if buf \<noteq> [] then buf @ [newline] else buf) @ t"

fun assistant_loop ::
  "(json \<Rightarrow> string) \<Rightarrow> string \<times> string \<times> wire_tool_call list \<Rightarrow> content_block list \<Rightarrow> string \<times> string \<times> wire_tool_call list" where
  "assistant_loop ser acc [] = acc"
| "assistant_loop ser (text, reasoning, calls) (Text t # bs) = assistant_loop ser (push_line text t, reasoning, calls) bs"
| "assistant_loop ser (text, reasoning, calls) (Thinking t _ # bs) = assistant_loop ser (text, push_line reasoning t, calls) bs"
| "assistant_loop ser (text, reasoning, calls) (ToolUse i name input # bs) =
     assistant_loop ser (text, reasoning,
       calls @ [\<lparr>wc_id = i, wc_type = ''function'', wc_function = \<lparr>wf_name = name, wf_arguments = ser input\<rparr>\<rparr>]) bs"
| "assistant_loop ser acc (_ # bs) = assistant_loop ser acc bs"

fun tool_messages :: "content_block list \<Rightarrow> wire_message list" where
  "tool_messages [] = []"
| "tool_messages (ToolResult i content _ # bs) = tool_message i (collect_text content) # tool_messages bs"
| "tool_messages (_ # bs) = tool_messages bs"

definition push_message :: "(json \<Rightarrow> string) \<Rightarrow> message \<Rightarrow> wire_message list" where
  "push_message ser m =
     (case m_role m of
        System \<Rightarrow> [bare_message ''system'' (collect_text (m_content m))]
      | User \<Rightarrow> [bare_message ''user'' (collect_text (m_content m))]
      | Assistant \<Rightarrow>
          (case assistant_loop ser ([], [], []) (m_content m) of
             (text, reasoning, calls) \<Rightarrow>
               if text = [] \<and> reasoning = [] \<and> calls = [] then []
               else [\<lparr>wm_role = ''assistant'', wm_content = nonempty text, wm_reasoning = nonempty reasoning,
                      wm_calls = nonempty calls, wm_call_id = None, wm_name = None\<rparr>])
      | Tool \<Rightarrow> tool_messages (m_content m))"

definition tool_schema_to_wire :: "tool_schema \<Rightarrow> wire_tool" where
  "tool_schema_to_wire s =
     \<lparr>wl_type = ''function'', wl_name = sc_name s, wl_description = sc_description s, wl_parameters = sc_input s\<rparr>"

definition build_chat_request :: "(json \<Rightarrow> string) \<Rightarrow> message_request \<Rightarrow> bool \<Rightarrow> chat_request" where
  "build_chat_request ser req stream =
     \<lparr>cq_model = rq_model req,
      cq_messages =
        (case flat_system req of
           Some system \<Rightarrow> (if system \<noteq> [] then [bare_message ''system'' system] else [])
         | None \<Rightarrow> [])
        @ concat (map (push_message ser) (rq_messages req)),
      cq_tools = map tool_schema_to_wire (rq_tools req),
      cq_max_tokens = rq_max_tokens req,
      cq_temperature = rq_temperature req,
      cq_stop = nonempty (rq_stop_sequences req),
      cq_stream = stream\<rparr>"

subsection \<open>Responses\<close>

record chat_usage =
  cu_prompt :: int
  cu_completion :: int
  cu_cache_hit :: "int option"
  cu_cache_miss :: "int option"

definition u64_of :: "json \<Rightarrow> int option" where
  "u64_of v = (case v of JNumber s \<Rightarrow> json_int 0 (2 ^ 64 - 1) s | _ \<Rightarrow> None)"

definition read_chat_usage :: "json \<Rightarrow> chat_usage option" where
  "read_chat_usage v = do {
     m \<leftarrow> as_fields [''prompt_tokens'', ''completion_tokens'', ''total_tokens'', ''prompt_cache_hit_tokens'', ''prompt_cache_miss_tokens''] v;
     p \<leftarrow> defaulted 0 u64_at m ''prompt_tokens'';
     c \<leftarrow> defaulted 0 u64_at m ''completion_tokens'';
     _ \<leftarrow> defaulted 0 u64_at m ''total_tokens'';
     hit \<leftarrow> opt_at u64_of m ''prompt_cache_hit_tokens'';
     miss \<leftarrow> opt_at u64_of m ''prompt_cache_miss_tokens'';
     Some \<lparr>cu_prompt = p, cu_completion = c, cu_cache_hit = hit, cu_cache_miss = miss\<rparr> }"

definition usage_of_chat :: "chat_usage \<Rightarrow> usage" where
  "usage_of_chat u =
     \<lparr>input_tokens = word_of_int (cu_prompt u), output_tokens = word_of_int (cu_completion u),
      cache_creation_input_tokens = map_option word_of_int (cu_cache_miss u),
      cache_read_input_tokens = map_option word_of_int (cu_cache_hit u)\<rparr>"

record chat_choice =
  ch_content :: "string option"
  ch_reasoning :: "string option"
  ch_calls :: "wire_tool_call list option"
  ch_finish :: "string option"

record chat_response =
  cp_id :: string
  cp_choices :: "chat_choice list"
  cp_usage :: "chat_usage option"

definition read_tool_call :: "json \<Rightarrow> wire_tool_call option" where
  "read_tool_call v = do {
     m \<leftarrow> as_fields [''id'', ''type'', ''function''] v;
     i \<leftarrow> string_at m ''id'';
     t \<leftarrow> string_at m ''type'';
     f \<leftarrow> Option.bind (m ''function'') (as_fields [''name'', ''arguments'']);
     name \<leftarrow> string_at f ''name'';
     args \<leftarrow> string_at f ''arguments'';
     Some \<lparr>wc_id = i, wc_type = t, wc_function = \<lparr>wf_name = name, wf_arguments = args\<rparr>\<rparr> }"

definition array_of :: "(json \<Rightarrow> 'a option) \<Rightarrow> json \<Rightarrow> 'a list option" where
  "array_of read v = (case v of JArray vs \<Rightarrow> read_all read vs | _ \<Rightarrow> None)"

abbreviation u32_at :: "(string \<rightharpoonup> json) \<Rightarrow> string \<Rightarrow> int option" where
  "u32_at \<equiv> int_at 0 (2 ^ 32 - 1)"

definition read_chat_choice :: "json \<Rightarrow> chat_choice option" where
  "read_chat_choice v = do {
     m \<leftarrow> as_fields [''index'', ''message'', ''finish_reason''] v;
     _ \<leftarrow> defaulted 0 u32_at m ''index'';
     msg \<leftarrow> Option.bind (m ''message'') (as_fields [''role'', ''content'', ''reasoning_content'', ''tool_calls'']);
     _ \<leftarrow> opt_at read_string msg ''role'';
     content \<leftarrow> opt_at read_string msg ''content'';
     reasoning \<leftarrow> opt_at read_string msg ''reasoning_content'';
     calls \<leftarrow> opt_at (array_of read_tool_call) msg ''tool_calls'';
     finish \<leftarrow> opt_at read_string m ''finish_reason'';
     Some \<lparr>ch_content = content, ch_reasoning = reasoning, ch_calls = calls, ch_finish = finish\<rparr> }"

definition read_chat_response :: "json \<Rightarrow> chat_response option" where
  "read_chat_response v = do {
     m \<leftarrow> as_fields [''id'', ''model'', ''choices'', ''usage''] v;
     i \<leftarrow> string_at m ''id'';
     _ \<leftarrow> defaulted [] string_at m ''model'';
     choices \<leftarrow> list_at read_chat_choice m ''choices'';
     u \<leftarrow> opt_at read_chat_usage m ''usage'';
     Some \<lparr>cp_id = i, cp_choices = choices, cp_usage = u\<rparr> }"

definition map_stop_reason :: "string \<Rightarrow> stop_reason" where
  "map_stop_reason s =
     (if s = ''stop'' then EndTurn
      else if s = ''length'' then MaxTokens
      else if s = ''tool_calls'' \<or> s = ''function_call'' then ToolUseStop
      else if s = ''stop_sequence'' then StopSequence
      else OtherStop s)"

fun tool_use_blocks ::
  "(string \<Rightarrow> json option) \<Rightarrow> (string \<Rightarrow> string) \<Rightarrow> wire_tool_call list \<Rightarrow> llm_error + content_block list" where
  "tool_use_blocks parse perr [] = Inr []"
| "tool_use_blocks parse perr (tc # tcs) =
     (let args = wf_arguments (wc_function tc)
      in case (if args = [] then Some (JObject []) else parse args) of
           None \<Rightarrow> Inl (MalformedResponse (''tool_call.arguments is not valid JSON: '' @ perr args))
         | Some v \<Rightarrow>
             (case tool_use_blocks parse perr tcs of
                Inl e \<Rightarrow> Inl e
              | Inr bs \<Rightarrow> Inr (ToolUse (wc_id tc) (wf_name (wc_function tc)) v # bs)))"

definition parse_chat_response ::
  "(string \<Rightarrow> json option) \<Rightarrow> (string \<Rightarrow> string) \<Rightarrow> message_id \<Rightarrow> timestamp \<Rightarrow> chat_response
     \<Rightarrow> llm_error + message_response" where
  "parse_chat_response parse perr fresh now resp =
     (case cp_choices resp of
        [] \<Rightarrow> Inl (MalformedResponse ''no choices in response'')
      | choice # _ \<Rightarrow>
          (case tool_use_blocks parse perr (or_else (ch_calls choice) []) of
             Inl e \<Rightarrow> Inl e
           | Inr uses \<Rightarrow>
               (let reasoning = or_else (ch_reasoning choice) [];
                    text = or_else (ch_content choice) [];
                    content = (if reasoning = [] then [] else [Thinking reasoning None])
                      @ (if text = [] then [] else [Text text]) @ uses
                in Inr \<lparr>resp_id = cp_id resp,
                        resp_message = \<lparr>m_id = fresh, m_role = Assistant, m_content = content, m_created_at = now\<rparr>,
                        resp_usage = (case cp_usage resp of Some u \<Rightarrow> usage_of_chat u | None \<Rightarrow> usage_default),
                        resp_stop = (case ch_finish choice of
                            Some r \<Rightarrow> map_stop_reason r
                          | None \<Rightarrow> if list_ex is_ToolUse content then ToolUseStop else EndTurn)\<rparr>)))"

subsection \<open>Calls and results on the wire\<close>

text \<open>
  What the provider asks of a conversation: tool messages stand right after the assistant message whose calls
  they answer, one for each call, and nowhere else.
\<close>

definition is_tool :: "wire_message \<Rightarrow> bool" where
  "is_tool m \<longleftrightarrow> wm_role m = ''tool''"

definition answered_by :: "wire_tool_call list \<Rightarrow> wire_message list \<Rightarrow> bool" where
  "answered_by cs ts \<longleftrightarrow> set (map wm_call_id ts) = Some ` wc_id ` set cs
     \<and> (distinct (map wc_id cs) \<longrightarrow> distinct (map wm_call_id ts))"

fun chat_paired :: "wire_tool_call list option \<Rightarrow> wire_message list \<Rightarrow> wire_message list \<Rightarrow> bool" where
  "chat_paired None ts [] \<longleftrightarrow> ts = []"
| "chat_paired (Some cs) ts [] \<longleftrightarrow> answered_by cs ts"
| "chat_paired None ts (m # ms) \<longleftrightarrow> ts = [] \<and> \<not> is_tool m \<and> chat_paired (wm_calls m) [] ms"
| "chat_paired (Some cs) ts (m # ms) \<longleftrightarrow>
     (if is_tool m then chat_paired (Some cs) (ts @ [m]) ms
      else answered_by cs ts \<and> chat_paired (wm_calls m) [] ms)"

lemma assistant_loop_calls:
  "assistant_loop ser (t, r, cs) bs = (t', r', cs') \<Longrightarrow> map wc_id cs' = map wc_id cs @ tool_use_ids bs"
proof (induction bs arbitrary: t r cs)
  case (Cons b bs)
  then show ?case by (cases b) auto
qed simp

lemma tool_messages_spec:
  "list_all is_tool (tool_messages bs)" "map wm_call_id (tool_messages bs) = map Some (tool_result_ids bs)"
  by (induction bs rule: tool_messages.induct) (simp_all add: is_tool_def tool_message_def bare_message_def)

lemma push_assistant_calls:
  assumes "m_role m = Assistant" "assistant_tool_uses m \<noteq> []"
  obtains w cs where "push_message ser m = [w]" "\<not> is_tool w" "wm_calls w = Some cs" "map wc_id cs = assistant_tool_uses m"
proof -
  obtain t r cs where l: "assistant_loop ser ([], [], []) (m_content m) = (t, r, cs)" by (metis prod_cases3)
  have ids: "map wc_id cs = assistant_tool_uses m"
    using assistant_loop_calls [OF l] assms(1) by (simp add: assistant_tool_uses_def)
  then have "cs \<noteq> []" using assms(2) by auto
  then have push: "push_message ser m = [\<lparr>wm_role = ''assistant'', wm_content = nonempty t, wm_reasoning = nonempty r,
      wm_calls = Some cs, wm_call_id = None, wm_name = None\<rparr>]"
    using l assms(1) by (simp add: push_message_def nonempty_def)
  show ?thesis by (rule that [OF push _ _ ids]) (simp_all add: is_tool_def)
qed

lemma push_plain:
  assumes "m_role m \<noteq> Tool" "assistant_tool_uses m = []"
  shows "push_message ser m = [] \<or> (\<exists>w. push_message ser m = [w] \<and> \<not> is_tool w \<and> wm_calls w = None)"
proof (cases "m_role m")
  case Assistant
  obtain t r cs where l: "assistant_loop ser ([], [], []) (m_content m) = (t, r, cs)" by (metis prod_cases3)
  with assistant_loop_calls [OF l] assms Assistant show ?thesis
    by (auto simp: push_message_def nonempty_def is_tool_def assistant_tool_uses_def)
qed (use assms in \<open>simp_all add: push_message_def bare_message_def is_tool_def\<close>)

lemma chat_paired_tools:
  "list_all is_tool us \<Longrightarrow> chat_paired (Some cs) ts (us @ ms) = chat_paired (Some cs) (ts @ us) ms"
  by (induction us arbitrary: ts) auto

lemma chat_paired_answered: "answered_by cs ts \<Longrightarrow> chat_paired None [] ms \<Longrightarrow> chat_paired (Some cs) ts ms"
  by (cases ms) auto

lemma well_paired_wire: "well_paired msgs \<Longrightarrow> chat_paired None [] (concat (map (push_message ser) msgs))"
proof (induction msgs rule: well_paired.induct)
  case (2 m)
  then show ?case using push_plain [of m ser] by auto
next
  case (3 m t ms)
  show ?case
  proof (cases "assistant_tool_uses m = []")
    case True
    with 3 push_plain [of m ser] show ?thesis by auto
  next
    case False
    with "3.prems" have role: "m_role m = Assistant" and ans: "answers t m" "well_paired ms"
      by (auto simp: assistant_tool_uses_def split: if_splits)
    obtain w cs where w: "push_message ser m = [w]" "\<not> is_tool w" "wm_calls w = Some cs" "map wc_id cs = assistant_tool_uses m"
      by (rule push_assistant_calls [OF role False])
    have t: "push_message ser t = tool_messages (m_content t)" using ans by (simp add: push_message_def answers_def)
    have "answered_by cs (tool_messages (m_content t))"
      using ans w(4) unfolding answered_by_def answers_def tool_messages_spec
      by (metis distinct_map inj_Some inj_on_subset image_image list.set_map subset_UNIV)
    with "3.IH"(2) [OF False ans(2)] have "chat_paired (Some cs) [] (tool_messages (m_content t) @ concat (map (push_message ser) ms))"
      by (simp add: chat_paired_tools tool_messages_spec chat_paired_answered)
    then show ?thesis using w t by simp
  qed
qed simp

text \<open>The requests to DeepSeek answer their calls.  Whatever history is assembled, in the messages that leave for the
  provider the calls of an assistant message are answered by the tool messages right after it, one for each
  call, and no tool message stands elsewhere.\<close>

theorem wire_calls_answered:
  "chat_paired None []
     (cq_messages (build_chat_request ser (req\<lparr>rq_messages := ensure_tool_result_pairing fresh msgs\<rparr>) stream))"
proof -
  have "chat_paired None [] (concat (map (push_message ser) (ensure_tool_result_pairing fresh msgs)))"
    by (rule well_paired_wire [OF ensure_well_paired])
  then show ?thesis
    by (auto simp: build_chat_request_def bare_message_def is_tool_def split: option.split)
qed

text \<open>An answer cut off while the model was still thinking poisons its thread.  The engine persists it, since it has a
  block, and every later request replays it as an assistant message with neither content nor calls, which
  the provider refuses.\<close>

theorem thinking_only_answer_replayed:
  assumes "m_role m = Assistant" "m_content m = [Thinking t sig]" "t \<noteq> []"
  shows "\<exists>w. push_message ser m = [w] \<and> wm_role w = ''assistant'' \<and> wm_content w = None \<and> wm_calls w = None"
  using assms by (simp add: push_message_def push_line_def nonempty_def)

theorem thinking_only_answer_replayed_witness:
  "\<exists>w. push_message (\<lambda>_. []) \<lparr>m_id = 1, m_role = Assistant, m_content = [Thinking ''hm'' None], m_created_at = 0\<rparr> = [w]
     \<and> wm_content w = None"
  using thinking_only_answer_replayed [of "\<lparr>m_id = 1, m_role = Assistant, m_content = [Thinking ''hm'' None], m_created_at = 0\<rparr>"
    "''hm''" None] by fastforce

end
