(* ===== verification/Deepseek_Stream.thy ===== *)
theory Deepseek_Stream
  imports Deepseek
begin

text \<open>
  Streaming from DeepSeek: \<open>sse.rs\<close> of \<open>crates/snaca-llm/src/deepseek\<close>, from the bytes of the stream to the events of
  \<open>Stream_Events\<close>, and its agreement with the non-streaming converter.

  A block index is a \<open>nat\<close>: a stream of \<open>2 ^ 32\<close> blocks does not occur.  A document that repeats a key is not
  told apart from one that does not.
\<close>

subsection \<open>Streamed chunks\<close>

record stream_tool_call =
  st_index :: nat
  st_id :: "string option"
  st_name :: "string option"
  st_arguments :: "string option"

record stream_choice =
  sd_content :: "string option"
  sd_reasoning :: "string option"
  sd_calls :: "stream_tool_call list option"
  sd_finish :: "string option"

record stream_chunk =
  sk_id :: "string option"
  sk_model :: "string option"
  sk_choices :: "stream_choice list"
  sk_usage :: "chat_usage option"

definition read_stream_call :: "json \<Rightarrow> stream_tool_call option" where
  "read_stream_call v = do {
     m \<leftarrow> as_fields [''index'', ''id'', ''function''] v;
     n \<leftarrow> u32_at m ''index'';
     i \<leftarrow> opt_at read_string m ''id'';
     f \<leftarrow> opt_at (as_fields [''name'', ''arguments'']) m ''function'';
     name \<leftarrow> opt_at read_string (or_else f Map.empty) ''name'';
     args \<leftarrow> opt_at read_string (or_else f Map.empty) ''arguments'';
     Some \<lparr>st_index = nat n, st_id = i, st_name = name, st_arguments = args\<rparr> }"

definition read_stream_choice :: "json \<Rightarrow> stream_choice option" where
  "read_stream_choice v = do {
     m \<leftarrow> as_fields [''index'', ''delta'', ''finish_reason''] v;
     _ \<leftarrow> defaulted 0 u32_at m ''index'';
     d \<leftarrow> defaulted Map.empty (\<lambda>m k. Option.bind (m k) (as_fields [''content'', ''reasoning_content'', ''tool_calls''])) m ''delta'';
     content \<leftarrow> opt_at read_string d ''content'';
     reasoning \<leftarrow> opt_at read_string d ''reasoning_content'';
     calls \<leftarrow> opt_at (array_of read_stream_call) d ''tool_calls'';
     finish \<leftarrow> opt_at read_string m ''finish_reason'';
     Some \<lparr>sd_content = content, sd_reasoning = reasoning, sd_calls = calls, sd_finish = finish\<rparr> }"

definition read_stream_chunk :: "json \<Rightarrow> stream_chunk option" where
  "read_stream_chunk v = do {
     m \<leftarrow> as_fields [''id'', ''model'', ''choices'', ''usage''] v;
     i \<leftarrow> opt_at read_string m ''id'';
     model \<leftarrow> opt_at read_string m ''model'';
     choices \<leftarrow> defaulted [] (list_at read_stream_choice) m ''choices'';
     u \<leftarrow> opt_at read_chat_usage m ''usage'';
     Some \<lparr>sk_id = i, sk_model = model, sk_choices = choices, sk_usage = u\<rparr> }"

subsection \<open>From chunks to events\<close>

datatype active_block = ActiveText nat | ActiveThinking nat | ActiveToolUse nat nat

record chat_state =
  sx_started :: bool
  sx_finished :: bool
  sx_next :: nat
  sx_current :: "active_block option"
  sx_tools :: "nat \<rightharpoonup> nat"

definition new_chat_state :: chat_state where
  "new_chat_state = \<lparr>sx_started = False, sx_finished = False, sx_next = 0, sx_current = None, sx_tools = Map.empty\<rparr>"

fun active_index :: "active_block \<Rightarrow> nat" where
  "active_index (ActiveText i) = i"
| "active_index (ActiveThinking i) = i"
| "active_index (ActiveToolUse i _) = i"

definition close_current :: "chat_state \<Rightarrow> stream_event list \<times> chat_state" where
  "close_current st =
     (case sx_current st of
        None \<Rightarrow> ([], st)
      | Some b \<Rightarrow> ([BlockStop (active_index b)], st\<lparr>sx_current := None\<rparr>))"

text \<open>Closing the open block and starting one; \<open>mk\<close> makes its entry in \<open>sx_current\<close>.\<close>

definition open_block :: "(nat \<Rightarrow> active_block) \<Rightarrow> block_start \<Rightarrow> chat_state \<Rightarrow> stream_event list \<times> chat_state" where
  "open_block mk start st =
     (case close_current st of
        (out, st') \<Rightarrow> (out @ [BlockStart (sx_next st') start],
          st'\<lparr>sx_next := sx_next st' + 1, sx_current := Some (mk (sx_next st'))\<rparr>))"

definition ensure_text :: "chat_state \<Rightarrow> stream_event list \<times> chat_state" where
  "ensure_text st = (case sx_current st of Some (ActiveText _) \<Rightarrow> ([], st) | _ \<Rightarrow> open_block ActiveText StartText st)"

definition ensure_thinking :: "chat_state \<Rightarrow> stream_event list \<times> chat_state" where
  "ensure_thinking st =
     (case sx_current st of Some (ActiveThinking _) \<Rightarrow> ([], st) | _ \<Rightarrow> open_block ActiveThinking StartThinking st)"

definition take_reasoning :: "string option \<Rightarrow> chat_state \<Rightarrow> stream_event list \<times> chat_state" where
  "take_reasoning r st =
     (if or_else r [] = [] then ([], st)
      else case ensure_thinking st of
             (out, st') \<Rightarrow>
               (out @ (case sx_current st' of Some (ActiveThinking i) \<Rightarrow> [BlockDelta i (DeltaThinking (or_else r []))] | _ \<Rightarrow> []), st'))"

definition take_content :: "string option \<Rightarrow> chat_state \<Rightarrow> stream_event list \<times> chat_state" where
  "take_content t st =
     (if or_else t [] = [] then ([], st)
      else case ensure_text st of
             (out, st') \<Rightarrow>
               (out @ (case sx_current st' of Some (ActiveText i) \<Rightarrow> [BlockDelta i (DeltaText (or_else t []))] | _ \<Rightarrow> []), st'))"

definition take_call :: "stream_tool_call \<Rightarrow> chat_state \<Rightarrow> stream_event list \<times> chat_state" where
  "take_call tc st =
     (let (canonical, out, st') =
        (case sx_tools st (st_index tc) of
           Some i \<Rightarrow> (i, [], st)
         | None \<Rightarrow>
             (case open_block (\<lambda>i. ActiveToolUse i (st_index tc)) (StartToolUse (or_else (st_id tc) []) (or_else (st_name tc) [])) st of
                (out, st') \<Rightarrow> (sx_next st, out, st'\<lparr>sx_tools := (sx_tools st')(st_index tc \<mapsto> sx_next st)\<rparr>)))
      in (out @ (if or_else (st_arguments tc) [] = [] then []
                 else [BlockDelta canonical (DeltaToolJson (or_else (st_arguments tc) []))]),
          st'\<lparr>sx_current := Some (ActiveToolUse canonical (st_index tc))\<rparr>))"

fun take_calls :: "stream_tool_call list \<Rightarrow> chat_state \<Rightarrow> stream_event list \<times> chat_state" where
  "take_calls [] st = ([], st)"
| "take_calls (tc # tcs) st =
     (case take_call tc st of (out, st') \<Rightarrow> (case take_calls tcs st' of (out', st'') \<Rightarrow> (out @ out', st'')))"

definition take_finish :: "string option \<Rightarrow> chat_usage option \<Rightarrow> chat_state \<Rightarrow> stream_event list \<times> chat_state" where
  "take_finish reason u st =
     (case reason of
        None \<Rightarrow> ([], st)
      | Some r \<Rightarrow>
          (case close_current st of
             (out, st') \<Rightarrow> (out @ [MessageDelta (Some (map_stop_reason r)) (map_option usage_of_chat u), MessageStop],
               st'\<lparr>sx_finished := True\<rparr>)))"

definition take_start :: "stream_chunk \<Rightarrow> chat_state \<Rightarrow> stream_event list \<times> chat_state" where
  "take_start c st =
     (if sx_started st then ([], st)
      else ([MessageStart (or_else (sk_id c) []) (sk_model c)], st\<lparr>sx_started := True\<rparr>))"

definition then_take ::
  "stream_event list \<times> chat_state \<Rightarrow> (chat_state \<Rightarrow> stream_event list \<times> chat_state) \<Rightarrow> stream_event list \<times> chat_state" where
  "then_take r f = (case r of (out, st) \<Rightarrow> (case f st of (out', st') \<Rightarrow> (out @ out', st')))"

definition process_chunk :: "stream_chunk \<Rightarrow> chat_state \<Rightarrow> stream_event list \<times> chat_state" where
  "process_chunk c st =
     (if sx_finished st then ([], st)
      else case sk_choices c of
             [] \<Rightarrow> take_start c st
           | choice # _ \<Rightarrow>
               then_take (then_take (then_take (then_take (take_start c st)
                 (take_reasoning (sd_reasoning choice)))
                 (take_content (sd_content choice)))
                 (take_calls (or_else (sd_calls choice) [])))
                 (take_finish (sd_finish choice) (sk_usage c)))"

fun process_chunks :: "stream_chunk list \<Rightarrow> chat_state \<Rightarrow> stream_event list \<times> chat_state" where
  "process_chunks [] st = ([], st)"
| "process_chunks (c # cs) st = then_take (process_chunk c st) (process_chunks cs)"

subsection \<open>Lines of the stream\<close>

record chat_reader =
  cr_state :: chat_state
  cr_ended :: bool

definition chat_line ::
  "(string \<Rightarrow> json option) \<Rightarrow> (string \<Rightarrow> string) \<Rightarrow> chat_reader \<Rightarrow> string
     \<Rightarrow> (llm_error + stream_event) list \<times> chat_reader" where
  "chat_line parse perr r line =
     (if cr_ended r then ([], r)
      else case strip_tag ''data:'' line of
             None \<Rightarrow> ([], r)
           | Some rest \<Rightarrow>
               (let payload = trim_start rest; st = cr_state r
                in if payload = ''[DONE]'' then
                     (if sx_started st \<and> \<not> sx_finished st
                      then ([Inr MessageStop], \<lparr>cr_state = st\<lparr>sx_current := None, sx_finished := True\<rparr>, cr_ended = True\<rparr>)
                      else ([], r\<lparr>cr_ended := True\<rparr>))
                   else case Option.bind (parse payload) read_stream_chunk of
                          None \<Rightarrow> ([Inl (MalformedResponse (''invalid SSE chunk: '' @ perr payload @ ''; payload='' @ payload))],
                            r\<lparr>cr_ended := True\<rparr>)
                        | Some c \<Rightarrow>
                            (case process_chunk c st of (evs, st') \<Rightarrow> (map Inr evs, r\<lparr>cr_state := st'\<rparr>))))"

definition chat_end :: "chat_reader \<Rightarrow> (llm_error + stream_event) list" where
  "chat_end r = (if \<not> cr_ended r \<and> sx_started (cr_state r) \<and> \<not> sx_finished (cr_state r) then [Inr MessageStop] else [])"

definition parse_chat_stream ::
  "(string \<Rightarrow> json option) \<Rightarrow> (string \<Rightarrow> string) \<Rightarrow> (llm_error + string) list \<Rightarrow> (llm_error + stream_event) list" where
  "parse_chat_stream parse perr chunks =
     stream_end chat_end
       (feed_chunks (chat_line parse perr) cr_ended (\<lparr>cr_state = new_chat_state, cr_ended = False\<rparr>, []) chunks)"

subsection \<open>What a stream says\<close>

text \<open>The pieces of a chunk in the order they are taken, and the state of the translator with what was accumulated.\<close>

datatype piece = Reasoning string | Visible string | Fragment stream_tool_call

definition pieces_of :: "stream_choice \<Rightarrow> piece list" where
  "pieces_of d = [Reasoning (or_else (sd_reasoning d) []), Visible (or_else (sd_content d) [])]
     @ map Fragment (or_else (sd_calls d) [])"

fun take_piece :: "piece \<Rightarrow> chat_state \<Rightarrow> stream_event list \<times> chat_state" where
  "take_piece (Reasoning r) = take_reasoning (Some r)"
| "take_piece (Visible t) = take_content (Some t)"
| "take_piece (Fragment tc) = take_call tc"

definition flow ::
  "(chat_state \<Rightarrow> stream_event list \<times> chat_state) \<Rightarrow> chat_state \<times> accumulator \<Rightarrow> chat_state \<times> accumulator" where
  "flow f sa = (case f (fst sa) of (out, st) \<Rightarrow> (st, foldl ingest (snd sa) out))"

definition flow_pieces :: "piece list \<Rightarrow> chat_state \<times> accumulator \<Rightarrow> chat_state \<times> accumulator" where
  "flow_pieces ps sa = foldl (\<lambda>sa p. flow (take_piece p) sa) sa ps"

lemma flow_then: "flow (\<lambda>st. then_take (f st) g) sa = flow g (flow f sa)"
  by (simp add: flow_def then_take_def split: prod.split)

lemma flow_calls: "flow (take_calls tcs) sa = flow_pieces (map Fragment tcs) sa"
proof (induction tcs arbitrary: sa)
  case Nil
  then show ?case by (simp add: flow_def flow_pieces_def)
next
  case (Cons tc tcs)
  have "flow (take_calls (tc # tcs)) sa = flow (take_calls tcs) (flow (take_call tc) sa)"
    by (simp add: flow_def split: prod.split)
  also have "\<dots> = flow_pieces (map Fragment tcs) (flow (take_call tc) sa)" by (rule Cons.IH)
  also have "\<dots> = flow_pieces (map Fragment (tc # tcs)) sa" by (simp add: flow_pieces_def)
  finally show ?case .
qed

lemma take_or_else: "take_reasoning r = take_reasoning (Some (or_else r []))" "take_content t = take_content (Some (or_else t []))"
  by (auto simp: fun_eq_iff take_reasoning_def take_content_def or_else_def split: option.split)

lemma flow_chunk:
  assumes "\<not> sx_finished (fst sa)" "sk_choices c = d # ds"
  shows "flow (process_chunk c) sa = flow (take_finish (sd_finish d) (sk_usage c)) (flow_pieces (pieces_of d) (flow (take_start c) sa))"
proof -
  let ?f = "\<lambda>st. then_take (then_take (then_take (then_take (take_start c st)
      (take_reasoning (sd_reasoning d))) (take_content (sd_content d))) (take_calls (or_else (sd_calls d) [])))
      (take_finish (sd_finish d) (sk_usage c))"
  have "flow (process_chunk c) sa = flow ?f sa"
    using assms by (simp add: flow_def process_chunk_def)
  also have "\<dots> = flow (take_finish (sd_finish d) (sk_usage c)) (flow (take_calls (or_else (sd_calls d) []))
      (flow (take_content (sd_content d)) (flow (take_reasoning (sd_reasoning d)) (flow (take_start c) sa))))"
    by (simp add: flow_then)
  also have "\<dots> = flow (take_finish (sd_finish d) (sk_usage c)) (flow_pieces (pieces_of d) (flow (take_start c) sa))"
    by (simp add: flow_calls flow_pieces_def pieces_of_def take_or_else(1) [of "sd_reasoning d"] take_or_else(2) [of "sd_content d"])
  finally show ?thesis .
qed

text \<open>The text, the reasoning and the fragments of calls among pieces, and the call of a wire index.\<close>

fun visible_of :: "piece \<Rightarrow> string" where
  "visible_of (Visible t) = t"
| "visible_of _ = []"

fun reasoning_of :: "piece \<Rightarrow> string" where
  "reasoning_of (Reasoning t) = t"
| "reasoning_of _ = []"

fun fragments_of :: "piece list \<Rightarrow> stream_tool_call list" where
  "fragments_of [] = []"
| "fragments_of (Fragment tc # ps) = tc # fragments_of ps"
| "fragments_of (_ # ps) = fragments_of ps"

definition assemble :: "stream_tool_call list \<Rightarrow> nat \<Rightarrow> partial_block" where
  "assemble tcs k =
     (let fs = filter (\<lambda>tc. st_index tc = k) tcs
      in PToolUse (or_else (st_id (hd fs)) []) (or_else (st_name (hd fs)) []) (concat (map (\<lambda>tc. or_else (st_arguments tc) []) fs)))"

definition in_order :: "'a list \<Rightarrow> 'a list" where
  "in_order ks = rev (remdups (rev ks))"

lemma in_order_snoc: "in_order (ks @ [k]) = (if k \<in> set ks then in_order ks else in_order ks @ [k])"
  by (simp add: in_order_def)

lemma set_in_order [simp]: "set (in_order ks) = set ks"
  by (simp add: in_order_def)

lemma fragments_append [simp]: "fragments_of (ps @ qs) = fragments_of ps @ fragments_of qs"
  by (induction ps rule: fragments_of.induct) simp_all

fun text_part :: "partial_block \<Rightarrow> string" where
  "text_part (PText t) = t"
| "text_part _ = []"

fun thinking_part :: "partial_block \<Rightarrow> string" where
  "thinking_part (PThinking t _) = t"
| "thinking_part _ = []"

fun is_call :: "partial_block \<Rightarrow> bool" where
  "is_call (PToolUse _ _ _) = True"
| "is_call _ = False"

text \<open>
  The invariant: blocks are numbered from 0, their texts are what was said, an open text or thinking block is the
  last one, and the calls are the fragments of their wire index put together.
\<close>

definition says :: "piece list \<Rightarrow> chat_state \<times> accumulator \<Rightarrow> bool" where
  "says ps sa \<longleftrightarrow>
     (case sa of (st, a) \<Rightarrow>
        map fst (a_blocks a) = [0..<sx_next st]
        \<and> concat (map (text_part \<circ> snd) (a_blocks a)) = concat (map visible_of ps)
        \<and> concat (map (thinking_part \<circ> snd) (a_blocks a)) = concat (map reasoning_of ps)
        \<and> (\<forall>i. sx_current st = Some (ActiveText i) \<longrightarrow> (\<exists>bl t. a_blocks a = bl @ [(i, PText t)]))
        \<and> (\<forall>i. sx_current st = Some (ActiveThinking i) \<longrightarrow> (\<exists>bl t. a_blocks a = bl @ [(i, PThinking t None)]))
        \<and> dom (sx_tools st) = set (map st_index (fragments_of ps))
        \<and> inj_on (sx_tools st) (set (map st_index (fragments_of ps))) \<and> ran (sx_tools st) \<subseteq> {..<sx_next st}
        \<and> filter (is_call \<circ> snd) (a_blocks a)
            = map (\<lambda>k. (the (sx_tools st k), assemble (fragments_of ps) k)) (in_order (map st_index (fragments_of ps))))"

lemma close_current_silent:
  "close_current st = (out, st') \<Longrightarrow> foldl ingest a out = a \<and> st' = st\<lparr>sx_current := None\<rparr>"
  by (auto simp: close_current_def split: option.splits)

lemma blocks_below: "map fst bl = [0..<n] \<Longrightarrow> \<forall>(l, w) \<in> set bl. l < n"
  by (metis atLeastLessThan_iff case_prodI2 in_set_zipE set_upt zip_map_fst_snd)

lemma flow_open:
  assumes "map fst (a_blocks a) = [0..<sx_next st]"
  shows "flow (open_block mk start) (st, a)
    = (st\<lparr>sx_next := sx_next st + 1, sx_current := Some (mk (sx_next st))\<rparr>,
       a\<lparr>a_blocks := a_blocks a @ [(sx_next st, from_start start)]\<rparr>)"
proof -
  obtain out st' where c: "close_current st = (out, st')" by fastforce
  from close_current_silent [OF c, of a] show ?thesis
    using c btree_insert_last [OF blocks_below [OF assms], of "from_start start"]
    by (simp add: flow_def open_block_def)
qed

lemma btree_update_snoc:
  assumes "map fst (bl @ [(i, b)]) = [0..<n]"
  shows "btree_update i f (bl @ [(i, b)]) = bl @ [(i, f b)]"
proof (rule btree_update_last)
  have "n = Suc (length bl)" using arg_cong [OF assms, of length] by simp
  then have "map fst bl = [0..<length bl]" "i = length bl" using assms by simp_all
  then show "\<forall>(l, w) \<in> set bl. l < i" using blocks_below [of bl "length bl"] by simp
qed

lemma flow_reasoning:
  assumes "map fst (a_blocks a) = [0..<sx_next st]"
    and "\<And>i. sx_current st = Some (ActiveThinking i) \<Longrightarrow> \<exists>bl t. a_blocks a = bl @ [(i, PThinking t None)]"
    and "r \<noteq> []"
  obtains (more) bl i t where "sx_current st = Some (ActiveThinking i)" "a_blocks a = bl @ [(i, PThinking t None)]"
      "flow (take_reasoning (Some r)) (st, a) = (st, a\<lparr>a_blocks := bl @ [(i, PThinking (t @ r) None)]\<rparr>)"
    | (new) "\<And>i. sx_current st \<noteq> Some (ActiveThinking i)" "flow (take_reasoning (Some r)) (st, a)
        = (st\<lparr>sx_next := sx_next st + 1, sx_current := Some (ActiveThinking (sx_next st))\<rparr>,
           a\<lparr>a_blocks := a_blocks a @ [(sx_next st, PThinking r None)]\<rparr>)"
proof (cases "\<exists>i. sx_current st = Some (ActiveThinking i)")
  case True
  then obtain i where i: "sx_current st = Some (ActiveThinking i)" by blast
  obtain bl t where bl: "a_blocks a = bl @ [(i, PThinking t None)]" using assms(2) [OF i] by blast
  have "flow (take_reasoning (Some r)) (st, a) = (st, a\<lparr>a_blocks := bl @ [(i, PThinking (t @ r) None)]\<rparr>)"
    using assms(1,3) i bl by (simp add: flow_def take_reasoning_def ensure_thinking_def or_else_def btree_update_snoc)
  with i bl show ?thesis by (rule more)
next
  case False
  then have e: "ensure_thinking st = open_block ActiveThinking StartThinking st"
    by (auto simp: ensure_thinking_def split: option.split active_block.split)
  obtain out st' where o: "open_block ActiveThinking StartThinking st = (out, st')" by fastforce
  have s: "st' = st\<lparr>sx_next := sx_next st + 1, sx_current := Some (ActiveThinking (sx_next st))\<rparr>"
    "foldl ingest a out = a\<lparr>a_blocks := a_blocks a @ [(sx_next st, PThinking [] None)]\<rparr>"
    using flow_open [OF assms(1), of ActiveThinking StartThinking] o by (simp_all add: flow_def)
  show ?thesis
  proof (rule new)
    show "sx_current st \<noteq> Some (ActiveThinking i)" for i using False by blast
  qed (use assms(3) e o s btree_update_last [OF blocks_below [OF assms(1)]] in
      \<open>simp add: flow_def take_reasoning_def or_else_def\<close>)
qed

lemma flow_content:
  assumes "map fst (a_blocks a) = [0..<sx_next st]"
    and "\<And>i. sx_current st = Some (ActiveText i) \<Longrightarrow> \<exists>bl t. a_blocks a = bl @ [(i, PText t)]"
    and "r \<noteq> []"
  obtains (more) bl i t where "sx_current st = Some (ActiveText i)" "a_blocks a = bl @ [(i, PText t)]"
      "flow (take_content (Some r)) (st, a) = (st, a\<lparr>a_blocks := bl @ [(i, PText (t @ r))]\<rparr>)"
    | (new) "\<And>i. sx_current st \<noteq> Some (ActiveText i)" "flow (take_content (Some r)) (st, a)
        = (st\<lparr>sx_next := sx_next st + 1, sx_current := Some (ActiveText (sx_next st))\<rparr>,
           a\<lparr>a_blocks := a_blocks a @ [(sx_next st, PText r)]\<rparr>)"
proof (cases "\<exists>i. sx_current st = Some (ActiveText i)")
  case True
  then obtain i where i: "sx_current st = Some (ActiveText i)" by blast
  obtain bl t where bl: "a_blocks a = bl @ [(i, PText t)]" using assms(2) [OF i] by blast
  have "flow (take_content (Some r)) (st, a) = (st, a\<lparr>a_blocks := bl @ [(i, PText (t @ r))]\<rparr>)"
    using assms(1,3) i bl by (simp add: flow_def take_content_def ensure_text_def or_else_def btree_update_snoc)
  with i bl show ?thesis by (rule more)
next
  case False
  then have e: "ensure_text st = open_block ActiveText StartText st"
    by (auto simp: ensure_text_def split: option.split active_block.split)
  obtain out st' where o: "open_block ActiveText StartText st = (out, st')" by fastforce
  have s: "st' = st\<lparr>sx_next := sx_next st + 1, sx_current := Some (ActiveText (sx_next st))\<rparr>"
    "foldl ingest a out = a\<lparr>a_blocks := a_blocks a @ [(sx_next st, PText [])]\<rparr>"
    using flow_open [OF assms(1), of ActiveText StartText] o by (simp_all add: flow_def)
  show ?thesis
  proof (rule new)
    show "sx_current st \<noteq> Some (ActiveText i)" for i using False by blast
  qed (use assms(3) e o s btree_update_last [OF blocks_below [OF assms(1)]] in
      \<open>simp add: flow_def take_content_def or_else_def\<close>)
qed

text \<open>A fragment of a known call grows its block, one of a new call starts a block.\<close>

lemma btree_update_id: "(\<And>b. f b = b) \<Longrightarrow> btree_update i f bl = bl"
  by (induction bl) (auto simp: btree_update_def)

lemma flow_fragment:
  assumes "map fst (a_blocks a) = [0..<sx_next st]"
  shows "flow (take_call tc) (st, a) =
    (case sx_tools st (st_index tc) of
       Some i \<Rightarrow> (st\<lparr>sx_current := Some (ActiveToolUse i (st_index tc))\<rparr>,
         (if or_else (st_arguments tc) [] = [] then a
          else a\<lparr>a_blocks := btree_update i (\<lambda>b. ingest_delta b (DeltaToolJson (or_else (st_arguments tc) []))) (a_blocks a)\<rparr>))
     | None \<Rightarrow>
         (st\<lparr>sx_next := sx_next st + 1, sx_current := Some (ActiveToolUse (sx_next st) (st_index tc)),
            sx_tools := (sx_tools st)(st_index tc \<mapsto> sx_next st)\<rparr>,
          a\<lparr>a_blocks := a_blocks a @ [(sx_next st, PToolUse (or_else (st_id tc) []) (or_else (st_name tc) []) (or_else (st_arguments tc) []))]\<rparr>))"
proof (cases "sx_tools st (st_index tc)")
  case None
  let ?mk = "\<lambda>i. ActiveToolUse i (st_index tc)" and ?start = "StartToolUse (or_else (st_id tc) []) (or_else (st_name tc) [])"
  obtain out st' where o: "open_block ?mk ?start st = (out, st')" by fastforce
  have s: "st' = st\<lparr>sx_next := sx_next st + 1, sx_current := Some (?mk (sx_next st))\<rparr>"
    "foldl ingest a out = a\<lparr>a_blocks := a_blocks a @ [(sx_next st, from_start ?start)]\<rparr>"
    using flow_open [OF assms, of ?mk ?start] o by (simp_all add: flow_def)
  then show ?thesis
    using None o btree_update_last [OF blocks_below [OF assms]]
    by (simp add: flow_def take_call_def Let_def)
qed (simp add: flow_def take_call_def)

lemma says_reasoning:
  assumes "says ps (st, a)"
  shows "says (ps @ [Reasoning r]) (flow (take_reasoning (Some r)) (st, a))"
proof (cases "r = []")
  case True
  with assms show ?thesis by (simp add: says_def flow_def take_reasoning_def or_else_def)
next
  case False
  have b: "map fst (a_blocks a) = [0..<sx_next st]"
    and c: "\<And>i. sx_current st = Some (ActiveThinking i) \<Longrightarrow> \<exists>bl t. a_blocks a = bl @ [(i, PThinking t None)]"
    using assms by (simp_all add: says_def)
  show ?thesis
  proof (rule flow_reasoning [OF b c False])
    fix bl i t
    assume m: "sx_current st = Some (ActiveThinking i)" "a_blocks a = bl @ [(i, PThinking t None)]"
      "flow (take_reasoning (Some r)) (st, a) = (st, a\<lparr>a_blocks := bl @ [(i, PThinking (t @ r) None)]\<rparr>)"
    with assms show ?thesis by (simp add: says_def)
  next
    assume "flow (take_reasoning (Some r)) (st, a)
        = (st\<lparr>sx_next := sx_next st + 1, sx_current := Some (ActiveThinking (sx_next st))\<rparr>,
           a\<lparr>a_blocks := a_blocks a @ [(sx_next st, PThinking r None)]\<rparr>)"
    with assms show ?thesis by (auto simp: says_def)
  qed
qed

lemma says_content:
  assumes "says ps (st, a)"
  shows "says (ps @ [Visible r]) (flow (take_content (Some r)) (st, a))"
proof (cases "r = []")
  case True
  with assms show ?thesis by (simp add: says_def flow_def take_content_def or_else_def)
next
  case False
  have b: "map fst (a_blocks a) = [0..<sx_next st]"
    and c: "\<And>i. sx_current st = Some (ActiveText i) \<Longrightarrow> \<exists>bl t. a_blocks a = bl @ [(i, PText t)]"
    using assms by (simp_all add: says_def)
  show ?thesis
  proof (rule flow_content [OF b c False])
    fix bl i t
    assume m: "sx_current st = Some (ActiveText i)" "a_blocks a = bl @ [(i, PText t)]"
      "flow (take_content (Some r)) (st, a) = (st, a\<lparr>a_blocks := bl @ [(i, PText (t @ r))]\<rparr>)"
    with assms show ?thesis by (simp add: says_def)
  next
    assume "flow (take_content (Some r)) (st, a)
        = (st\<lparr>sx_next := sx_next st + 1, sx_current := Some (ActiveText (sx_next st))\<rparr>,
           a\<lparr>a_blocks := a_blocks a @ [(sx_next st, PText r)]\<rparr>)"
    with assms show ?thesis by (auto simp: says_def)
  qed
qed

lemma assemble_other: "st_index tc \<noteq> k \<Longrightarrow> assemble (tcs @ [tc]) k = assemble tcs k"
  by (simp add: assemble_def)

lemma filter_index: "filter (\<lambda>x. f x = k) xs = [] \<longleftrightarrow> k \<notin> set (map f xs)"
  by (induction xs) auto

lemma assemble_new:
  "st_index tc \<notin> set (map st_index tcs) \<Longrightarrow> assemble (tcs @ [tc]) (st_index tc)
     = PToolUse (or_else (st_id tc) []) (or_else (st_name tc) []) (or_else (st_arguments tc) [])"
proof -
  assume "st_index tc \<notin> set (map st_index tcs)"
  then have "filter (\<lambda>x. st_index x = st_index tc) tcs = []" by (simp only: filter_index not_False_eq_True)
  then show ?thesis by (simp add: assemble_def)
qed

lemma assemble_more:
  assumes "st_index tc \<in> set (map st_index tcs)"
  shows "assemble (tcs @ [tc]) (st_index tc) = ingest_delta (assemble tcs (st_index tc)) (DeltaToolJson (or_else (st_arguments tc) []))"
proof -
  have "filter (\<lambda>x. st_index x = st_index tc) tcs \<noteq> []" using assms by (simp only: filter_index not_not)
  then show ?thesis by (simp add: assemble_def Let_def)
qed

lemma btree_update_parts:
  assumes "\<And>b. text_part (f b) = text_part b" "\<And>b. thinking_part (f b) = thinking_part b" "\<And>b. is_call (f b) = is_call b"
  shows "map fst (btree_update i f bl) = map fst bl"
    "map (text_part \<circ> snd) (btree_update i f bl) = map (text_part \<circ> snd) bl"
    "map (thinking_part \<circ> snd) (btree_update i f bl) = map (thinking_part \<circ> snd) bl"
    "filter (is_call \<circ> snd) (btree_update i f bl) = btree_update i f (filter (is_call \<circ> snd) bl)"
  by (induction bl) (auto simp: btree_update_def assms split: if_splits)

lemma ingest_json_parts:
  "text_part (ingest_delta b (DeltaToolJson j)) = text_part b" "thinking_part (ingest_delta b (DeltaToolJson j)) = thinking_part b"
  "is_call (ingest_delta b (DeltaToolJson j)) = is_call b"
  by (cases b; simp)+

lemma ingest_json_Nil: "ingest_delta b (DeltaToolJson []) = b"
  by (cases b) simp_all

lemma says_fragment:
  assumes "says ps (st, a)"
  shows "says (ps @ [Fragment tc]) (flow (take_call tc) (st, a))"
proof -
  let ?cs = "fragments_of ps" and ?k = "st_index tc" and ?j = "or_else (st_arguments tc) []"
  have b: "map fst (a_blocks a) = [0..<sx_next st]" and dom: "dom (sx_tools st) = set (map st_index ?cs)"
    and inj: "inj_on (sx_tools st) (set (map st_index ?cs))" and ran: "ran (sx_tools st) \<subseteq> {..<sx_next st}"
    and calls: "filter (is_call \<circ> snd) (a_blocks a) = map (\<lambda>k. (the (sx_tools st k), assemble ?cs k)) (in_order (map st_index ?cs))"
    and texts: "concat (map (text_part \<circ> snd) (a_blocks a)) = concat (map visible_of ps)"
      "concat (map (thinking_part \<circ> snd) (a_blocks a)) = concat (map reasoning_of ps)"
    using assms by (simp_all add: says_def)
  show ?thesis
  proof (cases "sx_tools st ?k")
    case None
    then have new: "?k \<notin> set (map st_index ?cs)" using dom by auto
    have same: "assemble (?cs @ [tc]) k = assemble ?cs k" "the (((sx_tools st)(?k \<mapsto> sx_next st)) k) = the (sx_tools st k)"
      if "k \<in> set (map st_index ?cs)" for k
      using that new by (metis assemble_other, metis fun_upd_other)
    have "map (\<lambda>k. (the (((sx_tools st)(?k \<mapsto> sx_next st)) k), assemble (?cs @ [tc]) k)) (in_order (map st_index ?cs))
        = map (\<lambda>k. (the (sx_tools st k), assemble ?cs k)) (in_order (map st_index ?cs))"
      using same by (intro map_cong refl) simp
    moreover have "inj_on ((sx_tools st)(?k \<mapsto> sx_next st)) (set (map st_index (?cs @ [tc])))"
    proof -
      have "sx_tools st k \<noteq> Some (sx_next st)" for k using ran by (auto simp: ran_def)
      with inj new show ?thesis by (simp add: inj_on_def) metis
    qed
    ultimately show ?thesis
      using None b dom ran calls texts new in_order_snoc [of "map st_index ?cs" ?k] assemble_new [OF new]
      by (auto simp: says_def flow_fragment [OF b] ran_def)
  next
    case (Some i)
    then have old: "?k \<in> set (map st_index ?cs)" using dom by auto
    let ?f = "\<lambda>b. ingest_delta b (DeltaToolJson ?j)"
    have flow: "flow (take_call tc) (st, a) = (st\<lparr>sx_current := Some (ActiveToolUse i ?k)\<rparr>, a\<lparr>a_blocks := btree_update i ?f (a_blocks a)\<rparr>)"
      using Some by (simp add: flow_fragment [OF b] ingest_json_Nil btree_update_id)
    have "(if the (sx_tools st k) = i then ?f (assemble ?cs k) else assemble ?cs k) = assemble (?cs @ [tc]) k"
      if k: "k \<in> set (map st_index ?cs)" for k
    proof -
      from k dom obtain j where j: "sx_tools st k = Some j" by blast
      have "the (sx_tools st k) = i \<longleftrightarrow> k = ?k"
        using inj_onD [OF inj _ k old] j Some by auto
      then show ?thesis using assemble_more [OF old] assemble_other [of tc k ?cs] by auto
    qed
    then have "btree_update i ?f (map (\<lambda>k. (the (sx_tools st k), assemble ?cs k)) (in_order (map st_index ?cs)))
        = map (\<lambda>k. (the (sx_tools st k), assemble (?cs @ [tc]) k)) (in_order (map st_index ?cs))"
      by (auto simp: btree_update_def)
    moreover have "insert ?k (st_index ` set ?cs) = st_index ` set ?cs" using old by auto
    ultimately show ?thesis
      using b dom inj ran calls texts old in_order_snoc [of "map st_index ?cs" ?k] flow
      by (simp add: says_def btree_update_parts ingest_json_parts del: inj_on_insert)
  qed
qed

lemma says_piece: "says ps sa \<Longrightarrow> says (ps @ [p]) (flow (take_piece p) sa)"
  by (cases sa; cases p) (simp_all add: says_reasoning says_content says_fragment)

lemma says_pieces: "says ps sa \<Longrightarrow> says (ps @ qs) (flow_pieces qs sa)"
proof (induction qs arbitrary: ps sa)
  case Nil
  then show ?case by (simp add: flow_pieces_def)
next
  case (Cons q qs)
  from Cons.IH [OF says_piece [OF Cons.prems, of q]] show ?case by (simp add: flow_pieces_def)
qed

lemma says_start: "says ps sa \<Longrightarrow> says ps (flow (take_start c) sa)"
  by (cases sa) (auto simp: says_def flow_def take_start_def)

lemma says_finish: "says ps sa \<Longrightarrow> says ps (flow (take_finish r u) sa)"
  by (cases sa) (auto simp: says_def flow_def take_finish_def close_current_def split: option.splits)

lemma says_new: "says [] (new_chat_state, new_accumulator)"
  by (simp add: says_def new_chat_state_def new_accumulator_def in_order_def)

text \<open>The choices a stream acts on: the first of each chunk, up to the one that finishes.\<close>

fun live :: "stream_chunk list \<Rightarrow> stream_choice list" where
  "live [] = []"
| "live (c # cs) =
     (case sk_choices c of
        [] \<Rightarrow> live cs
      | d # _ \<Rightarrow> d # (if sd_finish d = None then live cs else []))"

definition spoken :: "stream_chunk list \<Rightarrow> piece list" where
  "spoken cs = concat (map pieces_of (live cs))"

lemma flow_chunks_Cons: "flow (process_chunks (c # cs)) sa = flow (process_chunks cs) (flow (process_chunk c) sa)"
  by (simp add: flow_def then_take_def split: prod.split)

declare process_chunks.simps(2) [simp del]

lemma flow_finished: "sx_finished (fst sa) \<Longrightarrow> flow (process_chunks cs) sa = sa"
proof (induction cs)
  case Nil
  then show ?case by (simp add: flow_def)
next
  case (Cons c cs)
  have "flow (process_chunk c) sa = sa" using Cons.prems by (simp add: flow_def process_chunk_def)
  with Cons show ?case by (simp add: flow_chunks_Cons)
qed

lemma flow_no_choice: "\<not> sx_finished (fst sa) \<Longrightarrow> sk_choices c = [] \<Longrightarrow> flow (process_chunk c) sa = flow (take_start c) sa"
  by (simp add: flow_def process_chunk_def)

lemma flow_finish_None [simp]: "flow (take_finish None u) sa = sa"
  by (simp add: flow_def take_finish_def)

lemma finished_finish: "sx_finished (fst (flow (take_finish (Some r) u) sa))"
  by (simp add: flow_def take_finish_def split: prod.split)

lemma finished_open: "close_current st = (out, st') \<Longrightarrow> sx_finished st' = sx_finished st"
  "open_block mk start st = (out, st') \<Longrightarrow> sx_finished st' = sx_finished st"
  by (auto simp: close_current_def open_block_def split: option.splits prod.splits)

lemma finished_start [simp]: "sx_finished (fst (flow (take_start c) sa)) = sx_finished (fst sa)"
  by (simp add: flow_def take_start_def)

lemma finished_piece: "sx_finished (fst (flow (take_piece p) sa)) = sx_finished (fst sa)"
proof (cases p)
  case (Reasoning r)
  then show ?thesis
    by (auto simp: flow_def take_reasoning_def ensure_thinking_def or_else_def dest: finished_open
        split: prod.split option.split active_block.split)
next
  case (Visible t)
  then show ?thesis
    by (auto simp: flow_def take_content_def ensure_text_def or_else_def dest: finished_open
        split: prod.split option.split active_block.split)
next
  case (Fragment tc)
  then show ?thesis
    by (auto simp: flow_def take_call_def Let_def dest: finished_open split: prod.split option.split)
qed

lemma finished_pieces [simp]: "sx_finished (fst (flow_pieces ps sa)) = sx_finished (fst sa)"
  by (induction ps arbitrary: sa) (simp_all add: flow_pieces_def finished_piece)

lemma says_stream:
  "says ps sa \<Longrightarrow> \<not> sx_finished (fst sa) \<Longrightarrow> says (ps @ spoken cs) (flow (process_chunks cs) sa)"
proof (induction cs arbitrary: ps sa)
  case Nil
  then show ?case by (simp add: spoken_def flow_def)
next
  case (Cons c cs)
  show ?case
  proof (cases "sk_choices c")
    case Nil
    with Cons.IH [OF says_start [OF Cons.prems(1)]] Cons.prems show ?thesis
      by (simp add: flow_chunks_Cons flow_no_choice spoken_def)
  next
    case (Cons d ds)
    let ?sa = "flow_pieces (pieces_of d) (flow (take_start c) sa)"
    have s: "says (ps @ pieces_of d) ?sa" by (rule says_pieces [OF says_start [OF Cons.prems(1)]])
    have f: "flow (process_chunk c) sa = flow (take_finish (sd_finish d) (sk_usage c)) ?sa"
      by (rule flow_chunk [OF Cons.prems(2) Cons])
    show ?thesis
    proof (cases "sd_finish d")
      case None
      with Cons.IH [OF s] Cons.prems(2) Cons f show ?thesis by (simp add: flow_chunks_Cons spoken_def)
    next
      case (Some r)
      have "flow (process_chunks (c # cs)) sa = flow (take_finish (Some r) (sk_usage c)) ?sa"
        unfolding flow_chunks_Cons f Some by (rule flow_finished [OF finished_finish])
      moreover have "spoken (c # cs) = pieces_of d" using Cons Some by (simp add: spoken_def)
      ultimately show ?thesis using says_finish [OF s] by (simp only:)
    qed
  qed
qed

lemma flow_new: "foldl ingest new_accumulator (fst (process_chunks cs new_chat_state))
    = snd (flow (process_chunks cs) (new_chat_state, new_accumulator))"
  by (simp add: flow_def split: prod.split)

text \<open>A stream loses and misplaces nothing, however the provider cuts and interleaves it.  The accumulated text is
  the concatenation of the content deltas, the accumulated reasoning that of the reasoning deltas, and there is
  one call for each wire index, in the order of first appearance, with the id and the name its first fragment
  gave and all fragments of its arguments in order; nothing after the finishing chunk counts.\<close>

theorem stream_conserves:
  "(let a = foldl ingest new_accumulator (fst (process_chunks cs new_chat_state));
        ps = spoken cs
    in concat (map (text_part \<circ> snd) (a_blocks a)) = concat (map visible_of ps)
       \<and> concat (map (thinking_part \<circ> snd) (a_blocks a)) = concat (map reasoning_of ps)
       \<and> filter is_call (map snd (a_blocks a))
         = map (assemble (fragments_of ps)) (in_order (map st_index (fragments_of ps))))"
proof -
  obtain st a where f: "flow (process_chunks cs) (new_chat_state, new_accumulator) = (st, a)" by fastforce
  have "says (spoken cs) (st, a)"
    using says_stream [OF says_new, of cs] f by (simp add: new_chat_state_def)
  then have s: "concat (map (text_part \<circ> snd) (a_blocks a)) = concat (map visible_of (spoken cs))"
    "concat (map (thinking_part \<circ> snd) (a_blocks a)) = concat (map reasoning_of (spoken cs))"
    "filter (is_call \<circ> snd) (a_blocks a) = map (\<lambda>k. (the (sx_tools st k), assemble (fragments_of (spoken cs)) k))
       (in_order (map st_index (fragments_of (spoken cs))))"
    by (simp_all add: says_def)
  from arg_cong [OF s(3), of "map snd"] have "filter is_call (map snd (a_blocks a))
      = map (assemble (fragments_of (spoken cs))) (in_order (map st_index (fragments_of (spoken cs))))"
    by (simp add: filter_map comp_def)
  with s(1,2) show ?thesis unfolding flow_new f Let_def by simp
qed

subsection \<open>Streaming and not streaming\<close>

text \<open>The order in which DeepSeek streams: reasoning, then the text, then the calls.\<close>

fun phase_of_piece :: "piece \<Rightarrow> nat" where
  "phase_of_piece (Reasoning _) = 0"
| "phase_of_piece (Visible _) = 1"
| "phase_of_piece (Fragment _) = 2"

fun substantive :: "piece \<Rightarrow> bool" where
  "substantive (Reasoning r) = (r \<noteq> [])"
| "substantive (Visible t) = (t \<noteq> [])"
| "substantive (Fragment _) = True"

definition phased :: "piece list \<Rightarrow> bool" where
  "phased ps = sorted (map phase_of_piece (filter substantive ps))"

definition prose :: "piece list \<Rightarrow> partial_block list" where
  "prose ps = (let rs = concat (map reasoning_of ps); ts = concat (map visible_of ps)
     in (if rs = [] then [] else [PThinking rs None]) @ (if ts = [] then [] else [PText ts]))"

definition laid_out :: "piece list \<Rightarrow> chat_state \<times> accumulator \<Rightarrow> bool" where
  "laid_out ps sa \<longleftrightarrow>
     (case sa of (st, a) \<Rightarrow>
        a_blocks a = filter (\<lambda>b. \<not> is_call (snd b)) (a_blocks a) @ filter (\<lambda>b. is_call (snd b)) (a_blocks a)
        \<and> map snd (filter (\<lambda>b. \<not> is_call (snd b)) (a_blocks a)) = prose ps
        \<and> (fragments_of ps = [] \<longrightarrow>
             (concat (map visible_of ps) \<noteq> [] \<longrightarrow> (\<exists>i. sx_current st = Some (ActiveText i)))
             \<and> (concat (map visible_of ps) = [] \<longrightarrow> concat (map reasoning_of ps) \<noteq> [] \<longrightarrow> (\<exists>i. sx_current st = Some (ActiveThinking i)))))"

lemma phased_snoc:
  "phased (ps @ [p]) \<longleftrightarrow> phased ps \<and> (substantive p \<longrightarrow> (\<forall>q \<in> set ps. substantive q \<longrightarrow> phase_of_piece q \<le> phase_of_piece p))"
  by (auto simp: phased_def sorted_append)

lemma visible_all_Nil: "(\<forall>q \<in> set ps. substantive q \<longrightarrow> phase_of_piece q \<le> 0) \<Longrightarrow> concat (map visible_of ps) = [] \<and> fragments_of ps = []"
proof (induction ps)
  case (Cons q ps)
  then show ?case by (cases q) auto
qed simp

lemma fragments_all_Nil: "(\<forall>q \<in> set ps. substantive q \<longrightarrow> phase_of_piece q \<le> 1) \<Longrightarrow> fragments_of ps = []"
proof (induction ps)
  case (Cons q ps)
  then show ?case by (cases q) auto
qed simp

lemma says_no_calls:
  "says ps (st, a) \<Longrightarrow> fragments_of ps = [] \<Longrightarrow> filter (\<lambda>b. is_call (snd b)) (a_blocks a) = []"
  by (simp add: says_def comp_def in_order_def)

lemma laid_reasoning:
  assumes "says ps (st, a)" "laid_out ps (st, a)" "phased (ps @ [Reasoning r])"
  shows "laid_out (ps @ [Reasoning r]) (flow (take_reasoning (Some r)) (st, a))"
proof (cases "r = []")
  case True
  with assms(2) show ?thesis by (simp add: laid_out_def flow_def take_reasoning_def or_else_def prose_def)
next
  case False
  then have none: "concat (map visible_of ps) = []" "fragments_of ps = []"
    using assms(3) visible_all_Nil [of ps] by (simp_all add: phased_snoc)
  have b: "map fst (a_blocks a) = [0..<sx_next st]"
    and c: "\<And>i. sx_current st = Some (ActiveThinking i) \<Longrightarrow> \<exists>bl t. a_blocks a = bl @ [(i, PThinking t None)]"
    using assms(1) by (simp_all add: says_def)
  have calls: "filter (\<lambda>b. is_call (snd b)) (a_blocks a) = []" by (rule says_no_calls [OF assms(1) none(2)])
  then have all: "filter (\<lambda>b. \<not> is_call (snd b)) (a_blocks a) = a_blocks a" by (metis (mono_tags) filter_True filter_empty_conv)
  with assms(2) none have pr: "map snd (a_blocks a) = (if concat (map reasoning_of ps) = [] then [] else [PThinking (concat (map reasoning_of ps)) None])"
    and cur: "concat (map reasoning_of ps) \<noteq> [] \<Longrightarrow> \<exists>i. sx_current st = Some (ActiveThinking i)"
    by (simp_all add: laid_out_def prose_def)
  show ?thesis
  proof (rule flow_reasoning [OF b c False])
    fix bl i t
    assume m: "sx_current st = Some (ActiveThinking i)" "a_blocks a = bl @ [(i, PThinking t None)]"
      "flow (take_reasoning (Some r)) (st, a) = (st, a\<lparr>a_blocks := bl @ [(i, PThinking (t @ r) None)]\<rparr>)"
    from m(2) pr have "bl = []" "t = concat (map reasoning_of ps)" by (auto split: if_splits)
    with m none False show ?thesis by (simp add: laid_out_def prose_def)
  next
    assume m: "\<And>i. sx_current st \<noteq> Some (ActiveThinking i)" "flow (take_reasoning (Some r)) (st, a)
        = (st\<lparr>sx_next := sx_next st + 1, sx_current := Some (ActiveThinking (sx_next st))\<rparr>,
           a\<lparr>a_blocks := a_blocks a @ [(sx_next st, PThinking r None)]\<rparr>)"
    then have "concat (map reasoning_of ps) = []" using cur by blast
    with m pr none False show ?thesis by (simp add: laid_out_def prose_def)
  qed
qed

lemma laid_content:
  assumes "says ps (st, a)" "laid_out ps (st, a)" "phased (ps @ [Visible r])"
  shows "laid_out (ps @ [Visible r]) (flow (take_content (Some r)) (st, a))"
proof (cases "r = []")
  case True
  with assms(2) show ?thesis by (simp add: laid_out_def flow_def take_content_def or_else_def prose_def)
next
  case False
  then have none: "fragments_of ps = []"
    using assms(3) fragments_all_Nil [of ps] by (simp add: phased_snoc)
  let ?rs = "concat (map reasoning_of ps)" and ?ts = "concat (map visible_of ps)"
  have b: "map fst (a_blocks a) = [0..<sx_next st]"
    and c: "\<And>i. sx_current st = Some (ActiveText i) \<Longrightarrow> \<exists>bl t. a_blocks a = bl @ [(i, PText t)]"
    using assms(1) by (simp_all add: says_def)
  have calls: "filter (\<lambda>b. is_call (snd b)) (a_blocks a) = []" by (rule says_no_calls [OF assms(1) none])
  then have all: "filter (\<lambda>b. \<not> is_call (snd b)) (a_blocks a) = a_blocks a" by (metis (mono_tags) filter_True filter_empty_conv)
  with assms(2) have pr: "map snd (a_blocks a) = prose ps" by (simp add: laid_out_def)
  have cur: "?ts \<noteq> [] \<Longrightarrow> \<exists>i. sx_current st = Some (ActiveText i)" using assms(2) none by (simp add: laid_out_def)
  show ?thesis
  proof (rule flow_content [OF b c False])
    fix bl i t
    assume m: "sx_current st = Some (ActiveText i)" "a_blocks a = bl @ [(i, PText t)]"
      "flow (take_content (Some r)) (st, a) = (st, a\<lparr>a_blocks := bl @ [(i, PText (t @ r))]\<rparr>)"
    from m(2) pr have t: "?ts \<noteq> []" "t = ?ts" "map snd bl = (if ?rs = [] then [] else [PThinking ?rs None])"
      by (auto simp: prose_def Let_def append_eq_append_conv2 split: if_splits)
    have "filter (\<lambda>b. \<not> is_call (snd b)) bl = bl" "filter (\<lambda>b. is_call (snd b)) bl = []"
      using all calls m(2) by simp_all
    with m none t False show ?thesis by (simp add: laid_out_def prose_def)
  next
    assume m: "\<And>i. sx_current st \<noteq> Some (ActiveText i)" "flow (take_content (Some r)) (st, a)
        = (st\<lparr>sx_next := sx_next st + 1, sx_current := Some (ActiveText (sx_next st))\<rparr>,
           a\<lparr>a_blocks := a_blocks a @ [(sx_next st, PText r)]\<rparr>)"
    then have "?ts = []" using cur by blast
    with m pr none False all calls show ?thesis by (simp add: laid_out_def prose_def Let_def)
  qed
qed

lemma filter_update_other:
  assumes "\<And>b. \<not> is_call b \<Longrightarrow> f b = b" "\<And>b. is_call (f b) = is_call b"
  shows "filter (\<lambda>b. \<not> is_call (snd b)) (btree_update i f bl) = filter (\<lambda>b. \<not> is_call (snd b)) bl"
    "filter (\<lambda>b. is_call (snd b)) (btree_update i f bl) = btree_update i f (filter (\<lambda>b. is_call (snd b)) bl)"
  by (induction bl) (auto simp: btree_update_def assms split: if_splits)

lemma ingest_json_prose: "\<not> is_call b \<Longrightarrow> ingest_delta b (DeltaToolJson j) = b"
  by (cases b) simp_all

lemma btree_update_append: "btree_update i f (bl @ bl') = btree_update i f bl @ btree_update i f bl'"
  by (simp add: btree_update_def)

lemma laid_fragment:
  assumes "says ps (st, a)" "laid_out ps (st, a)"
  shows "laid_out (ps @ [Fragment tc]) (flow (take_call tc) (st, a))"
proof -
  let ?N = "\<lambda>bl. filter (\<lambda>b. \<not> is_call (snd b)) bl" and ?C = "\<lambda>bl. filter (\<lambda>b. is_call (snd b)) bl"
  let ?f = "\<lambda>b. ingest_delta b (DeltaToolJson (or_else (st_arguments tc) []))"
  have b: "map fst (a_blocks a) = [0..<sx_next st]" using assms(1) by (simp add: says_def)
  have l: "a_blocks a = ?N (a_blocks a) @ ?C (a_blocks a)" "map snd (?N (a_blocks a)) = prose ps"
    using assms(2) by (simp_all add: laid_out_def)
  have pr: "prose (ps @ [Fragment tc]) = prose ps" by (simp add: prose_def)
  note upd = filter_update_other [of ?f, OF ingest_json_prose ingest_json_parts(3)]
  have "\<exists>st'. flow (take_call tc) (st, a) = (st', a) \<or> (\<exists>i. flow (take_call tc) (st, a) = (st', a\<lparr>a_blocks := btree_update i ?f (a_blocks a)\<rparr>))
      \<or> (\<exists>i j k. flow (take_call tc) (st, a) = (st', a\<lparr>a_blocks := a_blocks a @ [(i, PToolUse j k (or_else (st_arguments tc) []))]\<rparr>))"
    by (auto simp: flow_fragment [OF b] split: option.split)
  then consider (same) st' where "flow (take_call tc) (st, a) = (st', a)"
    | (grow) st' i where "flow (take_call tc) (st, a) = (st', a\<lparr>a_blocks := btree_update i ?f (a_blocks a)\<rparr>)"
    | (new) st' i j k where "flow (take_call tc) (st, a) = (st', a\<lparr>a_blocks := a_blocks a @ [(i, PToolUse j k (or_else (st_arguments tc) []))]\<rparr>)"
    by blast
  then show ?thesis
  proof cases
    case same
    with l pr show ?thesis by (simp add: laid_out_def)
  next
    case grow
    have keep: "btree_update i ?f (?N bl) = ?N bl" for bl
      by (induction bl) (auto simp: btree_update_def ingest_json_prose)
    have "btree_update i ?f (a_blocks a) = btree_update i ?f (?N (a_blocks a) @ ?C (a_blocks a))"
      by (rule arg_cong [OF l(1)])
    also have "\<dots> = ?N (a_blocks a) @ btree_update i ?f (?C (a_blocks a))"
      by (simp only: btree_update_append keep)
    finally have "btree_update i ?f (a_blocks a) = ?N (a_blocks a) @ btree_update i ?f (?C (a_blocks a))" .
    with grow l(2) pr show ?thesis by (simp add: laid_out_def upd)
  next
    case new
    with l pr show ?thesis by (simp add: laid_out_def)
  qed
qed

lemma laid_piece: "says ps sa \<Longrightarrow> laid_out ps sa \<Longrightarrow> phased (ps @ [p]) \<Longrightarrow> laid_out (ps @ [p]) (flow (take_piece p) sa)"
  by (cases sa; cases p) (simp_all add: laid_reasoning laid_content laid_fragment)

lemma phased_prefix: "phased (ps @ qs) \<Longrightarrow> phased ps"
  by (simp add: phased_def sorted_append)

lemma laid_pieces:
  "says ps sa \<Longrightarrow> laid_out ps sa \<Longrightarrow> phased (ps @ qs) \<Longrightarrow> laid_out (ps @ qs) (flow_pieces qs sa)"
proof (induction qs arbitrary: ps sa)
  case Nil
  then show ?case by (simp add: flow_pieces_def)
next
  case (Cons q qs)
  have "phased (ps @ [q])" using Cons.prems(3) phased_prefix [of "ps @ [q]" qs] by simp
  with Cons.IH [OF says_piece [OF Cons.prems(1), of q] laid_piece [OF Cons.prems(1,2)]] Cons.prems(3)
  show ?case by (simp add: flow_pieces_def)
qed

lemma laid_start: "laid_out ps sa \<Longrightarrow> laid_out ps (flow (take_start c) sa)"
  by (cases sa) (auto simp: laid_out_def flow_def take_start_def)

text \<open>How a stream ends, and what the accumulator holds besides the blocks.\<close>

fun finishing :: "stream_chunk list \<Rightarrow> (string \<times> chat_usage option) option" where
  "finishing [] = None"
| "finishing (c # cs) =
     (case sk_choices c of
        [] \<Rightarrow> finishing cs
      | d # _ \<Rightarrow> (case sd_finish d of Some r \<Rightarrow> Some (r, sk_usage c) | None \<Rightarrow> finishing cs))"

definition quiet_part :: "accumulator \<Rightarrow> string option \<times> stop_reason option \<times> usage option \<times> string option" where
  "quiet_part a = (a_message_id a, a_stop a, a_usage a, a_error a)"

lemma quiet_blocks [simp]: "quiet_part (a\<lparr>a_blocks := bl\<rparr>) = quiet_part a"
  by (simp add: quiet_part_def)

lemma quiet_piece: "says ps sa \<Longrightarrow> quiet_part (snd (flow (take_piece p) sa)) = quiet_part (snd sa)"
proof (cases p)
  case (Reasoning r)
  assume s: "says ps sa"
  obtain st a where sa: "sa = (st, a)" by fastforce
  have b: "map fst (a_blocks a) = [0..<sx_next st]"
    and c: "\<And>i. sx_current st = Some (ActiveThinking i) \<Longrightarrow> \<exists>bl t. a_blocks a = bl @ [(i, PThinking t None)]"
    using s sa by (simp_all add: says_def)
  show ?thesis
  proof (cases "r = []")
    case True
    then show ?thesis by (simp add: Reasoning flow_def take_reasoning_def or_else_def)
  next
    case False
    show ?thesis by (rule flow_reasoning [OF b c False]) (simp_all add: Reasoning sa)
  qed
next
  case (Visible r)
  assume s: "says ps sa"
  obtain st a where sa: "sa = (st, a)" by fastforce
  have b: "map fst (a_blocks a) = [0..<sx_next st]"
    and c: "\<And>i. sx_current st = Some (ActiveText i) \<Longrightarrow> \<exists>bl t. a_blocks a = bl @ [(i, PText t)]"
    using s sa by (simp_all add: says_def)
  show ?thesis
  proof (cases "r = []")
    case True
    then show ?thesis by (simp add: Visible flow_def take_content_def or_else_def)
  next
    case False
    show ?thesis by (rule flow_content [OF b c False]) (simp_all add: Visible sa)
  qed
next
  case (Fragment tc)
  assume s: "says ps sa"
  obtain st a where sa: "sa = (st, a)" by fastforce
  with s have b: "map fst (a_blocks a) = [0..<sx_next st]" by (simp add: says_def)
  show ?thesis by (simp add: Fragment sa flow_fragment [OF b] split: option.split)
qed

lemma quiet_pieces: "says ps sa \<Longrightarrow> quiet_part (snd (flow_pieces qs sa)) = quiet_part (snd sa)"
proof (induction qs arbitrary: ps sa)
  case (Cons q qs)
  from Cons.IH [OF says_piece [OF Cons.prems, of q]] quiet_piece [OF Cons.prems, of q]
  show ?case by (simp add: flow_pieces_def)
qed (simp add: flow_pieces_def)

lemma flow_finish_Some:
  "snd (flow (take_finish (Some r) u) (st, a))
     = a\<lparr>a_stop := Some (map_stop_reason r), a_usage := (case u of None \<Rightarrow> a_usage a | Some v \<Rightarrow> Some (usage_of_chat v))\<rparr>"
proof -
  obtain out st' where c: "close_current st = (out, st')" by fastforce
  show ?thesis using c close_current_silent [OF c, of a]
    by (auto simp: flow_def take_finish_def split: option.split)
qed

text \<open>The state after the start of a message stays started.\<close>

lemma started_open: "close_current st = (out, st') \<Longrightarrow> sx_started st' = sx_started st"
  "open_block mk start st = (out, st') \<Longrightarrow> sx_started st' = sx_started st"
  by (auto simp: close_current_def open_block_def split: option.splits prod.splits)

lemma started_piece: "sx_started (fst (flow (take_piece p) sa)) = sx_started (fst sa)"
proof (cases p)
  case (Reasoning r)
  then show ?thesis
    by (auto simp: flow_def take_reasoning_def ensure_thinking_def or_else_def dest: started_open
        split: prod.split option.split active_block.split)
next
  case (Visible t)
  then show ?thesis
    by (auto simp: flow_def take_content_def ensure_text_def or_else_def dest: started_open
        split: prod.split option.split active_block.split)
next
  case (Fragment tc)
  then show ?thesis
    by (auto simp: flow_def take_call_def Let_def dest: started_open split: prod.split option.split)
qed

lemma started_pieces [simp]: "sx_started (fst (flow_pieces ps sa)) = sx_started (fst sa)"
  by (induction ps arbitrary: sa) (simp_all add: flow_pieces_def started_piece)

lemma flow_start_started: "sx_started (fst sa) \<Longrightarrow> flow (take_start c) sa = sa"
  by (simp add: flow_def take_start_def)

text \<open>A stream that has started and finishes, from any point on.\<close>

lemma stream_result:
  assumes "says ps sa" "laid_out ps sa" "\<not> sx_finished (fst sa)" "sx_started (fst sa)"
    and "phased (ps @ spoken cs)" "finishing cs = Some (r, u)"
  shows "\<exists>st a. flow (process_chunks cs) sa = (st, a) \<and> says (ps @ spoken cs) (st, a)
    \<and> map snd (a_blocks a) = prose (ps @ spoken cs)
        @ map (assemble (fragments_of (ps @ spoken cs))) (in_order (map st_index (fragments_of (ps @ spoken cs))))
    \<and> quiet_part a = (a_message_id (snd sa), Some (map_stop_reason r),
        (case u of None \<Rightarrow> a_usage (snd sa) | Some v \<Rightarrow> Some (usage_of_chat v)), a_error (snd sa))"
  using assms
proof (induction cs arbitrary: ps sa)
  case Nil
  then show ?case by simp
next
  case (Cons c cs)
  show ?case
  proof (cases "sk_choices c")
    case Nil
    then have "flow (process_chunk c) sa = sa"
      using Cons.prems flow_no_choice [of sa c] flow_start_started [of sa c] by simp
    moreover have "spoken (c # cs) = spoken cs" "finishing (c # cs) = finishing cs" using Nil by (simp_all add: spoken_def)
    ultimately show ?thesis
      using Cons.IH [OF Cons.prems(1-4)] Cons.prems(5,6) unfolding flow_chunks_Cons by simp
  next
    case (Cons d ds)
    let ?sa = "flow_pieces (pieces_of d) sa"
    have s: "says (ps @ pieces_of d) ?sa" by (rule says_pieces [OF Cons.prems(1)])
    have ph: "phased ((ps @ pieces_of d) @ (if sd_finish d = None then spoken cs else []))"
      using Cons.prems(5) Cons by (cases "sd_finish d") (simp_all add: spoken_def)
    have l: "laid_out (ps @ pieces_of d) ?sa" by (rule laid_pieces [OF Cons.prems(1,2) phased_prefix [OF ph]])
    have f: "flow (process_chunk c) sa = flow (take_finish (sd_finish d) (sk_usage c)) ?sa"
      using flow_chunk [OF Cons.prems(3) Cons] Cons.prems(4) by (simp add: flow_start_started)
    have q: "quiet_part (snd ?sa) = quiet_part (snd sa)" by (rule quiet_pieces [OF Cons.prems(1)])
    show ?thesis
    proof (cases "sd_finish d")
      case None
      then have sp: "spoken (c # cs) = pieces_of d @ spoken cs" "finishing (c # cs) = finishing cs"
        using Cons by (simp_all add: spoken_def)
      have fl: "flow (process_chunks (c # cs)) sa = flow (process_chunks cs) ?sa"
        unfolding flow_chunks_Cons f None by simp
      have "finishing cs = Some (r, u)" using Cons.prems(6) unfolding sp .
      moreover have "a_message_id (snd ?sa) = a_message_id (snd sa)" "a_usage (snd ?sa) = a_usage (snd sa)" "a_error (snd ?sa) = a_error (snd sa)"
        using q by (simp_all add: quiet_part_def)
      ultimately show ?thesis
        using Cons.IH [OF s l] Cons.prems(3,4) ph None unfolding fl sp
        by (simp add: append_assoc [symmetric] del: append_assoc cong: option.case_cong)
    next
      case (Some r')
      have sp: "spoken (c # cs) = pieces_of d" "finishing (c # cs) = Some (r', sk_usage c)"
        using Cons Some by (simp_all add: spoken_def)
      have fl: "flow (process_chunks (c # cs)) sa = flow (take_finish (Some r') (sk_usage c)) ?sa"
        unfolding flow_chunks_Cons f Some by (rule flow_finished [OF finished_finish])
      obtain st1 a1 where sa1: "?sa = (st1, a1)" by fastforce
      obtain st a where sa: "flow (take_finish (Some r') (sk_usage c)) (st1, a1) = (st, a)" by fastforce
      then have a: "a = a1\<lparr>a_stop := Some (map_stop_reason r'), a_usage := (case sk_usage c of None \<Rightarrow> a_usage a1 | Some v \<Rightarrow> Some (usage_of_chat v))\<rparr>"
        using flow_finish_Some [of r' "sk_usage c" st1 a1] by simp
      have calls: "map snd (filter (\<lambda>b. is_call (snd b)) (a_blocks a1))
          = map (assemble (fragments_of (ps @ pieces_of d))) (in_order (map st_index (fragments_of (ps @ pieces_of d))))"
        using s sa1 by (simp add: says_def comp_def)
      have lay: "a_blocks a1 = filter (\<lambda>b. \<not> is_call (snd b)) (a_blocks a1) @ filter (\<lambda>b. is_call (snd b)) (a_blocks a1)"
        and pr: "map snd (filter (\<lambda>b. \<not> is_call (snd b)) (a_blocks a1)) = prose (ps @ pieces_of d)"
        using l unfolding laid_out_def sa1 by simp_all
      have "map snd (a_blocks a1) = map snd (filter (\<lambda>b. \<not> is_call (snd b)) (a_blocks a1)) @ map snd (filter (\<lambda>b. is_call (snd b)) (a_blocks a1))"
        unfolding map_append [symmetric] by (rule arg_cong [OF lay])
      also have "\<dots> = prose (ps @ pieces_of d)
          @ map (assemble (fragments_of (ps @ pieces_of d))) (in_order (map st_index (fragments_of (ps @ pieces_of d))))"
        unfolding pr calls ..
      finally have "map snd (a_blocks a) = prose (ps @ pieces_of d)
          @ map (assemble (fragments_of (ps @ pieces_of d))) (in_order (map st_index (fragments_of (ps @ pieces_of d))))"
        using a by simp
      moreover have "says (ps @ pieces_of d) (st, a)"
        using says_finish [OF s, of "Some r'" "sk_usage c"] sa1 sa by simp
      moreover have "quiet_part a = (a_message_id (snd sa), Some (map_stop_reason r'),
          (case sk_usage c of None \<Rightarrow> a_usage (snd sa) | Some v \<Rightarrow> Some (usage_of_chat v)), a_error (snd sa))"
        using q sa1 a by (simp add: quiet_part_def cong: option.case_cong)
      ultimately show ?thesis
        using fl sa sa1 sp Cons.prems(6) by (simp del: fragments_append)
    qed
  qed
qed

definition call_block :: "wire_tool_call \<Rightarrow> partial_block" where
  "call_block tc = PToolUse (wc_id tc) (wf_name (wc_function tc)) (wf_arguments (wc_function tc))"

definition first_id :: "stream_chunk list \<Rightarrow> string option" where
  "first_id cs = (case cs of [] \<Rightarrow> None | c # _ \<Rightarrow> Some (or_else (sk_id c) []))"

text \<open>The chunks stream this response.\<close>

definition streams_as :: "stream_chunk list \<Rightarrow> chat_response \<Rightarrow> bool" where
  "streams_as cs resp \<longleftrightarrow>
     (case cp_choices resp of
        [] \<Rightarrow> False
      | choice # _ \<Rightarrow>
          phased (spoken cs) \<and> first_id cs = Some (cp_id resp)
          \<and> (\<exists>r. ch_finish choice = Some r \<and> finishing cs = Some (r, cp_usage resp))
          \<and> concat (map reasoning_of (spoken cs)) = or_else (ch_reasoning choice) []
          \<and> concat (map visible_of (spoken cs)) = or_else (ch_content choice) []
          \<and> map (assemble (fragments_of (spoken cs))) (in_order (map st_index (fragments_of (spoken cs))))
              = map call_block (or_else (ch_calls choice) []))"

definition args_ok :: "(string \<Rightarrow> json option) \<Rightarrow> string \<Rightarrow> bool" where
  "args_ok parse args \<longleftrightarrow> args = [] \<or> (trim args \<noteq> [] \<and> parse args \<noteq> None)"

lemma trim_Nil: "trim [] = []"
  by code_simp

lemma finalize_append:
  "finalize_blocks parse perr stop (xs @ ys) =
     (case finalize_blocks parse perr stop xs of
        Inl e \<Rightarrow> Inl e
      | Inr cs \<Rightarrow> (case finalize_blocks parse perr stop ys of Inl e \<Rightarrow> Inl e | Inr ds \<Rightarrow> Inr (cs @ ds)))"
  by (induction parse perr stop xs rule: finalize_blocks.induct) (auto split: sum.split)

lemma finalize_calls:
  "map snd bl = map call_block tcs \<Longrightarrow> list_all (args_ok parse) (map (\<lambda>tc. wf_arguments (wc_function tc)) tcs) \<Longrightarrow>
     \<exists>bs. finalize_blocks parse perr stop bl = Inr bs \<and> tool_use_blocks parse perr' tcs = Inr bs"
proof (induction tcs arbitrary: bl)
  case (Cons tc tcs)
  then obtain i b bl' where bl: "bl = (i, b) # bl'" "b = call_block tc" "map snd bl' = map call_block tcs"
    by (cases bl) auto
  from Cons.IH [OF bl(3)] Cons.prems(2) obtain bs
    where "finalize_blocks parse perr stop bl' = Inr bs" "tool_use_blocks parse perr' tcs = Inr bs" by auto
  then show ?case
    using Cons.prems(2) bl by (cases "wf_arguments (wc_function tc) = []") (auto simp: call_block_def args_ok_def trim_Nil Let_def)
qed simp

lemma finalize_prose:
  "map snd bl = prose ps \<Longrightarrow> finalize_blocks parse perr stop bl
     = Inr ((if concat (map reasoning_of ps) = [] then [] else [Thinking (concat (map reasoning_of ps)) None])
         @ (if concat (map visible_of ps) = [] then [] else [Text (concat (map visible_of ps))]))"
  by (auto simp: prose_def Let_def Cons_eq_map_conv map_eq_Cons_conv split: if_splits)

lemma flow_first:
  assumes "\<not> sx_finished (fst (flow (take_start c) sa))" "sx_started (fst (flow (take_start c) sa))"
  shows "flow (process_chunk c) sa = flow (process_chunk c) (flow (take_start c) sa)"
proof (cases "sk_choices c")
  case Nil
  with assms show ?thesis by (simp add: flow_no_choice flow_start_started)
next
  case (Cons d ds)
  with assms flow_chunk [OF _ Cons] show ?thesis by (simp add: flow_start_started)
qed

text \<open>C12: Streaming and not streaming give the same answer.  However DeepSeek cuts a response into chunks, as long as
  reasoning precedes text and text precedes calls, the accumulated events are the message, usage and stop
  reason the non-streaming converter reads off the whole response, provided the arguments of its calls are
  empty or JSON.\<close>

theorem streaming_agrees:
  assumes "streams_as cs resp"
    and "list_all (args_ok parse) (map (\<lambda>tc. wf_arguments (wc_function tc)) (or_else (ch_calls (hd (cp_choices resp))) []))"
  shows "finalize parse perr fresh now (foldl ingest new_accumulator (fst (process_chunks cs new_chat_state)))
    = parse_chat_response parse perr' fresh now resp"
proof -
  let ?ps = "spoken cs"
  obtain choice rest where ch: "cp_choices resp = choice # rest"
    using assms(1) by (auto simp: streams_as_def split: list.splits)
  with assms(1) obtain r where s: "phased ?ps" "first_id cs = Some (cp_id resp)" "ch_finish choice = Some r"
    "finishing cs = Some (r, cp_usage resp)" "concat (map reasoning_of ?ps) = or_else (ch_reasoning choice) []"
    "concat (map visible_of ?ps) = or_else (ch_content choice) []"
    "map (assemble (fragments_of ?ps)) (in_order (map st_index (fragments_of ?ps))) = map call_block (or_else (ch_calls choice) [])"
    by (auto simp: streams_as_def)
  from s(2) obtain c cs' where cs: "cs = c # cs'" "or_else (sk_id c) [] = cp_id resp"
    by (auto simp: first_id_def split: list.splits)
  let ?sa = "flow (take_start c) (new_chat_state, new_accumulator)"
  have sa: "says [] ?sa" "laid_out [] ?sa" "\<not> sx_finished (fst ?sa)" "sx_started (fst ?sa)"
    by (rule says_start [OF says_new])
      (simp_all add: laid_out_def flow_def take_start_def new_chat_state_def new_accumulator_def prose_def)
  have fl: "flow (process_chunks cs) (new_chat_state, new_accumulator) = flow (process_chunks cs) ?sa"
    unfolding cs(1) flow_chunks_Cons using flow_first [OF sa(3,4)] by simp
  obtain st a where res: "flow (process_chunks cs) ?sa = (st, a)"
    "map snd (a_blocks a) = prose ?ps @ map call_block (or_else (ch_calls choice) [])"
    "quiet_part a = (a_message_id (snd ?sa), Some (map_stop_reason r),
        (case cp_usage resp of None \<Rightarrow> a_usage (snd ?sa) | Some v \<Rightarrow> Some (usage_of_chat v)), a_error (snd ?sa))"
    using stream_result [OF sa, of cs r "cp_usage resp"] s by auto
  obtain bl bl' where bl: "a_blocks a = bl @ bl'" "map snd bl = prose ?ps" "map snd bl' = map call_block (or_else (ch_calls choice) [])"
    using res(2) by (auto simp: map_eq_append_conv)
  obtain bs where bs: "finalize_blocks parse perr (a_stop a) bl' = Inr bs"
    "tool_use_blocks parse perr' (or_else (ch_calls choice) []) = Inr bs"
    using finalize_calls [OF bl(3), of parse perr "a_stop a" perr'] assms(2) ch by auto
  have start: "a_message_id (snd ?sa) = Some (cp_id resp)" "a_usage (snd ?sa) = None" "a_error (snd ?sa) = None"
    using cs(2) by (simp_all add: flow_def take_start_def new_chat_state_def new_accumulator_def)
  show ?thesis
    unfolding flow_new fl res(1) using res(3) start bl bs s ch finalize_prose [OF bl(2), of parse perr "a_stop a"]
    by (simp add: quiet_part_def finalize_def finalize_append parse_chat_response_def Let_def split: option.split)
qed

subsection \<open>Cut-off streams\<close>

lemma stream_unfinished:
  "says ps sa \<Longrightarrow> \<not> sx_finished (fst sa) \<Longrightarrow> sx_started (fst sa) \<Longrightarrow> finishing cs = None
    \<Longrightarrow> quiet_part (snd (flow (process_chunks cs) sa)) = quiet_part (snd sa)"
proof (induction cs arbitrary: ps sa)
  case Nil
  then show ?case by (simp add: flow_def)
next
  case (Cons c cs)
  show ?case
  proof (cases "sk_choices c")
    case Nil
    then have "flow (process_chunk c) sa = sa"
      using Cons.prems flow_no_choice [of sa c] flow_start_started [of sa c] by simp
    with Cons.IH [OF Cons.prems(1-3)] Cons.prems(4) Nil show ?thesis unfolding flow_chunks_Cons by simp
  next
    case (Cons d ds)
    have none: "sd_finish d = None" "finishing cs = None" using Cons.prems(4) Cons by (simp_all split: option.splits)
    have "flow (process_chunk c) sa = flow_pieces (pieces_of d) sa"
      using flow_chunk [OF Cons.prems(2) Cons] Cons.prems(3) none(1) by (simp add: flow_start_started)
    then show ?thesis
      using Cons.IH [OF says_pieces [OF Cons.prems(1), of "pieces_of d"]] Cons.prems(2,3) none(2)
        quiet_pieces [OF Cons.prems(1), of "pieces_of d"] unfolding flow_chunks_Cons by simp
  qed
qed

lemma finalize_no_calls:
  "filter is_call (map snd bl) = [] \<Longrightarrow> \<exists>bs. finalize_blocks parse perr stop bl = Inr bs \<and> \<not> list_ex is_ToolUse bs
     \<and> concat (map (\<lambda>b. case b of Text t \<Rightarrow> t | _ \<Rightarrow> []) bs) = concat (map (text_part \<circ> snd) bl)"
proof (induction bl)
  case (Cons b bl)
  obtain i x where b: "b = (i, x)" by fastforce
  with Cons show ?case by (cases x) auto
qed simp

text \<open>A stream that breaks off counts as a complete answer.  When the connection closes, or \<open>[DONE]\<close> comes, before a
  finish reason and without a call, what was received so far becomes the answer, with the stop reason of a
  regular end, whatever is missing.\<close>

theorem cut_off_stream_is_complete:
  assumes "cs \<noteq> []" "finishing cs = None" "fragments_of (spoken cs) = []"
  shows "\<exists>r. finalize parse perr fresh now (foldl ingest new_accumulator (fst (process_chunks cs new_chat_state))) = Inr r
    \<and> resp_stop r = EndTurn
    \<and> concat (map (\<lambda>b. case b of Text t \<Rightarrow> t | _ \<Rightarrow> []) (m_content (resp_message r))) = concat (map visible_of (spoken cs))"
proof -
  obtain c cs' where cs: "cs = c # cs'" using assms(1) by (cases cs) auto
  let ?sa = "flow (take_start c) (new_chat_state, new_accumulator)"
  have sa: "says [] ?sa" "\<not> sx_finished (fst ?sa)" "sx_started (fst ?sa)"
    by (rule says_start [OF says_new]) (simp_all add: flow_def take_start_def new_chat_state_def)
  have fl: "flow (process_chunks cs) (new_chat_state, new_accumulator) = flow (process_chunks cs) ?sa"
    unfolding cs flow_chunks_Cons using flow_first [OF sa(2,3)] by simp
  obtain st a where res: "flow (process_chunks cs) ?sa = (st, a)" by fastforce
  have s: "says (spoken cs) (st, a)" using says_stream [OF sa(1,2), of cs] res by simp
  have q: "quiet_part a = quiet_part (snd ?sa)" using stream_unfinished [OF sa assms(2)] res by simp
  have "filter is_call (map snd (a_blocks a)) = []"
    using s assms(3) by (simp add: says_def in_order_def filter_map)
  from finalize_no_calls [OF this, of parse perr "a_stop a"] obtain bs where
    "finalize_blocks parse perr (a_stop a) (a_blocks a) = Inr bs" "\<not> list_ex is_ToolUse bs"
    "concat (map (\<lambda>b. case b of Text t \<Rightarrow> t | _ \<Rightarrow> []) bs) = concat (map (text_part \<circ> snd) (a_blocks a))" by blast
  moreover have "concat (map (text_part \<circ> snd) (a_blocks a)) = concat (map visible_of (spoken cs))"
    using s by (simp add: says_def)
  moreover have "a_stop a = None" "a_error a = None"
    using q by (simp_all add: quiet_part_def flow_def take_start_def new_chat_state_def new_accumulator_def)
  ultimately show ?thesis unfolding flow_new fl res by (simp add: finalize_def)
qed

subsection \<open>Bytes\<close>

lemma chat_line_settles: "settles (chat_line parse perr) cr_ended"
  by (simp add: settles_def chat_line_def)

lemma chat_stream_lines:
  assumes "list_all valid_utf8 cs"
  shows "stream_end chat_end (feed_chunks (chat_line parse perr) cr_ended sb (map Inr cs))
    = (case line_feed.feed_all (chat_line parse perr) sb cs of (out, s, buf) \<Rightarrow> out @ chat_end s)"
  by (rule feed_chunks_utf8 [OF chat_line_settles _ assms]) (simp add: chat_end_def)

text \<open>Where the network cuts the stream between characters does not matter: the events are those of the lines.\<close>

theorem stream_cut_between_characters:
  assumes "list_all valid_utf8 cs" "list_all valid_utf8 ds" "concat cs = concat ds" "cs \<noteq> []" "ds \<noteq> []"
  shows "parse_chat_stream parse perr (map Inr cs) = parse_chat_stream parse perr (map Inr ds)"
proof -
  show ?thesis
    unfolding parse_chat_stream_def chat_stream_lines [OF assms(1)] chat_stream_lines [OF assms(2)] line_feed.feed_all_cut [OF assms(4,5,3)] ..
qed

definition echo_parser :: "string \<Rightarrow> json option" where
  "echo_parser s = Some (JObject [(''choices'', JArray [JObject [(''delta'', JObject [(''content'', JString s)])]])])"

definition e_acute :: string where "e_acute = map (\<lambda>n. char_of (n::nat)) [0xC3, 0xA9]"

text \<open>A cut within a character corrupts the answer: each half is decoded on its own and becomes U+FFFD, for good.\<close>

theorem cut_character_is_corrupted:
  "parse_chat_stream echo_parser (\<lambda>_. []) [Inr (''data: '' @ e_acute @ [newline])]
     = [Inr (MessageStart [] None), Inr (BlockStart 0 StartText), Inr (BlockDelta 0 (DeltaText e_acute)), Inr MessageStop]
   \<and> parse_chat_stream echo_parser (\<lambda>_. []) [Inr (''data: '' @ take 1 e_acute), Inr (drop 1 e_acute @ [newline])]
     = [Inr (MessageStart [] None), Inr (BlockStart 0 StartText),
        Inr (BlockDelta 0 (DeltaText (replacement_char @ replacement_char))), Inr MessageStop]"
proof
  show "parse_chat_stream echo_parser (\<lambda>_. []) [Inr (''data: '' @ e_acute @ [newline])]
     = [Inr (MessageStart [] None), Inr (BlockStart 0 StartText), Inr (BlockDelta 0 (DeltaText e_acute)), Inr MessageStop]"
    by code_simp
  show "parse_chat_stream echo_parser (\<lambda>_. []) [Inr (''data: '' @ take 1 e_acute), Inr (drop 1 e_acute @ [newline])]
     = [Inr (MessageStart [] None), Inr (BlockStart 0 StartText),
        Inr (BlockDelta 0 (DeltaText (replacement_char @ replacement_char))), Inr MessageStop]"
    by code_simp
qed

subsection \<open>An example\<close>

definition delta_chunk :: "string option \<Rightarrow> string option \<Rightarrow> stream_tool_call list \<Rightarrow> string option \<Rightarrow> stream_chunk" where
  "delta_chunk r t calls finish = \<lparr>sk_id = Some ''c'', sk_model = None,
     sk_choices = [\<lparr>sd_content = t, sd_reasoning = r, sd_calls = Some calls, sd_finish = finish\<rparr>], sk_usage = None\<rparr>"

definition hello_stream :: "stream_chunk list" where
  "hello_stream = [delta_chunk (Some ''hm'') None [] None, delta_chunk None (Some ''a'') [] None, delta_chunk None (Some ''b'') [] None,
     delta_chunk None None [\<lparr>st_index = 0, st_id = Some ''t'', st_name = Some ''Read'', st_arguments = Some ''nu''\<rparr>] None,
     delta_chunk None None [\<lparr>st_index = 0, st_id = None, st_name = None, st_arguments = Some ''ll''\<rparr>] (Some ''tool_calls'')]"

definition hello_response :: chat_response where
  "hello_response = \<lparr>cp_id = ''c'', cp_choices = [\<lparr>ch_content = Some ''ab'', ch_reasoning = Some ''hm'',
     ch_calls = Some [\<lparr>wc_id = ''t'', wc_type = ''function'', wc_function = \<lparr>wf_name = ''Read'', wf_arguments = ''null''\<rparr>\<rparr>],
     ch_finish = Some ''tool_calls''\<rparr>], cp_usage = None\<rparr>"

definition null_parser :: "string \<Rightarrow> json option" where
  "null_parser s = (if s = ''null'' then Some JNull else None)"

theorem streaming_agrees_witness:
  "finalize null_parser (\<lambda>_. []) 1 2 (foldl ingest new_accumulator (fst (process_chunks hello_stream new_chat_state)))
     = Inr \<lparr>resp_id = ''c'', resp_message = \<lparr>m_id = 1, m_role = Assistant,
          m_content = [Thinking ''hm'' None, Text ''ab'', ToolUse ''t'' ''Read'' JNull], m_created_at = 2\<rparr>,
        resp_usage = usage_default, resp_stop = ToolUseStop\<rparr>"
proof -
  have t: "trim ''null'' \<noteq> []" by code_simp
  have "streams_as hello_stream hello_response"
    by (simp add: streams_as_def hello_response_def hello_stream_def delta_chunk_def spoken_def pieces_of_def phased_def
        first_id_def or_else_def in_order_def assemble_def call_block_def Let_def)
  moreover have "list_all (args_ok null_parser) (map (\<lambda>tc. wf_arguments (wc_function tc)) (or_else (ch_calls (hd (cp_choices hello_response))) []))"
    using t by (simp add: hello_response_def or_else_def args_ok_def null_parser_def)
  ultimately show ?thesis
    using streaming_agrees [of hello_stream hello_response null_parser "\<lambda>_. []" 1 2 "\<lambda>_. []"]
    by (simp add: parse_chat_response_def hello_response_def or_else_def null_parser_def map_stop_reason_def Let_def)
qed

theorem cut_off_stream_is_complete_witness:
  "\<exists>r. finalize null_parser (\<lambda>_. []) 1 2 (foldl ingest new_accumulator (fst (process_chunks (take 2 hello_stream) new_chat_state))) = Inr r
    \<and> resp_stop r = EndTurn"
proof -
  have "finishing (take 2 hello_stream) = None" "fragments_of (spoken (take 2 hello_stream)) = []" "take 2 hello_stream \<noteq> []"
    by (simp_all add: hello_stream_def delta_chunk_def spoken_def pieces_of_def or_else_def)
  from cut_off_stream_is_complete [OF this(3,1,2), of null_parser "\<lambda>_. []" 1 2] show ?thesis by blast
qed

theorem stream_cut_between_characters_witness:
  "parse_chat_stream echo_parser (\<lambda>_. []) [Inr (''data:''), Inr ([CHR ''x'', newline])]
     = parse_chat_stream echo_parser (\<lambda>_. []) [Inr (''data:x'' @ [newline])]"
proof -
  have "list_all valid_utf8 [''data:'', [CHR ''x'', newline]]" "list_all valid_utf8 [''data:x'' @ [newline]]" by code_simp+
  from stream_cut_between_characters [OF this, of echo_parser "\<lambda>_. []"] show ?thesis by simp
qed

end
