(* ===== verification/Anthropic.thy ===== *)
theory Anthropic
  imports Sse
begin

text \<open>
  The Anthropic client of \<open>crates/snaca-llm/src/anthropic\<close>: \<open>convert.rs\<close> (between the engine's messages and the
  wire, with the prompt-cache breakpoints), \<open>wire.rs\<close> (the documents) and \<open>sse.rs\<close> (from server-sent events to
  \<open>stream_event\<close>).

  The parser \<open>parse\<close> of JSON texts is a parameter, with its message \<open>perr\<close>.
\<close>

subsection \<open>Requests\<close>

datatype anthropic_block =
    AText string
  | AThinking string "string option"
  | ARedacted string
  | AToolUse string string json
  | AToolResult string "anthropic_block list" bool

record anthropic_message =
  am_role :: string
  am_content :: "anthropic_block list"

record system_block =
  sb_text :: string
  sb_cached :: bool

datatype system_field = SystemText string | SystemBlocks "system_block list"

record anthropic_tool =
  ao_schema :: tool_schema
  ao_cached :: bool

record messages_request =
  mq_model :: string
  mq_max_tokens :: nat
  mq_messages :: "anthropic_message list"
  mq_system :: "system_field option"
  mq_tools :: "anthropic_tool list"
  mq_temperature :: "rat option"
  mq_stop :: "string list option"
  mq_stream :: bool

definition DEFAULT_MAX_TOKENS :: nat where "DEFAULT_MAX_TOKENS = 4096"

definition blank_line :: string where "blank_line = [newline, newline]"

fun assistant_blocks :: "content_block list \<Rightarrow> anthropic_block list" where
  "assistant_blocks [] = []"
| "assistant_blocks (Text t # bs) = AText t # assistant_blocks bs"
| "assistant_blocks (Thinking t s # bs) = AThinking t s # assistant_blocks bs"
| "assistant_blocks (ToolUse i n v # bs) = AToolUse i n v # assistant_blocks bs"
| "assistant_blocks (_ # bs) = assistant_blocks bs"

fun text_blocks :: "content_block list \<Rightarrow> anthropic_block list" where
  "text_blocks [] = []"
| "text_blocks (Text t # bs) = AText t # text_blocks bs"
| "text_blocks (_ # bs) = text_blocks bs"

fun result_blocks :: "content_block list \<Rightarrow> anthropic_block list" where
  "result_blocks [] = []"
| "result_blocks (ToolResult i content err # bs) = AToolResult i (text_blocks content) err # result_blocks bs"
| "result_blocks (_ # bs) = result_blocks bs"

definition wire_messages :: "message \<Rightarrow> anthropic_message list" where
  "wire_messages m =
     (case m_role m of
        System \<Rightarrow> []
      | User \<Rightarrow> [\<lparr>am_role = ''user'', am_content = [AText (collect_text (m_content m))]\<rparr>]
      | Assistant \<Rightarrow>
          (let blocks = assistant_blocks (m_content m)
           in if blocks = [] then [] else [\<lparr>am_role = ''assistant'', am_content = blocks\<rparr>])
      | Tool \<Rightarrow>
          (let blocks = result_blocks (m_content m)
           in if blocks = [] then [] else [\<lparr>am_role = ''user'', am_content = blocks\<rparr>]))"

definition system_parts :: "message list \<Rightarrow> string list" where
  "system_parts msgs = filter (\<lambda>t. t \<noteq> []) (map (\<lambda>m. collect_text (m_content m)) (filter (\<lambda>m. m_role m = System) msgs))"

definition split_system_and_messages :: "message list \<Rightarrow> string option \<times> anthropic_message list" where
  "split_system_and_messages msgs =
     ((if system_parts msgs = [] then None else Some (glue blank_line (system_parts msgs))), concat (map wire_messages msgs))"

definition retained_segments :: "message_request \<Rightarrow> string option \<Rightarrow> system_segment list" where
  "retained_segments req extra =
     filter (\<lambda>s. trim (sg_text s) \<noteq> [])
       ((case extra of Some t \<Rightarrow> [\<lparr>sg_text = t, sg_cacheable = True\<rparr>] | None \<Rightarrow> []) @ rq_system_segments req)"

text \<open>\<open>position\<close> of the first volatile segment, and the index of the breakpoint.\<close>

fun first_volatile :: "system_segment list \<Rightarrow> nat option" where
  "first_volatile [] = None"
| "first_volatile (s # ss) = (if \<not> sg_cacheable s then Some 0 else map_option Suc (first_volatile ss))"

definition breakpoint_idx :: "system_segment list \<Rightarrow> nat option" where
  "breakpoint_idx segs =
     (case first_volatile segs of
        Some 0 \<Rightarrow> None
      | Some i \<Rightarrow> Some (i - 1)
      | None \<Rightarrow> Some (length segs - 1))"

definition build_system_field :: "message_request \<Rightarrow> string option \<Rightarrow> bool \<Rightarrow> system_field option" where
  "build_system_field req extra enable_cache =
     (if rq_system_segments req \<noteq> [] then
        (let segs = retained_segments req extra
         in if segs = [] then None
            else if \<not> enable_cache then Some (SystemText (glue blank_line (map sg_text segs)))
            else Some (SystemBlocks (map (\<lambda>(i, s). \<lparr>sb_text = sg_text s, sb_cached = (Some i = breakpoint_idx segs)\<rparr>)
                   (zip [0..<length segs] segs))))
      else
        (let system_text = (case (rq_system req, extra) of
               (Some own, Some e) \<Rightarrow> Some (own @ blank_line @ e)
             | (Some own, None) \<Rightarrow> Some own
             | (None, e) \<Rightarrow> e)
         in map_option (\<lambda>t. if enable_cache then SystemBlocks [\<lparr>sb_text = t, sb_cached = True\<rparr>] else SystemText t) system_text))"

definition anthropic_tools :: "bool \<Rightarrow> tool_schema list \<Rightarrow> anthropic_tool list" where
  "anthropic_tools enable_cache schemas =
     (let tools = map (\<lambda>s. \<lparr>ao_schema = s, ao_cached = False\<rparr>) schemas
      in if enable_cache \<and> tools \<noteq> [] then butlast tools @ [(last tools)\<lparr>ao_cached := True\<rparr>] else tools)"

definition build_messages_request_with_cache :: "message_request \<Rightarrow> bool \<Rightarrow> bool \<Rightarrow> messages_request" where
  "build_messages_request_with_cache req stream enable_cache =
     (case split_system_and_messages (rq_messages req) of
        (extra, msgs) \<Rightarrow>
          \<lparr>mq_model = rq_model req,
           mq_max_tokens = or_else (rq_max_tokens req) DEFAULT_MAX_TOKENS,
           mq_messages = msgs,
           mq_system = build_system_field req extra enable_cache,
           mq_tools = anthropic_tools enable_cache (rq_tools req),
           mq_temperature = rq_temperature req,
           mq_stop = (if rq_stop_sequences req = [] then None else Some (rq_stop_sequences req)),
           mq_stream = stream\<rparr>)"

subsection \<open>Responses\<close>

record messages_response =
  mr_id :: string
  mr_content :: "anthropic_block list"
  mr_stop_reason :: "string option"
  mr_usage :: "usage option"

fun content_of_wire :: "anthropic_block list \<Rightarrow> llm_error + content_block list" where
  "content_of_wire [] = Inr []"
| "content_of_wire (AText t # bs) = map_sum id ((#) (Text t)) (content_of_wire bs)"
| "content_of_wire (AThinking t s # bs) = map_sum id ((#) (Thinking t s)) (content_of_wire bs)"
| "content_of_wire (ARedacted d # bs) = map_sum id ((#) (Thinking ''<redacted thinking>'' (Some d))) (content_of_wire bs)"
| "content_of_wire (AToolUse i n v # bs) = map_sum id ((#) (ToolUse i n v)) (content_of_wire bs)"
| "content_of_wire (AToolResult _ _ _ # bs) = Inl (MalformedResponse ''assistant response contained tool_result block'')"

definition anthropic_stop_reason :: "string \<Rightarrow> stop_reason" where
  "anthropic_stop_reason s =
     (if s = ''end_turn'' then EndTurn
      else if s = ''max_tokens'' then MaxTokens
      else if s = ''tool_use'' then ToolUseStop
      else if s = ''stop_sequence'' then StopSequence
      else OtherStop s)"

definition parse_messages_response :: "message_id \<Rightarrow> timestamp \<Rightarrow> messages_response \<Rightarrow> llm_error + message_response" where
  "parse_messages_response fresh now resp =
     map_sum id (\<lambda>content.
       \<lparr>resp_id = mr_id resp,
        resp_message = \<lparr>m_id = fresh, m_role = Assistant, m_content = content, m_created_at = now\<rparr>,
        resp_usage = or_else (mr_usage resp) usage_default,
        resp_stop = (case mr_stop_reason resp of
            Some s \<Rightarrow> anthropic_stop_reason s
          | None \<Rightarrow> if list_ex is_ToolUse content then ToolUseStop else EndTurn)\<rparr>) (content_of_wire (mr_content resp))"

subsection \<open>Server-sent events\<close>

definition as_u64 :: "json option \<Rightarrow> int option" where
  "as_u64 v = (case v of Some (JNumber s) \<Rightarrow> json_int 0 (2 ^ 64 - 1) s | _ \<Rightarrow> None)"

definition as_u32 :: "json \<Rightarrow> string \<Rightarrow> nat option" where
  "as_u32 v key = map_option (\<lambda>n. nat (n mod 2 ^ 32)) (as_u64 (json_get v key))"

definition as_str :: "json \<Rightarrow> string \<Rightarrow> string" where
  "as_str v key = or_else (json_str (json_get v key)) []"

definition parse_usage :: "json \<Rightarrow> usage" where
  "parse_usage v =
     \<lparr>input_tokens = word_of_int (or_else (as_u64 (json_get v ''input_tokens'')) 0),
      output_tokens = word_of_int (or_else (as_u64 (json_get v ''output_tokens'')) 0),
      cache_creation_input_tokens = map_option word_of_int (as_u64 (json_get v ''cache_creation_input_tokens'')),
      cache_read_input_tokens = map_option word_of_int (as_u64 (json_get v ''cache_read_input_tokens''))\<rparr>"

definition start_of :: "json \<Rightarrow> block_start option" where
  "start_of block =
     (let kind = as_str block ''type''
      in if kind = ''text'' then Some StartText
         else if kind = ''thinking'' \<or> kind = ''redacted_thinking'' then Some StartThinking
         else if kind = ''tool_use'' then Some (StartToolUse (as_str block ''id'') (as_str block ''name''))
         else None)"

definition delta_of :: "json \<Rightarrow> content_delta option" where
  "delta_of d =
     (let kind = as_str d ''type''
      in if kind = ''text_delta'' then Some (DeltaText (as_str d ''text''))
         else if kind = ''thinking_delta'' then Some (DeltaThinking (as_str d ''thinking''))
         else if kind = ''input_json_delta'' then Some (DeltaToolJson (as_str d ''partial_json''))
         else None)"

text \<open>The event of a parsed payload.\<close>

definition translate_value :: "string \<Rightarrow> json \<Rightarrow> llm_error + stream_event option" where
  "translate_value ty v =
     (if ty = ''message_start'' then
        (case json_get v ''message'' of
           None \<Rightarrow> Inl (MalformedResponse ''message_start missing `message`'')
         | Some m \<Rightarrow> Inr (Some (MessageStart (as_str m ''id'') (json_str (json_get m ''model'')))))
      else if ty = ''content_block_start'' then
        (case json_get v ''content_block'' of
           None \<Rightarrow> Inl (MalformedResponse ''content_block_start missing `content_block`'')
         | Some b \<Rightarrow> Inr (map_option (BlockStart (or_else (as_u32 v ''index'') 0)) (start_of b)))
      else if ty = ''content_block_delta'' then
        (case json_get v ''delta'' of
           None \<Rightarrow> Inl (MalformedResponse ''content_block_delta missing `delta`'')
         | Some d \<Rightarrow> Inr (map_option (BlockDelta (or_else (as_u32 v ''index'') 0)) (delta_of d)))
      else if ty = ''content_block_stop'' then Inr (Some (BlockStop (or_else (as_u32 v ''index'') 0)))
      else if ty = ''message_delta'' then
        Inr (Some (MessageDelta
          (map_option anthropic_stop_reason (json_str (Option.bind (json_get v ''delta'') (\<lambda>d. json_get d ''stop_reason''))))
          (map_option parse_usage (json_get v ''usage''))))
      else
        Inr (Some (StreamError (or_else (json_str (Option.bind (json_get v ''error'') (\<lambda>e. json_get e ''message'')))
          ''unknown anthropic error''))))"

definition PARSED_EVENTS :: "string list" where
  "PARSED_EVENTS = [''message_start'', ''content_block_start'', ''content_block_delta'', ''content_block_stop'', ''message_delta'', ''error'']"

definition translate_event ::
  "(string \<Rightarrow> json option) \<Rightarrow> (string \<Rightarrow> string) \<Rightarrow> string \<Rightarrow> string \<Rightarrow> llm_error + stream_event option" where
  "translate_event parse perr ty payload =
     (if payload = [] then Inr None
      else if ty = ''message_stop'' then Inr (Some MessageStop)
      else if ty \<notin> set PARSED_EVENTS then Inr None
      else case parse payload of
             None \<Rightarrow> Inl (MalformedResponse (''invalid SSE data payload: '' @ perr payload @ ''; data='' @ payload))
           | Some v \<Rightarrow> translate_value ty v)"

record sse_reader =
  er_type :: string
  er_data :: string
  er_ended :: bool

definition flush_event ::
  "(string \<Rightarrow> json option) \<Rightarrow> (string \<Rightarrow> string) \<Rightarrow> sse_reader \<Rightarrow> (llm_error + stream_event) list \<times> sse_reader" where
  "flush_event parse perr r =
     (case (if er_data r = [] then Inr None else translate_event parse perr (er_type r) (er_data r)) of
        Inl e \<Rightarrow> ([Inl e], r\<lparr>er_ended := True\<rparr>)
      | Inr ev \<Rightarrow> ((case ev of None \<Rightarrow> [] | Some x \<Rightarrow> [Inr x]), r\<lparr>er_type := [], er_data := []\<rparr>))"

definition sse_line ::
  "(string \<Rightarrow> json option) \<Rightarrow> (string \<Rightarrow> string) \<Rightarrow> sse_reader \<Rightarrow> string \<Rightarrow> (llm_error + stream_event) list \<times> sse_reader" where
  "sse_line parse perr r line =
     (if er_ended r then ([], r)
      else if line = [] then flush_event parse perr r
      else case strip_tag ''event:'' line of
             Some rest \<Rightarrow> ([], r\<lparr>er_type := trim_start rest\<rparr>)
           | None \<Rightarrow>
               (case strip_tag ''data:'' line of
                  Some rest \<Rightarrow> ([], r\<lparr>er_data := (if er_data r = [] then [] else er_data r @ [newline]) @ trim_start rest\<rparr>)
                | None \<Rightarrow> ([], r)))"

definition sse_end ::
  "(string \<Rightarrow> json option) \<Rightarrow> (string \<Rightarrow> string) \<Rightarrow> sse_reader \<Rightarrow> (llm_error + stream_event) list" where
  "sse_end parse perr r = (if er_ended r then [] else fst (flush_event parse perr r))"

definition parse_event_stream ::
  "(string \<Rightarrow> json option) \<Rightarrow> (string \<Rightarrow> string) \<Rightarrow> (llm_error + string) list \<Rightarrow> (llm_error + stream_event) list" where
  "parse_event_stream parse perr chunks =
     stream_end (sse_end parse perr)
       (feed_chunks (sse_line parse perr) er_ended (\<lparr>er_type = [], er_data = [], er_ended = False\<rparr>, []) chunks)"

subsection \<open>Calls and results on the wire\<close>

fun use_ids :: "anthropic_block list \<Rightarrow> string list" where
  "use_ids [] = []"
| "use_ids (AToolUse i _ _ # bs) = i # use_ids bs"
| "use_ids (_ # bs) = use_ids bs"

fun outcome_ids :: "anthropic_block list \<Rightarrow> string list" where
  "outcome_ids [] = []"
| "outcome_ids (AToolResult i _ _ # bs) = i # outcome_ids bs"
| "outcome_ids (_ # bs) = outcome_ids bs"

text \<open>
  What the provider asks: the user message after an assistant message with calls has one result for each of them,
  and results occur nowhere else.
\<close>

fun turns_paired :: "anthropic_message list \<Rightarrow> bool" where
  "turns_paired [] = True"
| "turns_paired [m] = (use_ids (am_content m) = [] \<and> outcome_ids (am_content m) = [])"
| "turns_paired (m # t # ms) =
     (outcome_ids (am_content m) = [] \<and>
      (if use_ids (am_content m) = [] then turns_paired (t # ms)
       else am_role t = ''user'' \<and> set (outcome_ids (am_content t)) = set (use_ids (am_content m))
            \<and> (distinct (use_ids (am_content m)) \<longrightarrow> distinct (outcome_ids (am_content t)))
            \<and> use_ids (am_content t) = [] \<and> turns_paired ms))"

lemma assistant_ids: "use_ids (assistant_blocks bs) = tool_use_ids bs" "outcome_ids (assistant_blocks bs) = []"
  by (induction bs rule: assistant_blocks.induct) simp_all

lemma outcome_of_results: "outcome_ids (result_blocks bs) = tool_result_ids bs" "use_ids (result_blocks bs) = []"
  by (induction bs rule: result_blocks.induct) simp_all

lemma turns_paired_plain:
  "use_ids (am_content m) = [] \<Longrightarrow> outcome_ids (am_content m) = [] \<Longrightarrow> turns_paired (m # ms) = turns_paired ms"
  by (cases ms) auto

lemma wire_plain:
  assumes "m_role m \<noteq> Tool" "assistant_tool_uses m = []"
  shows "turns_paired (wire_messages m @ ms) = turns_paired ms"
proof (cases "m_role m")
  case Assistant
  then have "tool_use_ids (m_content m) = []" using assms(2) by (simp add: assistant_tool_uses_def)
  with Assistant show ?thesis by (simp add: wire_messages_def Let_def turns_paired_plain assistant_ids)
qed (use assms in \<open>simp_all add: wire_messages_def turns_paired_plain\<close>)

lemma wire_paired: "well_paired msgs \<Longrightarrow> turns_paired (concat (map wire_messages msgs))"
proof (induction msgs rule: well_paired.induct)
  case (2 m)
  then show ?case using wire_plain [of m "[]"] by simp
next
  case (3 m t ms)
  show ?case
  proof (cases "assistant_tool_uses m = []")
    case True
    with 3 show ?thesis by (simp add: wire_plain)
  next
    case False
    with "3.prems" have role: "m_role m = Assistant" "m_role t = Tool" and ans: "answers t m" "well_paired ms"
      by (auto simp: assistant_tool_uses_def answers_def split: if_splits)
    have ids: "use_ids (assistant_blocks (m_content m)) = assistant_tool_uses m"
      using role(1) by (simp add: assistant_ids assistant_tool_uses_def)
    have res: "set (tool_result_ids (m_content t)) = set (assistant_tool_uses m)"
      "distinct (assistant_tool_uses m) \<longrightarrow> distinct (tool_result_ids (m_content t))"
      using ans(1) by (simp_all add: answers_def)
    have "assistant_blocks (m_content m) \<noteq> []" using ids False by auto
    moreover have "result_blocks (m_content t) \<noteq> []"
      using res(1) False outcome_of_results(1) [of "m_content t"] by auto
    ultimately have eq: "concat (map wire_messages (m # t # ms)) =
        \<lparr>am_role = ''assistant'', am_content = assistant_blocks (m_content m)\<rparr>
        # \<lparr>am_role = ''user'', am_content = result_blocks (m_content t)\<rparr> # concat (map wire_messages ms)"
      using role by (simp add: wire_messages_def Let_def)
    show ?thesis unfolding eq
      using "3.IH"(2) [OF False ans(2)] ids False res by (simp add: assistant_ids(2) outcome_of_results)
  qed
qed simp

text \<open>The requests to Anthropic answer their calls.  Whatever history is assembled, every assistant message with
  calls that leaves for the provider is followed by the user message with one result for each of them, and
  results stand nowhere else.\<close>

theorem anthropic_calls_answered:
  "turns_paired (mq_messages (build_messages_request_with_cache
     (req\<lparr>rq_messages := ensure_tool_result_pairing fresh msgs\<rparr>) stream cache))"
  using wire_paired [OF ensure_well_paired, of fresh msgs]
  by (simp add: build_messages_request_with_cache_def split_system_and_messages_def)

subsection \<open>The cache breakpoint\<close>

lemma first_volatile_takeWhile:
  "first_volatile segs = (let n = length (takeWhile sg_cacheable segs) in if n < length segs then Some n else None)"
  by (induction segs) (auto simp: Let_def)

lemma breakpoint_takeWhile:
  "segs \<noteq> [] \<Longrightarrow> breakpoint_idx segs =
     (let n = length (takeWhile sg_cacheable segs) in if n = 0 then None else Some (n - 1))"
  using length_takeWhile_le [of sg_cacheable segs]
  by (auto simp: breakpoint_idx_def first_volatile_takeWhile Let_def split: nat.split)

text \<open>The cache never covers a volatile segment.  With caching, the blocks of the system prompt are the segments that are
  not blank, in order; exactly the last segment of their longest cacheable prefix is marked, none when the
  first is volatile.\<close>

theorem breakpoint_ends_stable_prefix:
  assumes "rq_system_segments req \<noteq> []" "segs = retained_segments req extra" "segs \<noteq> []"
  shows "\<exists>bs. build_system_field req extra True = Some (SystemBlocks bs) \<and> map sb_text bs = map sg_text segs
    \<and> filter (\<lambda>i. sb_cached (bs ! i)) [0..<length bs]
      = (case length (takeWhile sg_cacheable segs) of 0 \<Rightarrow> [] | Suc n \<Rightarrow> [n])"
proof -
  let ?bs = "map (\<lambda>(i, s). \<lparr>sb_text = sg_text s, sb_cached = (Some i = breakpoint_idx segs)\<rparr>) (zip [0..<length segs] segs)"
  let ?n = "length (takeWhile sg_cacheable segs)"
  have field: "build_system_field req extra True = Some (SystemBlocks ?bs)"
    using assms by (simp add: build_system_field_def Let_def)
  have texts: "map sb_text ?bs = map sg_text segs"
    by (rule nth_equalityI) auto
  have "filter (\<lambda>i. sb_cached (?bs ! i)) [0..<length ?bs] = filter (\<lambda>i. Some i = breakpoint_idx segs) [0..<length segs]"
    by (rule filter_cong) auto
  also have "\<dots> = (case ?n of 0 \<Rightarrow> [] | Suc n \<Rightarrow> [n])"
  proof (cases ?n)
    case 0
    then show ?thesis using breakpoint_takeWhile [OF assms(3)] by simp
  next
    case (Suc n)
    then have "n < length segs" using length_takeWhile_le [of sg_cacheable segs] by simp
    then have "[0..<length segs] = [0..<n] @ n # [Suc n..<length segs]"
      using upt_add_eq_append [of 0 n "length segs - n"] upt_conv_Cons [of n "length segs"] by simp
    then show ?thesis using Suc breakpoint_takeWhile [OF assms(3)] by simp
  qed
  finally show ?thesis using field texts by blast
qed

subsection \<open>Answers sent back\<close>

fun echoed :: "anthropic_block \<Rightarrow> anthropic_block" where
  "echoed (ARedacted d) = AThinking ''<redacted thinking>'' (Some d)"
| "echoed b = b"

lemma content_of_wire_echo: "content_of_wire bs = Inr cs \<Longrightarrow> assistant_blocks cs = map echoed bs"
proof (induction bs arbitrary: cs)
  case (Cons b bs)
  then show ?case by (cases b; cases "content_of_wire bs") auto
qed simp

text \<open>What the model said is sent back as it was said: the blocks of a response, stored and put into the next request,
  are the blocks of the response, signatures included, except that redacted thinking comes back as a thinking
  block with a placeholder text, its encrypted data in place of the signature.\<close>

theorem answer_sent_back:
  assumes "parse_messages_response fresh now resp = Inr r" "mr_content resp \<noteq> []"
  shows "wire_messages (resp_message r) = [\<lparr>am_role = ''assistant'', am_content = map echoed (mr_content resp)\<rparr>]"
proof -
  obtain cs where c: "content_of_wire (mr_content resp) = Inr cs"
    "m_content (resp_message r) = cs" "m_role (resp_message r) = Assistant"
    using assms(1) by (cases "content_of_wire (mr_content resp)") (auto simp: parse_messages_response_def)
  with content_of_wire_echo [OF c(1)] assms(2) show ?thesis by (simp add: wire_messages_def)
qed

definition unsigned :: "partial_block \<Rightarrow> bool" where
  "unsigned b \<longleftrightarrow> (case b of PThinking _ s \<Rightarrow> s = None | _ \<Rightarrow> True)"

lemma btree_insert_set: "set (btree_insert k v kvs) \<subseteq> insert (k, v) (set kvs)"
  by (induction k v kvs rule: btree_insert.induct) auto

lemma unsigned_start: "unsigned (from_start s)"
  by (cases s) (simp_all add: unsigned_def)

lemma unsigned_delta: "unsigned b \<Longrightarrow> unsigned (ingest_delta b d)"
  by (cases b; cases d) (simp_all add: unsigned_def)

lemma unsigned_ingest:
  "\<forall>ib \<in> set (a_blocks a). unsigned (snd ib) \<Longrightarrow> \<forall>ib \<in> set (a_blocks (ingest a ev)). unsigned (snd ib)"
proof (cases ev)
  case (BlockStart i s)
  assume "\<forall>ib \<in> set (a_blocks a). unsigned (snd ib)"
  with BlockStart show ?thesis
    using btree_insert_set [of i "from_start s" "a_blocks a"] unsigned_start [of s] by (auto dest!: subsetD)
next
  case (BlockDelta i d)
  assume "\<forall>ib \<in> set (a_blocks a). unsigned (snd ib)"
  with BlockDelta show ?thesis by (auto simp: btree_update_def unsigned_delta)
qed auto

lemma finalize_unsigned:
  "finalize_blocks parse perr stop bl = Inr cs \<Longrightarrow> \<forall>ib \<in> set bl. unsigned (snd ib)
    \<Longrightarrow> Thinking t s \<in> set cs \<Longrightarrow> s = None"
proof (induction bl arbitrary: cs)
  case (Cons ib bl)
  obtain i b where ib: "ib = (i, b)" by fastforce
  with Cons show ?case by (cases b) (auto simp: unsigned_def split: sum.splits option.splits if_splits)
qed simp

text \<open>A streamed answer loses its thinking signatures, so that the next request sends the thinking back unsigned.\<close>

theorem streamed_thinking_is_unsigned:
  assumes "finalize parse perr fresh now (foldl ingest new_accumulator evs) = Inr r"
    and "AThinking t s \<in> set (concat (map am_content (wire_messages (resp_message r))))"
  shows "s = None"
proof -
  have ok: "\<forall>ib \<in> set (a_blocks a). unsigned (snd ib) \<Longrightarrow> \<forall>ib \<in> set (a_blocks (foldl ingest a evs)). unsigned (snd ib)" for a
  proof (induction evs arbitrary: a)
    case (Cons ev evs)
    show ?case using Cons.IH [OF unsigned_ingest [OF Cons.prems]] by simp
  qed simp
  let ?a = "foldl ingest new_accumulator evs"
  have u: "\<forall>ib \<in> set (a_blocks ?a). unsigned (snd ib)"
    by (rule ok) (simp add: new_accumulator_def)
  obtain cs where cs: "finalize_blocks parse perr (a_stop ?a) (a_blocks ?a) = Inr cs"
    "m_content (resp_message r) = cs" "m_role (resp_message r) = Assistant"
    using assms(1)
    by (cases "a_error ?a"; cases "finalize_blocks parse perr (a_stop ?a) (a_blocks ?a)") (simp_all add: finalize_def, auto)
  have sub: "AThinking t s \<in> set (assistant_blocks bs) \<Longrightarrow> Thinking t s \<in> set bs" for bs
    by (induction bs rule: assistant_blocks.induct) auto
  have "AThinking t s \<in> set (assistant_blocks cs)"
    using assms(2) cs(2,3) by (cases "assistant_blocks cs = []") (simp_all add: wire_messages_def)
  then show ?thesis using finalize_unsigned [OF cs(1) u] sub by blast
qed

subsection \<open>Event streams\<close>

lemma drain_line:
  assumes "newline \<notin> set l"
  shows "drain_lines step s (l @ newline # rest) =
     (case step s (chop_cr l) of (out, s') \<Rightarrow> case drain_lines step s' rest of (out', s'', buf) \<Rightarrow> (out @ out', s'', buf))"
proof -
  have "find_sub [newline] (l @ newline # rest) = Some (length l)"
    using assms by (induction l) auto
  then have "next_line (l @ newline # rest) = Some (chop_cr l, rest)" by (simp add: next_line_def)
  then show ?thesis by (subst drain_lines.simps) (simp split: prod.split)
qed

text \<open>How the provider writes an event, and what its texts look like: one line each, no blanks around.\<close>

definition event_frame :: "string \<times> string \<Rightarrow> string" where
  "event_frame e = ''event: '' @ fst e @ [newline] @ ''data: '' @ snd e @ [newline, newline]"

definition plain_line :: "string \<Rightarrow> bool" where
  "plain_line l \<longleftrightarrow> l \<noteq> [] \<and> newline \<notin> set l \<and> trim_start l = l \<and> last l \<noteq> CHR 0x0D"

fun translated_events ::
  "(string \<Rightarrow> json option) \<Rightarrow> (string \<Rightarrow> string) \<Rightarrow> (string \<times> string) list \<Rightarrow> (llm_error + stream_event) list" where
  "translated_events parse perr [] = []"
| "translated_events parse perr ((ty, d) # es) =
     (case translate_event parse perr ty d of
        Inl e \<Rightarrow> [Inl e]
      | Inr None \<Rightarrow> translated_events parse perr es
      | Inr (Some ev) \<Rightarrow> Inr ev # translated_events parse perr es)"

lemma sse_settles: "settles (sse_line parse perr) er_ended"
  by (simp add: settles_def sse_line_def)

lemma tag_lines:
  assumes "plain_line l"
  shows "chop_cr (''event: '' @ l) = ''event: '' @ l" "chop_cr (''data: '' @ l) = ''data: '' @ l"
    "newline \<notin> set (''event: '' @ l)" "newline \<notin> set (''data: '' @ l)"
  using assms by (auto simp: chop_cr_def plain_line_def newline_char)

lemma drain_frame:
  assumes "plain_line ty" "plain_line d" "\<not> er_ended r" "er_data r = []"
  shows "drain_lines (sse_line parse perr) r (event_frame (ty, d) @ rest) =
     (case flush_event parse perr (r\<lparr>er_type := ty, er_data := d\<rparr>) of
        (out, r') \<Rightarrow> case drain_lines (sse_line parse perr) r' rest of (out', r'', buf) \<Rightarrow> (out @ out', r'', buf))"
proof -
  have e: "event_frame (ty, d) @ rest = (''event: '' @ ty) @ newline # (''data: '' @ d) @ newline # [] @ newline # rest"
    by (simp add: event_frame_def)
  have ts: "trim_start ty = ty" "trim_start d = d" using assms by (simp_all add: plain_line_def)
  have l1: "sse_line parse perr r (''event: '' @ ty) = ([], r\<lparr>er_type := ty\<rparr>)"
    using assms(3) ts by (simp add: sse_line_def strip_tag_def trim_start_blank)
  have l2: "sse_line parse perr (r\<lparr>er_type := ty\<rparr>) (''data: '' @ d) = ([], r\<lparr>er_type := ty, er_data := d\<rparr>)"
    using assms(3,4) ts by (simp add: sse_line_def strip_tag_def trim_start_blank)
  have l3: "sse_line parse perr (r\<lparr>er_type := ty, er_data := d\<rparr>) [] = flush_event parse perr (r\<lparr>er_type := ty, er_data := d\<rparr>)"
    using assms(3) by (simp add: sse_line_def)
  have nl: "newline \<notin> set ([] :: string)" "chop_cr [] = []" by (simp_all add: chop_cr_def)
  show ?thesis
    unfolding e drain_line [OF tag_lines(3) [OF assms(1)]] tag_lines(1) [OF assms(1)] l1
    apply (simp only: prod.case append_Nil)
    unfolding drain_line [OF tag_lines(4) [OF assms(2)]] tag_lines(2) [OF assms(2)] l2
    apply (simp only: prod.case append_Nil)
    using drain_line [OF nl(1), of "sse_line parse perr" "r\<lparr>er_type := ty, er_data := d\<rparr>" rest]
    unfolding nl(2) l3 append_Nil by (simp split: prod.split)
qed

lemma drain_frames:
  assumes "list_all (\<lambda>e. plain_line (fst e) \<and> plain_line (snd e)) evs" "\<not> er_ended r" "er_data r = []"
  shows "\<exists>r' buf. drain_lines (sse_line parse perr) r (concat (map event_frame evs)) = (translated_events parse perr evs, r', buf)
    \<and> sse_end parse perr r' = []"
  using assms
proof (induction evs arbitrary: r)
  case Nil
  then have "drain_lines (sse_line parse perr) r [] = ([], r, [])"
    by (subst drain_lines.simps) (simp add: next_line_def)
  with Nil show ?case by (simp add: sse_end_def flush_event_def)
next
  case (Cons e evs)
  obtain ty d where e: "e = (ty, d)" by fastforce
  let ?r = "r\<lparr>er_type := ty, er_data := d\<rparr>" and ?z = "r\<lparr>er_type := [], er_data := []\<rparr>"
  have d: "d \<noteq> []" using Cons.prems e by (simp add: plain_line_def)
  have frame: "drain_lines (sse_line parse perr) r (concat (map event_frame (e # evs))) =
     (case flush_event parse perr ?r of
        (out, r') \<Rightarrow> case drain_lines (sse_line parse perr) r' (concat (map event_frame evs)) of (out', r'', buf) \<Rightarrow> (out @ out', r'', buf))"
    using drain_frame [of ty d r parse perr "concat (map event_frame evs)"] Cons.prems e by simp
  show ?case
  proof (cases "translate_event parse perr ty d")
    case (Inl err)
    let ?r' = "?r\<lparr>er_ended := True\<rparr>"
    have dis: "flush_event parse perr ?r = ([Inl err], ?r')" using d Inl by (simp add: flush_event_def)
    obtain buf where "drain_lines (sse_line parse perr) ?r' (concat (map event_frame evs)) = ([], ?r', buf)"
      using drain_settled [OF sse_settles, of ?r'] by force
    then show ?thesis using dis Inl e unfolding frame by (simp add: sse_end_def)
  next
    case (Inr ev)
    have dis: "flush_event parse perr ?r = ((case ev of None \<Rightarrow> [] | Some x \<Rightarrow> [Inr x]), ?z)"
      using d Inr by (simp add: flush_event_def)
    obtain r' buf where ih: "drain_lines (sse_line parse perr) ?z (concat (map event_frame evs)) = (translated_events parse perr evs, r', buf)"
      "sse_end parse perr r' = []"
      using Cons.IH [of ?z] Cons.prems by auto
    show ?thesis unfolding frame dis using ih Inr e by (cases ev) auto
  qed
qed

text \<open>C37: Every event of the provider arrives, once and in order.  A stream of events as the provider documents them, cut
  anywhere between characters, gives exactly the translation of its events up to the first that fails.\<close>

theorem event_stream_roundtrip:
  assumes "list_all valid_utf8 cs" "concat cs = concat (map event_frame evs)" "cs \<noteq> []"
    and "list_all (\<lambda>e. plain_line (fst e) \<and> plain_line (snd e)) evs"
  shows "parse_event_stream parse perr (map Inr cs) = translated_events parse perr evs"
proof -
  let ?r = "\<lparr>er_type = [], er_data = [], er_ended = False\<rparr>"
  have "line_feed.feed_all (sse_line parse perr) (?r, []) cs = line_feed.feed_all (sse_line parse perr) (?r, []) [concat cs]"
    by (rule line_feed.feed_all_cut) (simp_all add: assms(3))
  also have "\<dots> = drain_lines (sse_line parse perr) ?r (concat (map event_frame evs))"
    using assms(2) by (simp add: feed_lines_def split: prod.split)
  finally obtain r' buf where f: "line_feed.feed_all (sse_line parse perr) (?r, []) cs = (translated_events parse perr evs, r', buf)"
    "sse_end parse perr r' = []"
    using drain_frames [OF assms(4), of ?r parse perr] by auto
  have "stream_end (sse_end parse perr) (feed_chunks (sse_line parse perr) er_ended (?r, []) (map Inr cs))
    = (case line_feed.feed_all (sse_line parse perr) (?r, []) cs of (out, s, buf) \<Rightarrow> out @ sse_end parse perr s)"
    by (rule feed_chunks_utf8 [OF sse_settles _ assms(1)]) (simp add: sse_end_def)
  then show ?thesis unfolding parse_event_stream_def f(1) using f(2) by simp
qed

subsection \<open>Concrete inputs\<close>

theorem event_stream_roundtrip_witness:
  "parse_event_stream (\<lambda>_. None) (\<lambda>_. []) [Inr ''event: mes'', Inr (''sage_stop'' @ [newline] @ ''data: {}'' @ [newline, newline])]
     = [Inr MessageStop]"
proof -
  let ?cs = "[''event: mes'', ''sage_stop'' @ [newline] @ ''data: {}'' @ [newline, newline]]"
  have "list_all valid_utf8 ?cs" by code_simp
  moreover have "plain_line ''message_stop''" "plain_line ''{}''"
    by (simp_all add: plain_line_def trim_start_visible in_range_def newline_char)
  ultimately show ?thesis
    using event_stream_roundtrip [of ?cs "[(''message_stop'', ''{}'')]" "\<lambda>_. None" "\<lambda>_. []"]
    by (simp add: event_frame_def translate_event_def)
qed

theorem breakpoint_ends_stable_prefix_witness:
  "build_system_field ((new_request ''m'')\<lparr>rq_system_segments :=
      [\<lparr>sg_text = ''b'', sg_cacheable = True\<rparr>, \<lparr>sg_text = ''f'', sg_cacheable = False\<rparr>]\<rparr>) None True
    = Some (SystemBlocks [\<lparr>sb_text = ''b'', sb_cached = True\<rparr>, \<lparr>sb_text = ''f'', sb_cached = False\<rparr>])"
proof -
  let ?segs = "[\<lparr>sg_text = ''b'', sg_cacheable = True\<rparr>, \<lparr>sg_text = ''f'', sg_cacheable = False\<rparr>]"
  let ?req = "(new_request ''m'')\<lparr>rq_system_segments := ?segs\<rparr>"
  have "trim ''b'' = ''b''" "trim ''f'' = ''f''" by (simp_all add: trim_visible in_range_def)
  then have r: "?segs = retained_segments ?req None" by (simp add: retained_segments_def)
  obtain bs where bs: "build_system_field ?req None True = Some (SystemBlocks bs)" "map sb_text bs = map sg_text ?segs"
    "filter (\<lambda>i. sb_cached (bs ! i)) [0..<length bs] = [0]"
    using breakpoint_ends_stable_prefix [OF _ r] by auto
  then obtain a b where ab: "bs = [a, b]" "sb_text a = ''b''" "sb_text b = ''f''" by (auto simp: map_eq_Cons_conv)
  with bs(3) have "sb_cached a" "\<not> sb_cached b" by (auto simp: numeral_2_eq_2 split: if_splits)
  with ab bs(1) show ?thesis by (cases a; cases b) simp
qed

theorem answer_sent_back_witness:
  "wire_messages \<lparr>m_id = 1, m_role = Assistant, m_content = [Thinking ''<redacted thinking>'' (Some ''blob''), Text ''ok''], m_created_at = 2\<rparr>
     = [\<lparr>am_role = ''assistant'', am_content = [AThinking ''<redacted thinking>'' (Some ''blob''), AText ''ok'']\<rparr>]"
  using answer_sent_back [of 1 2 "\<lparr>mr_id = ''i'', mr_content = [ARedacted ''blob'', AText ''ok''], mr_stop_reason = None, mr_usage = None\<rparr>"
      "\<lparr>resp_id = ''i'', resp_message = \<lparr>m_id = 1, m_role = Assistant, m_content = [Thinking ''<redacted thinking>'' (Some ''blob''), Text ''ok''],
         m_created_at = 2\<rparr>, resp_usage = usage_default, resp_stop = EndTurn\<rparr>"]
  by (simp add: parse_messages_response_def or_else_def)

theorem streamed_thinking_is_unsigned_witness:
  "wire_messages \<lparr>m_id = 1, m_role = Assistant, m_content = [Thinking ''hm'' None], m_created_at = 2\<rparr>
     = [\<lparr>am_role = ''assistant'', am_content = [AThinking ''hm'' None]\<rparr>]"
proof -
  let ?evs = "[BlockStart 0 StartThinking, BlockDelta 0 (DeltaThinking ''hm''), BlockStop 0]"
  obtain r where r: "finalize (\<lambda>_. None) (\<lambda>_. []) 1 2 (foldl ingest new_accumulator ?evs) = Inr r"
      "resp_message r = \<lparr>m_id = 1, m_role = Assistant, m_content = [Thinking ''hm'' None], m_created_at = 2\<rparr>"
    by (simp add: finalize_def new_accumulator_def btree_update_def)
  then have "AThinking ''hm'' None \<in> set (concat (map am_content (wire_messages (resp_message r))))"
    by (simp add: wire_messages_def)
  from streamed_thinking_is_unsigned [OF r(1) this] show ?thesis by (simp add: wire_messages_def)
qed

end
