(* ===== verification/Memory_Store.thy ===== *)
theory Memory_Store
  imports History Texts "HOL-Library.AList" "HOL-Library.List_Lexorder"
begin

text \<open>
  The memory of a project (\<open>crates/snaca-memory\<close>): the four scopes (\<open>scope.rs\<close>), the threat scanner
  (\<open>threat.rs\<close>) and the store of entries with its index and its drift check (\<open>store.rs\<close>).

  Paths are relative to the memory root; the tree lists the files below it in the order in which the file system
  would list them.  Every operation of \<open>MemoryStore\<close> takes the handle's hashes and the tree and returns them;
  two handles on one tree are two states with the same \<open>ms_tree\<close>, and other processes change the tree between
  operations.  Parameters are the input and output errors, the hash function (blake3), what the regular
  expressions of the scanner match, and the clock.
\<close>

subsection \<open>Scopes and errors\<close>

datatype memory_scope = UserScope | ProjectScope | ReferenceScope | FeedbackScope

definition all_scopes :: "memory_scope list" where
  "all_scopes = [UserScope, ProjectScope, ReferenceScope, FeedbackScope]"

primrec dir_name :: "memory_scope \<Rightarrow> string" where
  "dir_name UserScope = ''user''"
| "dir_name ProjectScope = ''project''"
| "dir_name ReferenceScope = ''reference''"
| "dir_name FeedbackScope = ''feedback''"

definition from_dir_name :: "string \<Rightarrow> memory_scope option" where
  "from_dir_name s =
     (if s = ''user'' then Some UserScope
      else if s = ''project'' then Some ProjectScope
      else if s = ''reference'' then Some ReferenceScope
      else if s = ''feedback'' then Some FeedbackScope
      else None)"

definition parse_memory_scope :: "string \<Rightarrow> string + memory_scope" where
  "parse_memory_scope s =
     (case from_dir_name s of
        Some sc \<Rightarrow> Inr sc
      | None \<Rightarrow> Inl (''unknown memory scope `'' @ s @ ''`; valid: user|project|reference|feedback''))"

type_synonym mem_path = "string list"

datatype memory_error =
    InvalidName string string
  | EntryNotFound memory_scope string
  | MemoryIo string
  | ThreatBlocked string string
  | ExternalDrift mem_path mem_path
  | ExternalExtractorRequired string string
  | EntryTooLarge string nat nat
  | ImportScopeBlocked memory_scope

record memory_entry =
  me_scope :: memory_scope
  me_name :: string
  me_content :: string

subsection \<open>Names and paths\<close>

definition name_char :: "char \<Rightarrow> bool" where
  "name_char c \<longleftrightarrow> (let n = (of_char c :: nat) in (97 \<le> n \<and> n \<le> 122) \<or> (48 \<le> n \<and> n \<le> 57)) \<or> c = CHR ''_'' \<or> c = CHR ''-''"

definition strip_ending :: "string \<Rightarrow> string \<Rightarrow> string option" where
  "strip_ending e s = (if suffix e s then Some (take (length s - length e) s) else None)"

definition sanitize_name :: "string \<Rightarrow> memory_error + string" where
  "sanitize_name input =
     (let trimmed = trim input;
          stripped = or_else (strip_ending ''.md'' trimmed) trimmed;
          lowered = map ascii_lower stripped
      in if lowered = [] then Inl (InvalidName input ''empty after trim'')
         else if 64 < length lowered then Inl (InvalidName input (''max 64 chars; got '' @ show_nat (length lowered)))
         else if \<not> list_all name_char lowered then Inl (InvalidName input ''must match [a-z0-9_-]+'')
         else Inr lowered)"

definition entry_path :: "memory_scope \<Rightarrow> string \<Rightarrow> mem_path" where
  "entry_path s n = [dir_name s, n @ ''.md'']"

definition index_path :: mem_path where "index_path = [''MEMORY.md'']"

definition backup_path_for :: "nat \<Rightarrow> mem_path \<Rightarrow> mem_path" where
  "backup_path_for ts p = butlast p @ [last p @ ''.bak.'' @ show_nat ts]"

subsection \<open>The threat scanner\<close>

definition THREAT_RULES :: "(string \<times> string) list" where
  "THREAT_RULES =
     [(''prompt_injection_ignore_previous'', ''instructional override ('' @ [CHR 0x22] @ ''ignore previous instructions'' @ [CHR 0x22] @ '')''),
      (''prompt_injection_ignore_previous_zh'', ''instructional override ('' @ map char_of [0xE4::nat, 0xB8, 0xAD, 0xE6, 0x96, 0x87, 0xEF, 0xBC, 0x9A, 0xE5, 0xBF, 0xBD, 0xE7, 0x95, 0xA5, 0xE4, 0xB9, 0x8B, 0xE5, 0x89, 0x8D, 0xE7, 0x9A, 0x84, 0xE6, 0x8C, 0x87, 0xE4, 0xBB, 0xA4] @ '')''),
      (''prompt_injection_role_swap'', ''role swap attempt ('' @ [CHR 0x22] @ ''you are now ...'' @ [CHR 0x22] @ '')''),
      (''prompt_injection_role_swap_zh'', ''role swap attempt ('' @ map char_of [0xE4::nat, 0xB8, 0xAD, 0xE6, 0x96, 0x87, 0xEF, 0xBC, 0x9A, 0xE4, 0xBD, 0xA0, 0xE7, 0x8E, 0xB0, 0xE5, 0x9C, 0xA8, 0xE6, 0x98, 0xAF, 0xE2, 0x80, 0xA6] @ '')''),
      (''prompt_injection_disclose_system'', ''system-prompt disclosure attempt''),
      (''prompt_injection_exfil_url'', ''exfiltration sink (curl/wget to external host with secret-like query)''),
      (''credential_aws_access_key'', ''AWS access key id''),
      (''credential_openai_key'', ''OpenAI-shaped API key''),
      (''credential_anthropic_key'', ''Anthropic-shaped API key''),
      (''credential_pem_private_key'', ''PEM private key header''),
      (''credential_jwt'', ''JWT-shaped triplet''),
      (''credential_github_token'', ''GitHub-shaped personal access token''),
      (''credential_slack_token'', ''Slack token''),
      (''credential_google_api_key'', ''Google-shaped API key''),
      (''credential_bearer_long_hex'', ''Bearer header carrying a long secret'')]"

text \<open>The first rule whose regular expression matches.\<close>

definition threat_scan :: "(string \<Rightarrow> string \<Rightarrow> bool) \<Rightarrow> string \<Rightarrow> (string \<times> string) option" where
  "threat_scan hits content = (if content = [] then None else find (\<lambda>(kind, _). hits kind content) THREAT_RULES)"

subsection \<open>The file tree\<close>

type_synonym mem_tree = "(mem_path \<times> string) list"

datatype mem_op = MakeDirs | ReadFile | WriteFile | RemoveFile | ListDir | StatFile

record 'h memory_env =
  mv_fault :: "mem_op \<Rightarrow> mem_path \<Rightarrow> string option"
  mv_left :: "mem_path \<Rightarrow> string option"
  mv_hash :: "string \<Rightarrow> 'h"
  mv_hits :: "string \<Rightarrow> string \<Rightarrow> bool"
  mv_now :: nat

record 'h memory_store =
  ms_seen :: "mem_path \<rightharpoonup> 'h"
  ms_tree :: mem_tree

datatype read_failure = Missing | ReadFailed string

definition mem_read :: "'h memory_env \<Rightarrow> mem_tree \<Rightarrow> mem_path \<Rightarrow> read_failure + string" where
  "mem_read env t p =
     (case mv_fault env ReadFile p of
        Some e \<Rightarrow> Inl (ReadFailed e)
      | None \<Rightarrow> (case map_of t p of None \<Rightarrow> Inl Missing | Some b \<Rightarrow> Inr b))"

definition mem_read_text :: "'h memory_env \<Rightarrow> mem_tree \<Rightarrow> mem_path \<Rightarrow> read_failure + string" where
  "mem_read_text env t p =
     (case mem_read env t p of
        Inl e \<Rightarrow> Inl e
      | Inr b \<Rightarrow> if valid_utf8 b then Inr b else Inl (ReadFailed ''stream did not contain valid UTF-8''))"

text \<open>A failed write may leave other bytes behind.\<close>

definition mem_write :: "'h memory_env \<Rightarrow> mem_tree \<Rightarrow> mem_path \<Rightarrow> string \<Rightarrow> string option \<times> mem_tree" where
  "mem_write env t p b =
     (case mv_fault env WriteFile p of
        Some e \<Rightarrow> (Some e, case mv_left env p of None \<Rightarrow> t | Some l \<Rightarrow> AList.update p l t)
      | None \<Rightarrow> (None, AList.update p b t))"

fun dir_files :: "string \<Rightarrow> mem_tree \<Rightarrow> string list" where
  "dir_files d [] = []"
| "dir_files d ((p, _) # t) = (case p of [d', f] \<Rightarrow> if d' = d then f # dir_files d t else dir_files d t | _ \<Rightarrow> dir_files d t)"

subsection \<open>Listing and the index\<close>

definition ensure_layout :: "'h memory_env \<Rightarrow> memory_error option" where
  "ensure_layout env =
     (case List.map_filter (mv_fault env MakeDirs) ([] # map (\<lambda>s. [dir_name s]) all_scopes) of
        [] \<Rightarrow> None
      | e # _ \<Rightarrow> Some (MemoryIo e))"

definition entry_names :: "mem_tree \<Rightarrow> memory_scope \<Rightarrow> string list" where
  "entry_names t s = sort (List.map_filter (strip_ending ''.md'') (dir_files (dir_name s) t))"

definition memory_list :: "'h memory_env \<Rightarrow> mem_tree \<Rightarrow> memory_scope \<Rightarrow> memory_error + string list" where
  "memory_list env t s =
     (case mv_fault env ListDir [dir_name s] of Some e \<Rightarrow> Inl (MemoryIo e) | None \<Rightarrow> Inr (entry_names t s))"

fun list_sections :: "'h memory_env \<Rightarrow> mem_tree \<Rightarrow> memory_scope list \<Rightarrow> memory_error + (memory_scope \<times> string list) list" where
  "list_sections env t [] = Inr []"
| "list_sections env t (s # ss) =
     (case memory_list env t s of
        Inl e \<Rightarrow> Inl e
      | Inr names \<Rightarrow> map_sum id ((#) (s, names)) (list_sections env t ss))"

definition memory_list_all :: "'h memory_env \<Rightarrow> mem_tree \<Rightarrow> memory_error + (memory_scope \<times> string) list" where
  "memory_list_all env t =
     map_sum id (\<lambda>secs. concat (map (\<lambda>(s, names). map (Pair s) names) secs)) (list_sections env t all_scopes)"

definition INDEX_MAX_LINES :: nat where "INDEX_MAX_LINES = 200"
definition INDEX_MAX_BYTES :: nat where "INDEX_MAX_BYTES = 25 * 1024"

definition index_line :: "memory_scope \<Rightarrow> string \<Rightarrow> string" where
  "index_line s n = ''  - `'' @ dir_name s @ ''/'' @ n @ ''`'' @ [newline]"

definition index_rest :: "nat \<Rightarrow> string" where
  "index_rest k = ''  - '' @ ellipsis @ '' '' @ show_nat k @ '' more entries (truncated for index cap)'' @ [newline]"

text \<open>The lines of one scope: the text, the line count, and whether the budget ran out.\<close>

fun index_names :: "memory_scope \<Rightarrow> string list \<Rightarrow> string list \<Rightarrow> string \<Rightarrow> nat \<Rightarrow> string \<times> nat \<times> bool" where
  "index_names s names [] out lc = (out, lc, False)"
| "index_names s names (n # ns) out lc =
     (if INDEX_MAX_LINES \<le> lc \<or> INDEX_MAX_BYTES \<le> length out
      then (out @ index_rest (length names - length (takeWhile (\<lambda>m. m \<noteq> n) names)), lc, True)
      else index_names s names ns (out @ index_line s n) (Suc lc))"

definition index_head :: "memory_scope \<Rightarrow> string list \<Rightarrow> string" where
  "index_head s names = ''## '' @ dir_name s @ '' ('' @ show_nat (length names) @ '' entries)'' @ [newline, newline]"

fun index_sections :: "(memory_scope \<times> string list) list \<Rightarrow> string \<Rightarrow> nat \<Rightarrow> bool \<Rightarrow> string" where
  "index_sections [] out lc exhausted = out"
| "index_sections ((s, names) # secs) out lc exhausted =
     (if names = [] then index_sections secs out lc exhausted
      else if exhausted then out
      else case index_names s names names (out @ index_head s names) (lc + 2) of
             (out', lc', ex) \<Rightarrow> index_sections secs (out' @ [newline]) (Suc lc') ex)"

definition INDEX_TITLE :: string where
  "INDEX_TITLE = ''# Memory'' @ [newline, newline]
     @ ''Index of stored memory entries. Read individual entries via the `MemoryRead` tool.'' @ [newline, newline]"

definition INDEX_CLAMPED :: string where
  "INDEX_CLAMPED = [newline] @ ellipsis @ '' (index truncated)'' @ [newline]"

definition render_index :: "(memory_scope \<times> string list) list \<Rightarrow> string" where
  "render_index secs =
     (let out = index_sections secs INDEX_TITLE 4 False
      in if INDEX_MAX_BYTES < length out then take (floor_char_boundary out INDEX_MAX_BYTES) out @ INDEX_CLAMPED else out)"

text \<open>An empty tree has no index; an index that would not change is not written.\<close>

definition regenerate_index :: "'h memory_env \<Rightarrow> mem_tree \<Rightarrow> memory_error option \<times> mem_tree" where
  "regenerate_index env t =
     (case list_sections env t all_scopes of
        Inl e \<Rightarrow> (Some e, t)
      | Inr secs \<Rightarrow>
          if list_all (\<lambda>(_, names). names = []) secs then
            (if map_of t index_path = None \<or> mv_fault env StatFile index_path \<noteq> None then (None, t)
             else case mv_fault env RemoveFile index_path of
                    Some e \<Rightarrow> (Some (MemoryIo e), t)
                  | None \<Rightarrow> (None, AList.delete index_path t))
          else if mem_read_text env t index_path = Inr (render_index secs) then (None, t)
          else (case mem_write env t index_path (render_index secs) of
                  (e, t') \<Rightarrow> (map_option MemoryIo e, t')))"

definition memory_index_text :: "'h memory_env \<Rightarrow> mem_tree \<Rightarrow> memory_error + string" where
  "memory_index_text env t =
     (case mem_read_text env t index_path of
        Inr s \<Rightarrow> Inr s
      | Inl Missing \<Rightarrow> Inr []
      | Inl (ReadFailed e) \<Rightarrow> Inl (MemoryIo e))"

subsection \<open>Writing, reading, deleting\<close>

definition record_hash :: "'h memory_env \<Rightarrow> mem_path \<Rightarrow> string \<Rightarrow> 'h memory_store \<Rightarrow> 'h memory_store" where
  "record_hash env p b st = st\<lparr>ms_seen := (ms_seen st)(p \<mapsto> mv_hash env b)\<rparr>"

text \<open>The write itself, the hash and the index: what \<open>write\<close> and \<open>write_force\<close> share.\<close>

definition land_entry ::
  "'h memory_env \<Rightarrow> 'h memory_store \<Rightarrow> memory_scope \<Rightarrow> string \<Rightarrow> string \<Rightarrow> (memory_error + memory_entry) \<times> 'h memory_store" where
  "land_entry env st s n content =
     (case mem_write env (ms_tree st) (entry_path s n) content of
        (Some e, t) \<Rightarrow> (Inl (MemoryIo e), st\<lparr>ms_tree := t\<rparr>)
      | (None, t) \<Rightarrow>
          (let st' = record_hash env (entry_path s n) content (st\<lparr>ms_tree := t\<rparr>)
           in case regenerate_index env t of
                (Some e, t') \<Rightarrow> (Inl e, st'\<lparr>ms_tree := t'\<rparr>)
              | (None, t') \<Rightarrow> (Inr \<lparr>me_scope = s, me_name = n, me_content = content\<rparr>, st'\<lparr>ms_tree := t'\<rparr>)))"

text \<open>The refusal of a write over bytes other than the ones last seen, and the tree after the backup.\<close>

definition drift_check :: "'h memory_env \<Rightarrow> 'h memory_store \<Rightarrow> mem_path \<Rightarrow> (memory_error \<times> mem_tree) option" where
  "drift_check env st p =
     (case mem_read env (ms_tree st) p of
        Inl Missing \<Rightarrow> None
      | Inl (ReadFailed e) \<Rightarrow> Some (MemoryIo e, ms_tree st)
      | Inr b \<Rightarrow>
          (case ms_seen st p of
             None \<Rightarrow> None
           | Some h \<Rightarrow>
               if h = mv_hash env b then None
               else case mem_write env (ms_tree st) (backup_path_for (mv_now env) p) b of
                      (Some e, t) \<Rightarrow> Some (MemoryIo e, t)
                    | (None, t) \<Rightarrow> Some (ExternalDrift p (backup_path_for (mv_now env) p), t)))"

definition memory_write ::
  "'h memory_env \<Rightarrow> 'h memory_store \<Rightarrow> memory_scope \<Rightarrow> string \<Rightarrow> string \<Rightarrow> (memory_error + memory_entry) \<times> 'h memory_store" where
  "memory_write env st s name content =
     (case sanitize_name name of
        Inl e \<Rightarrow> (Inl e, st)
      | Inr n \<Rightarrow>
          (case threat_scan (mv_hits env) content of
             Some (kind, description) \<Rightarrow> (Inl (ThreatBlocked kind description), st)
           | None \<Rightarrow>
               (case ensure_layout env of
                  Some e \<Rightarrow> (Inl e, st)
                | None \<Rightarrow>
                    (case drift_check env st (entry_path s n) of
                       Some (e, t) \<Rightarrow> (Inl e, st\<lparr>ms_tree := t\<rparr>)
                     | None \<Rightarrow> land_entry env st s n content))))"

definition memory_write_force ::
  "'h memory_env \<Rightarrow> 'h memory_store \<Rightarrow> memory_scope \<Rightarrow> string \<Rightarrow> string \<Rightarrow> (memory_error + memory_entry) \<times> 'h memory_store" where
  "memory_write_force env st s name content =
     (case sanitize_name name of
        Inl e \<Rightarrow> (Inl e, st)
      | Inr n \<Rightarrow> (case ensure_layout env of Some e \<Rightarrow> (Inl e, st) | None \<Rightarrow> land_entry env st s n content))"

definition memory_read ::
  "'h memory_env \<Rightarrow> 'h memory_store \<Rightarrow> memory_scope \<Rightarrow> string \<Rightarrow> (memory_error + memory_entry) \<times> 'h memory_store" where
  "memory_read env st s name =
     (case sanitize_name name of
        Inl e \<Rightarrow> (Inl e, st)
      | Inr n \<Rightarrow>
          (case mem_read_text env (ms_tree st) (entry_path s n) of
             Inr content \<Rightarrow>
               (Inr \<lparr>me_scope = s, me_name = n, me_content = content\<rparr>, record_hash env (entry_path s n) content st)
           | Inl Missing \<Rightarrow> (Inl (EntryNotFound s n), st)
           | Inl (ReadFailed e) \<Rightarrow> (Inl (MemoryIo e), st)))"

definition memory_delete ::
  "'h memory_env \<Rightarrow> 'h memory_store \<Rightarrow> memory_scope \<Rightarrow> string \<Rightarrow> memory_error option \<times> 'h memory_store" where
  "memory_delete env st s name =
     (case sanitize_name name of
        Inl e \<Rightarrow> (Some e, st)
      | Inr n \<Rightarrow>
          (case mv_fault env RemoveFile (entry_path s n) of
             Some e \<Rightarrow> (Some (MemoryIo e), st)
           | None \<Rightarrow>
               if map_of (ms_tree st) (entry_path s n) = None then (None, st)
               else (case regenerate_index env (AList.delete (entry_path s n) (ms_tree st)) of
                       (e, t) \<Rightarrow> (e, st\<lparr>ms_tree := t\<rparr>))))"

subsection \<open>Names\<close>

lemma name_char_props:
  "name_char c \<Longrightarrow> ascii_lower c = c" "\<not> name_char (CHR ''.'')" "\<not> name_char (CHR ''/'')"
  "name_char c \<Longrightarrow> in_range 0x21 0x7E c"
  by (auto simp: name_char_def ascii_lower_def in_range_def Let_def)

definition valid_name :: "string \<Rightarrow> bool" where
  "valid_name n \<longleftrightarrow> n \<noteq> [] \<and> length n \<le> 64 \<and> list_all name_char n"

lemma sanitized_valid: "sanitize_name x = Inr n \<Longrightarrow> valid_name n"
  by (auto simp: sanitize_name_def Let_def valid_name_def split: if_splits)

lemma valid_name_visible: "valid_name n \<Longrightarrow> in_range 0x21 0x7E (hd n) \<and> in_range 0x21 0x7E (last n)"
  by (auto simp: valid_name_def list_all_iff name_char_props)

lemma valid_name_lower: "valid_name n \<Longrightarrow> map ascii_lower n = n"
  by (auto simp: valid_name_def list_all_iff name_char_props(1) intro: map_idI)

lemma valid_name_no_md: "valid_name n \<Longrightarrow> \<not> suffix ''.md'' n"
  by (auto simp: suffix_def valid_name_def name_char_props)

lemma strip_ending_append [simp]: "strip_ending e (s @ e) = Some s"
  by (simp add: strip_ending_def suffix_def)

lemma sanitize_valid: "valid_name n \<Longrightarrow> sanitize_name n = Inr n"
proof -
  assume v: "valid_name n"
  then have "trim n = n" using valid_name_visible [OF v] by (intro trim_visible) (simp_all add: valid_name_def)
  with v show ?thesis
    by (simp add: sanitize_name_def valid_name_lower strip_ending_def valid_name_no_md or_else_def) (simp add: valid_name_def)
qed

lemma sanitize_md: "valid_name n \<Longrightarrow> sanitize_name (n @ ''.md'') = Inr n"
proof -
  assume v: "valid_name n"
  then have "trim (n @ ''.md'') = n @ ''.md''"
    using valid_name_visible [OF v] by (intro trim_visible) (simp_all add: valid_name_def in_range_def)
  with v show ?thesis
    by (simp add: sanitize_name_def valid_name_lower or_else_def) (simp add: valid_name_def)
qed

text \<open>C30: Entry names are safe.  A name the store accepts consists of one to sixty-four of \<open>[a-z0-9_-]\<close>, so that its
  path has neither a separator nor a dot of the caller's, stays in its scope's directory and is never the
  index; spelled again, with or without \<open>.md\<close>, it is the same entry.\<close>

theorem memory_names_safe:
  assumes "sanitize_name x = Inr n"
  shows "n \<noteq> [] \<and> length n \<le> 64 \<and> CHR ''/'' \<notin> set n \<and> CHR ''.'' \<notin> set n
    \<and> entry_path s n = [dir_name s, n @ ''.md''] \<and> entry_path s n \<noteq> index_path
    \<and> sanitize_name n = Inr n \<and> sanitize_name (n @ ''.md'') = Inr n"
  using sanitized_valid [OF assms] sanitize_valid [of n] sanitize_md [of n]
  by (auto simp: valid_name_def list_all_iff name_char_props entry_path_def index_path_def)

subsection \<open>The tree\<close>

lemma dir_name_inj [simp]: "dir_name s = dir_name s' \<longleftrightarrow> s = s'"
  by (cases s; cases s') simp_all

lemma entry_path_inj [simp]: "entry_path s n = entry_path s' n' \<longleftrightarrow> s = s' \<and> n = n'"
  by (simp add: entry_path_def)

lemma entry_not_index [simp]: "entry_path s n \<noteq> index_path" "index_path \<noteq> entry_path s n"
  by (simp_all add: entry_path_def index_path_def)

lemma backup_of_entry: "backup_path_for ts (entry_path s n) = [dir_name s, n @ ''.md.bak.'' @ show_nat ts]"
  by (simp add: backup_path_for_def entry_path_def)

lemma backup_not_index [simp]: "backup_path_for ts (entry_path s n) \<noteq> index_path" "index_path \<noteq> backup_path_for ts (entry_path s n)"
  by (simp_all add: backup_of_entry index_path_def)

lemma backup_not_entry [simp]: "backup_path_for ts (entry_path s n) \<noteq> entry_path s n"
  by (subst backup_of_entry) (simp add: entry_path_def)

lemma mem_write_other: "q \<noteq> p \<Longrightarrow> map_of (snd (mem_write env t p b)) q = map_of t q"
  by (simp add: mem_write_def update_conv' split: option.split)

lemma mem_write_ok: "mem_write env t p b = (None, t') \<longleftrightarrow> mv_fault env WriteFile p = None \<and> t' = AList.update p b t"
  by (auto simp: mem_write_def split: option.split)

lemma regenerate_other: "q \<noteq> index_path \<Longrightarrow> map_of (snd (regenerate_index env t)) q = map_of t q"
  by (simp add: regenerate_index_def mem_write_def update_conv' delete_conv' split: sum.split option.split prod.split)

text \<open>The entries of a tree, as its sections; what is not in a scope's directory does not count.\<close>

definition sections :: "mem_tree \<Rightarrow> (memory_scope \<times> string list) list" where
  "sections t = map (\<lambda>s. (s, entry_names t s)) all_scopes"

definition counts :: "mem_path \<Rightarrow> bool" where
  "counts p \<longleftrightarrow> (\<exists>s f. p = [dir_name s, f] \<and> suffix ''.md'' f)"

lemma dir_files_update:
  "dir_files d (AList.update p b t) = dir_files d t @ (if map_of t p = None then dir_files d [(p, b)] else [])"
  by (induction t) (auto split: list.split)

lemma dir_files_delete: "dir_files d (AList.delete p t) = (case p of [d', f] \<Rightarrow> if d' = d then removeAll f (dir_files d t) else dir_files d t | _ \<Rightarrow> dir_files d t)"
  by (induction t) (auto split: list.split)

lemma map_filter_append: "List.map_filter f (xs @ ys) = List.map_filter f xs @ List.map_filter f ys"
  by (simp add: List.map_filter_def)

lemma map_filter_removeAll: "f x = None \<Longrightarrow> List.map_filter f (removeAll x xs) = List.map_filter f xs"
  by (induction xs) (auto simp: map_filter_simps split: option.split)

lemma names_update: "\<not> counts p \<Longrightarrow> entry_names (AList.update p b t) s = entry_names t s"
  by (auto simp: entry_names_def dir_files_update map_filter_append map_filter_simps counts_def strip_ending_def split: list.split)

lemma names_delete: "\<not> counts p \<Longrightarrow> entry_names (AList.delete p t) s = entry_names t s"
  by (auto simp: entry_names_def dir_files_delete counts_def strip_ending_def map_filter_removeAll split: list.split)

lemma index_not_counts [simp]: "\<not> counts index_path"
  by (simp add: counts_def index_path_def)

lemma backup_not_counts: "\<not> counts (backup_path_for ts (entry_path s n))"
proof -
  have "digit_char k \<noteq> CHR ''d''" if "k < 10" for k
    using that by (auto simp: digit_char_def dest!: arg_cong [where f = "of_char :: char \<Rightarrow> nat"])
  then have "last (show_nat ts) \<noteq> CHR ''d''" by (subst show_nat.simps) simp
  moreover have "suffix ''.md'' (n @ ''.md.bak.'' @ show_nat ts) \<Longrightarrow> last (show_nat ts) = CHR ''d''"
    by (auto simp: suffix_def dest!: arg_cong [where f = last])
  ultimately show ?thesis by (auto simp: counts_def backup_of_entry)
qed

lemma sections_cong: "(\<And>s. entry_names t s = entry_names t' s) \<Longrightarrow> sections t = sections t'"
  by (simp add: sections_def)

lemma list_sections_ok: "list_sections env t ss = Inr secs \<Longrightarrow> secs = map (\<lambda>s. (s, entry_names t s)) ss"
proof (induction ss arbitrary: secs)
  case (Cons s ss)
  then show ?case
    by (cases "list_sections env t ss") (auto simp: memory_list_def split: option.splits)
qed simp

subsection \<open>Runs\<close>

text \<open>What one handle does to the tree, and what others do in between.\<close>

datatype mem_event =
    EvWrite memory_scope string string
  | EvForce memory_scope string string
  | EvRead memory_scope string
  | EvDelete memory_scope string
  | EvOthers mem_tree

fun mem_step :: "'h memory_store \<Rightarrow> 'h memory_env \<times> mem_event \<Rightarrow> 'h memory_store" where
  "mem_step st (env, EvWrite s x c) = snd (memory_write env st s x c)"
| "mem_step st (env, EvForce s x c) = snd (memory_write_force env st s x c)"
| "mem_step st (env, EvRead s x) = snd (memory_read env st s x)"
| "mem_step st (env, EvDelete s x) = snd (memory_delete env st s x)"
| "mem_step st (env, EvOthers t) = st\<lparr>ms_tree := t\<rparr>"

definition own_path :: "mem_path \<Rightarrow> bool" where
  "own_path p \<longleftrightarrow> p = index_path \<or> (\<exists>s n. valid_name n \<and> (p = entry_path s n \<or> (\<exists>ts. p = backup_path_for ts (entry_path s n))))"

lemma land_other:
  assumes "q \<noteq> index_path" "q \<noteq> entry_path s n"
  shows "map_of (ms_tree (snd (land_entry env st s n c))) q = map_of (ms_tree st) q"
proof -
  obtain e t where w: "mem_write env (ms_tree st) (entry_path s n) c = (e, t)" by fastforce
  have t: "map_of t q = map_of (ms_tree st) q" using mem_write_other [OF assms(2), of env "ms_tree st" c] w by simp
  obtain e' t' where r: "regenerate_index env t = (e', t')" by fastforce
  have "map_of t' q = map_of t q" using regenerate_other [OF assms(1), of env t] r by simp
  with t w r show ?thesis by (simp add: land_entry_def Let_def split: option.split)
qed

lemma drift_other:
  assumes "drift_check env st p = Some (e, t)" "q \<noteq> backup_path_for (mv_now env) p"
  shows "map_of t q = map_of (ms_tree st) q"
  using assms mem_write_other [OF assms(2), of env "ms_tree st"]
  by (auto simp: drift_check_def split: sum.splits read_failure.splits option.splits if_splits prod.splits)
    (metis snd_conv)+

lemma write_other:
  assumes "q \<noteq> index_path" "\<And>n. sanitize_name x = Inr n \<Longrightarrow> q \<noteq> entry_path s n \<and> q \<noteq> backup_path_for (mv_now env) (entry_path s n)"
  shows "map_of (ms_tree (snd (memory_write env st s x c))) q = map_of (ms_tree st) q"
proof (cases "sanitize_name x")
  case (Inr n)
  show ?thesis
  proof (cases "drift_check env st (entry_path s n)")
    case None
    then show ?thesis using Inr assms land_other [of q s n env st c]
      by (simp add: memory_write_def split: option.split)
  next
    case (Some et)
    obtain e t where "et = (e, t)" by fastforce
    then show ?thesis using Inr Some assms drift_other [of env st "entry_path s n" e t q]
      by (simp add: memory_write_def split: option.split)
  qed
qed (simp add: memory_write_def)

lemma force_other:
  assumes "q \<noteq> index_path" "\<And>n. sanitize_name x = Inr n \<Longrightarrow> q \<noteq> entry_path s n"
  shows "map_of (ms_tree (snd (memory_write_force env st s x c))) q = map_of (ms_tree st) q"
  using assms land_other [of q s _ env st c]
  by (cases "sanitize_name x") (simp_all add: memory_write_force_def split: option.split)

lemma read_tree [simp]: "ms_tree (snd (memory_read env st s x)) = ms_tree st"
  by (simp add: memory_read_def record_hash_def split: sum.split read_failure.split)

lemma delete_other:
  assumes "q \<noteq> index_path" "\<And>n. sanitize_name x = Inr n \<Longrightarrow> q \<noteq> entry_path s n"
  shows "map_of (ms_tree (snd (memory_delete env st s x))) q = map_of (ms_tree st) q"
proof (cases "sanitize_name x")
  case (Inr n)
  obtain e t where r: "regenerate_index env (AList.delete (entry_path s n) (ms_tree st)) = (e, t)" by fastforce
  then have "map_of t q = map_of (ms_tree st) q"
    using regenerate_other [OF assms(1), of env "AList.delete (entry_path s n) (ms_tree st)"] assms(2) [OF Inr] by simp
  with r Inr show ?thesis by (simp add: memory_delete_def split: option.split)
qed (simp add: memory_delete_def)

lemma step_confined:
  assumes "\<forall>t. ev \<noteq> EvOthers t" "map_of (ms_tree (mem_step st (env, ev))) p \<noteq> map_of (ms_tree st) p"
  shows "own_path p"
proof (rule ccontr)
  assume "\<not> own_path p"
  then have p: "p \<noteq> index_path" "\<And>x n s. sanitize_name x = Inr n \<Longrightarrow> p \<noteq> entry_path s n \<and> p \<noteq> backup_path_for (mv_now env) (entry_path s n)"
    by (auto simp: own_path_def dest: sanitized_valid)
  have "map_of (ms_tree (mem_step st (env, ev))) p = map_of (ms_tree st) p"
    using assms(1) p by (cases ev) (simp_all add: write_other force_other delete_other)
  with assms(2) show False by simp
qed

text \<open>The store writes nowhere else.  Whatever names it is given, and whatever fails on the way, a store changes only
  the index, the files of entries with acceptable names, and their backups.\<close>

theorem memory_confined:
  assumes "list_all (\<lambda>(env, ev). \<forall>t. ev \<noteq> EvOthers t) evs"
    and "map_of (ms_tree (foldl mem_step st evs)) p \<noteq> map_of (ms_tree st) p"
  shows "own_path p"
  using assms
proof (induction evs arbitrary: st)
  case (Cons e evs)
  obtain env ev where e: "e = (env, ev)" by fastforce
  show ?case
  proof (cases "map_of (ms_tree (mem_step st e)) p = map_of (ms_tree st) p")
    case True
    then show ?thesis using Cons.IH [of "mem_step st e"] Cons.prems by simp
  next
    case False
    then show ?thesis using step_confined [of ev st env p] Cons.prems e by simp
  qed
qed simp

subsection \<open>What a write stores\<close>

lemma land_ok:
  assumes "land_entry env st s n c = (Inr e, st')"
  shows "e = \<lparr>me_scope = s, me_name = n, me_content = c\<rparr>" "map_of (ms_tree st') (entry_path s n) = Some c"
    "ms_seen st' = (ms_seen st)(entry_path s n \<mapsto> mv_hash env c)"
    "\<exists>t. t = AList.update (entry_path s n) c (ms_tree st) \<and> regenerate_index env t = (None, ms_tree st')"
proof -
  obtain t t' where w: "mem_write env (ms_tree st) (entry_path s n) c = (None, t)" "regenerate_index env t = (None, t')"
    "st' = (record_hash env (entry_path s n) c (st\<lparr>ms_tree := t\<rparr>))\<lparr>ms_tree := t'\<rparr>" "e = \<lparr>me_scope = s, me_name = n, me_content = c\<rparr>"
    using assms by (auto simp: land_entry_def Let_def split: option.splits prod.splits)
  have "map_of t' (entry_path s n) = map_of t (entry_path s n)"
    using regenerate_other [of "entry_path s n" env t] w(2) by simp
  with w show "e = \<lparr>me_scope = s, me_name = n, me_content = c\<rparr>" "map_of (ms_tree st') (entry_path s n) = Some c"
    "ms_seen st' = (ms_seen st)(entry_path s n \<mapsto> mv_hash env c)"
    "\<exists>t. t = AList.update (entry_path s n) c (ms_tree st) \<and> regenerate_index env t = (None, ms_tree st')"
    by (simp_all add: record_hash_def mem_write_ok update_conv')
qed

lemma write_ok:
  assumes "memory_write env st s x c = (Inr e, st')"
  shows "\<exists>n. sanitize_name x = Inr n \<and> threat_scan (mv_hits env) c = None \<and> drift_check env st (entry_path s n) = None
    \<and> land_entry env st s n c = (Inr e, st')"
  using assms by (auto simp: memory_write_def split: sum.splits option.splits)

text \<open>What was written is read back.  After a successful write, reading the entry under any spelling of its name gives
  the text, and every other entry is as it was.\<close>

theorem memory_write_then_read:
  assumes "memory_write env st s x c = (Inr e, st')" "valid_utf8 c"
    and "sanitize_name y = sanitize_name x" "mv_fault env' ReadFile (entry_path s (me_name e)) = None"
  shows "fst (memory_read env' st' s y) = Inr e \<and> me_content e = c
    \<and> (\<forall>s' n'. (s', n') \<noteq> (s, me_name e) \<longrightarrow> map_of (ms_tree st') (entry_path s' n') = map_of (ms_tree st) (entry_path s' n'))"
proof -
  obtain n where n: "sanitize_name x = Inr n" "land_entry env st s n c = (Inr e, st')" using write_ok [OF assms(1)] by blast
  note l = land_ok [OF n(2)]
  have "map_of (ms_tree st') (entry_path s' n') = map_of (ms_tree st) (entry_path s' n')" if "(s', n') \<noteq> (s, n)" for s' n'
    using land_other [of "entry_path s' n'" s n env st c] that n(2) by simp
  then show ?thesis
    using l n(1) assms(2,3,4) by (simp add: memory_read_def mem_read_text_def mem_read_def)
qed

text \<open>A poisoned write is refused and leaves no trace: when a rule of the scanner matches, neither the tree nor what the
  handle has seen changes.\<close>

theorem poisoned_write_refused:
  assumes "threat_scan (mv_hits env) c = Some hit"
  shows "\<exists>err. fst (memory_write env st s x c) = Inl err \<and> snd (memory_write env st s x c) = st"
  using assms by (cases hit; cases "sanitize_name x") (simp_all add: memory_write_def)

subsection \<open>Drift\<close>

fun spares :: "memory_scope \<Rightarrow> string \<Rightarrow> mem_event \<Rightarrow> bool" where
  "spares s n (EvWrite s' x _) \<longleftrightarrow> s' \<noteq> s \<or> sanitize_name x \<noteq> Inr n"
| "spares s n (EvForce s' x _) \<longleftrightarrow> s' \<noteq> s \<or> sanitize_name x \<noteq> Inr n"
| "spares s n (EvRead s' x) \<longleftrightarrow> s' \<noteq> s \<or> sanitize_name x \<noteq> Inr n"
| "spares s n (EvDelete _ _) \<longleftrightarrow> True"
| "spares s n (EvOthers _) \<longleftrightarrow> True"

lemma land_seen: "q \<noteq> entry_path s n \<Longrightarrow> ms_seen (snd (land_entry env st s n c)) q = ms_seen st q"
  by (simp add: land_entry_def record_hash_def Let_def split: option.split prod.split)

lemma spared_seen: "spares s n ev \<Longrightarrow> ms_seen (mem_step st (env, ev)) (entry_path s n) = ms_seen st (entry_path s n)"
proof (cases ev)
  case (EvWrite s' x c)
  assume "spares s n ev"
  then show ?thesis using EvWrite
    by (auto simp: land_seen memory_write_def split: sum.split option.split)
next
  case (EvForce s' x c)
  assume "spares s n ev"
  then show ?thesis using EvForce
    by (auto simp: land_seen memory_write_force_def split: sum.split option.split)
next
  case (EvRead s' x)
  assume "spares s n ev"
  then show ?thesis using EvRead by (auto simp: memory_read_def record_hash_def split: sum.split read_failure.split)
next
  case (EvDelete s' x)
  then show ?thesis by (simp add: memory_delete_def split: sum.split option.split prod.split)
qed simp

lemma spared_run: "list_all (\<lambda>(_, ev). spares s n ev) evs \<Longrightarrow>
  ms_seen (foldl mem_step st evs) (entry_path s n) = ms_seen st (entry_path s n)"
proof (induction evs arbitrary: st)
  case (Cons e evs)
  obtain env ev where "e = (env, ev)" by fastforce
  with Cons spared_seen [of s n ev st env] show ?case by simp
qed simp

lemma read_ok:
  assumes "memory_read env st s x = (Inr e, st')"
  shows "sanitize_name x = Inr (me_name e)" "me_scope e = s" "ms_seen st' = (ms_seen st)(entry_path s (me_name e) \<mapsto> mv_hash env (me_content e))"
    "map_of (ms_tree st') (entry_path s (me_name e)) = Some (me_content e)" "ms_tree st' = ms_tree st"
  using assms by (auto simp: memory_read_def record_hash_def mem_read_text_def mem_read_def split: sum.splits read_failure.splits option.splits if_splits)

text \<open>C23: Nobody's change is overwritten unseen.  An entry was read; then the handle worked on others and other processes
  changed the tree.  If the entry's bytes now differ, the write is refused and they stay; unless something
  fails they are also under the backup path the error names.\<close>

theorem drift_refused_and_kept:
  assumes "memory_read env st s x = (Inr e, st1)" "list_all (\<lambda>(_, ev). spares s (me_name e) ev) evs"
    and "map_of (ms_tree (foldl mem_step st1 evs)) (entry_path s (me_name e)) = Some b"
    and "mv_hash env' = mv_hash env" "mv_hash env b \<noteq> mv_hash env (me_content e)"
    and "(err, st2) = memory_write env' (foldl mem_step st1 evs) s x c"
  shows "map_of (ms_tree st2) (entry_path s (me_name e)) = Some b \<and> (\<exists>f. err = Inl f)
    \<and> (mv_fault env' = (\<lambda>_ _. None) \<and> threat_scan (mv_hits env') c = None \<longrightarrow>
        err = Inl (ExternalDrift (entry_path s (me_name e)) (backup_path_for (mv_now env') (entry_path s (me_name e))))
        \<and> map_of (ms_tree st2) (backup_path_for (mv_now env') (entry_path s (me_name e))) = Some b)"
proof -
  let ?st = "foldl mem_step st1 evs" and ?p = "entry_path s (me_name e)"
  note r = read_ok [OF assms(1)]
  have seen: "ms_seen ?st ?p = Some (mv_hash env (me_content e))"
    using spared_run [OF assms(2), of st1] r(3) by simp
  have drift: "\<exists>f t. drift_check env' ?st ?p = Some (f, t) \<and> map_of t ?p = Some b
     \<and> (mv_fault env' = (\<lambda>_ _. None) \<longrightarrow> f = ExternalDrift ?p (backup_path_for (mv_now env') ?p) \<and> map_of t (backup_path_for (mv_now env') ?p) = Some b)"
  proof (cases "mv_fault env' ReadFile ?p")
    case None
    obtain e' t where w: "mem_write env' (ms_tree ?st) (backup_path_for (mv_now env') ?p) b = (e', t)" by fastforce
    have "map_of t ?p = Some b"
      using mem_write_other [of ?p "backup_path_for (mv_now env') ?p" env' "ms_tree ?st" b] w assms(3)
        backup_not_entry [of "mv_now env'" s "me_name e"] by force
    moreover have "mv_fault env' = (\<lambda>_ _. None) \<Longrightarrow> e' = None \<and> map_of t (backup_path_for (mv_now env') ?p) = Some b"
      using w by (auto simp: mem_write_def update_conv')
    ultimately show ?thesis
      using None w assms(3,4,5) seen by (cases e') (auto simp: drift_check_def mem_read_def)
  next
    case (Some f)
    then show ?thesis using assms(3) by (auto simp: drift_check_def mem_read_def)
  qed
  have nofault: "ensure_layout env' = None" if "mv_fault env' = (\<lambda>_ _. None)"
    using that by (simp add: ensure_layout_def map_filter_simps all_scopes_def)
  show ?thesis
    using assms(6) drift nofault r(1) assms(3)
    by (auto simp: memory_write_def split: option.splits)
qed

lemma calm_layout: "mv_fault env = (\<lambda>_ _. None) \<Longrightarrow> ensure_layout env = None"
  by (simp add: ensure_layout_def map_filter_simps all_scopes_def)

lemma land_lands:
  assumes "mv_fault env = (\<lambda>_ _. None)"
  shows "fst (land_entry env st s n c) = Inr \<lparr>me_scope = s, me_name = n, me_content = c\<rparr>"
proof -
  have secs: "\<exists>secs. list_sections env t ss = Inr secs" for t ss
    using assms by (induction ss) (auto simp: memory_list_def)
  have "fst (regenerate_index env t) = None" for t
    using secs [of t all_scopes] assms by (auto simp: regenerate_index_def mem_write_def)
  then have "regenerate_index env t = (None, snd (regenerate_index env t))" for t
    by (metis prod.collapse)
  then show ?thesis
    using assms by (simp add: land_entry_def mem_write_def Let_def split: option.split prod.split)
      (metis fst_conv option.distinct(1))
qed

lemma write_lands:
  assumes "mv_fault env = (\<lambda>_ _. None)" "threat_scan (mv_hits env) c = None" "sanitize_name x = Inr n"
    and "drift_check env st (entry_path s n) = None"
  shows "fst (memory_write env st s x c) = Inr \<lparr>me_scope = s, me_name = n, me_content = c\<rparr>"
  using assms by (simp add: memory_write_def calm_layout land_lands)

lemma force_lands:
  assumes "mv_fault env = (\<lambda>_ _. None)" "sanitize_name x = Inr n"
  shows "fst (memory_write_force env st s x c) = Inr \<lparr>me_scope = s, me_name = n, me_content = c\<rparr>"
  using assms by (simp add: memory_write_force_def calm_layout land_lands)

text \<open>A refusal is not for good: once the model has read what is there, its next write lands, whatever happened before.\<close>

theorem reread_resolves_drift:
  assumes "mv_fault env = (\<lambda>_ _. None)" "threat_scan (mv_hits env) c = None" "memory_read env st s x = (Inr e, st1)"
  shows "fst (memory_write env st1 s x c) = Inr \<lparr>me_scope = s, me_name = me_name e, me_content = c\<rparr>"
proof -
  note r = read_ok [OF assms(3)]
  have "drift_check env st1 (entry_path s (me_name e)) = None"
    using r(3,4) assms(1) by (simp add: drift_check_def mem_read_def)
  then show ?thesis by (rule write_lands [OF assms(1,2) r(1)])
qed

subsection \<open>Hashes stand for bytes\<close>

text \<open>The store that remembers the bytes themselves, and the hashes in their place.\<close>

definition exact :: "'h memory_env \<Rightarrow> string memory_env" where
  "exact env = \<lparr>mv_fault = mv_fault env, mv_left = mv_left env, mv_hash = (\<lambda>b. b), mv_hits = mv_hits env, mv_now = mv_now env\<rparr>"

definition hashed :: "(string \<Rightarrow> 'h) \<Rightarrow> string memory_store \<Rightarrow> 'h memory_store" where
  "hashed h st = \<lparr>ms_seen = (\<lambda>p. map_option h (ms_seen st p)), ms_tree = ms_tree st\<rparr>"

lemma exact_simps [simp]:
  "mv_fault (exact env) = mv_fault env" "mv_left (exact env) = mv_left env" "mv_hash (exact env) b = b"
  "mv_hits (exact env) = mv_hits env" "mv_now (exact env) = mv_now env"
  by (simp_all add: exact_def)

lemma hashed_simps [simp]: "ms_tree (hashed h st) = ms_tree st" "ms_seen (hashed h st) p = map_option h (ms_seen st p)"
  "hashed h (st\<lparr>ms_tree := t\<rparr>) = (hashed h st)\<lparr>ms_tree := t\<rparr>"
  by (simp_all add: hashed_def)

lemma exact_read [simp]: "mem_read (exact env) t p = mem_read env t p"
  by (simp add: mem_read_def)

lemma exact_text [simp]: "mem_read_text (exact env) t p = mem_read_text env t p"
  by (simp add: mem_read_text_def)

lemma exact_write [simp]: "mem_write (exact env) t p b = mem_write env t p b"
  by (simp add: mem_write_def split: option.split)

lemma exact_layout [simp]: "ensure_layout (exact env) = ensure_layout env"
  by (simp add: ensure_layout_def)

lemma exact_list [simp]: "list_sections (exact env) t ss = list_sections env t ss"
  by (induction ss) (simp_all add: memory_list_def split: option.split)

lemma exact_index [simp]: "regenerate_index (exact env) t = regenerate_index env t"
  unfolding regenerate_index_def exact_list exact_simps exact_text exact_write ..

lemma hashed_record: "hashed (mv_hash env) (record_hash (exact env) p b st) = record_hash env p b (hashed (mv_hash env) st)"
  by (auto simp: record_hash_def hashed_def)

lemma hashed_land: "land_entry env (hashed (mv_hash env) st) s n c = map_prod id (hashed (mv_hash env)) (land_entry (exact env) st s n c)"
  by (simp add: land_entry_def Let_def hashed_record split: option.split prod.split)

lemma hashed_drift: "inj (mv_hash env) \<Longrightarrow> drift_check env (hashed (mv_hash env) st) p = drift_check (exact env) st p"
  unfolding drift_check_def hashed_simps exact_read exact_simps exact_write
  by (simp add: inj_eq split: sum.split read_failure.split option.split)


subsection \<open>The index\<close>

definition indexed :: "mem_tree \<Rightarrow> bool" where
  "indexed t \<longleftrightarrow> map_of t index_path = (if list_all (\<lambda>(_, names). names = []) (sections t) then None else Some (render_index (sections t)))"

lemma regenerate_indexed:
  assumes "regenerate_index env t = (None, t')" "mv_fault env StatFile index_path = None"
  shows "indexed t'"
proof -
  obtain secs where l: "list_sections env t all_scopes = Inr secs"
    using assms(1) by (auto simp: regenerate_index_def split: sum.splits)
  have secs: "secs = sections t" using list_sections_ok [OF l] by (simp add: sections_def)
  have same: "sections (AList.update index_path b t) = sections t" "sections (AList.delete index_path t) = sections t" for b
    by (rule sections_cong, simp add: names_update names_delete)+
  show ?thesis
  proof (cases "list_all (\<lambda>(_, names). names = []) (sections t)")
    case True
    have "t' = (if map_of t index_path = None then t else AList.delete index_path t)"
      using assms l True
      by (cases "map_of t index_path"; cases "mv_fault env RemoveFile index_path") (simp_all add: regenerate_index_def secs)
    with True show ?thesis by (simp add: indexed_def same delete_conv')
  next
    case False
    show ?thesis
    proof (cases "mem_read_text env t index_path = Inr (render_index (sections t))")
      case True
      then have "map_of t index_path = Some (render_index (sections t))"
        by (auto simp: mem_read_text_def mem_read_def split: option.splits if_splits)
      moreover have "t' = t" using assms(1) l False True by (simp add: regenerate_index_def secs)
      ultimately show ?thesis using False by (simp add: indexed_def)
    next
      case no: False
      then have "t' = AList.update index_path (render_index (sections t)) t"
        using assms(1) l False by (auto simp: regenerate_index_def secs mem_write_ok split: prod.splits)
      then show ?thesis using False by (simp add: indexed_def same update_conv')
    qed
  qed
qed

text \<open>The index is never stale.  After every write and every removal that succeeds, \<open>MEMORY.md\<close> is the rendering of the
  entries the tree now has, and absent when it has none.\<close>

theorem index_follows_entries:
  assumes "mv_fault env StatFile index_path = None"
    and "memory_write env st s x c = (Inr e, st') \<or> memory_write_force env st s x c = (Inr e, st')
      \<or> (memory_delete env st s x = (None, st') \<and> indexed (ms_tree st))"
  shows "indexed (ms_tree st')"
  using assms(2)
proof (elim disjE conjE)
  assume "memory_write env st s x c = (Inr e, st')"
  from write_ok [OF this] obtain n where "land_entry env st s n c = (Inr e, st')" by blast
  from land_ok(4) [OF this] show ?thesis using regenerate_indexed [OF _ assms(1)] by blast
next
  assume "memory_write_force env st s x c = (Inr e, st')"
  then obtain n where "land_entry env st s n c = (Inr e, st')"
    by (auto simp: memory_write_force_def split: sum.splits option.splits)
  from land_ok(4) [OF this] show ?thesis using regenerate_indexed [OF _ assms(1)] by blast
next
  assume d: "memory_delete env st s x = (None, st')" "indexed (ms_tree st)"
  then obtain n where n: "sanitize_name x = Inr n" by (auto simp: memory_delete_def split: sum.splits)
  obtain e t where r: "regenerate_index env (AList.delete (entry_path s n) (ms_tree st)) = (e, t)" by fastforce
  show ?thesis using d n r regenerate_indexed [OF _ assms(1)]
    by (auto simp: memory_delete_def split: option.splits if_splits)
qed

subsection \<open>What the index says\<close>

definition section_text :: "memory_scope \<times> string list \<Rightarrow> string" where
  "section_text sec = (case sec of (s, names) \<Rightarrow>
     if names = [] then [] else index_head s names @ concat (map (index_line s) names) @ [newline])"

lemma length_dir_name: "length (dir_name s) \<le> 9"
  by (cases s) simp_all

lemma length_index_line: "valid_name n \<Longrightarrow> length (index_line s n) \<le> 81"
  using length_dir_name [of s] by (simp add: index_line_def valid_name_def)

lemma length_index_head: "length names < 1000 \<Longrightarrow> length (index_head s names) \<le> 30"
  using length_dir_name [of s] length_show_nat [of "length names" 3] by (simp add: index_head_def)

lemma index_names_all:
  assumes "list_all valid_name ns" "lc + length ns \<le> 200" "length out + 81 * length ns \<le> 25600"
  shows "index_names s names ns out lc = (out @ concat (map (index_line s) ns), lc + length ns, False)"
  using assms
proof (induction ns arbitrary: out lc)
  case (Cons n ns)
  then have "length out + length (index_line s n) + 81 * length ns \<le> 25600"
    using length_index_line [of n s] by simp
  with Cons show ?case by (simp add: INDEX_MAX_LINES_def INDEX_MAX_BYTES_def)
qed simp

lemma index_sections_all:
  assumes "list_all (\<lambda>(s, names). list_all valid_name names) secs" "lc + sum_map (length \<circ> snd) secs + 3 * length secs \<le> 200"
    and "length out + 81 * sum_map (length \<circ> snd) secs + 31 * length secs \<le> 25600"
  shows "index_sections secs out lc False = out @ concat (map section_text secs)
    \<and> length (out @ concat (map section_text secs)) \<le> 25600"
  using assms
proof (induction secs arbitrary: out lc)
  case (Cons sec secs)
  obtain s names where sec: "sec = (s, names)" by fastforce
  show ?case
  proof (cases "names = []")
    case True
    have "lc + sum_map (length \<circ> snd) secs + 3 * length secs \<le> 200" "length out + 81 * sum_map (length \<circ> snd) secs + 31 * length secs \<le> 25600"
      "list_all (\<lambda>(s, names). list_all valid_name names) secs"
      using Cons.prems sec True by (simp_all add: comp_def)
    from Cons.IH [OF this(3,1,2)] show ?thesis using sec True by (simp add: section_text_def)
  next
    case False
    have v: "list_all valid_name names" "list_all (\<lambda>(s, names). list_all valid_name names) secs" using Cons.prems sec by simp_all
    have lens: "length names < 1000" using Cons.prems sec by simp
    have lines: "length (concat (map (index_line s) names)) \<le> 81 * length names"
      using v(1) by (induction names) (auto dest: length_index_line [of _ s])
    have n: "index_names s names names (out @ index_head s names) (lc + 2)
        = ((out @ index_head s names) @ concat (map (index_line s) names), lc + 2 + length names, False)"
      using Cons.prems sec length_index_head [OF lens, of s] by (intro index_names_all v(1)) simp_all
    let ?out = "out @ section_text sec"
    have o: "?out = ((out @ index_head s names) @ concat (map (index_line s) names)) @ [newline]"
      using False sec by (simp add: section_text_def)
    have l: "length ?out \<le> length out + 31 + 81 * length names"
      using lines length_index_head [OF lens, of s] unfolding o by simp
    have "Suc (lc + 2 + length names) + sum_map (length \<circ> snd) secs + 3 * length secs \<le> 200"
      "length ?out + 81 * sum_map (length \<circ> snd) secs + 31 * length secs \<le> 25600"
      using Cons.prems sec l by (simp_all add: comp_def)
    from Cons.IH [OF v(2) this] show ?thesis using sec False n unfolding o by (simp add: section_text_def)
  qed
qed simp

text \<open>The index lists everything while the memory is small.  With up to 180 entries, all with names the store accepts, the
  index is the title and one section for each scope that has entries, one line for each of its entries in order; and however many there are, it
  stays within 25 KB and its closing line.\<close>

theorem index_complete:
  "length (render_index secs) \<le> 25 * 1024 + length INDEX_CLAMPED
    \<and> (length secs \<le> 4 \<and> list_all (\<lambda>(s, names). list_all valid_name names) secs \<and> sum_map (length \<circ> snd) secs \<le> 180 \<longrightarrow>
        render_index secs = INDEX_TITLE @ concat (map section_text secs))"
proof (intro conjI impI)
  have f: "floor_loop s n \<le> n" for s n by (induction n) auto
  have "floor_char_boundary s n \<le> n" for s n
    using f [of s n] by (simp add: floor_char_boundary_def)
  then show "length (render_index secs) \<le> 25 * 1024 + length INDEX_CLAMPED"
    by (auto simp: render_index_def Let_def INDEX_MAX_BYTES_def intro: le_trans min.coboundedI2)
next
  assume a: "length secs \<le> 4 \<and> list_all (\<lambda>(s, names). list_all valid_name names) secs \<and> sum_map (length \<circ> snd) secs \<le> 180"
  have t: "length INDEX_TITLE \<le> 200" by (simp add: INDEX_TITLE_def)
  have "index_sections secs INDEX_TITLE 4 False = INDEX_TITLE @ concat (map section_text secs)
    \<and> length (INDEX_TITLE @ concat (map section_text secs)) \<le> 25600"
    using a t by (intro index_sections_all) simp_all
  then show "render_index secs = INDEX_TITLE @ concat (map section_text secs)"
    by (simp add: render_index_def INDEX_MAX_BYTES_def)
qed

lemma index_names_exhausted: "ns \<noteq> [] \<Longrightarrow> 200 < lc + length ns \<Longrightarrow> snd (snd (index_names s names ns out lc))"
proof (induction s names ns out lc rule: index_names.induct)
  case (2 s names n ns out lc)
  then show ?case by (cases ns) (auto simp: INDEX_MAX_LINES_def)
qed simp

lemma index_sections_exhausted: "index_sections secs out lc True = out"
  by (induction secs) auto

text \<open>A full scope hides the scopes after it: once a scope fills the index, the later scopes are neither listed nor
  counted in the closing line.\<close>

theorem index_forgets_later_scopes:
  assumes "200 \<le> length names"
  shows "render_index (before @ (s, names) # after) = render_index (before @ [(s, names)])"
proof -
  have "index_sections (before @ (s, names) # after) out lc ex = index_sections (before @ [(s, names)]) out lc ex" for out lc ex
  proof (induction before arbitrary: out lc ex)
    case Nil
    have "snd (snd (index_names s names names (out @ index_head s names) (lc + 2)))"
      using assms by (intro index_names_exhausted) auto
    then show ?case using assms by (auto simp: index_sections_exhausted split: prod.split)
  next
    case (Cons b before)
    then show ?case by (cases b) (simp split: prod.split)
  qed
  then show ?thesis by (simp add: render_index_def)
qed

subsection \<open>Concrete inputs\<close>

definition calm_env :: "string memory_env" where
  "calm_env = \<lparr>mv_fault = (\<lambda>_ _. None), mv_left = (\<lambda>_. None), mv_hash = rev, mv_hits = (\<lambda>_ _. False), mv_now = 7\<rparr>"

definition no_memory :: "string memory_store" where
  "no_memory = \<lparr>ms_seen = (\<lambda>_. None), ms_tree = []\<rparr>"

lemma calm_simps [simp]: "mv_fault calm_env = (\<lambda>_ _. None)" "mv_hash calm_env = rev" "mv_now calm_env = 7"
  "threat_scan (mv_hits calm_env) c = None"
  by (simp_all add: calm_env_def threat_scan_def THREAT_RULES_def)

lemma tone_name: "valid_name ''tone''"
  by (simp add: valid_name_def name_char_def)

lemma tone_written: "\<exists>st. memory_write calm_env no_memory UserScope ''tone'' ''terse'' = (Inr \<lparr>me_scope = UserScope, me_name = ''tone'', me_content = ''terse''\<rparr>, st)"
  using write_lands [of calm_env "''terse''" "''tone''" "''tone''" no_memory UserScope] sanitize_valid [OF tone_name]
  by (simp add: drift_check_def mem_read_def no_memory_def) (metis prod.collapse)

lemma terse_utf8: "valid_utf8 ''terse''" by code_simp

lemma tone_read: "memory_read calm_env \<lparr>ms_seen = (\<lambda>_. None), ms_tree = [(entry_path UserScope ''tone'', ''terse'')]\<rparr> UserScope ''tone''
   = (Inr \<lparr>me_scope = UserScope, me_name = ''tone'', me_content = ''terse''\<rparr>,
      \<lparr>ms_seen = [entry_path UserScope ''tone'' \<mapsto> rev ''terse''], ms_tree = [(entry_path UserScope ''tone'', ''terse'')]\<rparr>)"
  using terse_utf8 by (simp add: memory_read_def sanitize_valid [OF tone_name] mem_read_text_def mem_read_def record_hash_def)

theorem memory_names_safe_witness: "sanitize_name ''tone'' = Inr ''tone'' \<and> sanitize_name ''tone.md'' = Inr ''tone''"
  using memory_names_safe [OF sanitize_valid [OF tone_name]] by simp

theorem memory_confined_witness: "own_path (entry_path UserScope ''tone'')"
proof -
  obtain st where w: "memory_write calm_env no_memory UserScope ''tone'' ''terse'' = (Inr \<lparr>me_scope = UserScope, me_name = ''tone'', me_content = ''terse''\<rparr>, st)"
    using tone_written by blast
  have "map_of (ms_tree st) (entry_path UserScope ''tone'') = Some ''terse''"
    using write_ok [OF w] sanitize_valid [OF tone_name] land_ok(2) by fastforce
  then show ?thesis
    using memory_confined [of "[(calm_env, EvWrite UserScope ''tone'' ''terse'')]" no_memory "entry_path UserScope ''tone''"] w
    by (simp add: no_memory_def)
qed

theorem memory_write_then_read_witness:
  "fst (memory_read calm_env (snd (memory_write calm_env no_memory UserScope ''tone'' ''terse'')) UserScope ''tone.md'')
     = Inr \<lparr>me_scope = UserScope, me_name = ''tone'', me_content = ''terse''\<rparr>"
proof -
  obtain st where w: "memory_write calm_env no_memory UserScope ''tone'' ''terse'' = (Inr \<lparr>me_scope = UserScope, me_name = ''tone'', me_content = ''terse''\<rparr>, st)"
    using tone_written by blast
  have "sanitize_name ''tone.md'' = sanitize_name ''tone''"
    using sanitize_md [OF tone_name] sanitize_valid [OF tone_name] by simp
  from memory_write_then_read [OF w terse_utf8 this, of calm_env] w show ?thesis by simp
qed

theorem poisoned_write_refused_witness:
  "snd (memory_write (calm_env\<lparr>mv_hits := \<lambda>k _. k = ''credential_jwt''\<rparr>) no_memory UserScope ''tone'' ''eyJ'') = no_memory"
  using poisoned_write_refused [of "calm_env\<lparr>mv_hits := \<lambda>k _. k = ''credential_jwt''\<rparr>" "''eyJ''" "(''credential_jwt'', ''JWT-shaped triplet'')"
      no_memory UserScope "''tone''"]
  by (simp add: threat_scan_def THREAT_RULES_def)

theorem drift_refused_and_kept_witness:
  "fst (memory_write calm_env \<lparr>ms_seen = [entry_path UserScope ''tone'' \<mapsto> rev ''terse''], ms_tree = [(entry_path UserScope ''tone'', ''warm'')]\<rparr>
       UserScope ''tone'' ''new'')
     = Inl (ExternalDrift (entry_path UserScope ''tone'') (backup_path_for 7 (entry_path UserScope ''tone'')))"
proof -
  let ?st = "\<lparr>ms_seen = [entry_path UserScope ''tone'' \<mapsto> rev ''terse''], ms_tree = [(entry_path UserScope ''tone'', ''warm'')]\<rparr>"
  obtain err st2 where m: "(err, st2) = memory_write calm_env ?st UserScope ''tone'' ''new''" by (metis prod.collapse)
  have "err = Inl (ExternalDrift (entry_path UserScope ''tone'') (backup_path_for 7 (entry_path UserScope ''tone'')))"
    using drift_refused_and_kept [OF tone_read, of "[(calm_env, EvOthers [(entry_path UserScope ''tone'', ''warm'')])]" "''warm''" calm_env err st2 "''new''"] m
    by simp
  with m show ?thesis by (metis fst_conv)
qed

theorem reread_resolves_drift_witness:
  "fst (memory_write calm_env \<lparr>ms_seen = [entry_path UserScope ''tone'' \<mapsto> rev ''terse''], ms_tree = [(entry_path UserScope ''tone'', ''terse'')]\<rparr>
       UserScope ''tone'' ''new'')
     = Inr \<lparr>me_scope = UserScope, me_name = ''tone'', me_content = ''new''\<rparr>"
  using reread_resolves_drift [OF calm_simps(1) calm_simps(4) tone_read, of "''new''"] by simp


theorem index_follows_entries_witness: "indexed (ms_tree (snd (memory_write calm_env no_memory UserScope ''tone'' ''terse'')))"
proof -
  obtain e st where w: "memory_write calm_env no_memory UserScope ''tone'' ''terse'' = (Inr e, st)" using tone_written by blast
  from index_follows_entries [of calm_env no_memory UserScope "''tone''" "''terse''" e st] w show ?thesis by simp
qed

theorem index_complete_witness:
  "render_index [(UserScope, [''tone''])] = INDEX_TITLE @ section_text (UserScope, [''tone''])"
  using index_complete [of "[(UserScope, [''tone''])]"] tone_name by simp

theorem index_forgets_later_scopes_witness:
  "render_index [(UserScope, replicate 200 ''n''), (FeedbackScope, [''lost''])] = render_index [(UserScope, replicate 200 ''n'')]"
  using index_forgets_later_scopes [of "replicate 200 ''n''" "[]" UserScope "[(FeedbackScope, [''lost''])]"] by simp

end
