(* ===== verification/Memory_Snapshot.thy ===== *)
theory Memory_Snapshot
  imports Memory_Store "HOL-Library.Multiset"
begin

text \<open>
  What the memory puts into the system prompt (\<open>crates/snaca-memory/src/snapshot.rs\<close>), and the frontmatter of
  entries (\<open>parse_frontmatter\<close> and \<open>render_with_frontmatter\<close> of \<open>store.rs\<close>).  The confidence is a number of a
  type of its own whose parser, printer and clamp to \<open>0.0 ..= 1.0\<close> are parameters.
\<close>

subsection \<open>Frontmatter\<close>

record 'f float_ops =
  fo_parse :: "string \<Rightarrow> 'f option"
  fo_show :: "'f \<Rightarrow> string"
  fo_clamp :: "'f \<Rightarrow> 'f"

record 'f memory_meta =
  mm_source :: "string option"
  mm_confidence :: "'f option"
  mm_created_at :: "string option"

definition no_meta :: "'f memory_meta" where
  "no_meta = \<lparr>mm_source = None, mm_confidence = None, mm_created_at = None\<rparr>"

definition fence_line :: string where "fence_line = ''---'' @ [newline]"

definition meta_lines :: "'f float_ops \<Rightarrow> 'f memory_meta \<Rightarrow> string list" where
  "meta_lines ops m =
     (case mm_source m of None \<Rightarrow> [] | Some s \<Rightarrow> [''source: '' @ s])
     @ (case mm_confidence m of None \<Rightarrow> [] | Some c \<Rightarrow> [''confidence: '' @ fo_show ops (fo_clamp ops c)])
     @ (case mm_created_at m of None \<Rightarrow> [] | Some t \<Rightarrow> [''created_at: '' @ t])"

definition render_with_frontmatter :: "'f float_ops \<Rightarrow> 'f memory_meta \<Rightarrow> string \<Rightarrow> string" where
  "render_with_frontmatter ops m body =
     (if mm_source m = None \<and> mm_confidence m = None \<and> mm_created_at m = None then body
      else fence_line @ concat (map (\<lambda>l. l @ [newline]) (meta_lines ops m)) @ fence_line @ body)"

text \<open>The block before the closing fence and what follows it, walking \<open>split_inclusive('\n')\<close>.\<close>

definition trim_eol :: "string \<Rightarrow> string" where
  "trim_eol l = rev (dropWhile (\<lambda>c. c = newline \<or> c = CHR 0x0D) (rev l))"

definition line_at :: "string \<Rightarrow> string" where
  "line_at s = takeWhile (\<lambda>c. c \<noteq> newline) s @ (if newline \<in> set s then [newline] else [])"

lemma line_at_shorter: "s \<noteq> [] \<Longrightarrow> length s - length (line_at s) < length s"
  by (cases s) (auto simp: line_at_def)

function find_close :: "string \<Rightarrow> (string \<times> string) option" where
  "find_close s =
     (if s = [] then None
      else if trim_eol (line_at s) = ''---'' then Some ([], drop (length (line_at s)) s)
      else map_option (\<lambda>(b, r). (line_at s @ b, r)) (find_close (drop (length (line_at s)) s)))"
  by pat_completeness auto
termination
  by (relation "measure length") (auto simp: line_at_shorter)

declare find_close.simps [simp del]

definition is_quote :: "char \<Rightarrow> bool" where "is_quote c \<longleftrightarrow> c = CHR 0x22 \<or> c = CHR 0x27"

definition trim_quotes :: "string \<Rightarrow> string" where
  "trim_quotes s = rev (dropWhile is_quote (rev (dropWhile is_quote s)))"

definition meta_line :: "'f float_ops \<Rightarrow> 'f memory_meta \<Rightarrow> string \<Rightarrow> 'f memory_meta" where
  "meta_line ops m line =
     (case find_sub '':'' line of
        None \<Rightarrow> m
      | Some i \<Rightarrow>
          (let key = trim (take i line); val = trim_quotes (trim (drop (Suc i) line))
           in if val = [] then m
              else if key = ''source'' then m\<lparr>mm_source := Some val\<rparr>
              else if key = ''confidence'' then
                (case fo_parse ops val of None \<Rightarrow> m | Some f \<Rightarrow> m\<lparr>mm_confidence := Some (fo_clamp ops f)\<rparr>)
              else if key = ''created_at'' then m\<lparr>mm_created_at := Some val\<rparr>
              else m))"

definition parse_frontmatter :: "'f float_ops \<Rightarrow> string \<Rightarrow> 'f memory_meta \<times> string" where
  "parse_frontmatter ops raw =
     (let opened = (if prefix fence_line raw then Some (drop (length fence_line) raw)
                    else if prefix (''---'' @ [CHR 0x0D, newline]) raw then Some (drop 5 raw)
                    else None)
      in case Option.bind opened find_close of
           None \<Rightarrow> (no_meta, raw)
         | Some (block, rest) \<Rightarrow>
             (foldl (meta_line ops) no_meta (text_lines block), dropWhile (\<lambda>c. c = newline) rest))"

subsection \<open>The snapshot\<close>

record snapshot =
  sn_text :: string
  sn_included :: nat
  sn_total :: nat
  sn_truncated :: nat

definition DEFAULT_CHAR_LIMIT :: nat where "DEFAULT_CHAR_LIMIT = 8000"

primrec scope_rank :: "memory_scope \<Rightarrow> nat" where
  "scope_rank UserScope = 0"
| "scope_rank ProjectScope = 1"
| "scope_rank ReferenceScope = 2"
| "scope_rank FeedbackScope = 3"

text \<open>\<open>sort_by\<close> rank, then name: a stable sort by name, then one by rank.\<close>

definition snapshot_order :: "(memory_scope \<times> string) list \<Rightarrow> (memory_scope \<times> string) list" where
  "snapshot_order es = sort_key (scope_rank \<circ> fst) (sort_key snd es)"

definition blocked_body :: "string \<times> string \<Rightarrow> string" where
  "blocked_body hit = ''[BLOCKED: matched threat rule `'' @ fst hit @ ''` ('' @ snd hit @ ''); entry preserved on disk ''
     @ em_dash @ '' review and remove it manually]''"

definition snapshot_body :: "'h memory_env \<Rightarrow> 'f float_ops \<Rightarrow> string \<Rightarrow> string" where
  "snapshot_body env ops content =
     (let body = snd (parse_frontmatter ops content)
      in case threat_scan (mv_hits env) body of None \<Rightarrow> trim_end body | Some hit \<Rightarrow> blocked_body hit)"

definition snapshot_chunk :: "memory_scope \<Rightarrow> string \<Rightarrow> string \<Rightarrow> string" where
  "snapshot_chunk s n body = ''### `'' @ dir_name s @ ''/'' @ n @ ''`'' @ [newline, newline] @ body @ [newline, newline]"

text \<open>The loop over the entries: the text, the entries in it, the ones cut off, and the handle's state.\<close>

fun snapshot_loop ::
  "'h memory_env \<Rightarrow> 'f float_ops \<Rightarrow> nat \<Rightarrow> nat \<Rightarrow> 'h memory_store \<Rightarrow> string \<Rightarrow> nat \<Rightarrow> nat \<Rightarrow> (memory_scope \<times> string) list
     \<Rightarrow> string \<times> nat \<times> nat \<times> 'h memory_store" where
  "snapshot_loop env ops limit n_all st out chars n_in [] = (out, n_in, 0, st)"
| "snapshot_loop env ops limit n_all st out chars n_in ((s, n) # es) =
     (case memory_read env st s n of
        (Inl _, st') \<Rightarrow> snapshot_loop env ops limit n_all st' out chars n_in es
      | (Inr e, st') \<Rightarrow>
          (let chunk = snapshot_chunk s n (snapshot_body env ops (me_content e))
           in if limit < chars + char_count chunk then (out, n_in, n_all - n_in, st')
              else snapshot_loop env ops limit n_all st' (out @ chunk) (chars + char_count chunk) (Suc n_in) es))"

definition truncation_marker :: "nat \<Rightarrow> string" where
  "truncation_marker k =
     (if k = 0 then []
      else ''[truncated, '' @ show_nat k @ '' more entr'' @ (if k = 1 then ''y'' else ''ies'') @ '' hidden '' @ em_dash
        @ '' use `MemoryRead` with the scope/name to fetch them]'' @ [newline])"

definition render_snapshot ::
  "'h memory_env \<Rightarrow> 'f float_ops \<Rightarrow> nat \<Rightarrow> 'h memory_store \<Rightarrow> (memory_error + snapshot) \<times> 'h memory_store" where
  "render_snapshot env ops limit st =
     (case memory_list_all env (ms_tree st) of
        Inl e \<Rightarrow> (Inl e, st)
      | Inr entries \<Rightarrow>
          (case snapshot_loop env ops limit (length entries) st [] 0 0 (snapshot_order entries) of
             (out, n_in, n_cut, st') \<Rightarrow>
               (Inr \<lparr>sn_text = out @ truncation_marker n_cut, sn_included = n_in, sn_total = length entries, sn_truncated = n_cut\<rparr>, st')))"

subsection \<open>Frontmatter goes round\<close>

definition plain_value :: "string \<Rightarrow> bool" where
  "plain_value v \<longleftrightarrow> v \<noteq> [] \<and> newline \<notin> set v \<and> last v \<noteq> CHR 0x0D \<and> trim v = v \<and> \<not> is_quote (hd v) \<and> \<not> is_quote (last v)"

lemma trim_quotes_plain: "v \<noteq> [] \<Longrightarrow> \<not> is_quote (hd v) \<Longrightarrow> \<not> is_quote (last v) \<Longrightarrow> trim_quotes v = v"
proof -
  have d: "w \<noteq> [] \<Longrightarrow> \<not> is_quote (hd w) \<Longrightarrow> dropWhile is_quote w = w" for w by (cases w) auto
  assume "v \<noteq> []" "\<not> is_quote (hd v)" "\<not> is_quote (last v)"
  then show ?thesis by (simp add: trim_quotes_def d hd_rev)
qed

lemma find_first: "c \<notin> set k \<Longrightarrow> find_sub [c] (k @ c # v) = Some (length k)"
  by (induction k) auto

lemma meta_line_split:
  assumes "plain_value v" "CHR '':'' \<notin> set k" "k \<noteq> []" "in_range 0x21 0x7E (hd k)" "in_range 0x21 0x7E (last k)"
  shows "meta_line ops m (k @ '': '' @ v) =
      (if k = ''source'' then m\<lparr>mm_source := Some v\<rparr>
       else if k = ''confidence'' then (case fo_parse ops v of None \<Rightarrow> m | Some f \<Rightarrow> m\<lparr>mm_confidence := Some (fo_clamp ops f)\<rparr>)
       else if k = ''created_at'' then m\<lparr>mm_created_at := Some v\<rparr> else m)"
proof -
  have "find_sub '':'' (k @ '': '' @ v) = Some (length k)" using find_first [OF assms(2), of "CHR '' '' # v"] by simp
  moreover have "trim k = k" using assms by (simp add: trim_visible)
  moreover have "trim (CHR '' '' # v) = v" "trim_quotes v = v" "v \<noteq> []"
    using assms(1) by (simp_all add: plain_value_def trim_blank trim_quotes_plain)
  ultimately show ?thesis by (simp add: meta_line_def Let_def)
qed

lemma meta_line_plain:
  assumes "plain_value v"
  shows "meta_line ops m (''source: '' @ v) = m\<lparr>mm_source := Some v\<rparr>"
    "meta_line ops m (''confidence: '' @ v) = (case fo_parse ops v of None \<Rightarrow> m | Some f \<Rightarrow> m\<lparr>mm_confidence := Some (fo_clamp ops f)\<rparr>)"
    "meta_line ops m (''created_at: '' @ v) = m\<lparr>mm_created_at := Some v\<rparr>"
  using meta_line_split [OF assms, of "''source''" ops m] meta_line_split [OF assms, of "''confidence''" ops m]
    meta_line_split [OF assms, of "''created_at''" ops m]
  by (simp_all add: in_range_def)

lemmas meta_line_tagged = meta_line_plain [unfolded append_Cons append_Nil]

lemma line_at_piece: "newline \<notin> set l \<Longrightarrow> line_at (l @ newline # t) = l @ [newline]"
  by (induction l) (auto simp: line_at_def)

lemma trim_eol_plain: "l \<noteq> [] \<Longrightarrow> newline \<notin> set l \<Longrightarrow> last l \<noteq> CHR 0x0D \<Longrightarrow> trim_eol (l @ [newline]) = l"
proof -
  assume "l \<noteq> []" "newline \<notin> set l" "last l \<noteq> CHR 0x0D"
  moreover from this have "last l \<noteq> newline" by (metis last_in_set)
  ultimately show ?thesis by (cases l rule: rev_cases) (simp_all add: trim_eol_def)
qed

lemma find_close_lines:
  assumes "list_all (\<lambda>l. l \<noteq> [] \<and> newline \<notin> set l \<and> last l \<noteq> CHR 0x0D \<and> l \<noteq> ''---'') ls"
  shows "find_close (concat (map (\<lambda>l. l @ [newline]) ls) @ fence_line @ body) = Some (concat (map (\<lambda>l. l @ [newline]) ls), body)"
  using assms
proof (induction ls)
  case Nil
  have "newline \<notin> set ''---''" by (simp add: newline_char)
  then have "line_at (fence_line @ body) = ''---'' @ [newline]" "trim_eol (''---'' @ [newline]) = ''---''"
    using line_at_piece [of "''---''" body] trim_eol_plain [of "''---''"] by (simp_all add: fence_line_def)
  then show ?case by (subst find_close.simps) (simp add: fence_line_def)
next
  case (Cons l ls)
  let ?rest = "concat (map (\<lambda>l. l @ [newline]) ls) @ fence_line @ body"
  have l: "line_at (l @ newline # ?rest) = l @ [newline]" "trim_eol (l @ [newline]) = l" "l \<noteq> ''---''"
    using Cons.prems by (simp_all add: line_at_piece trim_eol_plain)
  have "find_close (l @ newline # ?rest) = map_option (\<lambda>(b, r). (l @ newline # b, r)) (find_close ?rest)"
    using l by (subst find_close.simps) simp
  with Cons show ?case by simp
qed

text \<open>Frontmatter round-trips.  An entry written with provenance (one-line values without blanks or quotes around them,
  a confidence whose printing parses back) is read back with the same provenance, the confidence clamped, and
  the same text, as long as that does not begin with a line feed.\<close>

theorem frontmatter_roundtrip:
  assumes "pred_option plain_value (mm_source m)" "pred_option plain_value (mm_created_at m)"
    and "pred_option (\<lambda>c. plain_value (fo_show ops (fo_clamp ops c)) \<and> fo_parse ops (fo_show ops (fo_clamp ops c)) = Some (fo_clamp ops c)
          \<and> fo_clamp ops (fo_clamp ops c) = fo_clamp ops c) (mm_confidence m)"
    and "mm_source m \<noteq> None \<or> mm_confidence m \<noteq> None \<or> mm_created_at m \<noteq> None" "take 1 body \<noteq> [newline]"
  shows "parse_frontmatter ops (render_with_frontmatter ops m body)
    = (\<lparr>mm_source = mm_source m, mm_confidence = map_option (fo_clamp ops) (mm_confidence m), mm_created_at = mm_created_at m\<rparr>, body)"
proof -
  let ?ls = "meta_lines ops m"
  have tagged: "newline \<notin> set (''source: '' @ v) \<and> newline \<notin> set (''confidence: '' @ v) \<and> newline \<notin> set (''created_at: '' @ v)" if "plain_value v" for v
    using that by (simp add: plain_value_def newline_char)
  have ls: "list_all (\<lambda>l. l \<noteq> [] \<and> newline \<notin> set l \<and> last l \<noteq> CHR 0x0D \<and> l \<noteq> ''---'') ?ls"
    using assms(1,2,3) tagged
    by (cases "mm_source m"; cases "mm_confidence m"; cases "mm_created_at m") (auto simp: meta_lines_def plain_value_def)
  have r: "render_with_frontmatter ops m body = fence_line @ concat (map (\<lambda>l. l @ [newline]) ?ls) @ fence_line @ body"
    using assms(4) by (auto simp: render_with_frontmatter_def)
  have lines: "text_lines (concat (map (\<lambda>l. l @ [newline]) ?ls)) = ?ls"
    using ls by (intro text_lines_pieces) (auto simp: list_all_iff)
  have body: "dropWhile (\<lambda>c. c = newline) body = body" using assms(5) by (cases body) auto
  have "foldl (meta_line ops) no_meta ?ls
    = \<lparr>mm_source = mm_source m, mm_confidence = map_option (fo_clamp ops) (mm_confidence m), mm_created_at = mm_created_at m\<rparr>"
    using assms(1,2,3)
    by (cases "mm_source m"; cases "mm_confidence m"; cases "mm_created_at m") (simp_all add: meta_lines_def meta_line_tagged no_meta_def)
  then show ?thesis
    unfolding parse_frontmatter_def r using find_close_lines [OF ls, of body] lines body by (simp add: Let_def)
qed

subsection \<open>What the snapshot holds\<close>

definition entry_chunk :: "'h memory_env \<Rightarrow> 'f float_ops \<Rightarrow> mem_tree \<Rightarrow> memory_scope \<times> string \<Rightarrow> string option" where
  "entry_chunk env ops t sn =
     (case sanitize_name (snd sn) of
        Inl _ \<Rightarrow> None
      | Inr n \<Rightarrow>
          (case mem_read_text env t (entry_path (fst sn) n) of
             Inl _ \<Rightarrow> None
           | Inr content \<Rightarrow> Some (snapshot_chunk (fst sn) (snd sn) (snapshot_body env ops content))))"

lemma loop_Cons:
  "snapshot_loop env ops limit m st out chars k (x # es) =
     (case entry_chunk env ops (ms_tree st) x of
        None \<Rightarrow> snapshot_loop env ops limit m (snd (memory_read env st (fst x) (snd x))) out chars k es
      | Some chunk \<Rightarrow>
          if limit < chars + char_count chunk then (out, k, m - k, snd (memory_read env st (fst x) (snd x)))
          else snapshot_loop env ops limit m (snd (memory_read env st (fst x) (snd x))) (out @ chunk) (chars + char_count chunk) (Suc k) es)"
  by (cases x) (simp add: memory_read_def entry_chunk_def Let_def split: sum.split read_failure.split)

declare snapshot_loop.simps(2) [simp del]

lemma char_count_append: "char_count (a @ b) = char_count a + char_count b"
  by (simp add: char_count_def)

lemma loop_fits:
  fixes cs
  assumes "cs = List.map_filter (entry_chunk env ops (ms_tree st)) es" "chars \<le> limit" "k + length es \<le> m"
  shows "\<exists>j st'. snapshot_loop env ops limit m st out chars k es = (out @ concat (take j cs), k + j, (if j = length cs then 0 else m - (k + j)), st')
    \<and> j \<le> length cs \<and> chars + char_count (concat (take j cs)) \<le> limit
    \<and> (j < length cs \<longrightarrow> limit < chars + char_count (concat (take (Suc j) cs)) \<and> k + j < m)"
  using assms
proof (induction es arbitrary: st out chars k cs)
  case Nil
  then show ?case by (simp add: map_filter_simps char_count_def)
next
  case (Cons x es)
  let ?st = "snd (memory_read env st (fst x) (snd x))"
  let ?cs = "List.map_filter (entry_chunk env ops (ms_tree st)) es"
  show ?case
  proof (cases "entry_chunk env ops (ms_tree st) x")
    case None
    with Cons.IH [of ?cs ?st chars k out] Cons.prems show ?thesis by (simp add: loop_Cons map_filter_simps)
  next
    case (Some c)
    then have cs: "cs = c # ?cs" using Cons.prems(1) by (simp add: map_filter_simps)
    show ?thesis
    proof (cases "limit < chars + char_count c")
      case True
      with Some cs Cons.prems show ?thesis by (intro exI [of _ 0]) (simp add: loop_Cons char_count_def)
    next
      case False
      obtain j st' where j: "snapshot_loop env ops limit m ?st (out @ c) (chars + char_count c) (Suc k) es
          = ((out @ c) @ concat (take j ?cs), Suc k + j, (if j = length ?cs then 0 else m - (Suc k + j)), st')"
        "j \<le> length ?cs" "chars + char_count c + char_count (concat (take j ?cs)) \<le> limit"
        "j < length ?cs \<longrightarrow> limit < chars + char_count c + char_count (concat (take (Suc j) ?cs)) \<and> Suc k + j < m"
        using Cons.IH [of ?cs ?st "chars + char_count c" "Suc k" "out @ c"] Cons.prems False by auto
      show ?thesis
        using j Some False cs
        by (intro exI [of _ "Suc j"] exI [of _ st']) (auto simp: loop_Cons char_count_append dest!: le_neq_implies_less)
    qed
  qed
qed

lemma length_order: "length (snapshot_order es) = length es"
  by (simp add: snapshot_order_def)

text \<open>The order is the one of the listing.\<close>

lemma order_of_listing:
  assumes "memory_list_all env t = Inr es"
  shows "snapshot_order es = es"
proof -
  obtain secs where l: "list_sections env t all_scopes = Inr secs" "es = concat (map (\<lambda>(s, names). map (Pair s) names) secs)"
    using assms by (cases "list_sections env t all_scopes") (auto simp: memory_list_all_def)
  have es: "es = map (Pair UserScope) (entry_names t UserScope) @ map (Pair ProjectScope) (entry_names t ProjectScope)
      @ map (Pair ReferenceScope) (entry_names t ReferenceScope) @ map (Pair FeedbackScope) (entry_names t FeedbackScope)"
    using l(2) list_sections_ok [OF l(1)] by (simp add: all_scopes_def)
  have sorted_names: "sorted (entry_names t s)" for s by (simp add: entry_names_def)
  have part: "filter (\<lambda>x. k = (scope_rank \<circ> fst) x) es = filter (\<lambda>x. k = (scope_rank \<circ> fst) x) (sort_key snd es)" for k
  proof -
    have f: "filter (\<lambda>x. k = (scope_rank \<circ> fst) x) (map (Pair s) xs) = (if k = scope_rank s then map (Pair s) xs else [])" for s :: memory_scope and xs :: "string list"
      by (induction xs) auto
    have "sorted (map snd (filter (\<lambda>x. k = (scope_rank \<circ> fst) x) es))"
      unfolding es filter_append f using sorted_names by (auto simp: comp_def)
    then show ?thesis by (simp only: filter_sort sort_key_id_if_sorted)
  qed
  have const: "sorted (map (\<lambda>_. r) xs)" for r :: nat and xs :: "string list" by (induction xs) auto
  have "sorted (map (scope_rank \<circ> fst) es)"
    unfolding es by (auto simp: sorted_append comp_def const)
  then show ?thesis
    unfolding snapshot_order_def by (intro properties_for_sort_key part) simp_all
qed


lemma loop_cong:
  "(\<And>x. x \<in> set es \<Longrightarrow> entry_chunk env ops (ms_tree st) x = entry_chunk env ops (ms_tree st') x) \<Longrightarrow>
   (case snapshot_loop env ops limit m st out chars k es of (a, b, c, _) \<Rightarrow> (a, b, c))
   = (case snapshot_loop env ops limit m st' out chars k es of (a, b, c, _) \<Rightarrow> (a, b, c))"
proof (induction es arbitrary: st st' out chars k)
  case (Cons x es)
  have "entry_chunk env ops (ms_tree st) x = entry_chunk env ops (ms_tree st') x" by (rule Cons.prems) simp
  then show ?case
    using Cons.IH [of "snd (memory_read env st (fst x) (snd x))" "snd (memory_read env st' (fst x) (snd x))"] Cons.prems
    by (simp add: loop_Cons split: option.split)
qed simp

lemma render_cong:
  assumes "\<And>s. entry_names (ms_tree st) s = entry_names (ms_tree st') s"
    and "\<And>x. entry_chunk env ops (ms_tree st) x = entry_chunk env ops (ms_tree st') x"
  shows "fst (render_snapshot env ops limit st) = fst (render_snapshot env ops limit st')"
proof -
  have "list_sections env (ms_tree st) ss = list_sections env (ms_tree st') ss" for ss
    by (induction ss) (simp_all add: memory_list_def assms(1) split: option.split)
  then have l: "memory_list_all env (ms_tree st) = memory_list_all env (ms_tree st')" by (simp add: memory_list_all_def)
  show ?thesis
  proof (cases "memory_list_all env (ms_tree st')")
    case (Inr es)
    have "(case snapshot_loop env ops limit m st [] 0 0 fs of (a, b, c, _) \<Rightarrow> (a, b, c))
        = (case snapshot_loop env ops limit m st' [] 0 0 fs of (a, b, c, _) \<Rightarrow> (a, b, c))" for m fs
      by (rule loop_cong) (rule assms(2))
    from this [of "length es" "snapshot_order es"] show ?thesis
      using l Inr by (auto simp: render_snapshot_def split: prod.splits)
  qed (simp add: render_snapshot_def l)
qed

text \<open>C24: Poisoned text never reaches the prompt.  As long as an entry trips a rule of the scanner, the snapshot does not depend on
  what the entry says.\<close>

theorem poisoned_body_never_prompted:
  assumes "map_of (ms_tree st) (entry_path s n) = Some b" "valid_utf8 b" "valid_utf8 b'"
    and "threat_scan (mv_hits env) (snd (parse_frontmatter ops b)) = Some hit"
    and "threat_scan (mv_hits env) (snd (parse_frontmatter ops b')) = Some hit"
  shows "fst (render_snapshot env ops limit (st\<lparr>ms_tree := AList.update (entry_path s n) b' (ms_tree st)\<rparr>))
    = fst (render_snapshot env ops limit st)"
proof (rule render_cong)
  show "entry_names (ms_tree (st\<lparr>ms_tree := AList.update (entry_path s n) b' (ms_tree st)\<rparr>)) s' = entry_names (ms_tree st) s'" for s'
    using assms(1) by (simp add: entry_names_def dir_files_update)
  have body: "snapshot_body env ops b' = snapshot_body env ops b"
    using assms(4,5) by (simp add: snapshot_body_def Let_def)
  show "entry_chunk env ops (ms_tree (st\<lparr>ms_tree := AList.update (entry_path s n) b' (ms_tree st)\<rparr>)) x = entry_chunk env ops (ms_tree st) x" for x
    using assms(1,2,3) body
    by (auto simp: entry_chunk_def mem_read_text_def mem_read_def update_conv' split: sum.splits option.splits)
qed

lemma dir_files_mset: "mset t = mset t' \<Longrightarrow> mset (dir_files d t) = mset (dir_files d t')"
proof -
  have "mset (dir_files d t) = image_mset (\<lambda>p. last (fst p)) (filter_mset (\<lambda>p. \<exists>f. fst p = [d, f]) (mset t))" for t
    by (induction t) (auto split: list.split)
  then show "mset t = mset t' \<Longrightarrow> ?thesis" by simp
qed

lemma map_filter_mset: "mset xs = mset ys \<Longrightarrow> mset (List.map_filter f xs) = mset (List.map_filter f ys)"
  by (simp add: List.map_filter_def)

lemma sort_mset: "mset xs = mset ys \<Longrightarrow> sort xs = sort ys"
  by (intro properties_for_sort) simp_all

text \<open>The snapshot is stable.  It depends on the files of the memory alone, neither on the order in which the file system lists them
  nor on what the handle has seen, so that the cached prompt prefix does not move.\<close>

theorem snapshot_order_independent:
  assumes "mset (ms_tree st) = mset (ms_tree st')" "distinct (map fst (ms_tree st))"
  shows "fst (render_snapshot env ops limit st) = fst (render_snapshot env ops limit st')"
proof (rule render_cong)
  show "entry_names (ms_tree st) s = entry_names (ms_tree st') s" for s
    unfolding entry_names_def by (intro sort_mset map_filter_mset dir_files_mset assms(1))
  have "distinct (map fst (ms_tree st'))"
    using assms mset_eq_imp_distinct_iff [of "map fst (ms_tree st)" "map fst (ms_tree st')"] by simp
  then have eq: "map_of (ms_tree st) = map_of (ms_tree st')"
    using map_of_inject_set [OF assms(2)] mset_eq_setD [OF assms(1)] by blast
  have same: "mem_read_text env (ms_tree st) p = mem_read_text env (ms_tree st') p" for p
    unfolding mem_read_text_def mem_read_def eq ..
  show "entry_chunk env ops (ms_tree st) x = entry_chunk env ops (ms_tree st') x" for x
    unfolding entry_chunk_def same ..
qed

subsection \<open>Concrete inputs\<close>

definition plain_ops :: "unit float_ops" where
  "plain_ops = \<lparr>fo_parse = (\<lambda>_. Some ()), fo_show = (\<lambda>_. ''1''), fo_clamp = (\<lambda>x. x)\<rparr>"

definition tone_memory :: "string memory_store" where
  "tone_memory = \<lparr>ms_seen = (\<lambda>_. None), ms_tree = [(entry_path UserScope ''tone'', ''terse'')]\<rparr>"

lemma tone_listing: "memory_list_all calm_env (ms_tree tone_memory) = Inr [(UserScope, ''tone'')]"
  by (simp add: memory_list_all_def all_scopes_def memory_list_def entry_names_def tone_memory_def entry_path_def
      map_filter_simps strip_ending_def suffix_def)

lemma unfenced: "parse_frontmatter ops (c # s) = (no_meta, c # s)" if "c \<noteq> CHR ''-''"
  using that by (simp add: parse_frontmatter_def fence_line_def)

lemma terse_body: "snapshot_body calm_env ops ''terse'' = ''terse''"
  by (simp add: snapshot_body_def unfenced trim_end_visible in_range_def)

lemma tone_chunk: "entry_chunk calm_env ops (ms_tree tone_memory) (UserScope, ''tone'') = Some (snapshot_chunk UserScope ''tone'' ''terse'')"
  using terse_utf8
  by (simp add: entry_chunk_def sanitize_valid [OF tone_name] mem_read_text_def mem_read_def tone_memory_def terse_body)

lemma tone_chars: "char_count (snapshot_chunk UserScope ''tone'' ''terse'') = 24"
  by code_simp

theorem frontmatter_roundtrip_witness:
  "parse_frontmatter plain_ops (render_with_frontmatter plain_ops \<lparr>mm_source = Some ''extractor'', mm_confidence = Some (), mm_created_at = Some ''2026''\<rparr> ''terse'')
     = (\<lparr>mm_source = Some ''extractor'', mm_confidence = Some (), mm_created_at = Some ''2026''\<rparr>, ''terse'')"
proof -
  have "plain_value ''extractor''" "plain_value ''2026''" "plain_value ''1''"
    by (simp_all add: plain_value_def trim_visible in_range_def is_quote_def newline_char)
  then show ?thesis
    using frontmatter_roundtrip [of "\<lparr>mm_source = Some ''extractor'', mm_confidence = Some (), mm_created_at = Some ''2026''\<rparr>" plain_ops "''terse''"]
    by (simp add: plain_ops_def newline_char)
qed


theorem poisoned_body_never_prompted_witness:
  "fst (render_snapshot (calm_env\<lparr>mv_hits := \<lambda>k _. k = ''credential_jwt''\<rparr>) plain_ops 8000
       \<lparr>ms_seen = (\<lambda>_. None), ms_tree = [(entry_path UserScope ''tone'', ''x'')]\<rparr>)
     = fst (render_snapshot (calm_env\<lparr>mv_hits := \<lambda>k _. k = ''credential_jwt''\<rparr>) plain_ops 8000 tone_memory)"
proof -
  let ?env = "calm_env\<lparr>mv_hits := \<lambda>k _. k = ''credential_jwt''\<rparr>"
  have x: "valid_utf8 ''x''" by code_simp
  have hit: "threat_scan (mv_hits ?env) (snd (parse_frontmatter plain_ops (c # s))) = Some (''credential_jwt'', ''JWT-shaped triplet'')"
    if "c \<noteq> CHR ''-''" for c s
    by (simp add: unfenced [OF that] threat_scan_def THREAT_RULES_def)
  show ?thesis
    using poisoned_body_never_prompted [OF _ terse_utf8 x hit hit, of tone_memory UserScope "''tone''" 8000]
    by (simp add: tone_memory_def)
qed

theorem snapshot_order_independent_witness:
  "fst (render_snapshot calm_env plain_ops 8000 \<lparr>ms_seen = (\<lambda>_. None), ms_tree = [(entry_path UserScope ''a'', ''x''), (entry_path UserScope ''b'', ''y'')]\<rparr>)
     = fst (render_snapshot calm_env plain_ops 8000 \<lparr>ms_seen = (\<lambda>_. None), ms_tree = [(entry_path UserScope ''b'', ''y''), (entry_path UserScope ''a'', ''x'')]\<rparr>)"
  by (rule snapshot_order_independent) simp_all

text \<open>The limit of the snapshot is not one for its marker: a memory whose only entry does not fit gives a text longer than the limit.\<close>

theorem marker_exceeds_limit:
  "\<exists>sn. fst (render_snapshot calm_env plain_ops 20 tone_memory) = Inr sn \<and> 20 < char_count (sn_text sn)"
proof -
  have m: "char_count (truncation_marker 1) = 86" by code_simp
  have "snapshot_order [(UserScope, ''tone'')] = [(UserScope, ''tone'')]" by (simp add: snapshot_order_def)
  then show ?thesis
    by (simp add: render_snapshot_def tone_listing loop_Cons tone_chunk tone_chars m [unfolded One_nat_def])
qed

text \<open>The counters of the snapshot need not add up: an entry whose file name the store would not accept is listed but can never be
  read, and is then neither included nor counted as cut off.\<close>

theorem unreadable_entry_uncounted:
  "\<exists>sn. fst (render_snapshot calm_env plain_ops 8000 \<lparr>ms_seen = (\<lambda>_. None), ms_tree = [([''user'', ''Tone.md''], ''terse'')]\<rparr>) = Inr sn
    \<and> sn_text sn = [] \<and> sn_total sn = 1 \<and> sn_included sn = 0 \<and> sn_truncated sn = 0"
proof -
  let ?st = "\<lparr>ms_seen = (\<lambda>_. None), ms_tree = [([''user'', ''Tone.md''], ''terse'')]\<rparr> :: string memory_store"
  have l: "memory_list_all calm_env (ms_tree ?st) = Inr [(UserScope, ''Tone'')]"
    by (simp add: memory_list_all_def all_scopes_def memory_list_def entry_names_def map_filter_simps strip_ending_def suffix_def)
  have "trim ''Tone'' = ''Tone''" by (simp add: trim_visible in_range_def)
  moreover have "ascii_lower (CHR ''T'') = CHR ''t''" by code_simp
  ultimately have "sanitize_name ''Tone'' = Inr ''tone''"
    by (simp add: sanitize_name_def or_else_def strip_ending_def suffix_def name_char_props(1) name_char_def)
  then have "entry_chunk calm_env plain_ops (ms_tree ?st) (UserScope, ''Tone'') = None"
    by (simp add: entry_chunk_def mem_read_text_def mem_read_def entry_path_def)
  moreover have "snapshot_order [(UserScope, ''Tone'')] = [(UserScope, ''Tone'')]" by (simp add: snapshot_order_def)
  ultimately show ?thesis
    using l by (simp add: render_snapshot_def loop_Cons truncation_marker_def)
qed

end
