(* ===== verification/Memory_Tools.thy ===== *)
theory Memory_Tools
  imports Memory_Snapshot Tool_Calls Workspace Fence System_Prompt
begin

text \<open>
  The ways into the memory: the queue of writes that wait for a human (\<open>crates/snaca-memory/src/approval.rs\<close>), the
  tools \<open>MemoryRead\<close> and \<open>MemoryWrite\<close> (\<open>crates/snaca-tools/src/memory.rs\<close>) on the built-in store or on a
  provider, the built-in provider (\<open>provider.rs\<close>), the import of files (\<open>import.rs\<close>), and the background
  extraction after a turn (\<open>memory_extractor.rs\<close> and \<open>spawn_memory_extraction\<close> of
  \<open>crates/snaca-engine/src/engine.rs\<close>).

  Parameters are the JSON codec of staged files, the debug quoting of strings and paths, clocks and fresh
  identifiers, the model's answer, and what the filter's regular expressions match.
\<close>

subsection \<open>Writes waiting for approval\<close>

record pending_write =
  pd_id :: string
  pd_scope :: string
  pd_name :: string
  pd_content :: string
  pd_by :: string
  pd_at :: string

record pending_codec =
  pc_ser :: "pending_write \<Rightarrow> string"
  pc_par :: "string \<Rightarrow> string + pending_write"

definition pending_path :: "string \<Rightarrow> mem_path" where
  "pending_path i = [''pending'', i @ ''.json'']"

definition pending_id_is_safe :: "string \<Rightarrow> bool" where
  "pending_id_is_safe i \<longleftrightarrow> i \<noteq> [] \<and> length i \<le> 64 \<and> list_all name_char i"

definition unsafe_id :: "string \<Rightarrow> memory_error" where
  "unsafe_id i = InvalidName i ''pending id must be [a-z0-9_-]+, max 64 chars''"

text \<open>\<open>create_new\<close> refuses a file that exists.\<close>

definition stage_pending :: "'h memory_env \<Rightarrow> pending_codec \<Rightarrow> mem_tree \<Rightarrow> pending_write \<Rightarrow> (memory_error + mem_path) \<times> mem_tree" where
  "stage_pending env codec t p =
     (if \<not> pending_id_is_safe (pd_id p) then (Inl (unsafe_id (pd_id p)), t)
      else case mv_fault env MakeDirs [''pending''] of
             Some e \<Rightarrow> (Inl (MemoryIo e), t)
           | None \<Rightarrow>
               if map_of t (pending_path (pd_id p)) \<noteq> None then (Inl (MemoryIo ''File exists (os error 17)''), t)
               else (case mem_write env t (pending_path (pd_id p)) (pc_ser codec p) of
                       (Some e, t') \<Rightarrow> (Inl (MemoryIo e), t')
                     | (None, t') \<Rightarrow> (Inr (pending_path (pd_id p)), t')))"

definition read_pending :: "'h memory_env \<Rightarrow> pending_codec \<Rightarrow> mem_tree \<Rightarrow> mem_path \<Rightarrow> memory_error \<Rightarrow> memory_error + pending_write" where
  "read_pending env codec t p missing =
     (case mem_read env t p of
        Inl Missing \<Rightarrow> Inl missing
      | Inl (ReadFailed e) \<Rightarrow> Inl (MemoryIo e)
      | Inr b \<Rightarrow> (case pc_par codec b of Inl e \<Rightarrow> Inl (MemoryIo (''parse pending: '' @ e)) | Inr p \<Rightarrow> Inr p))"

fun read_all_pending :: "'h memory_env \<Rightarrow> pending_codec \<Rightarrow> mem_tree \<Rightarrow> string list \<Rightarrow> memory_error + pending_write list" where
  "read_all_pending env codec t [] = Inr []"
| "read_all_pending env codec t (f # fs) =
     (if \<not> suffix ''.json'' f then read_all_pending env codec t fs
      else case read_pending env codec t [''pending'', f] (MemoryIo ''No such file or directory (os error 2)'') of
             Inl e \<Rightarrow> Inl e
           | Inr p \<Rightarrow> map_sum id ((#) p) (read_all_pending env codec t fs))"

definition list_pending :: "'h memory_env \<Rightarrow> pending_codec \<Rightarrow> mem_tree \<Rightarrow> memory_error + pending_write list" where
  "list_pending env codec t =
     (case mv_fault env ListDir [''pending''] of
        Some e \<Rightarrow> Inl (MemoryIo e)
      | None \<Rightarrow> map_sum id (sort_key pd_at) (read_all_pending env codec t (dir_files ''pending'' t)))"

definition load_pending :: "'h memory_env \<Rightarrow> pending_codec \<Rightarrow> mem_tree \<Rightarrow> string \<Rightarrow> memory_error + pending_write" where
  "load_pending env codec t i =
     (if \<not> pending_id_is_safe i then Inl (unsafe_id i)
      else read_pending env codec t (pending_path i) (EntryNotFound UserScope i))"

text \<open>The staged file goes once the write is done; that this fails is only logged.\<close>

definition approve_pending ::
  "'h memory_env \<Rightarrow> pending_codec \<Rightarrow> 'h memory_store \<Rightarrow> string \<Rightarrow> bool \<Rightarrow> (memory_error + memory_entry) \<times> 'h memory_store" where
  "approve_pending env codec st i bypass =
     (case load_pending env codec (ms_tree st) i of
        Inl e \<Rightarrow> (Inl e, st)
      | Inr p \<Rightarrow>
          (case parse_memory_scope (pd_scope p) of
             Inl e \<Rightarrow> (Inl (InvalidName (pd_scope p) (''invalid scope: '' @ e)), st)
           | Inr s \<Rightarrow>
               (case (if bypass then memory_write_force env st s (pd_name p) (pd_content p)
                      else memory_write env st s (pd_name p) (pd_content p)) of
                  (Inl e, st') \<Rightarrow> (Inl e, st')
                | (Inr entry, st') \<Rightarrow>
                    (Inr entry, if mv_fault env RemoveFile (pending_path i) = None
                                then st'\<lparr>ms_tree := AList.delete (pending_path i) (ms_tree st')\<rparr> else st'))))"

definition reject_pending :: "'h memory_env \<Rightarrow> pending_codec \<Rightarrow> mem_tree \<Rightarrow> string \<Rightarrow> (memory_error + pending_write) \<times> mem_tree" where
  "reject_pending env codec t i =
     (case load_pending env codec t i of
        Inl e \<Rightarrow> (Inl e, t)
      | Inr p \<Rightarrow>
          (case mv_fault env RemoveFile (pending_path i) of
             Some e \<Rightarrow> (Inl (MemoryIo e), t)
           | None \<Rightarrow> (Inr p, AList.delete (pending_path i) t)))"

subsection \<open>Errors as texts\<close>

record debug_texts =
  dt_quote :: "string \<Rightarrow> string"
  dt_path :: "mem_path \<Rightarrow> string"

fun memory_error_text :: "debug_texts \<Rightarrow> memory_error \<Rightarrow> string" where
  "memory_error_text q (InvalidName n r) = ''invalid memory entry name '' @ dt_quote q n @ '': '' @ r"
| "memory_error_text q (EntryNotFound s n) = ''memory entry not found: '' @ dir_name s @ ''/'' @ n"
| "memory_error_text q (MemoryIo e) = ''io error in memory store: '' @ e"
| "memory_error_text q (ThreatBlocked k d) = ''memory write blocked by threat scanner: '' @ k @ '' ('' @ d @ '')''"
| "memory_error_text q (ExternalDrift p b) = ''memory entry '' @ dt_path q p @ '' was modified externally; backed up to '' @ dt_path q b
     @ '' '' @ em_dash @ '' re-read and retry''"
| "memory_error_text q (ExternalExtractorRequired k f) = ''external extractor required for '' @ k @ '' file '' @ dt_quote q f"
| "memory_error_text q (EntryTooLarge f b l) = ''memory entry too large for '' @ dt_quote q f @ '': '' @ show_nat b @ '' bytes (limit '' @ show_nat l @ '')''"
| "memory_error_text q (ImportScopeBlocked s) = ''memory scope '' @ dir_name s @ '' is not allowed as an import target''"

fun map_memory_err :: "debug_texts \<Rightarrow> memory_error \<Rightarrow> tool_error" where
  "map_memory_err q (InvalidName n r) = InvalidInput (memory_error_text q (InvalidName n r))"
| "map_memory_err q (EntryNotFound s n) = NotFound (memory_error_text q (EntryNotFound s n))"
| "map_memory_err q (MemoryIo e) = IoError e"
| "map_memory_err q (ThreatBlocked k d) = InvalidInput (memory_error_text q (ThreatBlocked k d))"
| "map_memory_err q e = Execution (memory_error_text q e)"

datatype provider_error = InvalidScope string | ProviderNotFound string string | ProviderIo string | ProviderOther string

fun map_provider_err :: "provider_error \<Rightarrow> tool_error" where
  "map_provider_err (InvalidScope s) = InvalidInput (''invalid memory scope '' @ s)"
| "map_provider_err (ProviderNotFound s n) = NotFound (''memory entry not found: '' @ s @ ''/'' @ n)"
| "map_provider_err (ProviderIo e) = IoError e"
| "map_provider_err (ProviderOther m) = Execution m"

subsection \<open>Providers\<close>

text \<open>A \<open>MemoryProvider\<close> for the tenant and project of a call, over its own state; entries are scope, name and content.\<close>

record 'p memory_provider =
  pr_index :: "'p \<Rightarrow> (provider_error + string) \<times> 'p"
  pr_list :: "string \<Rightarrow> 'p \<Rightarrow> (provider_error + string list) \<times> 'p"
  pr_write :: "string \<Rightarrow> string \<Rightarrow> string \<Rightarrow> 'p \<Rightarrow> (provider_error + string \<times> string \<times> string) \<times> 'p"
  pr_read :: "string \<Rightarrow> string \<Rightarrow> 'p \<Rightarrow> (provider_error + string \<times> string \<times> string) \<times> 'p"
  pr_written :: "string \<Rightarrow> string \<Rightarrow> 'p \<Rightarrow> 'p"

fun provider_memory_error :: "debug_texts \<Rightarrow> memory_error \<Rightarrow> provider_error" where
  "provider_memory_error q (EntryNotFound s n) = ProviderNotFound (dir_name s) n"
| "provider_memory_error q (MemoryIo e) = ProviderIo e"
| "provider_memory_error q e = ProviderOther (memory_error_text q e)"

definition entry_data :: "memory_entry \<Rightarrow> string \<times> string \<times> string" where
  "entry_data e = (dir_name (me_scope e), me_name e, me_content e)"

definition fresh_store :: "mem_tree \<Rightarrow> 'h memory_store" where
  "fresh_store t = \<lparr>ms_seen = (\<lambda>_. None), ms_tree = t\<rparr>"

text \<open>\<open>FileTreeMemoryProvider\<close> opens a new store for every call; its directory is there.\<close>

definition with_scope :: "string \<Rightarrow> 'p \<Rightarrow> (memory_scope \<Rightarrow> (provider_error + 'a) \<times> 'p) \<Rightarrow> (provider_error + 'a) \<times> 'p" where
  "with_scope s t f = (case from_dir_name s of None \<Rightarrow> (Inl (InvalidScope s), t) | Some sc \<Rightarrow> f sc)"

definition file_tree_provider :: "debug_texts \<Rightarrow> 'h memory_env \<Rightarrow> 'f float_ops \<Rightarrow> mem_tree memory_provider" where
  "file_tree_provider q env ops =
     \<lparr>pr_index = (\<lambda>t. case render_snapshot env ops DEFAULT_CHAR_LIMIT (fresh_store t) of
          (r, st) \<Rightarrow> (map_sum (\<lambda>e. ProviderIo (case e of MemoryIo m \<Rightarrow> m | _ \<Rightarrow> memory_error_text q e)) sn_text r, ms_tree st)),
      pr_list = (\<lambda>s t. with_scope s t (\<lambda>sc. (map_sum (provider_memory_error q) id (memory_list env t sc), t))),
      pr_write = (\<lambda>s n c t. with_scope s t (\<lambda>sc. case memory_write env (fresh_store t) sc n c of
          (r, st) \<Rightarrow> (map_sum (provider_memory_error q) entry_data r, ms_tree st))),
      pr_read = (\<lambda>s n t. with_scope s t (\<lambda>sc. case memory_read env (fresh_store t) sc n of
          (r, st) \<Rightarrow> (map_sum (provider_memory_error q) entry_data r, ms_tree st))),
      pr_written = (\<lambda>_ _ t. t)\<rparr>"

subsection \<open>The tools\<close>

definition no_entries :: string where
  "no_entries = ''(memory index is empty '' @ em_dash @ '' no entries recorded yet)''"

definition index_output :: "string \<Rightarrow> tool_output" where
  "index_output idx = OutText (if trim idx = [] then no_entries else idx)"

definition names_output :: "string \<Rightarrow> string list \<Rightarrow> tool_output" where
  "names_output s names =
     OutText (if names = [] then ''(no entries under `'' @ s @ ''`)''
              else show_nat (length names) @ '' entries under `'' @ s @ ''`:'' @ [newline]
                @ concat (map (\<lambda>n. ''  - '' @ n @ [newline]) names))"

definition name_needs_scope :: tool_error where
  "name_needs_scope = InvalidInput ''`name` requires a `scope`; pick one of user/project/reference/feedback''"

definition memory_read_tool ::
  "debug_texts \<Rightarrow> 'h memory_env \<Rightarrow> 'p memory_provider option \<Rightarrow> string option \<Rightarrow> string option \<Rightarrow> 'h memory_store \<times> 'p
     \<Rightarrow> (tool_error + tool_output) \<times> 'h memory_store \<times> 'p" where
  "memory_read_tool q env prov scope name sp =
     (case sp of (st, ps) \<Rightarrow>
       case prov of
         Some pr \<Rightarrow>
           (case (scope, name) of
              (None, None) \<Rightarrow> (case pr_index pr ps of (r, ps') \<Rightarrow> (map_sum map_provider_err index_output r, st, ps'))
            | (Some s, None) \<Rightarrow> (case pr_list pr s ps of (r, ps') \<Rightarrow> (map_sum map_provider_err (names_output s) r, st, ps'))
            | (Some s, Some n) \<Rightarrow>
                (case pr_read pr s n ps of (r, ps') \<Rightarrow> (map_sum map_provider_err (\<lambda>(_, _, c). OutText c) r, st, ps'))
            | (None, Some _) \<Rightarrow> (Inl name_needs_scope, st, ps))
       | None \<Rightarrow>
           (case (scope, name) of
              (None, None) \<Rightarrow> (map_sum (map_memory_err q) index_output (memory_index_text env (ms_tree st)), st, ps)
            | (Some s, None) \<Rightarrow>
                (case parse_memory_scope s of
                   Inl e \<Rightarrow> (Inl (InvalidInput e), st, ps)
                 | Inr sc \<Rightarrow> (map_sum (map_memory_err q) (names_output (dir_name sc)) (memory_list env (ms_tree st) sc), st, ps))
            | (Some s, Some n) \<Rightarrow>
                (case parse_memory_scope s of
                   Inl e \<Rightarrow> (Inl (InvalidInput e), st, ps)
                 | Inr sc \<Rightarrow> (case memory_read env st sc n of
                     (r, st') \<Rightarrow> (map_sum (map_memory_err q) (\<lambda>e. OutText (me_content e)) r, st', ps)))
            | (None, Some _) \<Rightarrow> (Inl name_needs_scope, st, ps)))"

definition staged_output :: "string \<Rightarrow> string \<Rightarrow> string \<Rightarrow> string \<Rightarrow> tool_output" where
  "staged_output i s n c =
     OutText (''MemoryWrite was staged for human approval as `'' @ i @ ''` (scope `'' @ s @ ''`, name `'' @ n @ ''`, ''
       @ show_nat (length c) @ '' bytes). An operator will run `snaca-cli memory approve '' @ i @ ''` to apply it, or `reject '' @ i
       @ ''` to drop it. Don'' @ [CHR 0x27] @ ''t restage the same write '' @ em_dash @ '' assume the operator will action it.'')"

definition wrote_output :: "string \<Rightarrow> string \<Rightarrow> string \<Rightarrow> tool_output" where
  "wrote_output s n c = OutText (''wrote `'' @ s @ ''/'' @ n @ ''` ('' @ show_nat (length c) @ '' bytes)'')"

text \<open>\<open>fresh\<close> and \<open>now\<close> are the identifier and the time of a staged write.\<close>

definition memory_write_tool ::
  "debug_texts \<Rightarrow> 'h memory_env \<Rightarrow> pending_codec \<Rightarrow> bool \<Rightarrow> 'p memory_provider option \<Rightarrow> string \<Rightarrow> string \<Rightarrow> string \<Rightarrow> string \<Rightarrow> string
     \<Rightarrow> 'h memory_store \<times> 'p \<Rightarrow> (tool_error + tool_output) \<times> 'h memory_store \<times> 'p" where
  "memory_write_tool q env codec approval prov fresh now scope name content sp =
     (case sp of (st, ps) \<Rightarrow>
       if approval then
         (if prov \<noteq> None then
            (Inl (Execution (''memory_write_approval is only supported by the built-in file-tree memory store; ''
               @ ''disable it or approve writes in the custom memory provider'')), st, ps)
          else case parse_memory_scope scope of
                 Inl e \<Rightarrow> (Inl (InvalidInput e), st, ps)
               | Inr _ \<Rightarrow>
                   (case sanitize_name name of
                      Inl e \<Rightarrow> (Inl (map_memory_err q e), st, ps)
                    | Inr _ \<Rightarrow>
                        (case stage_pending env codec (ms_tree st)
                            \<lparr>pd_id = fresh, pd_scope = scope, pd_name = name, pd_content = content, pd_by = ''memory_write'', pd_at = now\<rparr> of
                           (r, t) \<Rightarrow> (map_sum (map_memory_err q) (\<lambda>_. staged_output fresh scope name content) r, st\<lparr>ms_tree := t\<rparr>, ps))))
       else case prov of
              Some pr \<Rightarrow>
                (case pr_write pr scope name content ps of
                   (Inl e, ps') \<Rightarrow> (Inl (map_provider_err e), st, ps')
                 | (Inr (s, n, c), ps') \<Rightarrow> (Inr (wrote_output s n c), st, pr_written pr s n ps'))
            | None \<Rightarrow>
                (case parse_memory_scope scope of
                   Inl e \<Rightarrow> (Inl (InvalidInput e), st, ps)
                 | Inr sc \<Rightarrow>
                     (case memory_write env st sc name content of
                        (r, st') \<Rightarrow> (map_sum (map_memory_err q) (\<lambda>e. wrote_output (dir_name (me_scope e)) (me_name e) (me_content e)) r, st', ps))))"

subsection \<open>Importing files\<close>

datatype source_kind = PlainText | Markdown | Code | PdfSource | Docx | Xlsx | Pptx

definition path_file_name :: "string \<Rightarrow> string option" where
  "path_file_name s = (case components s of [] \<Rightarrow> None | c # cs \<Rightarrow> (case last (c # cs) of Normal n \<Rightarrow> Some n | _ \<Rightarrow> None))"

definition file_stem :: "string \<Rightarrow> string" where
  "file_stem n =
     (let after = length (takeWhile (\<lambda>c. c \<noteq> CHR ''.'') (rev n))
      in if length n \<le> after + 1 then n else take (length n - after - 1) n)"

definition CODE_EXTENSIONS :: "string list" where
  "CODE_EXTENSIONS = [''rs'', ''py'', ''js'', ''ts'', ''tsx'', ''jsx'', ''go'', ''java'', ''rb'', ''c'', ''h'', ''cpp'', ''hpp'', ''cc'', ''cs'',
     ''swift'', ''kt'', ''scala'', ''sh'', ''bash'', ''zsh'', ''fish'', ''lua'', ''php'', ''pl'', ''r'', ''sql'', ''yaml'', ''yml'', ''toml'',
     ''json'', ''xml'', ''html'', ''css'', ''scss'']"

definition kind_of_filename :: "string \<Rightarrow> source_kind" where
  "kind_of_filename name =
     (let ext = or_else (map_option extension (path_file_name (map ascii_lower name))) []
      in if ext \<in> set [''md'', ''markdown'', ''mdown''] then Markdown
         else if ext = ''pdf'' then PdfSource
         else if ext \<in> set [''docx'', ''docm''] then Docx
         else if ext \<in> set [''xlsx'', ''xlsm''] then Xlsx
         else if ext \<in> set [''pptx'', ''pptm''] then Pptx
         else if ext \<in> set CODE_EXTENSIONS then Code
         else PlainText)"

text \<open>A character outside \<open>[a-z0-9_-]\<close> becomes a dash, and dashes in a row become one; so the bytes of a character beyond
  ASCII count as one.\<close>

definition slug_char :: "char \<Rightarrow> char" where
  "slug_char c = (if name_char (ascii_lower c) then ascii_lower c else CHR ''-'')"

fun squeeze_dashes :: "bool \<Rightarrow> string \<Rightarrow> string" where
  "squeeze_dashes after_dash [] = []"
| "squeeze_dashes after_dash (c # cs) =
     (if c = CHR ''-'' then (if after_dash then squeeze_dashes True cs else c # squeeze_dashes True cs)
      else c # squeeze_dashes False cs)"

definition trim_end_dashes :: "string \<Rightarrow> string" where
  "trim_end_dashes s = rev (dropWhile (\<lambda>c. c = CHR ''-'') (rev s))"

definition slug_text :: "string \<Rightarrow> string" where
  "slug_text filename =
     trim_end_dashes (dropWhile (\<lambda>c. c = CHR ''-'')
       (squeeze_dashes True (map slug_char (case path_file_name filename of Some n \<Rightarrow> file_stem n | None \<Rightarrow> filename))))"

definition base_slug :: "string \<Rightarrow> string" where
  "base_slug filename =
     (let trimmed = slug_text filename
      in if trimmed = [] \<or> (case sanitize_name trimmed of Inl _ \<Rightarrow> True | Inr _ \<Rightarrow> False) then ''import''
         else if 64 < length trimmed then trim_end_dashes (take 64 trimmed)
         else trimmed)"

record import_config =
  ic_scope :: memory_scope
  ic_max_bytes :: nat

record import_source =
  is_bytes :: string
  is_filename :: string
  is_kind :: "source_kind option"

record import_report =
  ir_filename :: string
  ir_kind :: source_kind
  ir_entries :: "(memory_scope \<times> string) list"

text \<open>\<open>pdf\<close> is the extractor of the build, or its refusal.\<close>

definition import_one ::
  "debug_texts \<Rightarrow> 'h memory_env \<Rightarrow> (string \<Rightarrow> string \<Rightarrow> string + string) \<Rightarrow> import_config \<Rightarrow> import_source \<Rightarrow> 'h memory_store
     \<Rightarrow> (memory_error + import_report) \<times> 'h memory_store" where
  "import_one q env pdf cfg src st =
     (if ic_scope cfg \<notin> set [ProjectScope, ReferenceScope] then (Inl (ImportScopeBlocked (ic_scope cfg)), st)
      else
        (let kind = (case is_kind src of Some k \<Rightarrow> k | None \<Rightarrow> kind_of_filename (is_filename src));
             extracted =
               (case kind of
                  PdfSource \<Rightarrow> map_sum MemoryIo id (pdf (is_bytes src) (is_filename src))
                | Docx \<Rightarrow> Inl (ExternalExtractorRequired ''docx'' (is_filename src))
                | Xlsx \<Rightarrow> Inl (ExternalExtractorRequired ''xlsx'' (is_filename src))
                | Pptx \<Rightarrow> Inl (ExternalExtractorRequired ''pptx'' (is_filename src))
                | _ \<Rightarrow> Inr (from_utf8_lossy (is_bytes src)))
         in case extracted of
              Inl e \<Rightarrow> (Inl e, st)
            | Inr body \<Rightarrow>
                if trim body = [] then (Inr \<lparr>ir_filename = is_filename src, ir_kind = kind, ir_entries = []\<rparr>, st)
                else if ic_max_bytes cfg < length body then (Inl (EntryTooLarge (is_filename src) (length body) (ic_max_bytes cfg)), st)
                else case sanitize_name (base_slug (is_filename src)) of
                       Inl (InvalidName n r) \<Rightarrow> (Inl (InvalidName (''derived from '' @ dt_quote q (is_filename src) @ '': '' @ n) r), st)
                     | Inl e \<Rightarrow> (Inl e, st)
                     | Inr _ \<Rightarrow>
                         (case memory_write_force env st (ic_scope cfg) (base_slug (is_filename src)) body of
                            (Inl e, st') \<Rightarrow> (Inl e, st')
                          | (Inr e, st') \<Rightarrow>
                              (Inr \<lparr>ir_filename = is_filename src, ir_kind = kind, ir_entries = [(me_scope e, me_name e)]\<rparr>, st'))))"

subsection \<open>Importing archives\<close>

record zip_member =
  zm_name :: string
  zm_is_file :: bool
  zm_size :: nat
  zm_bytes :: "string option"

definition MAX_MEMBER_BYTES :: nat where "MAX_MEMBER_BYTES = 8 * 1024 * 1024"

definition extractor_available :: "bool \<Rightarrow> source_kind \<Rightarrow> bool" where
  "extractor_available pdf_built k = (case k of PdfSource \<Rightarrow> pdf_built | Docx \<Rightarrow> False | Xlsx \<Rightarrow> False | Pptx \<Rightarrow> False | _ \<Rightarrow> True)"

definition member_filename :: "string \<Rightarrow> string \<Rightarrow> string" where
  "member_filename archive member =
     or_else (map_option file_stem (path_file_name archive)) ''bundle'' @ ''-''
       @ map (\<lambda>c. if c = CHR ''/'' \<or> c = CHR 0x5C then CHR ''-'' else c) member"

text \<open>The members that are imported, with their kinds; the others are skipped.\<close>

definition importable :: "bool \<Rightarrow> zip_member option \<Rightarrow> (zip_member \<times> source_kind \<times> string) option" where
  "importable pdf_built m =
     (case m of
        None \<Rightarrow> None
      | Some z \<Rightarrow>
          if \<not> zm_is_file z \<or> list_ex (\<lambda>seg. prefix ''.'' seg) (split_slash (zm_name z)) \<or> MAX_MEMBER_BYTES < zm_size z
             \<or> \<not> extractor_available pdf_built (kind_of_filename (zm_name z))
          then None
          else map_option (\<lambda>b. (z, kind_of_filename (zm_name z), b)) (zm_bytes z))"

fun import_members ::
  "debug_texts \<Rightarrow> 'h memory_env \<Rightarrow> bool \<Rightarrow> (string \<Rightarrow> string \<Rightarrow> string + string) \<Rightarrow> import_config \<Rightarrow> string \<Rightarrow> zip_member option list
     \<Rightarrow> 'h memory_store \<Rightarrow> import_report list \<times> 'h memory_store" where
  "import_members q env pdf_built pdf cfg archive [] st = ([], st)"
| "import_members q env pdf_built pdf cfg archive (m # ms) st =
     (case importable pdf_built m of
        None \<Rightarrow> import_members q env pdf_built pdf cfg archive ms st
      | Some (z, k, b) \<Rightarrow>
          (case import_one q env pdf cfg \<lparr>is_bytes = b, is_filename = member_filename archive (zm_name z), is_kind = Some k\<rparr> st of
             (Inl _, st') \<Rightarrow> import_members q env pdf_built pdf cfg archive ms st'
           | (Inr r, st') \<Rightarrow> (case import_members q env pdf_built pdf cfg archive ms st' of (rs, st'') \<Rightarrow> (r # rs, st''))))"

text \<open>\<open>unzip\<close> is the archive library.\<close>

definition import_bundle ::
  "debug_texts \<Rightarrow> 'h memory_env \<Rightarrow> (string \<Rightarrow> string + zip_member option list) \<Rightarrow> bool \<Rightarrow> (string \<Rightarrow> string \<Rightarrow> string + string)
     \<Rightarrow> import_config \<Rightarrow> string \<Rightarrow> string \<Rightarrow> 'h memory_store \<Rightarrow> (memory_error + import_report list) \<times> 'h memory_store" where
  "import_bundle q env unzip pdf_built pdf cfg bytes archive st =
     (case unzip bytes of
        Inl e \<Rightarrow> (Inl (MemoryIo (''bundle '' @ archive @ '' is not a valid zip: '' @ e)), st)
      | Inr ms \<Rightarrow> (case import_members q env pdf_built pdf cfg archive ms st of (rs, st') \<Rightarrow> (Inr rs, st')))"

subsection \<open>Extraction\<close>

record memory_proposal =
  mp_scope :: memory_scope
  mp_name :: string
  mp_content :: string
  mp_confidence :: "string option"

definition speaker_label :: "role \<Rightarrow> string" where
  "speaker_label r = (case r of User \<Rightarrow> ''USER'' | Assistant \<Rightarrow> ''ASSISTANT'' | Tool \<Rightarrow> ''TOOL'' | System \<Rightarrow> ''SYSTEM'')"

fun transcript_blocks :: "string \<Rightarrow> content_block list \<Rightarrow> string" where
  "transcript_blocks l [] = []"
| "transcript_blocks l (Text t # bs) =
     (let cleaned = sanitize_context t
      in (if trim cleaned = [] then [] else l @ '': '' @ cleaned @ [newline]) @ transcript_blocks l bs)"
| "transcript_blocks l (_ # bs) = transcript_blocks l bs"

definition render_transcript :: "message list \<Rightarrow> string" where
  "render_transcript msgs = concat (map (\<lambda>m. transcript_blocks (speaker_label (m_role m)) (m_content m)) msgs)"

definition existing_manifest :: "'h memory_env \<Rightarrow> mem_tree option \<Rightarrow> string" where
  "existing_manifest env tree =
     (case tree of
        None \<Rightarrow> []
      | Some t \<Rightarrow>
          (case memory_list_all env t of
             Inl _ \<Rightarrow> []
           | Inr entries \<Rightarrow>
               if entries = [] then []
               else ''Existing memories in this project (do NOT propose names that collide with these; ''
                 @ ''a different angle on the same topic should use a different name):'' @ [newline]
                 @ concat (map (\<lambda>s. let names = map snd (filter (\<lambda>e. fst e = s) entries)
                     in if names = [] then []
                        else [newline] @ ''['' @ dir_name s @ ''] ('' @ show_nat (length names) @ '' entries)'' @ [newline]
                          @ concat (map (\<lambda>n. ''  - '' @ n @ [newline]) names)) all_scopes)
                 @ [newline]))"

text \<open>\<open>serde\<close>: a scope is its name, or an object of that name and null; a struct is an object or the list of its fields.\<close>

fun scope_of_json :: "json \<Rightarrow> memory_scope option" where
  "scope_of_json (JString s) = from_dir_name s"
| "scope_of_json (JObject [(s, JNull)]) = from_dir_name s"
| "scope_of_json _ = None"

fun confidence_of_json :: "json \<Rightarrow> string option option" where
  "confidence_of_json JNull = Some None"
| "confidence_of_json (JNumber n) = Some (Some n)"
| "confidence_of_json _ = None"

fun proposal_of_fields :: "json option \<Rightarrow> json option \<Rightarrow> json option \<Rightarrow> json option \<Rightarrow> memory_proposal option" where
  "proposal_of_fields (Some s) (Some (JString n)) (Some (JString c)) conf =
     (case scope_of_json s of
        None \<Rightarrow> None
      | Some sc \<Rightarrow> map_option (\<lambda>f. \<lparr>mp_scope = sc, mp_name = n, mp_content = c, mp_confidence = f\<rparr>)
          (case conf of None \<Rightarrow> Some None | Some v \<Rightarrow> confidence_of_json v))"
| "proposal_of_fields _ _ _ _ = None"

definition PROPOSAL_FIELDS :: "string list" where
  "PROPOSAL_FIELDS = [''scope'', ''name'', ''content'', ''confidence'']"

fun proposal_of_json :: "json \<Rightarrow> memory_proposal option" where
  "proposal_of_json (JObject kvs) =
     (if distinct (filter (\<lambda>k. k \<in> set PROPOSAL_FIELDS) (map fst kvs))
      then proposal_of_fields (map_of kvs ''scope'') (map_of kvs ''name'') (map_of kvs ''content'') (map_of kvs ''confidence'')
      else None)"
| "proposal_of_json (JArray [s, n, c]) = proposal_of_fields (Some s) (Some n) (Some c) None"
| "proposal_of_json (JArray [s, n, c, f]) = proposal_of_fields (Some s) (Some n) (Some c) (Some f)"
| "proposal_of_json _ = None"

definition proposals_of_json :: "json \<Rightarrow> memory_proposal list option" where
  "proposals_of_json v =
     (case v of
        JArray vs \<Rightarrow> if list_all (\<lambda>v. proposal_of_json v \<noteq> None) vs then Some (List.map_filter proposal_of_json vs) else None
      | _ \<Rightarrow> None)"

definition backticks :: string where "backticks = ''```''"

definition parse_proposals :: "(string \<Rightarrow> json option) \<Rightarrow> string \<Rightarrow> memory_proposal list" where
  "parse_proposals parse raw =
     (let trimmed = trim raw;
          opened = (if prefix (backticks @ ''json'') trimmed then trim_start (drop 7 trimmed)
                    else if prefix backticks trimmed then trim_start (drop 3 trimmed)
                    else trimmed);
          stripped = or_else (map_option trim_end (strip_ending backticks opened)) opened
      in or_else (Option.bind (parse stripped) proposals_of_json) [])"

definition acceptable_proposal :: "memory_proposal \<Rightarrow> bool" where
  "acceptable_proposal p \<longleftrightarrow> sanitize_name (mp_name p) = Inr (mp_name p) \<and> mp_scope p \<in> set [UserScope, FeedbackScope]"

text \<open>\<open>ask\<close> is the call of the model: the content of its answer to the user message, \<open>None\<close> when it fails.\<close>

definition llm_extract ::
  "'h memory_env \<Rightarrow> (string \<Rightarrow> json option) \<Rightarrow> (string \<Rightarrow> content_block list option) \<Rightarrow> nat \<Rightarrow> mem_tree option \<Rightarrow> message list
     \<Rightarrow> memory_proposal list" where
  "llm_extract env parse ask max_proposals tree msgs =
     (let transcript = render_transcript msgs
      in if trim transcript = [] then []
         else case ask (existing_manifest env tree @ ''Conversation transcript:'' @ [newline, newline] @ transcript) of
                None \<Rightarrow> []
              | Some content \<Rightarrow> take max_proposals (filter acceptable_proposal (parse_proposals parse (glue [newline] (block_texts content)))))"

definition SENSITIVE_PATTERNS :: "string list" where
  "SENSITIVE_PATTERNS = [''email'', ''phone'', ''api_key_openai'', ''api_key_anthropic'', ''api_key_aws'', ''bearer_token'']"

definition first_sensitive :: "(string \<Rightarrow> string \<Rightarrow> bool) \<Rightarrow> string list \<Rightarrow> string \<Rightarrow> string option" where
  "first_sensitive found patterns t = find (\<lambda>p. found p t) patterns"

definition filtered_proposals :: "(string \<Rightarrow> string \<Rightarrow> bool) \<Rightarrow> string list \<Rightarrow> memory_proposal list \<Rightarrow> memory_proposal list" where
  "filtered_proposals found patterns ps = filter (\<lambda>p. first_sensitive found patterns (mp_content p) = None) ps"

text \<open>The write of each proposal; \<open>now\<close> gives the times.\<close>

fun apply_proposals ::
  "'h memory_env \<Rightarrow> 'f float_ops \<Rightarrow> 'p memory_provider option \<Rightarrow> (nat \<Rightarrow> string) \<Rightarrow> memory_proposal list \<Rightarrow> 'h memory_store \<times> 'p
     \<Rightarrow> 'h memory_store \<times> 'p" where
  "apply_proposals env ops prov now [] sp = sp"
| "apply_proposals env ops prov now (p # ps) sp =
     (if mp_scope p \<notin> set [UserScope, FeedbackScope] then apply_proposals env ops prov now ps sp
      else
        (let wrapped = render_with_frontmatter ops \<lparr>mm_source = Some ''extractor'', mm_confidence = None, mm_created_at = Some (now (length ps))\<rparr> (mp_content p)
         in apply_proposals env ops prov now ps
              (case sp of (st, pst) \<Rightarrow>
                 (case prov of
                    Some pr \<Rightarrow>
                      (case pr_write pr (dir_name (mp_scope p)) (mp_name p) wrapped pst of
                         (Inl _, pst') \<Rightarrow> (st, pst')
                       | (Inr _, pst') \<Rightarrow> (st, pr_written pr (dir_name (mp_scope p)) (mp_name p) pst'))
                  | None \<Rightarrow> (snd (memory_write_force env st (mp_scope p) (mp_name p) wrapped), pst)))))"

text \<open>The background task: it reads the recent messages and applies what the extractor proposes with a store of its own.\<close>

definition spawn_memory_extraction ::
  "'h memory_env \<Rightarrow> 'f float_ops \<Rightarrow> 'p memory_provider option \<Rightarrow> (nat \<Rightarrow> string) \<Rightarrow> (mem_tree \<Rightarrow> message list \<Rightarrow> memory_proposal list) option
     \<Rightarrow> message list option \<Rightarrow> mem_tree \<times> 'p \<Rightarrow> mem_tree \<times> 'p" where
  "spawn_memory_extraction env ops prov now extractor history tp =
     (case (extractor, history, tp) of
        (Some ex, Some msgs, (t, ps)) \<Rightarrow>
          (case apply_proposals env ops prov now (ex t msgs) (fresh_store t, ps) of (st, ps') \<Rightarrow> (ms_tree st, ps'))
      | _ \<Rightarrow> tp)"

subsection \<open>Approval\<close>

lemma dir_not_pending [simp]: "dir_name s \<noteq> ''pending''" "''pending'' \<noteq> dir_name s"
  by (cases s; simp)+

lemma pending_not_entry [simp]: "pending_path i \<noteq> entry_path s n" "entry_path s n \<noteq> pending_path i"
  unfolding pending_path_def entry_path_def using dir_not_pending by blast+

lemma pending_not_backup [simp]: "backup_path_for ts (entry_path s n) \<noteq> pending_path i" "pending_path i \<noteq> backup_path_for ts (entry_path s n)"
  unfolding pending_path_def backup_of_entry using dir_not_pending by blast+

lemma pending_not_index [simp]: "pending_path i \<noteq> index_path"
  by (simp add: pending_path_def index_path_def)

lemma pending_not_counts [simp]: "\<not> counts (pending_path i)"
  unfolding counts_def pending_path_def using dir_not_pending by blast

lemma render_other:
  assumes "\<And>s n. map_of (ms_tree st') (entry_path s n) = map_of (ms_tree st) (entry_path s n)"
    and "\<And>s. entry_names (ms_tree st') s = entry_names (ms_tree st) s"
  shows "fst (render_snapshot env ops limit st') = fst (render_snapshot env ops limit st)"
proof (rule render_cong)
  have same: "mem_read_text env (ms_tree st') (entry_path s n) = mem_read_text env (ms_tree st) (entry_path s n)" for s n
    unfolding mem_read_text_def mem_read_def assms(1) ..
  show "entry_chunk env ops (ms_tree st') x = entry_chunk env ops (ms_tree st) x" for x
    unfolding entry_chunk_def same ..
qed (rule assms(2))

lemma fresh_simps [simp]: "ms_tree (fresh_store t) = t" "ms_seen (fresh_store t) p = None"
  by (simp_all add: fresh_store_def)

lemma stage_other: "p \<noteq> pending_path (pd_id pd) \<Longrightarrow> map_of (snd (stage_pending env codec t pd)) p = map_of t p"
  using mem_write_other [of p "pending_path (pd_id pd)" env t "pc_ser codec pd"]
  by (cases "mem_write env t (pending_path (pd_id pd)) (pc_ser codec pd)") (auto simp: stage_pending_def split: option.split)

lemma stage_names: "entry_names (snd (stage_pending env codec t pd)) s = entry_names t s"
  by (simp add: stage_pending_def mem_write_def names_update split: option.split prod.split)

text \<open>C22: With approval on, the model cannot write memory.  Whatever the tool is given, every file but the one staged is as it was,
  providers are not asked, and the snapshot for the prompt is the same.\<close>

theorem approval_holds_writes:
  assumes "memory_write_tool q env codec True prov fresh now s x c (st, ps) = (r, st', ps')"
  shows "ps' = ps \<and> (\<forall>p. p \<noteq> pending_path fresh \<longrightarrow> map_of (ms_tree st') p = map_of (ms_tree st) p)
    \<and> fst (render_snapshot env' ops limit st') = fst (render_snapshot env' ops limit st)"
proof -
  let ?pd = "\<lparr>pd_id = fresh, pd_scope = s, pd_name = x, pd_content = c, pd_by = ''memory_write'', pd_at = now\<rparr>"
  have t: "ps' = ps \<and> (st' = st \<or> st' = st\<lparr>ms_tree := snd (stage_pending env codec (ms_tree st) ?pd)\<rparr>)"
    using assms by (auto simp: memory_write_tool_def split: if_splits sum.splits prod.splits)
  have o: "p \<noteq> pending_path fresh \<Longrightarrow> map_of (ms_tree st') p = map_of (ms_tree st) p" for p
    using t stage_other [of p ?pd env codec "ms_tree st"] by auto
  have n: "entry_names (ms_tree st') sc = entry_names (ms_tree st) sc" for sc
    using t stage_names by auto
  have "fst (render_snapshot env' ops limit st') = fst (render_snapshot env' ops limit st)"
    by (rule render_other) (simp_all add: o n)
  with t o show ?thesis by blast
qed

lemma stage_ok:
  assumes "stage_pending env codec t pd = (Inr p, t')"
  shows "pending_id_is_safe (pd_id pd)" "map_of t' (pending_path (pd_id pd)) = Some (pc_ser codec pd)"
  using assms by (auto simp: stage_pending_def mem_write_ok update_conv' split: if_splits option.splits prod.splits)

text \<open>C21: What was staged is what gets written, once.  A write the tool staged and a human approved on a store of their own is the
  entry with the model's text under the canonical name; the request is gone then, and approving it again fails.\<close>

theorem approval_applies_staged:
  assumes "memory_write_tool q env codec True None fresh now s x c (st, ps) = (Inr out, st', ps')"
    and "\<And>p. pc_par codec (pc_ser codec p) = Inr p" "mv_fault env' = (\<lambda>_ _. None)" "threat_scan (mv_hits env') c = None"
  shows "\<exists>sc n st2. from_dir_name s = Some sc \<and> sanitize_name x = Inr n
    \<and> approve_pending env' codec (fresh_store (ms_tree st')) fresh False = (Inr \<lparr>me_scope = sc, me_name = n, me_content = c\<rparr>, st2)
    \<and> map_of (ms_tree st2) (entry_path sc n) = Some c
    \<and> fst (approve_pending env' codec st2 fresh bypass) = Inl (EntryNotFound UserScope fresh)"
proof -
  let ?pd = "\<lparr>pd_id = fresh, pd_scope = s, pd_name = x, pd_content = c, pd_by = ''memory_write'', pd_at = now\<rparr>"
  obtain sc n p t' where n: "parse_memory_scope s = Inr sc" "sanitize_name x = Inr n"
    "stage_pending env codec (ms_tree st) ?pd = (Inr p, t')" "st' = st\<lparr>ms_tree := t'\<rparr>"
    using assms(1)
    by (cases "fst (stage_pending env codec (ms_tree st) ?pd)") (auto simp: memory_write_tool_def split: sum.splits prod.splits)
  have sc: "from_dir_name s = Some sc" using n(1) by (simp add: parse_memory_scope_def split: option.splits)
  have safe: "pending_id_is_safe fresh" and there: "map_of t' (pending_path fresh) = Some (pc_ser codec ?pd)"
    using stage_ok [OF n(3)] by simp_all
  have load: "load_pending env' codec t' fresh = Inr ?pd"
    using safe there assms(2,3) by (simp add: load_pending_def read_pending_def mem_read_def)
  let ?st = "fresh_store t'"
  have drift: "drift_check env' ?st (entry_path sc n) = None"
    using assms(3) by (simp add: drift_check_def mem_read_def split: option.split)
  obtain st2 where w: "memory_write env' ?st sc x c = (Inr \<lparr>me_scope = sc, me_name = n, me_content = c\<rparr>, st2)"
    using write_lands [OF assms(3,4) n(2) drift] by (metis prod.collapse)
  have stored: "map_of (ms_tree st2) (entry_path sc n) = Some c"
    using write_ok [OF w] n(2) land_ok(2) by fastforce
  let ?st3 = "st2\<lparr>ms_tree := AList.delete (pending_path fresh) (ms_tree st2)\<rparr>"
  have a: "approve_pending env' codec ?st fresh False = (Inr \<lparr>me_scope = sc, me_name = n, me_content = c\<rparr>, ?st3)"
    using load w n(1) assms(3) by (simp add: approve_pending_def)
  have "fst (approve_pending env' codec ?st3 fresh bypass) = Inl (EntryNotFound UserScope fresh)"
    using safe assms(3) by (simp add: approve_pending_def load_pending_def read_pending_def mem_read_def delete_conv')
  moreover have "map_of (ms_tree ?st3) (entry_path sc n) = Some c" using stored by (simp add: delete_conv')
  ultimately show ?thesis using sc n(2,4) a by auto
qed

text \<open>An approval that fails loses nothing.  When an approved write is refused or goes wrong, the request is still there; when a
  request is rejected, every other file is as it was.\<close>

theorem failed_approval_keeps_request:
  "(approve_pending env codec st i bypass = (Inl e, st') \<longrightarrow> map_of (ms_tree st') (pending_path i) = map_of (ms_tree st) (pending_path i))
    \<and> (\<forall>p. p \<noteq> pending_path i \<longrightarrow> map_of (snd (reject_pending env codec t i)) p = map_of t p)"
proof (intro conjI impI allI)
  assume a: "approve_pending env codec st i bypass = (Inl e, st')"
  have "map_of (ms_tree (snd (memory_write env st s x c))) (pending_path i) = map_of (ms_tree st) (pending_path i)"
    "map_of (ms_tree (snd (memory_write_force env st s x c))) (pending_path i) = map_of (ms_tree st) (pending_path i)" for s x c
    by (rule write_other force_other, simp_all)+
  with a show "map_of (ms_tree st') (pending_path i) = map_of (ms_tree st) (pending_path i)"
    by (auto simp: approve_pending_def split: sum.splits prod.splits if_splits) (metis snd_conv)+
next
  fix p assume "p \<noteq> pending_path i"
  then show "map_of (snd (reject_pending env codec t i)) p = map_of t p"
    by (simp add: reject_pending_def delete_conv' split: sum.split option.split)
qed

subsection \<open>The built-in provider\<close>

text \<open>Behind the built-in provider nothing drifts.  Each call has a store of its own, so that a write replaces whatever is there,
  also what another writer put there after the model read the entry.\<close>

theorem provider_writes_over_changes:
  assumes "mv_fault env = (\<lambda>_ _. None)" "threat_scan (mv_hits env) c = None" "sanitize_name x = Inr n"
    and "pr_read (file_tree_provider q env ops) (dir_name sc) x t = (Inr (d, n', b), t1)" "map_of t2 (entry_path sc n) = Some b'"
  shows "\<exists>t3. pr_write (file_tree_provider q env ops) (dir_name sc) x c t2 = (Inr (dir_name sc, n, c), t3)
    \<and> map_of t3 (entry_path sc n) = Some c"
proof -
  have sc: "from_dir_name (dir_name sc) = Some sc" by (cases sc) (simp_all add: from_dir_name_def)
  let ?st = "fresh_store t2"
  have "drift_check env ?st (entry_path sc n) = None"
    using assms(1,5) by (simp add: drift_check_def mem_read_def)
  from write_lands [OF assms(1,2,3) this] obtain st3 where w: "memory_write env ?st sc x c = (Inr \<lparr>me_scope = sc, me_name = n, me_content = c\<rparr>, st3)"
    by (metis prod.collapse)
  have "map_of (ms_tree st3) (entry_path sc n) = Some c"
    using write_ok [OF w] assms(3) land_ok(2) by fastforce
  then show ?thesis using w sc by (simp add: file_tree_provider_def with_scope_def entry_data_def)
qed

subsection \<open>Imports\<close>

lemma slug_chars: "list_all name_char (slug_text f)"
proof -
  have sq: "set (squeeze_dashes b s) \<subseteq> set s" for b s
    by (induction b s rule: squeeze_dashes.induct) auto
  have "name_char (slug_char c)" for c
    by (simp add: slug_char_def) (simp add: name_char_def)
  then have "list_all name_char (squeeze_dashes True (map slug_char s))" for s
    using sq [of True "map slug_char s"] by (auto simp: list_all_iff)
  then show ?thesis
    by (auto simp: slug_text_def trim_end_dashes_def list_all_iff dest!: set_dropWhileD)
qed

lemma long_slug: "64 < length (slug_text f) \<Longrightarrow> base_slug f = ''import''"
proof -
  assume l: "64 < length (slug_text f)"
  let ?s = "slug_text f"
  have ne: "?s \<noteq> []" using l by auto
  have vis: "in_range 0x21 0x7E (hd ?s)" "in_range 0x21 0x7E (last ?s)"
    using slug_chars [of f] ne by (simp_all add: list_all_iff name_char_props(4))
  have "trim ?s = ?s" using ne vis by (rule trim_visible)
  moreover have "map ascii_lower ?s = ?s"
    using slug_chars [of f] by (intro map_idI) (simp add: list_all_iff name_char_props(1))
  moreover have "\<not> suffix ''.md'' ?s"
    using slug_chars [of f] by (auto simp: suffix_def name_char_props)
  ultimately have "sanitize_name ?s = Inl (InvalidName ?s (''max 64 chars; got '' @ show_nat (length ?s)))"
    using l ne by (simp add: sanitize_name_def strip_ending_def or_else_def Let_def)
  then show ?thesis by (simp add: base_slug_def)
qed

lemma import_valid: "valid_name ''import''"
  by (simp add: valid_name_def name_char_def)

lemma force_ok:
  assumes "memory_write_force env st s x c = (Inr e, st')"
  shows "\<exists>n. sanitize_name x = Inr n \<and> land_entry env st s n c = (Inr e, st')"
  using assms by (auto simp: memory_write_force_def split: sum.splits option.splits)

text \<open>Long file names overwrite each other.  Two files whose names give more than 64 characters are both imported as
  \<open>import\<close>: both imports report success, and only the second text is left.\<close>

theorem long_names_overwrite:
  assumes "64 < length (slug_text f)" "64 < length (slug_text g)" "trim (from_utf8_lossy b) \<noteq> []" "trim (from_utf8_lossy b') \<noteq> []"
    and "import_one q env pdf cfg \<lparr>is_bytes = b, is_filename = f, is_kind = Some PlainText\<rparr> st = (Inr r, st1)"
    and "import_one q env pdf cfg \<lparr>is_bytes = b', is_filename = g, is_kind = Some PlainText\<rparr> st1 = (Inr r', st2)"
  shows "ir_entries r = [(ic_scope cfg, ''import'')] \<and> ir_entries r' = [(ic_scope cfg, ''import'')]
    \<and> map_of (ms_tree st2) (entry_path (ic_scope cfg) ''import'') = Some (from_utf8_lossy b')"
proof -
  have w: "ir_entries r = [(ic_scope cfg, ''import'')] \<and> map_of (ms_tree st') (entry_path (ic_scope cfg) ''import'') = Some (from_utf8_lossy b)"
    if long: "64 < length (slug_text f)" and body: "trim (from_utf8_lossy b) \<noteq> []"
      and ok: "import_one q env pdf cfg \<lparr>is_bytes = b, is_filename = f, is_kind = Some PlainText\<rparr> st = (Inr r, st')" for f b r st st'
  proof -
    obtain e where e: "memory_write_force env st (ic_scope cfg) ''import'' (from_utf8_lossy b) = (Inr e, st')"
        "ir_entries r = [(me_scope e, me_name e)]"
      using body ok long_slug [OF long] sanitize_valid [OF import_valid]
      by (auto simp: import_one_def split: if_splits sum.splits prod.splits)
    then show ?thesis using force_ok [OF e(1)] sanitize_valid [OF import_valid] land_ok(1,2) by fastforce
  qed
  show ?thesis using w [OF assms(1,3,5)] w [OF assms(2,4,6)] by blast
qed

lemma import_other:
  assumes "p \<noteq> index_path" "\<And>s n. p = entry_path s n \<Longrightarrow> s \<notin> {ProjectScope, ReferenceScope}"
  shows "map_of (ms_tree (snd (import_one q env pdf cfg src st))) p = map_of (ms_tree st) p"
proof (cases "ic_scope cfg \<in> {ProjectScope, ReferenceScope}")
  case True
  have "map_of (ms_tree (snd (memory_write_force env st (ic_scope cfg) x c))) p = map_of (ms_tree st) p" for x c
    using assms True by (intro force_other) auto
  then show ?thesis
    by (auto simp: import_one_def Let_def split: sum.splits prod.splits source_kind.splits memory_error.splits) (metis snd_conv)+
qed (auto simp: import_one_def)

text \<open>Imports stay out of what the conversation owns.  Importing an archive, whatever its members, changes only the index and
  entries of \<open>project\<close> and \<open>reference\<close>.\<close>

theorem imports_stay_out:
  assumes "import_bundle q env unzip pdf_built pdf cfg bytes archive st = (r, st')"
    and "map_of (ms_tree st') p \<noteq> map_of (ms_tree st) p"
  shows "p = index_path \<or> (\<exists>s n. s \<in> {ProjectScope, ReferenceScope} \<and> p = entry_path s n)"
proof (rule ccontr)
  assume "\<not> ?thesis"
  then have p: "p \<noteq> index_path" "\<And>s n. p = entry_path s n \<Longrightarrow> s \<notin> {ProjectScope, ReferenceScope}" by auto
  have "map_of (ms_tree (snd (import_members q env pdf_built pdf cfg archive ms st))) p = map_of (ms_tree st) p" for ms
  proof (induction ms arbitrary: st)
    case (Cons m ms)
    show ?case
    proof (cases "importable pdf_built m")
      case (Some zkb)
      obtain z k b where z: "zkb = (z, k, b)" by (cases zkb) auto
      let ?i = "import_one q env pdf cfg \<lparr>is_bytes = b, is_filename = member_filename archive (zm_name z), is_kind = Some k\<rparr> st"
      have "map_of (ms_tree (snd ?i)) p = map_of (ms_tree st) p" by (rule import_other [OF p])
      then show ?thesis using Cons.IH [of "snd ?i"] Some z
        by (cases ?i) (auto split: sum.split prod.splits)
    qed (simp add: Cons.IH)
  qed simp
  then have "map_of (ms_tree st') p = map_of (ms_tree st) p"
    using assms(1) by (auto simp: import_bundle_def split: sum.splits prod.splits) (metis snd_conv)
  with assms(2) show False by simp
qed

subsection \<open>Extraction\<close>

lemma apply_other:
  assumes "p \<noteq> index_path" "\<And>s n. p = entry_path s n \<Longrightarrow> s \<notin> {UserScope, FeedbackScope}"
  shows "map_of (ms_tree (fst (apply_proposals env ops None now ps sp))) p = map_of (ms_tree (fst sp)) p"
proof (induction ps arbitrary: sp)
  case (Cons pr ps)
  obtain st pst where sp: "sp = (st, pst)" by fastforce
  show ?case
  proof (cases "mp_scope pr \<in> {UserScope, FeedbackScope}")
    case True
    have "map_of (ms_tree (snd (memory_write_force env st (mp_scope pr) (mp_name pr) w))) p = map_of (ms_tree st) p" for w
      using assms True by (intro force_other) auto
    with True Cons.IH show ?thesis by (simp add: sp Let_def)
  next
    case False
    with Cons.IH show ?thesis by simp
  qed
qed simp

text \<open>What is mined stays personal.  The background extraction, whatever the model answers, changes only the index and entries of
  \<open>user\<close> and \<open>feedback\<close>; what the model's extractor proposes has canonical names there, at most as many as allowed.\<close>

theorem extraction_stays_personal:
  assumes "map_of (fst (spawn_memory_extraction env ops None now extractor history (t, ps))) p \<noteq> map_of t p"
  shows "p = index_path \<or> (\<exists>s n. s \<in> {UserScope, FeedbackScope} \<and> p = entry_path s n)"
proof (rule ccontr)
  assume "\<not> ?thesis"
  then have p: "p \<noteq> index_path" "\<And>s n. p = entry_path s n \<Longrightarrow> s \<notin> {UserScope, FeedbackScope}" by auto
  have "map_of (fst (spawn_memory_extraction env ops None now extractor history (t, ps))) p = map_of t p"
  proof (cases extractor)
    case (Some ex)
    show ?thesis
    proof (cases history)
      case (Some msgs)
      obtain st ps' where a: "apply_proposals env ops None now (ex t msgs) (fresh_store t, ps) = (st, ps')" by fastforce
      have "map_of (ms_tree st) p = map_of t p"
        using apply_other [OF p, where env = env and ops = ops and now = now and ps = "ex t msgs" and sp = "(fresh_store t, ps)"] a by simp
      then show ?thesis using a Some \<open>extractor = Some ex\<close> by (simp add: spawn_memory_extraction_def)
    qed (simp add: spawn_memory_extraction_def Some)
  qed (simp add: spawn_memory_extraction_def)
  with assms show False by simp
qed

text \<open>Extracted proposals are acceptable: at most as many as allowed, each with a canonical name and a personal scope.\<close>

theorem extracted_proposals_acceptable:
  "length (llm_extract env parse ask k tree msgs) \<le> k
    \<and> (\<forall>p \<in> set (llm_extract env parse ask k tree msgs). valid_name (mp_name p) \<and> mp_scope p \<in> {UserScope, FeedbackScope})"
  by (auto simp: llm_extract_def Let_def acceptable_proposal_def split: option.splits dest!: in_set_takeD dest: sanitized_valid)

text \<open>The background turn needs no approval.  A proposal of the extractor is in the user's memory as soon as the task has run,
  whether or not writes need approval, and even when the scanner would have refused the text.\<close>

theorem extraction_bypasses_approval:
  assumes "mv_fault env = (\<lambda>_ _. None)" "sanitize_name (mp_name p) = Inr n" "mp_scope p \<in> {UserScope, FeedbackScope}"
    and "threat_scan (mv_hits env) (mp_content p) = Some hit"
  shows "map_of (fst (spawn_memory_extraction env ops None now (Some (\<lambda>_ _. [p])) (Some msgs) (t, ps))) (entry_path (mp_scope p) n)
    = Some (render_with_frontmatter ops \<lparr>mm_source = Some ''extractor'', mm_confidence = None, mm_created_at = Some (now 0)\<rparr> (mp_content p))"
proof -
  let ?w = "render_with_frontmatter ops \<lparr>mm_source = Some ''extractor'', mm_confidence = None, mm_created_at = Some (now 0)\<rparr> (mp_content p)"
  obtain st where w: "memory_write_force env (fresh_store t) (mp_scope p) (mp_name p) ?w = (Inr \<lparr>me_scope = mp_scope p, me_name = n, me_content = ?w\<rparr>, st)"
    using force_lands [OF assms(1,2)] by (metis prod.collapse)
  have "map_of (ms_tree st) (entry_path (mp_scope p) n) = Some ?w"
    using force_ok [OF w] assms(2) land_ok(2) by fastforce
  then show ?thesis using w assms(3) by (simp add: spawn_memory_extraction_def Let_def)
qed

text \<open>One bad proposal discards all.  An answer in which any element is not a proposal, be it for an unknown scope, gives none.\<close>

theorem bad_proposal_discards_all:
  assumes "proposal_of_json v = None" "v \<in> set vs" "\<And>s. parse s = Some (JArray vs)"
  shows "parse_proposals parse raw = []"
  using assms by (auto simp: parse_proposals_def proposals_of_json_def list_all_iff or_else_def Let_def)

subsection \<open>Concrete inputs\<close>

text \<open>A codec of staged files: every character behind a plus sign, every field ended by a dot.\<close>

definition put_field :: "string \<Rightarrow> string" where
  "put_field f = concat (map (\<lambda>c. [CHR ''+'', c]) f) @ ''.''"

fun get_field :: "string \<Rightarrow> string \<times> string" where
  "get_field (p # c # s) = (if p = CHR ''+'' then apfst ((#) c) (get_field s) else ([], c # s))"
| "get_field s = ([], [])"

definition plus_codec :: pending_codec where
  "plus_codec = \<lparr>pc_ser = (\<lambda>p. put_field (pd_id p) @ put_field (pd_scope p) @ put_field (pd_name p) @ put_field (pd_content p)
       @ put_field (pd_by p) @ put_field (pd_at p)),
     pc_par = (\<lambda>s. let (a, s) = get_field s; (b, s) = get_field s; (c, s) = get_field s; (d, s) = get_field s; (e, s) = get_field s; (f, s) = get_field s
       in Inr \<lparr>pd_id = a, pd_scope = b, pd_name = c, pd_content = d, pd_by = e, pd_at = f\<rparr>)\<rparr>"

lemma get_put: "fst (get_field (put_field f @ r)) = f" "r \<noteq> [] \<Longrightarrow> get_field (put_field f @ r) = (f, r)"
proof (induction f)
  case Nil
  {
    case 1 show ?case by (cases r) (simp_all add: put_field_def)
  next
    case 2 then show ?case by (cases r) (simp_all add: put_field_def)
  }
qed (simp_all add: put_field_def)

lemma plus_codec_ok: "pc_par plus_codec (pc_ser plus_codec p) = Inr p"
proof -
  have ne: "put_field f \<noteq> []" for f by (simp add: put_field_def)
  have l: "fst (get_field (put_field f)) = f" for f using get_put(1) [of f "[]"] by simp
  show ?thesis
    using l [of "pd_at p"] by (cases p) (auto simp: plus_codec_def get_put(2) ne Let_def split: prod.split)
qed

definition bare_texts :: debug_texts where
  "bare_texts = \<lparr>dt_quote = (\<lambda>s. s), dt_path = (\<lambda>p. glue ''/'' p)\<rparr>"

lemma tone_staged:
  "\<exists>out st. memory_write_tool bare_texts calm_env plus_codec True None ''p1'' ''now'' ''user'' ''Tone.md'' ''terse'' (no_memory, ()) = (Inr out, st, ())"
proof -
  have "trim ''Tone.md'' = ''Tone.md''" by (simp add: trim_visible in_range_def)
  moreover have "ascii_lower (CHR ''T'') = CHR ''t''" by code_simp
  ultimately have "sanitize_name ''Tone.md'' = Inr ''tone''"
    by (simp add: sanitize_name_def or_else_def strip_ending_def suffix_def name_char_props(1) name_char_def)
  moreover have "pending_id_is_safe ''p1''" by (simp add: pending_id_is_safe_def name_char_def)
  ultimately show ?thesis
    by (simp add: memory_write_tool_def parse_memory_scope_def from_dir_name_def stage_pending_def mem_write_def no_memory_def)
qed

theorem approval_holds_writes_witness:
  "fst (render_snapshot calm_env plain_ops 8000
      (fst (snd (memory_write_tool bare_texts calm_env plus_codec True None ''p1'' ''now'' ''user'' ''Tone.md'' ''terse'' (no_memory, ())))))
   = fst (render_snapshot calm_env plain_ops 8000 no_memory)"
proof -
  obtain r st ps where t: "memory_write_tool bare_texts calm_env plus_codec True None ''p1'' ''now'' ''user'' ''Tone.md'' ''terse'' (no_memory, ()) = (r, st, ps)"
    by (metis prod_cases3)
  show ?thesis using approval_holds_writes [OF t, of calm_env plain_ops 8000] unfolding t fst_conv snd_conv by blast
qed

theorem approval_applies_staged_witness:
  "\<exists>out st st2. memory_write_tool bare_texts calm_env plus_codec True None ''p1'' ''now'' ''user'' ''Tone.md'' ''terse'' (no_memory, ()) = (Inr out, st, ())
    \<and> snd (approve_pending calm_env plus_codec (fresh_store (ms_tree st)) ''p1'' False) = st2
    \<and> fst (approve_pending calm_env plus_codec st2 ''p1'' True) = Inl (EntryNotFound UserScope ''p1'')"
proof -
  obtain out st where t: "memory_write_tool bare_texts calm_env plus_codec True None ''p1'' ''now'' ''user'' ''Tone.md'' ''terse'' (no_memory, ()) = (Inr out, st, ())"
    using tone_staged by blast
  show ?thesis
    using approval_applies_staged [OF t plus_codec_ok calm_simps(1) calm_simps(4), of True] t by (metis snd_conv)
qed

theorem failed_approval_keeps_request_witness:
  "map_of (ms_tree (snd (approve_pending calm_env plus_codec tone_memory ''p1'' False))) (pending_path ''p1'') = None
    \<and> map_of (snd (reject_pending calm_env plus_codec (ms_tree tone_memory) ''p1'')) (entry_path UserScope ''tone'') = Some ''terse''"
proof -
  have n: "map_of (ms_tree tone_memory) (pending_path ''p1'') = None" by (simp add: tone_memory_def)
  have "pending_id_is_safe ''p1''" by (simp add: pending_id_is_safe_def name_char_def)
  then have "approve_pending calm_env plus_codec tone_memory ''p1'' False = (Inl (EntryNotFound UserScope ''p1''), tone_memory)"
    using n by (simp add: approve_pending_def load_pending_def read_pending_def mem_read_def)
  then show ?thesis
    using failed_approval_keeps_request [of calm_env plus_codec tone_memory "''p1''" False "EntryNotFound UserScope ''p1''" tone_memory "ms_tree tone_memory"] n
    by (simp add: tone_memory_def)
qed

theorem provider_writes_over_changes_witness:
  "\<exists>t. pr_write (file_tree_provider bare_texts calm_env plain_ops) ''user'' ''tone'' ''new'' [(entry_path UserScope ''tone'', ''warm'')]
      = (Inr (''user'', ''tone'', ''new''), t) \<and> map_of t (entry_path UserScope ''tone'') = Some ''new''"
proof -
  have f: "fresh_store [(entry_path UserScope ''tone'', ''terse'')] = \<lparr>ms_seen = (\<lambda>_. None), ms_tree = [(entry_path UserScope ''tone'', ''terse'')]\<rparr>"
    by (simp add: fresh_store_def)
  have "pr_read (file_tree_provider bare_texts calm_env plain_ops) (dir_name UserScope) ''tone'' [(entry_path UserScope ''tone'', ''terse'')]
      = (Inr (''user'', ''tone'', ''terse''), [(entry_path UserScope ''tone'', ''terse'')])"
    using tone_read unfolding f [symmetric]
    by (simp add: file_tree_provider_def with_scope_def from_dir_name_def entry_data_def)
  from provider_writes_over_changes [OF calm_simps(1) calm_simps(4) sanitize_valid [OF tone_name] this, of "[(entry_path UserScope ''tone'', ''warm'')]" "''warm''" "''new''"]
  show ?thesis by simp
qed

lemma plain_slug:
  assumes "s \<noteq> []" "list_all name_char s" "CHR ''-'' \<notin> set s"
  shows "slug_text s = s"
proof -
  have free: "CHR ''/'' \<notin> set s" "CHR ''.'' \<notin> set s"
    using assms(2) by (auto simp: list_all_iff name_char_props)
  have "CHR ''/'' \<notin> set t \<Longrightarrow> split_slash t = [t]" for t by (induction t) auto
  then have "components s = [Normal s]"
    using free assms(1) by (cases s) (auto simp: components_def component_of_def)
  then have f: "path_file_name s = Some s" by (simp add: path_file_name_def)
  have tw: "takeWhile (\<lambda>c. c \<noteq> CHR ''.'') (rev s) = rev s" using free(2) by (simp add: takeWhile_eq_all_conv) blast
  have stem: "file_stem s = s" unfolding file_stem_def tw by (simp add: Let_def)
  have chars: "map slug_char s = s"
    using assms(2) by (intro map_idI) (simp add: slug_char_def list_all_iff name_char_props(1))
  have "CHR ''-'' \<notin> set t \<Longrightarrow> squeeze_dashes b t = t" for b t by (induction t arbitrary: b) auto
  moreover have d: "CHR ''-'' \<notin> set t \<Longrightarrow> dropWhile (\<lambda>c. c = CHR ''-'') t = t" for t by (cases t) auto
  ultimately show ?thesis using f stem chars assms(3) by (simp add: slug_text_def trim_end_dashes_def d)
qed

definition small_imports :: import_config where
  "small_imports = \<lparr>ic_scope = ReferenceScope, ic_max_bytes = 100\<rparr>"

lemma import_runs:
  assumes "from_utf8_lossy b = b" "trim b = b" "b \<noteq> []" "length b \<le> 100" "sanitize_name (base_slug f) = Inr n"
  shows "\<exists>r st'. import_one bare_texts calm_env (\<lambda>_ _. Inl []) small_imports \<lparr>is_bytes = b, is_filename = f, is_kind = Some PlainText\<rparr> st = (Inr r, st')
    \<and> map_of (ms_tree st') (entry_path ReferenceScope n) = Some b"
proof -
  obtain st' where w: "memory_write_force calm_env st ReferenceScope (base_slug f) b
      = (Inr \<lparr>me_scope = ReferenceScope, me_name = n, me_content = b\<rparr>, st')"
    using force_lands [OF calm_simps(1) assms(5)] by (metis prod.collapse)
  have "map_of (ms_tree st') (entry_path ReferenceScope n) = Some b"
    using force_ok [OF w] assms(5) land_ok(2) by fastforce
  then show ?thesis using assms w by (auto simp: import_one_def small_imports_def)
qed

lemma terse_text: "from_utf8_lossy ''terse'' = ''terse''" "trim ''terse'' = ''terse''"
  using lossy_valid_id [OF terse_utf8] by (simp_all add: trim_visible in_range_def)

theorem long_names_overwrite_witness:
  "\<exists>r st1 r' st2. import_one bare_texts calm_env (\<lambda>_ _. Inl []) small_imports \<lparr>is_bytes = ''x'', is_filename = replicate 65 (CHR ''a''), is_kind = Some PlainText\<rparr> no_memory = (Inr r, st1)
    \<and> import_one bare_texts calm_env (\<lambda>_ _. Inl []) small_imports \<lparr>is_bytes = ''terse'', is_filename = replicate 65 (CHR ''b''), is_kind = Some PlainText\<rparr> st1 = (Inr r', st2)
    \<and> map_of (ms_tree st2) (entry_path ReferenceScope ''import'') = Some ''terse''"
proof -
  have sl: "slug_text (replicate 65 (CHR ''a'')) = replicate 65 (CHR ''a'')" "slug_text (replicate 65 (CHR ''b'')) = replicate 65 (CHR ''b'')"
    by (rule plain_slug; simp add: list_all_iff name_char_def)+
  have x: "from_utf8_lossy ''x'' = ''x''" "trim ''x'' = ''x''"
    by (code_simp, simp add: trim_visible in_range_def)
  have long: "64 < length (slug_text (replicate 65 (CHR ''a'')))" "64 < length (slug_text (replicate 65 (CHR ''b'')))"
    unfolding sl by simp_all
  have n: "sanitize_name (base_slug (replicate 65 (CHR ''a''))) = Inr ''import''" "sanitize_name (base_slug (replicate 65 (CHR ''b''))) = Inr ''import''"
    using sanitize_valid [OF import_valid] by (simp_all only: long_slug [OF long(1)] long_slug [OF long(2)])
  obtain r st1 where i: "import_one bare_texts calm_env (\<lambda>_ _. Inl []) small_imports \<lparr>is_bytes = ''x'', is_filename = replicate 65 (CHR ''a''), is_kind = Some PlainText\<rparr> no_memory = (Inr r, st1)"
    using import_runs [OF x _ _ n(1), of no_memory] by auto
  obtain r' st2 where j: "import_one bare_texts calm_env (\<lambda>_ _. Inl []) small_imports \<lparr>is_bytes = ''terse'', is_filename = replicate 65 (CHR ''b''), is_kind = Some PlainText\<rparr> st1 = (Inr r', st2)"
    using import_runs [OF terse_text _ _ n(2), of st1] by auto
  have "map_of (ms_tree st2) (entry_path ReferenceScope ''import'') = Some ''terse''"
    using long_names_overwrite [OF long _ _ i j] x terse_text by (simp add: small_imports_def)
  with i j show ?thesis by blast
qed

definition one_proposal :: memory_proposal where
  "one_proposal = \<lparr>mp_scope = UserScope, mp_name = ''tone'', mp_content = ''terse'', mp_confidence = None\<rparr>"

definition wrapped_terse :: string where
  "wrapped_terse = render_with_frontmatter plain_ops \<lparr>mm_source = Some ''extractor'', mm_confidence = None, mm_created_at = Some ''now''\<rparr> ''terse''"

theorem extraction_bypasses_approval_witness:
  "map_of (fst (spawn_memory_extraction (calm_env\<lparr>mv_hits := \<lambda>_ _. True\<rparr>) plain_ops None (\<lambda>_. ''now'') (Some (\<lambda>_ _. [one_proposal])) (Some []) ([], ())))
      (entry_path UserScope ''tone'') = Some wrapped_terse"
proof -
  let ?env = "calm_env\<lparr>mv_hits := \<lambda>_ _. True\<rparr>"
  have "threat_scan (mv_hits ?env) (mp_content one_proposal) = Some (hd THREAT_RULES)"
    by (simp add: threat_scan_def THREAT_RULES_def one_proposal_def)
  then show ?thesis
    using extraction_bypasses_approval [of ?env one_proposal "''tone''" "hd THREAT_RULES" plain_ops "\<lambda>_. ''now''" "[]" "[]" "()"]
      sanitize_valid [OF tone_name]
    by (simp add: one_proposal_def wrapped_terse_def)
qed

lemma tone_extracted:
  "map_of (fst (spawn_memory_extraction calm_env plain_ops None (\<lambda>_. ''now'') (Some (\<lambda>_ _. [one_proposal])) (Some []) ([], ())))
      (entry_path UserScope ''tone'') = Some wrapped_terse"
proof -
  obtain st where w: "memory_write_force calm_env (fresh_store []) UserScope ''tone'' wrapped_terse = (Inr \<lparr>me_scope = UserScope, me_name = ''tone'', me_content = wrapped_terse\<rparr>, st)"
    using force_lands [OF calm_simps(1) sanitize_valid [OF tone_name]] by (metis prod.collapse)
  have "map_of (ms_tree st) (entry_path UserScope ''tone'') = Some wrapped_terse"
    using force_ok [OF w] sanitize_valid [OF tone_name] land_ok(2) by fastforce
  then show ?thesis using w by (simp add: spawn_memory_extraction_def one_proposal_def wrapped_terse_def)
qed

theorem extraction_stays_personal_witness:
  "\<exists>s n. s \<in> {UserScope, FeedbackScope} \<and> entry_path UserScope ''tone'' = entry_path s n"
  using extraction_stays_personal [of calm_env plain_ops "\<lambda>_. ''now''" "Some (\<lambda>_ _. [one_proposal])" "Some []" "[]" "()" "entry_path UserScope ''tone''"]
    tone_extracted by simp

theorem imports_stay_out_witness:
  "\<exists>s n. s \<in> {ProjectScope, ReferenceScope} \<and> entry_path ReferenceScope ''b-a'' = entry_path s n"
proof -
  let ?m = "\<lparr>zm_name = ''a'', zm_is_file = True, zm_size = 5, zm_bytes = Some ''terse''\<rparr>"
  have f: "member_filename ''b'' ''a'' = ''b-a''" "kind_of_filename ''a'' = PlainText" "slug_text ''b-a'' = ''b-a''" by code_simp+
  have "valid_name ''b-a''" by (simp add: valid_name_def name_char_def)
  then have n: "sanitize_name (base_slug ''b-a'') = Inr ''b-a''" using f(3) by (simp add: base_slug_def sanitize_valid)
  obtain r st where i: "import_one bare_texts calm_env (\<lambda>_ _. Inl []) small_imports \<lparr>is_bytes = ''terse'', is_filename = ''b-a'', is_kind = Some PlainText\<rparr> no_memory = (Inr r, st)"
      "map_of (ms_tree st) (entry_path ReferenceScope ''b-a'') = Some ''terse''"
    using import_runs [OF terse_text _ _ n, of no_memory] by auto
  have "importable False (Some ?m) = Some (?m, PlainText, ''terse'')"
    using f(2) by (simp add: importable_def extractor_available_def MAX_MEMBER_BYTES_def)
  then have b: "import_bundle bare_texts calm_env (\<lambda>_. Inr [Some ?m]) False (\<lambda>_ _. Inl []) small_imports [] ''b'' no_memory = (Inr [r], st)"
    using i(1) f(1) by (simp add: import_bundle_def)
  show ?thesis
    using imports_stay_out [OF b, of "entry_path ReferenceScope ''b-a''"] i(2) by (simp add: no_memory_def)
qed

theorem bad_proposal_discards_all_witness:
  "parse_proposals (\<lambda>_. Some (JArray [JObject [(''scope'', JString ''user''), (''name'', JString ''tone''), (''content'', JString ''terse'')],
      JObject [(''scope'', JString ''project''), (''name'', JString ''x''), (''content'', JNull)]])) ''[]'' = []"
  by (rule bad_proposal_discards_all [where v = "JObject [(''scope'', JString ''project''), (''name'', JString ''x''), (''content'', JNull)]", OF _ _ refl])
    (simp_all add: PROPOSAL_FIELDS_def from_dir_name_def)

end
