(* ===== verification/Spec2Isabelle.thy ===== *)
theory Spec2Isabelle
  imports Prelude Texts Content Config History Pairing Store Fence Llm Stream_Events Summary Guard Tool_Calls
    System_Prompt Llm_Call Thread_History Turn Inflight Workspace Tasks File_Tools Outbox Questions Dispatch Protocol Channel Gates Scheduler Sse Deepseek_Stream Anthropic
    Memory_Store Memory_Snapshot Memory_Tools
begin

text \<open>
  SNACA is a server that puts an LLM agent behind chat channels.  A channel is a plugin process that speaks
  JSON-RPC over its standard streams.  The development models the path of a message through it, from the line
  the plugin writes to the line it is sent back, with the state each part keeps on the way.

  \<^bold>\<open>The parts and how they interact.\<close>  Sources are named without the leading \<open>src/crates/\<close>.

  \<^item> The supervisor (\<open>snaca-channel-host\<close>) reads a plugin's lines, routes responses to waiting calls and clicks to waiting
    requests, and puts events into a bounded inbox: theory \<open>Channel\<close> on the wire format of \<open>Protocol\<close>
    (\<open>snaca-channel-protocol\<close>).
  \<^item> The dispatcher (\<open>snaca-server/src/dispatch.rs\<close>) takes events, lets a waiting text question take the message as its answer
    (\<open>Questions\<close>), drops duplicates, merges bursts and puts the result into the mailbox of its chat: \<open>Dispatch\<close>.
    The scheduler injects messages at the same place: \<open>Scheduler\<close>.
  \<^item> The worker of a chat starts a turn of the engine (\<open>snaca-engine/src/engine.rs\<close>): \<open>Turn\<close> loads the history
    (\<open>Thread_History\<close>, \<open>History\<close>, \<open>Summary\<close>), passes it through the pairing gate (\<open>Pairing\<close>), asks the
    provider (\<open>Llm_Call\<close> with \<open>Stream_Events\<close>, \<open>Fence\<close>, \<open>Llm\<close>), runs the tool calls of the answer (\<open>Tool_Calls\<close>, \<open>Guard\<close>)
    and appends the rows to the store (\<open>Store\<close>); \<open>Inflight\<close> is the registry by which a running turn is aborted.
  \<^item> Tools work in the workspace of the project (\<open>Workspace\<close>, \<open>File_Tools\<close>, \<open>Tasks\<close>); a tool that needs consent or an answer asks
    through the gates (\<open>Gates\<close>), which go back to the supervisor.
  \<^item> Answers leave through the outbox (\<open>Outbox\<close>), rows of the store with retries.

  \<^bold>\<open>Theories, state and operations.\<close>

  \<^item> \<open>Prelude\<close>, \<open>Texts\<close>: strings as UTF-8 bytes, and the string functions of the standard library the code calls.  The
    locale \<open>one_shot_registry\<close> is the contract of a table whose entries are taken once; it is interpreted on the
    callback slots of the supervisor (\<open>slots\<close>) and on the waiting text questions (\<open>text_slots\<close>).
  \<^item> \<open>Content\<close>, \<open>Config\<close>: \<open>content_block\<close>, \<open>message\<close>, \<open>usage\<close>, JSON values (\<open>snaca-core\<close>), and \<open>engine_config\<close>.
  \<^item> \<open>Store\<close>: \<open>database\<close> is one list of rows per table of \<open>snaca-state/src/db.rs\<close>, with one function per query under the name it
    has there.  The locale \<open>kv_put\<close> and its extension \<open>kv_store\<close> state what an upsert promises a later lookup; they are
    interpreted on the queries of the tables with an upsert.
  \<^item> \<open>History\<close>, \<open>Pairing\<close>: the pure passes from \<open>cap_tool_result_content\<close> to \<open>ensure_tool_result_pairing\<close>.
  \<^item> \<open>Fence\<close>: \<open>sanitize_context\<close> and the scrubber of \<open>memory_fence.rs\<close>; the locale \<open>chunked\<close> states that a consumer cannot tell
    how its stream was cut and is interpreted on the scrubber.
  \<^item> \<open>Llm\<close>, \<open>Stream_Events\<close>, \<open>Llm_Call\<close>: error classes and the retry wrapper, events and the accumulator
    (\<open>snaca-llm\<close>), and one round trip with early tool runs and the non-streaming fallback.
  \<^item> \<open>Guard\<close>, \<open>Tool_Calls\<close>, \<open>System_Prompt\<close>, \<open>Summary\<close>, \<open>Thread_History\<close>, \<open>Turn\<close>: the engine.  The state of a turn is \<open>turn_state\<close>
    with a phase for every point between two writes, and \<open>turn_step\<close> is one stretch between them; the tools,
    the approval gate and the provider are functions of a world the environment record carries.
  \<^item> \<open>Inflight\<close>, \<open>Workspace\<close>, \<open>Tasks\<close>, \<open>File_Tools\<close>: the registry of running turns, \<open>path_guard.rs\<close> and \<open>layout.rs\<close>, the background tasks
    and the tools Read, Edit, MultiEdit and Write over a disk other processes write to as well.
  \<^item> \<open>Outbox\<close>, \<open>Questions\<close>, \<open>Dispatch\<close>, \<open>Scheduler\<close>, \<open>Gates\<close>: the server.
  \<^item> \<open>Protocol\<close>, \<open>Channel\<close>: the envelope with serde's reading of every payload, and the supervisor as the step relation
    \<open>host_step\<close> over the record \<open>host\<close>.

  \<^bold>\<open>What the lemmas show.\<close>

  \<^item> Transcripts: whatever the provider, the tools and the store do, every state of a turn holds a well-formed
    transcript, and the request that leaves the engine has each call answered by the message after it.
  \<^item> Termination and bounds: a turn ends, its round trips and retries keep to their budgets; the search for a
    filtered message, the retry wrapper, the walk to the next slot and the draining of a backlog end.
  \<^item> Equivalences: read-only tools may finish in any order or run while the answer streams; the scrubber does not
    depend on chunks; MultiEdit is a sequence of Edits; the path guard accepts exactly what lies below the root.
  \<^item> Authority: a tool that needs consent runs only after an authentic click on its own request; nothing enters
    without the plugin's token; projects, tenants and attachments keep to themselves.
  \<^item> Delivery: one turn per message id, mailboxes in order, no burst waits forever, an outbox row follows the
    abstract retry schedule, a scheduled task fires once per tick.
  \<^item> Round trips: envelope and frames, outbox payloads, a response replayed as a stream of events.
  \<^item> Where the code does something its documentation does not say, a theorem states what it does, with the input.

  \<^bold>\<open>Bounds and fuel.\<close>  No definition takes fuel.  \<open>run_turn\<close> is a recursion on \<open>turn_measure\<close>, and
  \<open>turn_terminates\<close> bounds its steps by \<open>5 * max_iterations + 1\<close>.  The walk of the scheduler has the bound of the code, \<open>MAX_HOPS\<close>.  Every other loop is a
  recursion with its termination proved.  Counters the code keeps in machine words are words where they can wrap
  (token usage) and otherwise numbers with the saturation or the bound written out.

  \<^bold>\<open>Parameters.\<close>  The JSON text parser and printer, blake3, base64, PDF extraction, clocks, fresh identifiers and random jitter
  are arguments, as are the provider, the plugin, the operating system and the tools where another part uses them.

  \<^bold>\<open>Not modelled.\<close>  SQLite itself (migrations, full-text search, row parsing), HTTP and process wiring, the
  provider wire formats, the Lark plugin, MCP clients, the SDK and the command line: mostly calls into libraries and
  services.  Memory files, the remaining tools, chat commands, skills and the sandbox are the next parts in the
  plan, in this order.
\<close>

end
